(* ===== verification/Pth_Prelude.thy ===== *)
theory Pth_Prelude
  imports Main "HOL-Library.Word" "HOL-Library.Monad_Syntax"
begin

text \<open>
  Shared vocabulary of the development: C pointers and partial heaps, the \<^verbatim>\<open>errno\<close> values the
  library sets, field access that faults on unallocated memory, and the theory of circular
  doubly linked rings that the priority queues (\<^verbatim>\<open>pth_pqueue.c\<close>), the rings (\<^verbatim>\<open>pth_ring.c\<close>)
  and the event rings (\<^verbatim>\<open>pth_event.c\<close>) share.

  A C pointer is a natural number, \<open>0\<close> is \<^verbatim>\<open>NULL\<close>. A heap of structures is a partial map from
  pointers; a C statement that dereferences a pointer outside the heap has no result, which the
  \<open>option\<close> monad records as \<open>None\<close>. So \<open>f x s = Some y\<close> says that the C function returns and
  touches allocated memory only.
\<close>

named_theorems heap_simps "reading back a field after a store to the heap"
named_theorems cells "access to a heap object whose contents are known"
named_theorems dring_intros "pointer surgery on circular doubly linked rings"

section \<open>Pointers, error numbers, fields\<close>

type_synonym ptr = nat

abbreviation NULL :: ptr where "NULL \<equiv> 0"

datatype errcode =
    EOK | EPERM | ENOENT | ESRCH | EINTR | EIO | EBADF | EAGAIN | ENOMEM | EACCES | EFAULT
  | EBUSY | EINVAL | EDEADLK | ENOSYS | ETIMEDOUT | ECHILD | EOTHER nat

record base_state =
  errno :: errcode

definition pth_error :: "'r \<Rightarrow> errcode \<Rightarrow> 'a base_state_scheme \<Rightarrow> 'r \<times> 'a base_state_scheme" where
  "pth_error return_val errno_val s = (return_val, s\<lparr>errno := errno_val\<rparr>)"

lemma pth_error_simps [simp]:
  "fst (pth_error r e s) = r" "snd (pth_error r e s) = s\<lparr>errno := e\<rparr>"
  by (simp_all add: pth_error_def)

type_synonym ('k, 'a) heap = "'k \<rightharpoonup> 'a"

definition fld :: "('k, 'a) heap \<Rightarrow> ('a \<Rightarrow> 'b) \<Rightarrow> 'k \<Rightarrow> 'b option" where
  "fld h f p = map_option f (h p)"

definition upd :: "('k, 'a) heap \<Rightarrow> 'k \<Rightarrow> ('a \<Rightarrow> 'a) \<Rightarrow> ('k, 'a) heap" where
  "upd h p f = (\<lambda>x. if x = p then map_option f (h x) else h x)"

definition setf :: "('k, 'a) heap \<Rightarrow> 'k \<Rightarrow> ('a \<Rightarrow> 'a) \<Rightarrow> ('k, 'a) heap option" where
  "setf h p f = (if h p = None then None else Some (upd h p f))"

lemma setf_Some [simp]: "p \<in> dom h \<Longrightarrow> setf h p f = Some (upd h p f)"
  by (auto simp: setf_def)

lemma dom_upd [simp]: "dom (upd h p f) = dom h"
  by (auto simp: upd_def dom_def)

lemma fld_dom: "fld h f p = Some v \<Longrightarrow> p \<in> dom h"
  by (auto simp: fld_def)

lemma dom_fld [simp]: "dom (fld h f) = dom h"
  by (auto simp: fld_def)

lemma upd_other [simp]: "x \<noteq> p \<Longrightarrow> upd h p f x = h x"
  by (simp add: upd_def)

lemma upd_same [simp]: "upd h p f p = map_option f (h p)"
  by (simp add: upd_def)

lemma fld_upd_outside: "x \<noteq> p \<Longrightarrow> fld (upd h p f) g x = fld h g x"
  by (simp add: fld_def upd_def)

lemma fld_upd_keep: "(\<And>c. g (f c) = g c) \<Longrightarrow> fld (upd h p f) g = fld h g"
  by (auto simp: fld_def upd_def fun_eq_iff option.map_comp comp_def)

lemma fld_upd_write: "p \<in> dom h \<Longrightarrow> (\<And>c. g (f c) = v) \<Longrightarrow> fld (upd h p f) g = (fld h g)(p \<mapsto> v)"
  by (auto simp: fld_def upd_def fun_eq_iff)

lemma upd_cell: "h p = Some c \<Longrightarrow> upd h p f = h(p \<mapsto> f c)"
  by (auto simp: upd_def)

lemma setf_cell [cells]: "h p = Some c \<Longrightarrow> setf h p f = Some (h(p \<mapsto> f c))"
  by (simp add: setf_def upd_cell)

lemma fld_cell [cells]: "h p = Some c \<Longrightarrow> fld h f p = Some (f c)"
  by (simp add: fld_def)

section \<open>Circular doubly linked rings\<close>

text \<open>
  \<open>dseg nx pv p xs n\<close>: the elements \<open>xs\<close> are chained through the \<open>next\<close> links \<open>nx\<close> and the
  \<open>prev\<close> links \<open>pv\<close>, \<open>p\<close> is before the first and \<open>n\<close> after the last of them. A ring is a
  segment whose ends meet.
\<close>

fun dseg :: "(ptr \<rightharpoonup> ptr) \<Rightarrow> (ptr \<rightharpoonup> ptr) \<Rightarrow> ptr \<Rightarrow> ptr list \<Rightarrow> ptr \<Rightarrow> bool" where
  "dseg nx pv p [] n = True"
| "dseg nx pv p (x # xs) n \<longleftrightarrow> pv x = Some p \<and> nx x = Some (hd (xs @ [n])) \<and> dseg nx pv x xs n"

definition dring :: "(ptr \<rightharpoonup> ptr) \<Rightarrow> (ptr \<rightharpoonup> ptr) \<Rightarrow> ptr list \<Rightarrow> bool" where
  "dring nx pv xs \<longleftrightarrow> distinct xs \<and> (xs \<noteq> [] \<longrightarrow> dseg nx pv (last xs) xs (hd xs))"

lemma dring_Nil [simp]: "dring nx pv []"
  by (simp add: dring_def)

lemma dring_single: "dring nx pv [x] \<longleftrightarrow> nx x = Some x \<and> pv x = Some x"
  by (auto simp: dring_def)

lemma dring_distinct: "dring nx pv xs \<Longrightarrow> distinct xs"
  by (simp add: dring_def)

lemma dseg_append:
  "dseg nx pv p (xs @ ys) n \<longleftrightarrow>
     dseg nx pv p xs (hd (ys @ [n])) \<and> dseg nx pv (last (p # xs)) ys n"
  by (induction xs arbitrary: p) (auto simp: hd_append split: list.splits)

lemma dseg_cong:
  assumes "\<And>x. x \<in> set xs \<Longrightarrow> nx x = nx' x \<and> pv x = pv' x"
  shows "dseg nx pv p xs n = dseg nx' pv' p xs n"
  using assms by (induction xs arbitrary: p) auto

lemma dring_cong:
  assumes "\<And>x. x \<in> set xs \<Longrightarrow> nx x = nx' x \<and> pv x = pv' x"
  shows "dring nx pv xs = dring nx' pv' xs"
  unfolding dring_def using dseg_cong [OF assms, of xs] by auto

lemma dring_rotate: "dring nx pv (us @ ws) \<longleftrightarrow> dring nx pv (ws @ us)"
  by (cases "us = []"; cases "ws = []") (auto simp: dring_def dseg_append)

text \<open>Redirecting the two ends of a segment.\<close>

lemma dseg_ends:
  assumes "dseg nx pv p xs n" "distinct xs" "xs \<noteq> []"
  shows "dseg (nx(last xs \<mapsto> n')) (pv(hd xs \<mapsto> p')) p' xs n'"
  using assms
proof (induction xs arbitrary: p pv p')
  case Nil
  then show ?case by simp
next
  case (Cons x xs)
  show ?case
  proof (cases xs)
    case Nil
    then show ?thesis by simp
  next
    case (Cons y ys)
    have seg: "dseg nx pv x xs n" "distinct xs" "xs \<noteq> []" "x \<notin> set xs"
      and nx: "nx x = Some y"
      using Cons.prems \<open>xs = y # ys\<close> by auto
    have "dseg (nx(last xs \<mapsto> n')) (pv(hd xs \<mapsto> x)) x xs n'"
      by (rule Cons.IH [OF seg(1-3)])
    moreover have "pv (hd xs) = Some x"
      using seg(1) \<open>xs = y # ys\<close> by simp
    ultimately have "dseg (nx(last xs \<mapsto> n')) pv x xs n'"
      by (simp add: fun_upd_idem)
    then have "dseg (nx(last xs \<mapsto> n')) (pv(x \<mapsto> p')) x xs n'"
      using seg(4) by (subst dseg_cong [of _ _ "nx(last xs \<mapsto> n')" _ pv]) auto
    moreover have "last xs \<noteq> x"
      using seg(3,4) last_in_set by metis
    moreover have "hd xs = y"
      using \<open>xs = y # ys\<close> by simp
    ultimately show ?thesis
      using nx seg(3) by (simp only: dseg.simps list.sel last_ConsR) simp
  qed
qed

text \<open>
  The three facts every ring operation of the code rests on: linking a node in front of the
  head, unlinking a node, and that the starting point of a ring is arbitrary.
\<close>

lemma dring_insert [dring_intros]:
  assumes "dring nx pv xs" "xs \<noteq> []" "t \<notin> set xs"
  shows "dring (nx(t \<mapsto> hd xs, last xs \<mapsto> t)) (pv(t \<mapsto> last xs, hd xs \<mapsto> t)) (t # xs)"
proof -
  have ne: "hd xs \<noteq> t" "last xs \<noteq> t"
    using assms(2,3) by (metis hd_in_set last_in_set)+
  have "dseg nx pv (last xs) xs (hd xs)" "distinct xs"
    using assms(1,2) by (auto simp: dring_def)
  then have "dseg (nx(last xs \<mapsto> t)) (pv(hd xs \<mapsto> t)) t xs t"
    using assms(2) by (rule dseg_ends)
  then have "dseg (nx(t \<mapsto> hd xs, last xs \<mapsto> t)) (pv(t \<mapsto> last xs, hd xs \<mapsto> t)) t xs t"
    using assms(3) ne
    by (subst dseg_cong [of _ _ "nx(last xs \<mapsto> t)" _ "pv(hd xs \<mapsto> t)"]) auto
  then show ?thesis
    using assms ne by (auto simp: dring_def hd_append)
qed

lemma dring_remove [dring_intros]:
  assumes "dring nx pv (t # xs)" "xs \<noteq> []"
  shows "dring (nx(last xs \<mapsto> hd xs)) (pv(hd xs \<mapsto> last xs)) xs"
proof -
  have "dseg nx pv t xs t" "distinct xs"
    using assms by (auto simp: dring_def)
  then have "dseg (nx(last xs \<mapsto> hd xs)) (pv(hd xs \<mapsto> last xs)) (last xs) xs (hd xs)"
    using assms(2) by (rule dseg_ends)
  with \<open>distinct xs\<close> show ?thesis
    by (simp add: dring_def)
qed

lemma dring_nx: "dring nx pv (us @ x # ws) \<Longrightarrow> nx x = Some (hd (ws @ us @ [x]))"
  by (subst (asm) dring_rotate) (auto simp: dring_def)

lemma dring_pv: "dring nx pv (us @ x # ws) \<Longrightarrow> pv x = Some (last (x # ws @ us))"
  by (subst (asm) dring_rotate) (auto simp: dring_def)

lemma dring_mem_dom: "dring nx pv xs \<Longrightarrow> x \<in> set xs \<Longrightarrow> x \<in> dom nx \<and> x \<in> dom pv"
  by (metis domI dring_nx dring_pv split_list)

lemma dring_head:
  "dring nx pv (x # xs) \<Longrightarrow> nx x = Some (hd (xs @ [x])) \<and> pv x = Some (last (x # xs))"
  using dring_nx [of nx pv "[]" x xs] dring_pv [of nx pv "[]" x xs] by simp

text \<open>A node alone in its ring is recognised by its own link.\<close>

lemma dring_self_loop:
  assumes "dring nx pv (us @ x # ws)" "nx x = Some x"
  shows "us @ x # ws = [x]"
proof -
  have "hd (ws @ us @ [x]) = x"
    using assms dring_nx by fastforce
  moreover have "x \<notin> set (ws @ us)"
    using dring_distinct [OF assms(1)] by auto
  ultimately have "ws @ us = []"
    by (metis append_assoc hd_append2 hd_in_set)
  then show ?thesis by simp
qed

section \<open>Generic facts on lists and options\<close>

lemma bind_Some_conv [simp]: "Option.bind (Some x) f = f x"
  by simp

lemma takeWhile_dropWhile_hd:
  "dropWhile P xs = y # ys \<Longrightarrow> \<not> P y"
  by (metis hd_dropWhile list.discI list.sel(1))

lemma distinct_fst_removed:
  "distinct (map fst (us @ (t, p) # ws)) \<Longrightarrow> filter (\<lambda>x. fst x \<noteq> t) (us @ (t, p) # ws) = us @ ws"
  by (induction us) (auto intro!: filter_True)

lemma bind_SomeE:
  assumes "Option.bind m f = Some y"
  obtains x where "m = Some x" "f x = Some y"
  using assms by (auto simp: bind_eq_Some_conv)

section \<open>Interfaces: queues and stacks of pointers\<close>

text \<open>
  The contract of a container of which the clients rely on the order only: \<open>holds s xs\<close> reads
  the contents off the state, \<open>can_put m s\<close> says that \<open>m\<close> is a node that may be put.
\<close>

primrec put_all :: "('m \<Rightarrow> 's \<Rightarrow> 's option) \<Rightarrow> 'm list \<Rightarrow> 's \<Rightarrow> 's option" where
  "put_all put [] s = Some s"
| "put_all put (m # ms) s = Option.bind (put m s) (put_all put ms)"

primrec get_many :: "('s \<Rightarrow> ('m \<times> 's) option) \<Rightarrow> nat \<Rightarrow> 's \<Rightarrow> ('m list \<times> 's) option" where
  "get_many get 0 s = Some ([], s)"
| "get_many get (Suc n) s =
     Option.bind (get s) (\<lambda>(m, s). Option.bind (get_many get n s) (\<lambda>(ms, s). Some (m # ms, s)))"

locale container =
  fixes put :: "'m \<Rightarrow> 's \<Rightarrow> 's option"
    and get :: "'s \<Rightarrow> ('m \<times> 's) option"
    and holds :: "'s \<Rightarrow> 'm list \<Rightarrow> bool"
    and can_put :: "'m \<Rightarrow> 's \<Rightarrow> bool"
  assumes get_holds: "holds s (x # xs) \<Longrightarrow> \<exists>s'. get s = Some (x, s') \<and> holds s' xs"
begin

lemma get_many_holds:
  "holds s (xs @ ys) \<Longrightarrow> \<exists>s'. get_many get (length xs) s = Some (xs, s') \<and> holds s' ys"
proof (induction xs arbitrary: s)
  case Nil
  then show ?case by simp
next
  case (Cons x xs)
  then obtain s1 where "get s = Some (x, s1)" "holds s1 (xs @ ys)"
    using get_holds by fastforce
  with Cons.IH show ?case by fastforce
qed

end

locale fifo = container +
  assumes put_holds: "holds s xs \<Longrightarrow> can_put m s \<Longrightarrow> m \<notin> set xs \<Longrightarrow>
    \<exists>s'. put m s = Some s' \<and> holds s' (xs @ [m]) \<and> (\<forall>m'. can_put m' s \<longrightarrow> can_put m' s')"
begin

lemma put_all_holds:
  "holds s xs \<Longrightarrow> distinct (xs @ ms) \<Longrightarrow> (\<And>m. m \<in> set ms \<Longrightarrow> can_put m s) \<Longrightarrow>
   \<exists>s'. put_all put ms s = Some s' \<and> holds s' (xs @ ms)"
proof (induction ms arbitrary: s xs)
  case Nil
  then show ?case by simp
next
  case (Cons m ms)
  then obtain s1 where s1: "put m s = Some s1" "holds s1 (xs @ [m])"
    "\<And>m'. can_put m' s \<Longrightarrow> can_put m' s1"
    using put_holds [of s xs m] by auto
  have "\<exists>s'. put_all put ms s1 = Some s' \<and> holds s' ((xs @ [m]) @ ms)"
    using Cons.prems s1 by (intro Cons.IH) auto
  with s1(1) show ?case by simp
qed

theorem fifo_order:
  assumes "holds s []" "distinct ms" "\<And>m. m \<in> set ms \<Longrightarrow> can_put m s"
  shows "\<exists>s1 s2. put_all put ms s = Some s1 \<and>
    get_many get (length ms) s1 = Some (ms, s2) \<and> holds s2 []"
  using put_all_holds [of s "[]" ms] get_many_holds [of _ ms "[]"] assms by fastforce

end

locale lifo = container +
  assumes push_holds: "holds s xs \<Longrightarrow> can_put m s \<Longrightarrow> m \<notin> set xs \<Longrightarrow>
    \<exists>s'. put m s = Some s' \<and> holds s' (m # xs) \<and> (\<forall>m'. can_put m' s \<longrightarrow> can_put m' s')"
begin

lemma push_all_holds:
  "holds s xs \<Longrightarrow> distinct (xs @ ms) \<Longrightarrow> (\<And>m. m \<in> set ms \<Longrightarrow> can_put m s) \<Longrightarrow>
   \<exists>s'. put_all put ms s = Some s' \<and> holds s' (rev ms @ xs)"
proof (induction ms arbitrary: s xs)
  case Nil
  then show ?case by simp
next
  case (Cons m ms)
  then obtain s1 where s1: "put m s = Some s1" "holds s1 (m # xs)"
    "\<And>m'. can_put m' s \<Longrightarrow> can_put m' s1"
    using push_holds [of s xs m] by auto
  have "\<exists>s'. put_all put ms s1 = Some s' \<and> holds s' (rev ms @ m # xs)"
    using Cons.prems s1 by (intro Cons.IH) auto
  with s1(1) show ?case by simp
qed

theorem lifo_order:
  assumes "holds s []" "distinct ms" "\<And>m. m \<in> set ms \<Longrightarrow> can_put m s"
  shows "\<exists>s1 s2. put_all put ms s = Some s1 \<and>
    get_many get (length ms) s1 = Some (rev ms, s2) \<and> holds s2 []"
  using push_all_holds [of s "[]" ms] get_many_holds [of _ "rev ms" "[]"] assms by fastforce

end

end
