(* ===== verification/Pth_Ring.thy ===== *)
theory Pth_Ring
  imports Pth_Prelude
begin

text \<open>
  The ring data structure of \<^verbatim>\<open>pth_ring.c\<close> (and the ring macros of \<^verbatim>\<open>pth_p.h\<close>) at pointer
  level. Ring nodes are embedded at offset 0 of mutexes, messages and message ports, so a node
  pointer is the pointer to the enclosing structure. Ring headers live in three places only:
  in every thread control block (\<^verbatim>\<open>mutexring\<close>), in every message port (\<^verbatim>\<open>mp_queue\<close>) and in the
  static variable \<^verbatim>\<open>pth_msgport\<close>; \<open>ringref\<close> is the type of pointers to them.

  \<open>ring_rep s r xs\<close> says that in state \<open>s\<close> the ring \<open>r\<close> holds the nodes \<open>xs\<close>, from the hook
  on. Every operation is shown to return, to touch allocated nodes only, and to implement the
  evident operation on lists; \<open>rframe\<close> bounds what it may change.
\<close>

section \<open>Data and operations\<close>

datatype ringref = NullRing | MutexRing ptr | MpQueue ptr | MsgportRing

record pth_ringnode =
  rn_next :: ptr
  rn_prev :: ptr

record pth_ring =
  r_hook :: ptr
  r_nodes :: "32 word"

record ring_state = base_state +
  rings :: "ringref \<rightharpoonup> pth_ring"
  nodes :: "ptr \<rightharpoonup> pth_ringnode"

definition rn_get :: "(pth_ringnode \<Rightarrow> 'b) \<Rightarrow> ptr \<Rightarrow> 'a ring_state_scheme \<Rightarrow> 'b option" where
  "rn_get f rn s = fld (nodes s) f rn"

definition rn_set :: "(pth_ringnode \<Rightarrow> pth_ringnode) \<Rightarrow> ptr \<Rightarrow> 'a ring_state_scheme
    \<Rightarrow> 'a ring_state_scheme option" where
  "rn_set f rn s = map_option (\<lambda>h. s\<lparr>nodes := h\<rparr>) (setf (nodes s) rn f)"

definition r_get :: "(pth_ring \<Rightarrow> 'b) \<Rightarrow> ringref \<Rightarrow> 'a ring_state_scheme \<Rightarrow> 'b option" where
  "r_get f r s = fld (rings s) f r"

definition r_set :: "(pth_ring \<Rightarrow> pth_ring) \<Rightarrow> ringref \<Rightarrow> 'a ring_state_scheme
    \<Rightarrow> 'a ring_state_scheme option" where
  "r_set f r s = map_option (\<lambda>h. s\<lparr>rings := h\<rparr>) (setf (rings s) r f)"

definition pth_ring_init :: "ringref \<Rightarrow> 'a ring_state_scheme \<Rightarrow> 'a ring_state_scheme option" where
  "pth_ring_init r s =
     (if r = NullRing then Some s
      else do { s \<leftarrow> r_set (r_hook_update (\<lambda>_. NULL)) r s;
                r_set (r_nodes_update (\<lambda>_. 0)) r s })"

definition pth_ring_elements :: "ringref \<Rightarrow> 'a ring_state_scheme \<Rightarrow> int option" where
  "pth_ring_elements r s =
     (if r = NullRing then Some (-1) else do { n \<leftarrow> r_get r_nodes r s; Some (sint n) })"

definition pth_ring_first :: "ringref \<Rightarrow> 'a ring_state_scheme \<Rightarrow> ptr option" where
  "pth_ring_first r s = (if r = NullRing then Some NULL else r_get r_hook r s)"

definition pth_ring_last :: "ringref \<Rightarrow> 'a ring_state_scheme \<Rightarrow> ptr option" where
  "pth_ring_last r s =
     (if r = NullRing then Some NULL
      else do { h \<leftarrow> r_get r_hook r s;
                if h = NULL then Some NULL else rn_get rn_prev h s })"

definition pth_ring_next :: "ringref \<Rightarrow> ptr \<Rightarrow> 'a ring_state_scheme \<Rightarrow> ptr option" where
  "pth_ring_next r rn s =
     (if r = NullRing \<or> rn = NULL then Some NULL
      else do { n \<leftarrow> rn_get rn_next rn s;
                h \<leftarrow> r_get r_hook r s;
                Some (if n = h then NULL else n) })"

definition pth_ring_prev :: "ringref \<Rightarrow> ptr \<Rightarrow> 'a ring_state_scheme \<Rightarrow> ptr option" where
  "pth_ring_prev r rn s =
     (if r = NullRing \<or> rn = NULL then Some NULL
      else do { p \<leftarrow> rn_get rn_prev rn s;
                h \<leftarrow> r_get r_hook r s;
                l \<leftarrow> rn_get rn_prev h s;
                Some (if p = l then NULL else p) })"

definition pth_ring_insert_after :: "ringref \<Rightarrow> ptr \<Rightarrow> ptr \<Rightarrow> 'a ring_state_scheme
    \<Rightarrow> 'a ring_state_scheme option" where
  "pth_ring_insert_after r rn1 rn2 s =
     (if r = NullRing \<or> rn1 = NULL \<or> rn2 = NULL then Some s
      else do {
        s \<leftarrow> rn_set (rn_prev_update (\<lambda>_. rn1)) rn2 s;
        n \<leftarrow> rn_get rn_next rn1 s;
        s \<leftarrow> rn_set (rn_next_update (\<lambda>_. n)) rn2 s;
        p \<leftarrow> rn_get rn_prev rn2 s;
        s \<leftarrow> rn_set (rn_next_update (\<lambda>_. rn2)) p s;
        n \<leftarrow> rn_get rn_next rn2 s;
        s \<leftarrow> rn_set (rn_prev_update (\<lambda>_. rn2)) n s;
        r_set (r_nodes_update (\<lambda>n. n + 1)) r s })"

definition pth_ring_insert_before :: "ringref \<Rightarrow> ptr \<Rightarrow> ptr \<Rightarrow> 'a ring_state_scheme
    \<Rightarrow> 'a ring_state_scheme option" where
  "pth_ring_insert_before r rn1 rn2 s =
     (if r = NullRing \<or> rn1 = NULL \<or> rn2 = NULL then Some s
      else do {
        s \<leftarrow> rn_set (rn_next_update (\<lambda>_. rn1)) rn2 s;
        p \<leftarrow> rn_get rn_prev rn1 s;
        s \<leftarrow> rn_set (rn_prev_update (\<lambda>_. p)) rn2 s;
        p \<leftarrow> rn_get rn_prev rn2 s;
        s \<leftarrow> rn_set (rn_next_update (\<lambda>_. rn2)) p s;
        n \<leftarrow> rn_get rn_next rn2 s;
        s \<leftarrow> rn_set (rn_prev_update (\<lambda>_. rn2)) n s;
        r_set (r_nodes_update (\<lambda>n. n + 1)) r s })"

definition pth_ring_delete :: "ringref \<Rightarrow> ptr \<Rightarrow> 'a ring_state_scheme
    \<Rightarrow> 'a ring_state_scheme option" where
  "pth_ring_delete r rn s =
     (if r = NullRing \<or> rn = NULL then Some s
      else do {
        hook \<leftarrow> r_get r_hook r s;
        p \<leftarrow> rn_get rn_prev rn s;
        n \<leftarrow> rn_get rn_next rn s;
        s \<leftarrow> (if hook = rn \<and> p = rn \<and> n = rn then r_set (r_hook_update (\<lambda>_. NULL)) r s
              else do {
                s \<leftarrow> (if hook = rn then r_set (r_hook_update (\<lambda>_. n)) r s else Some s);
                s \<leftarrow> rn_set (rn_next_update (\<lambda>_. n)) p s;
                n \<leftarrow> rn_get rn_next rn s;
                p \<leftarrow> rn_get rn_prev rn s;
                rn_set (rn_prev_update (\<lambda>_. p)) n s });
        r_set (r_nodes_update (\<lambda>n. n - 1)) r s })"

definition ring_link :: "ptr \<Rightarrow> ptr \<Rightarrow> 'a ring_state_scheme \<Rightarrow> 'a ring_state_scheme option" where
  "ring_link hook rn s = do {
     s \<leftarrow> rn_set (rn_next_update (\<lambda>_. hook)) rn s;
     p \<leftarrow> rn_get rn_prev hook s;
     s \<leftarrow> rn_set (rn_prev_update (\<lambda>_. p)) rn s;
     n \<leftarrow> rn_get rn_next rn s;
     s \<leftarrow> rn_set (rn_prev_update (\<lambda>_. rn)) n s;
     p \<leftarrow> rn_get rn_prev rn s;
     rn_set (rn_next_update (\<lambda>_. rn)) p s }"

definition pth_ring_prepend :: "ringref \<Rightarrow> ptr \<Rightarrow> 'a ring_state_scheme
    \<Rightarrow> 'a ring_state_scheme option" where
  "pth_ring_prepend r rn s =
     (if r = NullRing \<or> rn = NULL then Some s
      else do {
        hook \<leftarrow> r_get r_hook r s;
        s \<leftarrow> (if hook = NULL then do {
                s \<leftarrow> r_set (r_hook_update (\<lambda>_. rn)) r s;
                s \<leftarrow> rn_set (rn_next_update (\<lambda>_. rn)) rn s;
                rn_set (rn_prev_update (\<lambda>_. rn)) rn s }
              else do {
                s \<leftarrow> ring_link hook rn s;
                r_set (r_hook_update (\<lambda>_. rn)) r s });
        r_set (r_nodes_update (\<lambda>n. n + 1)) r s })"

definition pth_ring_append :: "ringref \<Rightarrow> ptr \<Rightarrow> 'a ring_state_scheme
    \<Rightarrow> 'a ring_state_scheme option" where
  "pth_ring_append r rn s =
     (if r = NullRing \<or> rn = NULL then Some s
      else do {
        hook \<leftarrow> r_get r_hook r s;
        s \<leftarrow> (if hook = NULL then do {
                s \<leftarrow> r_set (r_hook_update (\<lambda>_. rn)) r s;
                s \<leftarrow> rn_set (rn_next_update (\<lambda>_. rn)) rn s;
                rn_set (rn_prev_update (\<lambda>_. rn)) rn s }
              else ring_link hook rn s);
        r_set (r_nodes_update (\<lambda>n. n + 1)) r s })"

definition pth_ring_pop :: "ringref \<Rightarrow> 'a ring_state_scheme
    \<Rightarrow> (ptr \<times> 'a ring_state_scheme) option" where
  "pth_ring_pop r s = do {
     rn \<leftarrow> pth_ring_first r s;
     s \<leftarrow> (if rn \<noteq> NULL then pth_ring_delete r rn s else Some s);
     Some (rn, s) }"

definition pth_ring_favorite :: "ringref \<Rightarrow> ptr \<Rightarrow> 'a ring_state_scheme
    \<Rightarrow> (bool \<times> 'a ring_state_scheme) option" where
  "pth_ring_favorite r rn s =
     (if r = NullRing then Some (False, s)
      else do {
        hook \<leftarrow> r_get r_hook r s;
        if hook = NULL then Some (False, s)
        else if hook = rn then Some (True, s)
        else do {
          s \<leftarrow> pth_ring_delete r rn s;
          s \<leftarrow> pth_ring_prepend r rn s;
          Some (True, s) } })"

definition pth_ring_dequeue :: "ringref \<Rightarrow> 'a ring_state_scheme
    \<Rightarrow> (ptr \<times> 'a ring_state_scheme) option" where
  "pth_ring_dequeue r s = do {
     rn \<leftarrow> pth_ring_last r s;
     s \<leftarrow> (if rn \<noteq> NULL then pth_ring_delete r rn s else Some s);
     Some (rn, s) }"

partial_function (option) ring_search ::
    "ptr \<Rightarrow> ptr \<Rightarrow> (ptr \<rightharpoonup> pth_ringnode) \<Rightarrow> ptr \<Rightarrow> bool option" where
  "ring_search hook rns h rn =
     (if rn = rns then Some True
      else Option.bind (fld h rn_next rn)
        (\<lambda>n. if n = hook then Some False else ring_search hook rns h n))"

definition pth_ring_contains :: "ringref \<Rightarrow> ptr \<Rightarrow> 'a ring_state_scheme
    \<Rightarrow> (bool \<times> 'a ring_state_scheme) option" where
  "pth_ring_contains r rns s =
     (if r = NullRing \<or> rns = NULL then Some (False, s\<lparr>errno := EINVAL\<rparr>)
      else do {
        hook \<leftarrow> r_get r_hook r s;
        rc \<leftarrow> (if hook = NULL then Some False else ring_search hook rns (nodes s) hook);
        Some (rc, s) })"

section \<open>Rings represent lists\<close>

lemma node_fields [heap_simps]:
  "p \<in> dom h \<Longrightarrow> fld (upd h p (rn_next_update (\<lambda>_. v))) rn_next = (fld h rn_next)(p \<mapsto> v)"
  "p \<in> dom h \<Longrightarrow> fld (upd h p (rn_prev_update (\<lambda>_. v))) rn_prev = (fld h rn_prev)(p \<mapsto> v)"
  "fld (upd h p (rn_next_update f)) rn_prev = fld h rn_prev"
  "fld (upd h p (rn_prev_update f)) rn_next = fld h rn_next"
  by (auto intro: fld_upd_write fld_upd_keep)

lemma ring_access [heap_simps]:
  "rn_get f p s = fld (nodes s) f p"
  "r_get g r s = fld (rings s) g r"
  "p \<in> dom (nodes s) \<Longrightarrow> rn_set u p s = Some (s\<lparr>nodes := upd (nodes s) p u\<rparr>)"
  "r \<in> dom (rings s) \<Longrightarrow> r_set w r s = Some (s\<lparr>rings := upd (rings s) r w\<rparr>)"
  by (simp_all add: rn_get_def r_get_def rn_set_def r_set_def)

definition list_hook :: "ptr list \<Rightarrow> ptr" where
  "list_hook xs = (case xs of [] \<Rightarrow> NULL | x # _ \<Rightarrow> x)"

lemma list_hook_simps [simp]:
  "list_hook [] = NULL" "list_hook (x # xs) = x" "xs \<noteq> [] \<Longrightarrow> list_hook xs = hd xs"
  "xs \<noteq> [] \<Longrightarrow> list_hook (xs @ ys) = hd xs"
  by (cases xs; simp add: list_hook_def)+

lemma list_hook_NULL: "NULL \<notin> set xs \<Longrightarrow> list_hook xs = NULL \<longleftrightarrow> xs = []"
  by (cases xs) auto

definition ring_rep :: "'a ring_state_scheme \<Rightarrow> ringref \<Rightarrow> ptr list \<Rightarrow> bool" where
  "ring_rep s r xs \<longleftrightarrow>
     r \<noteq> NullRing \<and> rings s r = Some \<lparr>r_hook = list_hook xs, r_nodes = of_nat (length xs)\<rparr> \<and>
     dring (fld (nodes s) rn_next) (fld (nodes s) rn_prev) xs \<and> NULL \<notin> set xs"

definition rframe :: "ringref \<Rightarrow> ptr set \<Rightarrow> 'a ring_state_scheme \<Rightarrow> 'a ring_state_scheme \<Rightarrow> bool" where
  "rframe r A s s' \<longleftrightarrow>
     s'\<lparr>rings := rings s, nodes := nodes s\<rparr> = s \<and>
     (\<forall>r'. r' \<noteq> r \<longrightarrow> rings s' r' = rings s r') \<and> dom (rings s') = dom (rings s) \<and>
     (\<forall>x. x \<notin> A \<longrightarrow> nodes s' x = nodes s x) \<and> dom (nodes s') = dom (nodes s)"

lemma ring_rep_distinct: "ring_rep s r xs \<Longrightarrow> distinct xs"
  by (auto simp: ring_rep_def dest: dring_distinct)

lemma ring_rep_nodes: "ring_rep s r xs \<Longrightarrow> x \<in> set xs \<Longrightarrow> x \<in> dom (nodes s) \<and> x \<noteq> NULL"
  unfolding ring_rep_def using dring_mem_dom [of "fld (nodes s) rn_next"] by (metis dom_fld)

lemma ring_rep_hook: "ring_rep s r xs \<Longrightarrow> fld (rings s) r_hook r = Some (list_hook xs)"
  by (simp add: ring_rep_def fld_def)

lemma ring_rep_unique: "ring_rep s r xs \<Longrightarrow> ring_rep s r (x # ys) \<Longrightarrow> xs \<noteq> []"
  by (auto simp: ring_rep_def)

lemma rframe_refl [simp]: "rframe r A s s"
  by (simp add: rframe_def)

lemma rframe_trans:
  assumes "rframe r A s s'" "rframe r B s' s''"
  shows "rframe r (A \<union> B) s s''"
proof -
  have "s''\<lparr>rings := rings s, nodes := nodes s\<rparr> =
        (s''\<lparr>rings := rings s', nodes := nodes s'\<rparr>)\<lparr>rings := rings s, nodes := nodes s\<rparr>"
    by simp
  also have "\<dots> = s"
    using assms by (simp add: rframe_def)
  finally show ?thesis
    using assms by (auto simp: rframe_def)
qed

lemma rframe_mono: "rframe r A s s' \<Longrightarrow> A \<subseteq> B \<Longrightarrow> rframe r B s s'"
  by (auto simp: rframe_def)

text \<open>A ring whose nodes the operation does not own is untouched.\<close>

lemma ring_rep_frame:
  assumes "ring_rep s r' ys" "rframe r A s s'" "r' \<noteq> r" "set ys \<inter> A = {}"
  shows "ring_rep s' r' ys"
proof -
  have "dring (fld (nodes s') rn_next) (fld (nodes s') rn_prev) ys =
        dring (fld (nodes s) rn_next) (fld (nodes s) rn_prev) ys"
    using assms(2,4) by (intro dring_cong) (auto simp: rframe_def fld_def)
  with assms show ?thesis
    by (simp add: ring_rep_def rframe_def)
qed

section \<open>Every operation implements its list counterpart\<close>

lemma ring_link_spec:
  assumes ring: "dring (fld (nodes s) rn_next) (fld (nodes s) rn_prev) xs" and ne: "xs \<noteq> []"
    and rn: "rn \<in> dom (nodes s)" "rn \<notin> set xs"
  obtains h' where "ring_link (hd xs) rn s = Some (s\<lparr>nodes := h'\<rparr>)"
    "dring (fld h' rn_next) (fld h' rn_prev) (rn # xs)"
    "dom h' = dom (nodes s)" "\<forall>x. x \<notin> insert rn (set xs) \<longrightarrow> h' x = nodes s x"
proof -
  let ?h = "nodes s" and ?a = "hd xs" and ?b = "last xs"
  have mem: "?a \<in> dom ?h" "?b \<in> dom ?h"
    using dring_mem_dom [OF ring] ne by (metis dom_fld hd_in_set last_in_set)+
  have ab: "?a \<noteq> rn" "?b \<noteq> rn" "?a \<in> set xs" "?b \<in> set xs"
    using rn ne by (metis hd_in_set last_in_set)+
  have pv: "fld ?h rn_prev ?a = Some ?b"
    using dring_head [of _ _ ?a "tl xs"] ring ne by simp
  define h' where "h' = upd (upd (upd (upd ?h rn (rn_next_update (\<lambda>_. ?a)))
     rn (rn_prev_update (\<lambda>_. ?b))) ?a (rn_prev_update (\<lambda>_. rn))) ?b (rn_next_update (\<lambda>_. rn))"
  have link: "ring_link ?a rn s = Some (s\<lparr>nodes := h'\<rparr>)"
    using mem rn ab pv by (simp add: ring_link_def heap_simps h'_def)
  have fields: "fld h' rn_next = (fld ?h rn_next)(rn \<mapsto> ?a, ?b \<mapsto> rn)"
    "fld h' rn_prev = (fld ?h rn_prev)(rn \<mapsto> ?b, ?a \<mapsto> rn)"
    using mem rn by (simp_all add: h'_def heap_simps)
  show ?thesis
  proof (rule that)
    show "dring (fld h' rn_next) (fld h' rn_prev) (rn # xs)"
      unfolding fields by (rule dring_insert [OF ring ne rn(2)])
    show "\<forall>x. x \<notin> insert rn (set xs) \<longrightarrow> h' x = nodes s x"
      using ab by (auto simp: h'_def upd_def)
  qed (simp_all add: link h'_def)
qed

lemma upd_ring_header:
  assumes "rings s r = Some \<lparr>r_hook = a, r_nodes = n\<rparr>"
  shows "upd (upd (rings s) r (r_hook_update (\<lambda>_. b))) r (r_nodes_update f) =
           (rings s)(r \<mapsto> \<lparr>r_hook = b, r_nodes = f n\<rparr>)"
    and "upd (rings s) r (r_nodes_update f) = (rings s)(r \<mapsto> \<lparr>r_hook = a, r_nodes = f n\<rparr>)"
  using assms by (auto simp: upd_def)

lemma ring_singleton_spec:
  assumes "rn \<in> dom (nodes s)" "r \<in> dom (rings s)"
  shows "do { s \<leftarrow> r_set (r_hook_update (\<lambda>_. rn)) r s;
              s \<leftarrow> rn_set (rn_next_update (\<lambda>_. rn)) rn s;
              rn_set (rn_prev_update (\<lambda>_. rn)) rn s } =
         Some (s\<lparr>rings := upd (rings s) r (r_hook_update (\<lambda>_. rn)),
                 nodes := upd (upd (nodes s) rn (rn_next_update (\<lambda>_. rn)))
                            rn (rn_prev_update (\<lambda>_. rn))\<rparr>)"
  using assms by (simp add: heap_simps)

lemma pth_ring_prepend_spec:
  assumes rep: "ring_rep s r xs" and rn: "rn \<in> dom (nodes s)" "rn \<notin> set xs" "rn \<noteq> NULL"
  shows "\<exists>s'. pth_ring_prepend r rn s = Some s' \<and> ring_rep s' r (rn # xs) \<and>
              rframe r (insert rn (set xs)) s s'"
proof (cases "xs = []")
  case True
  define h' where "h' = upd (upd (nodes s) rn (rn_next_update (\<lambda>_. rn))) rn (rn_prev_update (\<lambda>_. rn))"
  define s' where "s' = s\<lparr>rings := (rings s)(r \<mapsto> \<lparr>r_hook = rn, r_nodes = 1\<rparr>), nodes := h'\<rparr>"
  have "pth_ring_prepend r rn s = Some s'"
    using rep rn True unfolding ring_rep_def s'_def h'_def
    by (simp add: pth_ring_prepend_def ring_singleton_spec domIff heap_simps fld_def upd_ring_header)
  moreover have "ring_rep s' r [rn]"
    using rep rn True by (simp add: ring_rep_def s'_def h'_def dring_single heap_simps)
  moreover have "rframe r {rn} s s'"
    using rep True by (auto simp: rframe_def ring_rep_def s'_def h'_def)
  ultimately show ?thesis
    using True by auto
next
  case False
  have hook: "rings s r = Some \<lparr>r_hook = hd xs, r_nodes = of_nat (length xs)\<rparr>" "hd xs \<noteq> NULL"
    "r \<noteq> NullRing" "dring (fld (nodes s) rn_next) (fld (nodes s) rn_prev) xs"
    using rep False list_hook_NULL [of xs] by (auto simp: ring_rep_def)
  obtain h' where h': "ring_link (hd xs) rn s = Some (s\<lparr>nodes := h'\<rparr>)"
    "dring (fld h' rn_next) (fld h' rn_prev) (rn # xs)"
    "dom h' = dom (nodes s)" "\<forall>x. x \<notin> insert rn (set xs) \<longrightarrow> h' x = nodes s x"
    using ring_link_spec [OF hook(4) False rn(1,2)] .
  define s' where
    "s' = s\<lparr>nodes := h', rings := (rings s)(r \<mapsto> \<lparr>r_hook = rn, r_nodes = of_nat (length xs) + 1\<rparr>)\<rparr>"
  have "pth_ring_prepend r rn s = Some s'"
    using hook h' rn(3) unfolding s'_def
    by (simp add: pth_ring_prepend_def heap_simps fld_def domIff upd_ring_header)
  moreover have "ring_rep s' r (rn # xs)"
    using rep rn(3) h'(2) by (simp add: ring_rep_def s'_def)
  moreover have "rframe r (insert rn (set xs)) s s'"
    using h'(3,4) hook(1) by (auto simp: rframe_def s'_def)
  ultimately show ?thesis
    by blast
qed

lemma pth_ring_append_spec:
  assumes rep: "ring_rep s r xs" and rn: "rn \<in> dom (nodes s)" "rn \<notin> set xs" "rn \<noteq> NULL"
  shows "\<exists>s'. pth_ring_append r rn s = Some s' \<and> ring_rep s' r (xs @ [rn]) \<and>
              rframe r (insert rn (set xs)) s s'"
proof (cases "xs = []")
  case True
  then have "pth_ring_append r rn s = pth_ring_prepend r rn s"
    using rep by (auto simp: pth_ring_append_def pth_ring_prepend_def ring_rep_def r_get_def fld_def)
  then show ?thesis
    using pth_ring_prepend_spec [OF assms] True by auto
next
  case False
  have hook: "rings s r = Some \<lparr>r_hook = hd xs, r_nodes = of_nat (length xs)\<rparr>" "hd xs \<noteq> NULL"
    "r \<noteq> NullRing" "dring (fld (nodes s) rn_next) (fld (nodes s) rn_prev) xs"
    using rep False list_hook_NULL [of xs] by (auto simp: ring_rep_def)
  obtain h' where h': "ring_link (hd xs) rn s = Some (s\<lparr>nodes := h'\<rparr>)"
    "dring (fld h' rn_next) (fld h' rn_prev) (rn # xs)"
    "dom h' = dom (nodes s)" "\<forall>x. x \<notin> insert rn (set xs) \<longrightarrow> h' x = nodes s x"
    using ring_link_spec [OF hook(4) False rn(1,2)] .
  define s' where
    "s' = s\<lparr>nodes := h', rings := (rings s)(r \<mapsto> \<lparr>r_hook = hd xs, r_nodes = of_nat (length xs) + 1\<rparr>)\<rparr>"
  have "pth_ring_append r rn s = Some s'"
    using hook h' rn(3) unfolding s'_def
    by (simp add: pth_ring_append_def heap_simps fld_def domIff upd_ring_header)
  moreover have "ring_rep s' r (xs @ [rn])"
    using rep rn(3) h'(2) dring_rotate [of _ _ "[rn]" xs] False by (simp add: ring_rep_def s'_def)
  moreover have "rframe r (insert rn (set xs)) s s'"
    using h'(3,4) hook(1) by (auto simp: rframe_def s'_def)
  ultimately show ?thesis
    by blast
qed

text \<open>Unlinking a node from anywhere in the ring.\<close>

lemma ring_unlink_spec:
  assumes ring: "dring (fld h rn_next) (fld h rn_prev) (us @ rn # ws)" and ne: "us @ ws \<noteq> []"
  defines "p \<equiv> last (ws @ us)" and "n \<equiv> hd (ws @ us)"
  defines "h' \<equiv> upd (upd h p (rn_next_update (\<lambda>_. n))) n (rn_prev_update (\<lambda>_. p))"
  shows "fld h rn_prev rn = Some p" "fld h rn_next rn = Some n"
    "p \<in> dom h" "n \<in> dom h" "p \<noteq> rn" "n \<noteq> rn" "p \<in> set (us @ ws)" "n \<in> set (us @ ws)"
    "dring (fld h' rn_next) (fld h' rn_prev) (us @ ws)"
proof -
  let ?l = "ws @ us"
  have l: "?l \<noteq> []" "set ?l = set (us @ ws)"
    using ne by auto
  have rot: "dring (fld h rn_next) (fld h rn_prev) (rn # ?l)"
    using ring dring_rotate [of _ _ us "rn # ws"] by simp
  have mem: "p \<in> set ?l" "n \<in> set ?l"
    using l(1) unfolding p_def n_def by (metis last_in_set hd_in_set)+
  with dring_mem_dom [OF rot] show dom: "p \<in> dom h" "n \<in> dom h"
    by auto
  show "p \<noteq> rn" "n \<noteq> rn" "p \<in> set (us @ ws)" "n \<in> set (us @ ws)"
    using mem dring_distinct [OF rot] l(2) by auto
  show "fld h rn_prev rn = Some p" "fld h rn_next rn = Some n"
    using dring_head [OF rot] last_ConsR [OF l(1)] hd_append2 [OF l(1), of "[rn]"]
    by (simp_all only: p_def n_def)
  have "fld h' rn_next = (fld h rn_next)(p \<mapsto> n)" "fld h' rn_prev = (fld h rn_prev)(n \<mapsto> p)"
    using dom by (simp_all add: h'_def heap_simps)
  then have "dring (fld h' rn_next) (fld h' rn_prev) ?l"
    using dring_remove [OF rot l(1)] by (simp add: p_def n_def)
  then show "dring (fld h' rn_next) (fld h' rn_prev) (us @ ws)"
    by (subst dring_rotate)
qed

lemma pth_ring_delete_spec:
  assumes rep: "ring_rep s r (us @ rn # ws)"
  shows "\<exists>s'. pth_ring_delete r rn s = Some s' \<and> ring_rep s' r (us @ ws) \<and>
              rframe r (set (us @ ws)) s s'"
proof -
  have hdr: "rings s r = Some \<lparr>r_hook = list_hook (us @ rn # ws), r_nodes = of_nat (length (us @ ws)) + 1\<rparr>"
    and ring: "dring (fld (nodes s) rn_next) (fld (nodes s) rn_prev) (us @ rn # ws)"
    and nn: "rn \<noteq> NULL" "NULL \<notin> set (us @ ws)" "r \<noteq> NullRing"
    using rep by (auto simp: ring_rep_def)
  show ?thesis
  proof (cases "us @ ws = []")
    case True
    define s' where "s' = s\<lparr>rings := (rings s)(r \<mapsto> \<lparr>r_hook = NULL, r_nodes = 0\<rparr>)\<rparr>"
    have "pth_ring_delete r rn s = Some s'"
      using ring nn hdr True unfolding s'_def
      by (simp add: pth_ring_delete_def heap_simps fld_def [of "rings _"] domIff upd_ring_header
        dring_single)
    moreover have "ring_rep s' r (us @ ws)" "rframe r (set (us @ ws)) s s'"
      using True nn hdr by (auto simp: ring_rep_def rframe_def s'_def)
    ultimately show ?thesis
      by blast
  next
    case False
    define p where "p = last (ws @ us)"
    define n where "n = hd (ws @ us)"
    define h' where "h' = upd (upd (nodes s) p (rn_next_update (\<lambda>_. n))) n (rn_prev_update (\<lambda>_. p))"
    note un = ring_unlink_spec [OF ring False, folded p_def n_def, folded h'_def]
    define s' where "s' = s\<lparr>nodes := h', rings := (rings s)(r \<mapsto>
       \<lparr>r_hook = list_hook (us @ ws), r_nodes = of_nat (length (us @ ws))\<rparr>)\<rparr>"
    have hook: "list_hook (us @ rn # ws) = (if us = [] then rn else hd us)"
      "list_hook (us @ ws) = (if us = [] then n else hd us)"
      using False by (auto simp: n_def)
    have "us \<noteq> [] \<Longrightarrow> hd us \<noteq> rn"
      using dring_distinct [OF ring] hd_in_set [of us] by auto
    then have "pth_ring_delete r rn s = Some s'"
      using un(1-6) nn hdr hook unfolding s'_def h'_def
      by (cases "us = []") (auto simp: pth_ring_delete_def heap_simps domIff upd_ring_header
        fld_def [of "rings _"] upd_ring_header)
    moreover have "ring_rep s' r (us @ ws)"
      using un(9) nn by (simp add: ring_rep_def s'_def)
    moreover have "rframe r (set (us @ ws)) s s'"
    proof -
      have "\<forall>x. x \<notin> set (us @ ws) \<longrightarrow> h' x = nodes s x" "dom h' = dom (nodes s)"
        using un(7,8) by (simp_all add: h'_def) (auto simp: upd_def)
      then show ?thesis
        using hdr by (auto simp: rframe_def s'_def)
    qed
    ultimately show ?thesis
      by blast
  qed
qed

lemma ring_rep_rings: "ring_rep s r xs \<Longrightarrow> r \<in> dom (rings s) \<and> r \<noteq> NullRing"
  by (auto simp: ring_rep_def)

lemma pth_ring_first_spec: "ring_rep s r xs \<Longrightarrow> pth_ring_first r s = Some (list_hook xs)"
  by (auto simp: pth_ring_first_def heap_simps ring_rep_hook ring_rep_rings)

lemma pth_ring_last_spec:
  assumes "ring_rep s r xs"
  shows "pth_ring_last r s = Some (if xs = [] then NULL else last xs)"
proof (cases xs)
  case Nil
  with assms show ?thesis
    by (simp add: pth_ring_last_def heap_simps ring_rep_hook ring_rep_rings)
next
  case (Cons x ys)
  have "fld (nodes s) rn_prev x = Some (last xs)" "x \<noteq> NULL"
    using assms Cons by (auto simp: ring_rep_def dest!: dring_head)
  then show ?thesis
    using Cons ring_rep_hook [OF assms] ring_rep_rings [OF assms]
    by (simp add: pth_ring_last_def heap_simps)
qed

lemma pth_ring_next_spec:
  assumes "ring_rep s r (us @ x # ws)"
  shows "pth_ring_next r x s = Some (list_hook ws)"
proof -
  have nx: "fld (nodes s) rn_next x = Some (hd (ws @ us @ [x]))" and "x \<noteq> NULL"
    and dist: "distinct (us @ x # ws)"
    using assms dring_nx [of _ _ us x ws] ring_rep_distinct [OF assms] by (auto simp: ring_rep_def)
  moreover have "ws \<noteq> [] \<Longrightarrow> hd ws \<noteq> list_hook (us @ x # ws)"
    using dist by (cases us; cases ws) auto
  ultimately show ?thesis
    using assms by (cases ws; cases us)
      (auto simp: pth_ring_next_def heap_simps ring_rep_hook [OF assms] ring_rep_rings [OF assms])
qed

lemma pth_ring_elements_spec:
  assumes "ring_rep s r xs" "length xs < 2 ^ 31"
  shows "pth_ring_elements r s = Some (int (length xs))"
proof -
  have "sint (of_nat (length xs) :: 32 word) = int (length xs)"
    using assms(2) by (simp add: signed_of_nat signed_take_bit_int_eq_self)
  then show ?thesis
    using assms by (simp add: pth_ring_elements_def ring_rep_def heap_simps fld_def)
qed

lemma pth_ring_pop_spec:
  assumes "ring_rep s r (x # xs)"
  shows "\<exists>s'. pth_ring_pop r s = Some (x, s') \<and> ring_rep s' r xs \<and> rframe r (set xs) s s'"
proof -
  have "x \<noteq> NULL"
    using assms by (simp add: ring_rep_def)
  moreover obtain s' where "pth_ring_delete r x s = Some s'" "ring_rep s' r xs" "rframe r (set xs) s s'"
    using pth_ring_delete_spec [of s r "[]" x xs] assms by auto
  ultimately show ?thesis
    by (simp add: pth_ring_pop_def pth_ring_first_spec [OF assms])
qed

lemma pth_ring_pop_empty: "ring_rep s r [] \<Longrightarrow> pth_ring_pop r s = Some (NULL, s)"
  by (simp add: pth_ring_pop_def pth_ring_first_spec)

lemma pth_ring_dequeue_spec:
  assumes "ring_rep s r (xs @ [x])"
  shows "\<exists>s'. pth_ring_dequeue r s = Some (x, s') \<and> ring_rep s' r xs \<and> rframe r (set xs) s s'"
proof -
  have "x \<noteq> NULL"
    using assms by (simp add: ring_rep_def)
  moreover obtain s' where "pth_ring_delete r x s = Some s'" "ring_rep s' r xs" "rframe r (set xs) s s'"
    using pth_ring_delete_spec [of s r xs x "[]"] assms by auto
  ultimately show ?thesis
    by (simp add: pth_ring_dequeue_def pth_ring_last_spec [OF assms])
qed

lemma pth_ring_dequeue_empty: "ring_rep s r [] \<Longrightarrow> pth_ring_dequeue r s = Some (NULL, s)"
  by (simp add: pth_ring_dequeue_def pth_ring_last_spec)

lemma pth_ring_favorite_spec:
  assumes rep: "ring_rep s r (us @ x # ws)"
  shows "\<exists>s'. pth_ring_favorite r x s = Some (True, s') \<and> ring_rep s' r (x # us @ ws)"
proof (cases us)
  case Nil
  moreover have "x \<noteq> NULL"
    using rep by (simp add: ring_rep_def)
  ultimately show ?thesis
    using rep ring_rep_hook [OF rep] ring_rep_rings [OF rep]
    by (simp add: pth_ring_favorite_def heap_simps)
next
  case (Cons u us')
  obtain s1 where s1: "pth_ring_delete r x s = Some s1" "ring_rep s1 r (us @ ws)"
    "rframe r (set (us @ ws)) s s1"
    using pth_ring_delete_spec [OF rep] by blast
  have x: "x \<in> dom (nodes s1)" "x \<notin> set (us @ ws)" "x \<noteq> NULL" "u \<noteq> x" "u \<noteq> NULL"
    using ring_rep_nodes [OF rep] ring_rep_distinct [OF rep] s1(3) Cons by (auto simp: rframe_def)
  obtain s2 where s2: "pth_ring_prepend r x s1 = Some s2" "ring_rep s2 r (x # us @ ws)"
    using pth_ring_prepend_spec [OF s1(2) x(1-3)] by auto
  have "fld (rings s) r_hook r = Some u" "r \<noteq> NullRing"
    using ring_rep_hook [OF rep] ring_rep_rings [OF rep] Cons by auto
  then show ?thesis
    using s1(1) s2 x by (simp add: pth_ring_favorite_def heap_simps)
qed

text \<open>The search loop of \<open>pth_ring_contains\<close> visits the nodes of the ring in order and stops.\<close>

lemma ring_search_spec:
  assumes "dseg (fld h rn_next) (fld h rn_prev) p (x # xs) hook" "hook \<notin> set xs"
  shows "ring_search hook rns h x = Some (rns \<in> set (x # xs))"
  using assms
proof (induction xs arbitrary: p x)
  case Nil
  then show ?case
    by (subst ring_search.simps) auto
next
  case (Cons y ys)
  have "ring_search hook rns h y = Some (rns \<in> set (y # ys))"
    using Cons.prems by (intro Cons.IH [of x]) auto
  then show ?case
    using Cons.prems by (subst ring_search.simps) auto
qed

lemma pth_ring_contains_spec:
  assumes "ring_rep s r xs" "rns \<noteq> NULL"
  shows "pth_ring_contains r rns s = Some (rns \<in> set xs, s)"
proof (cases xs)
  case Nil
  with assms show ?thesis
    by (simp add: pth_ring_contains_def heap_simps ring_rep_hook ring_rep_rings)
next
  case (Cons x ys)
  have "dseg (fld (nodes s) rn_next) (fld (nodes s) rn_prev) (last xs) (x # ys) x" "x \<notin> set ys"
    "x \<noteq> NULL"
    using assms Cons by (auto simp: ring_rep_def dring_def)
  with assms Cons show ?thesis
    using ring_search_spec [of "nodes s" "last xs" x ys x rns]
    by (simp add: pth_ring_contains_def heap_simps ring_rep_hook ring_rep_rings)
qed

section \<open>A ring as a queue and as a stack\<close>

text \<open>
  \<^verbatim>\<open>pth_ring_append\<close> with \<^verbatim>\<open>pth_ring_pop\<close> (the way message ports use a ring) and
  \<^verbatim>\<open>pth_ring_enqueue\<close> with \<^verbatim>\<open>pth_ring_dequeue\<close> are first-in first-out,
  \<^verbatim>\<open>pth_ring_push\<close> with \<^verbatim>\<open>pth_ring_pop\<close> is last-in first-out.
\<close>

definition pth_ring_push :: "ringref \<Rightarrow> ptr \<Rightarrow> 'a ring_state_scheme
    \<Rightarrow> 'a ring_state_scheme option" where
  "pth_ring_push r rn s = pth_ring_prepend r rn s"

definition pth_ring_enqueue :: "ringref \<Rightarrow> ptr \<Rightarrow> 'a ring_state_scheme
    \<Rightarrow> 'a ring_state_scheme option" where
  "pth_ring_enqueue r rn s = pth_ring_prepend r rn s"

abbreviation is_node :: "ptr \<Rightarrow> 'a ring_state_scheme \<Rightarrow> bool" where
  "is_node m s \<equiv> m \<in> dom (nodes s) \<and> m \<noteq> NULL"

lemma rframe_is_node: "rframe r A s s' \<Longrightarrow> is_node m s \<Longrightarrow> is_node m s'"
  by (simp add: rframe_def)

interpretation ring_fifo: fifo "pth_ring_append r" "pth_ring_pop r" "\<lambda>s. ring_rep s r" is_node for r
proof unfold_locales
  fix s xs m
  assume "ring_rep s r xs" "is_node m s" "m \<notin> set xs"
  then show "\<exists>s'. pth_ring_append r m s = Some s' \<and> ring_rep s' r (xs @ [m]) \<and>
      (\<forall>m'. is_node m' s \<longrightarrow> is_node m' s')"
    using pth_ring_append_spec [of s r xs m] rframe_is_node by blast
next
  fix s x xs
  assume "ring_rep s r (x # xs)"
  then show "\<exists>s'. pth_ring_pop r s = Some (x, s') \<and> ring_rep s' r xs"
    using pth_ring_pop_spec by blast
qed

interpretation ring_queue: fifo "pth_ring_enqueue r" "pth_ring_dequeue r"
  "\<lambda>s xs. ring_rep s r (rev xs)" is_node for r
proof unfold_locales
  fix s xs m
  assume "ring_rep s r (rev xs)" "is_node m s" "m \<notin> set xs"
  then show "\<exists>s'. pth_ring_enqueue r m s = Some s' \<and> ring_rep s' r (rev (xs @ [m])) \<and>
      (\<forall>m'. is_node m' s \<longrightarrow> is_node m' s')"
    using pth_ring_prepend_spec [of s r "rev xs" m] rframe_is_node
    by (fastforce simp: pth_ring_enqueue_def)
next
  fix s x xs
  assume "ring_rep s r (rev (x # xs))"
  then show "\<exists>s'. pth_ring_dequeue r s = Some (x, s') \<and> ring_rep s' r (rev xs)"
    using pth_ring_dequeue_spec [of s r "rev xs" x] by auto
qed

interpretation ring_stack: lifo "pth_ring_push r" "pth_ring_pop r" "\<lambda>s. ring_rep s r" is_node for r
proof unfold_locales
  fix s xs m
  assume "ring_rep s r xs" "is_node m s" "m \<notin> set xs"
  then show "\<exists>s'. pth_ring_push r m s = Some s' \<and> ring_rep s' r (m # xs) \<and>
      (\<forall>m'. is_node m' s \<longrightarrow> is_node m' s')"
    unfolding pth_ring_push_def using pth_ring_prepend_spec [of s r xs m] rframe_is_node by blast
qed

end
