(* ===== verification/Pth_Time.thy ===== *)
theory Pth_Time
  imports Pth_Prelude "HOL-Library.Signed_Division"
begin

text \<open>
  Time values (\<^verbatim>\<open>pth_time.c\<close> and the time macros of \<^verbatim>\<open>pth_p.h\<close>). A \<^verbatim>\<open>struct timeval\<close> is a record
  of two integers; the C type is \<^verbatim>\<open>long\<close> and no operation below leaves its range for the times a
  process sees. \<^verbatim>\<open>pth_time_cmp\<close> stores the difference of two \<^verbatim>\<open>long\<close>s in an \<^verbatim>\<open>int\<close>: that narrowing
  to 32 bits is kept. C division truncates towards zero (\<open>sdiv\<close>, \<open>smod\<close>). A call of
  \<^verbatim>\<open>gettimeofday\<close> is an argument \<open>now\<close> of the operations that make it.
\<close>

record pth_time_t =
  tv_sec :: int
  tv_usec :: int

definition PTH_TIME_ZERO :: pth_time_t where
  "PTH_TIME_ZERO = \<lparr>tv_sec = 0, tv_usec = 0\<rparr>"

definition to_c_int :: "int \<Rightarrow> int" where
  "to_c_int x = sint (word_of_int x :: 32 word)"

definition pth_time :: "int \<Rightarrow> int \<Rightarrow> pth_time_t" where
  "pth_time sec usec = \<lparr>tv_sec = sec, tv_usec = usec\<rparr>"

definition pth_time_equal :: "pth_time_t \<Rightarrow> pth_time_t \<Rightarrow> bool" where
  "pth_time_equal t1 t2 \<longleftrightarrow> tv_sec t1 = tv_sec t2 \<and> tv_usec t1 = tv_usec t2"

definition pth_time_cmp :: "pth_time_t \<Rightarrow> pth_time_t \<Rightarrow> int" where
  "pth_time_cmp t1 t2 =
     (let rc = to_c_int (tv_sec t1 - tv_sec t2)
      in if rc = 0 then to_c_int (tv_usec t1 - tv_usec t2) else rc)"

definition pth_time_add :: "pth_time_t \<Rightarrow> pth_time_t \<Rightarrow> pth_time_t" where
  "pth_time_add t1 t2 =
     (let sec = tv_sec t1 + tv_sec t2; usec = tv_usec t1 + tv_usec t2
      in if usec > 1000000 then \<lparr>tv_sec = sec + 1, tv_usec = usec - 1000000\<rparr>
         else \<lparr>tv_sec = sec, tv_usec = usec\<rparr>)"

definition pth_time_sub :: "pth_time_t \<Rightarrow> pth_time_t \<Rightarrow> pth_time_t" where
  "pth_time_sub t1 t2 =
     (let sec = tv_sec t1 - tv_sec t2; usec = tv_usec t1 - tv_usec t2
      in if usec < 0 then \<lparr>tv_sec = sec - 1, tv_usec = usec + 1000000\<rparr>
         else \<lparr>tv_sec = sec, tv_usec = usec\<rparr>)"

definition pth_timeout :: "pth_time_t \<Rightarrow> int \<Rightarrow> int \<Rightarrow> pth_time_t" where
  "pth_timeout now sec usec = pth_time_add now \<lparr>tv_sec = sec, tv_usec = usec\<rparr>"

definition pth_time_div :: "pth_time_t \<Rightarrow> int \<Rightarrow> pth_time_t" where
  "pth_time_div t1 n =
     (let q = tv_sec t1 sdiv n;
          r = ((tv_sec t1 smod n) * 1000000) sdiv n + tv_usec t1 sdiv n
      in if r > 1000000 then \<lparr>tv_sec = q + 1, tv_usec = r - 1000000\<rparr>
         else \<lparr>tv_sec = q, tv_usec = r\<rparr>)"

definition pth_time_mul :: "pth_time_t \<Rightarrow> int \<Rightarrow> pth_time_t" where
  "pth_time_mul t1 n =
     (let sec = tv_sec t1 * n; usec = tv_usec t1 * n
      in \<lparr>tv_sec = sec + usec sdiv 1000000, tv_usec = usec smod 1000000\<rparr>)"

definition pth_time_t2i :: "pth_time_t \<Rightarrow> int" where
  "pth_time_t2i t = to_c_int ((tv_sec t * 1000000 + tv_usec t) sdiv 1000000)"

definition pth_time_pos :: "pth_time_t \<Rightarrow> int" where
  "pth_time_pos t = (if tv_sec t > 0 \<and> tv_usec t > 0 then 1 else 0)"

text \<open>
  The number of microseconds a time value stands for, and the range the code keeps its
  microsecond field in. The carry test of \<^verbatim>\<open>pth_time_add\<close> is \<^verbatim>\<open>> 1000000\<close>, so the field may be
  exactly one second: \<open>time_ok\<close> allows that, \<open>time_norm\<close> (the range \<^verbatim>\<open>select(2)\<close> and POSIX ask
  for) does not.
\<close>

definition usecs :: "pth_time_t \<Rightarrow> int" where
  "usecs t = tv_sec t * 1000000 + tv_usec t"

definition time_ok :: "pth_time_t \<Rightarrow> bool" where
  "time_ok t \<longleftrightarrow> 0 \<le> tv_usec t \<and> tv_usec t \<le> 1000000"

definition time_norm :: "pth_time_t \<Rightarrow> bool" where
  "time_norm t \<longleftrightarrow> 0 \<le> tv_usec t \<and> tv_usec t < 1000000"

lemmas time_defs = usecs_def time_ok_def time_norm_def pth_time_add_def pth_time_sub_def Let_def

lemma to_c_int_id: "- (2 ^ 31) \<le> x \<Longrightarrow> x < 2 ^ 31 \<Longrightarrow> to_c_int x = x"
  by (simp add: to_c_int_def signed_of_int signed_take_bit_int_eq_self)

lemma pth_time_add_ok: "time_ok a \<Longrightarrow> time_ok b \<Longrightarrow> time_ok (pth_time_add a b)"
  by (auto simp: time_defs)

lemma usecs_add [simp]: "usecs (pth_time_add a b) = usecs a + usecs b"
  by (simp add: time_defs algebra_simps)

lemma usecs_sub [simp]: "usecs (pth_time_sub a b) = usecs a - usecs b"
  by (simp add: time_defs algebra_simps)

lemma pth_time_sub_norm: "time_norm a \<Longrightarrow> time_norm b \<Longrightarrow> time_norm (pth_time_sub a b)"
  by (auto simp: time_defs)

lemma pth_time_cmp_sign:
  assumes "time_norm a" "time_norm b" "\<bar>tv_sec a - tv_sec b\<bar> < 2 ^ 31"
  shows "sgn (pth_time_cmp a b) = sgn (usecs a - usecs b)"
proof -
  have "to_c_int (tv_sec a - tv_sec b) = tv_sec a - tv_sec b"
    "to_c_int (tv_usec a - tv_usec b) = tv_usec a - tv_usec b"
    using assms by (auto intro!: to_c_int_id simp: time_norm_def)
  then show ?thesis
    using assms by (auto simp: pth_time_cmp_def time_norm_def usecs_def Let_def sgn_if)
qed

lemma pth_time_cmp_self [simp]: "pth_time_cmp t t = 0"
  by (simp add: pth_time_cmp_def to_c_int_def)

lemma pth_time_mul_exact:
  assumes "time_norm t" "0 \<le> tv_sec t" "0 \<le> n"
  shows "usecs (pth_time_mul t n) = usecs t * n \<and> time_norm (pth_time_mul t n)"
proof -
  have "0 \<le> tv_usec t * n"
    using assms by (simp add: time_norm_def)
  then have "(tv_usec t * n) sdiv 1000000 = tv_usec t * n div 1000000"
    "(tv_usec t * n) smod 1000000 = tv_usec t * n mod 1000000"
    by (simp_all add: signed_divide_int_def signed_modulo_int_def sgn_if minus_div_mult_eq_mod)
  then show ?thesis
    by (simp add: pth_time_mul_def time_norm_def usecs_def Let_def algebra_simps)
qed

lemma div_add_carry:
  fixes a b n :: int
  assumes "0 < n"
  shows "(a + b) div n - (a div n + b div n) \<in> {0, 1}"
proof -
  let ?m = "a mod n + b mod n"
  have "0 \<le> ?m"
    using assms by simp
  moreover have "?m \<le> 2 * n - 1"
    using pos_mod_bound [OF assms, of a] pos_mod_bound [OF assms, of b] by linarith
  moreover have "(2 * n - 1) div n = 1"
    using assms by (intro int_div_pos_eq [where r = "n - 1"]) auto
  ultimately have "0 \<le> ?m div n" "?m div n \<le> 1"
    using assms zdiv_mono1 [of ?m "2 * n - 1" n] by (auto simp: pos_imp_zdiv_nonneg_iff)
  then show ?thesis
    using div_add1_eq [of a b n] by auto
qed

lemma pth_time_div_bounds:
  assumes "time_norm t" "0 \<le> tv_sec t" "0 < n"
  shows "usecs t div n - 1 \<le> usecs (pth_time_div t n) \<and> usecs (pth_time_div t n) \<le> usecs t div n"
proof -
  let ?s = "tv_sec t" and ?u = "tv_usec t"
  let ?r = "(?s mod n) * 1000000"
  have nn: "0 \<le> ?u" "0 \<le> ?r" "0 \<le> ?s mod n"
    using assms by (auto simp: time_norm_def)
  then have val: "usecs (pth_time_div t n) = ?s div n * 1000000 + ?r div n + ?u div n"
    using assms
    by (simp add: pth_time_div_def usecs_def Let_def signed_divide_int_def signed_modulo_int_def
        sgn_if minus_div_mult_eq_mod abs_mult algebra_simps)
  have s: "?s * 1000000 = n * (?s div n * 1000000) + ?r"
    by (metis distrib_right mult.assoc mult_div_mod_eq)
  have "usecs t div n = (?r + ?u + n * (?s div n * 1000000)) div n"
    unfolding usecs_def s by (simp add: algebra_simps)
  also have "\<dots> = ?s div n * 1000000 + (?r + ?u) div n"
    using assms(3) by simp
  finally have eq: "usecs t div n = ?s div n * 1000000 + (?r + ?u) div n" .
  have "?r div n + ?u div n \<le> (?r + ?u) div n" "(?r + ?u) div n \<le> ?r div n + ?u div n + 1"
    using div_add_carry [OF assms(3), of ?r ?u] by auto
  then show ?thesis
    using eq val by simp
qed

section \<open>Properties\<close>

text \<open>
  \<^verbatim>\<open>pth_time_add\<close> and \<^verbatim>\<open>pth_time_sub\<close> are exact to the microsecond and inverse to each other;
  \<^verbatim>\<open>pth_time_sub\<close> gives a normalised time, and \<^verbatim>\<open>pth_time_add\<close> does except in one case: when the
  microseconds add up to exactly one second, the carry is missed and \<^verbatim>\<open>tv_usec\<close> is 1000000.
\<close>

theorem pth_time_add_exact:
  assumes "time_norm a" "time_norm b"
  shows "usecs (pth_time_add a b) = usecs a + usecs b \<and> usecs (pth_time_sub a b) = usecs a - usecs b \<and>
    usecs (pth_time_sub (pth_time_add a b) b) = usecs a \<and> time_norm (pth_time_sub a b) \<and>
    (time_norm (pth_time_add a b) \<longleftrightarrow> tv_usec a + tv_usec b \<noteq> 1000000)"
proof -
  have "time_norm (pth_time_add a b) \<longleftrightarrow> tv_usec a + tv_usec b \<noteq> 1000000"
    using assms by (auto simp: time_defs)
  then show ?thesis
    using pth_time_sub_norm [OF assms] by simp
qed

theorem pth_time_add_exact_witness:
  "usecs (pth_time_add (pth_time 1 600000) (pth_time 2 400000)) = 4000000 \<and>
   \<not> time_norm (pth_time_add (pth_time 1 600000) (pth_time 2 400000))"
  using pth_time_add_exact [of "pth_time 1 600000" "pth_time 2 400000"]
  by (simp add: pth_time_def time_norm_def usecs_def)

text \<open>
  \<^verbatim>\<open>pth_time_cmp\<close> orders normalised times that are less than \<open>2 ^ 31\<close> seconds apart as the clock
  does; the seconds are narrowed to \<^verbatim>\<open>int\<close>, so times exactly \<open>2 ^ 32\<close> seconds apart compare equal.
\<close>

theorem pth_time_cmp_order:
  assumes "time_norm a" "time_norm b" "\<bar>tv_sec a - tv_sec b\<bar> < 2 ^ 31"
  shows "sgn (pth_time_cmp a b) = sgn (usecs a - usecs b) \<and>
    pth_time_cmp (a\<lparr>tv_sec := tv_sec a + 2 ^ 32\<rparr>) a = 0"
  using pth_time_cmp_sign [OF assms] by (simp add: pth_time_cmp_def to_c_int_def Let_def)

theorem pth_time_cmp_order_witness:
  "sgn (pth_time_cmp (pth_time 1 5) (pth_time 2 3)) = -1 \<and>
   pth_time_cmp ((pth_time 1 5)\<lparr>tv_sec := 4294967297\<rparr>) (pth_time 1 5) = 0"
  using pth_time_cmp_order [of "pth_time 1 5" "pth_time 2 3"]
  by (simp add: pth_time_def time_norm_def usecs_def)

end
