(* ===== verification/Pth_Pqueue.thy ===== *)
theory Pth_Pqueue
  imports Pth_Ring Pth_Time
begin

text \<open>
  Thread control blocks (\<^verbatim>\<open>struct pth_st\<close>, \<^verbatim>\<open>pth_tcb.c\<close>) and the thread priority queues of
  \<^verbatim>\<open>pth_pqueue.c\<close>, at pointer level. The five queues of the scheduler are the static variables
  \<^verbatim>\<open>pth_NQ\<close>, \<^verbatim>\<open>pth_RQ\<close>, \<^verbatim>\<open>pth_WQ\<close>, \<^verbatim>\<open>pth_SQ\<close> and \<^verbatim>\<open>pth_DQ\<close>; a \<^verbatim>\<open>pth_pqueue_t *\<close> is \<open>None\<close> (\<^verbatim>\<open>NULL\<close>) or
  \<open>Some\<close> of one of them. The queue is a circular doubly linked list through the control
  blocks, and \<^verbatim>\<open>q_prio\<close> holds the priority of the head and, for every other thread, the
  difference to its predecessor.

  \<open>pq_rep h q xs\<close> reads the queue back as the list of its threads with their absolute
  priorities. Every operation is shown to be memory safe and to implement the operation on
  that list; \<open>queues_ok\<close> lifts this to the five queues together, and \<open>qframe\<close> says that queue
  operations change the queue links and nothing else.
\<close>

section \<open>Thread control blocks\<close>

datatype pth_state_t =
  PTH_STATE_SCHEDULER | PTH_STATE_NEW | PTH_STATE_READY | PTH_STATE_WAITING | PTH_STATE_DEAD

type_synonym sigset = "nat set"

record pth_st =
  q_next :: ptr
  q_prev :: ptr
  q_prio :: int
  t_prio :: int
  t_name :: string
  t_dispatches :: int
  t_state :: pth_state_t
  t_spawned :: pth_time_t
  t_lastran :: pth_time_t
  t_running :: pth_time_t
  t_events :: ptr
  t_sigpending :: sigset
  t_sigpendcnt :: int
  t_mctx_sigs :: sigset
  t_mctx_regs :: "nat list"
  t_mctx_start :: ptr
  t_stack :: ptr
  t_stacksize :: "32 word"
  t_stackguard :: "int option"
  t_stackloan :: bool
  t_start_func :: ptr
  t_start_arg :: ptr
  t_joinable :: int
  t_join_arg :: ptr
  t_data_value :: "(nat \<Rightarrow> ptr) option"
  t_data_count :: int
  t_cancelreq :: bool
  t_cancelstate :: "32 word"
  t_cleanups :: "(ptr \<times> ptr) list"

section \<open>Priority queues\<close>

datatype qid = NQ | RQ | WQ | SQ | DQ

lemma UNIV_qid: "(UNIV :: qid set) = {NQ, RQ, WQ, SQ, DQ}"
  by (auto intro: qid.exhaust)

record pth_pqueue =
  q_head :: ptr
  q_num :: int

record thread_state = ring_state +
  tcbs :: "ptr \<rightharpoonup> pth_st"
  queues :: "qid \<Rightarrow> pth_pqueue"

definition PTH_PRIO_MAX :: int where "PTH_PRIO_MAX = 5"
definition PTH_PRIO_STD :: int where "PTH_PRIO_STD = 0"
definition PTH_PRIO_MIN :: int where "PTH_PRIO_MIN = -5"

datatype walk_dir = PTH_WALK_NEXT | PTH_WALK_PREV

definition t_get :: "(pth_st \<Rightarrow> 'b) \<Rightarrow> ptr \<Rightarrow> 'a thread_state_scheme \<Rightarrow> 'b option" where
  "t_get f t s = fld (tcbs s) f t"

definition t_set :: "(pth_st \<Rightarrow> pth_st) \<Rightarrow> ptr \<Rightarrow> 'a thread_state_scheme
    \<Rightarrow> 'a thread_state_scheme option" where
  "t_set f t s = map_option (\<lambda>h. s\<lparr>tcbs := h\<rparr>) (setf (tcbs s) t f)"

definition q_set :: "(pth_pqueue \<Rightarrow> pth_pqueue) \<Rightarrow> qid \<Rightarrow> 'a thread_state_scheme
    \<Rightarrow> 'a thread_state_scheme" where
  "q_set f q s = s\<lparr>queues := (queues s)(q := f (queues s q))\<rparr>"

definition pth_pqueue_init :: "qid option \<Rightarrow> 'a thread_state_scheme \<Rightarrow> 'a thread_state_scheme" where
  "pth_pqueue_init qp s =
     (case qp of None \<Rightarrow> s
      | Some q \<Rightarrow> q_set (\<lambda>_. \<lparr>q_head = NULL, q_num = 0\<rparr>) q s)"

text \<open>
  The search loop of \<^verbatim>\<open>pth_pqueue_insert\<close>: \<^verbatim>\<open>while ((p - c->q_next->q_prio) >= prio &&
  c->q_next != q->q_head) \<dots>\<close>. On a corrupted ring it may run forever, which is \<open>None\<close>.
\<close>

partial_function (option) pq_search ::
    "ptr \<Rightarrow> int \<Rightarrow> (ptr \<rightharpoonup> pth_st) \<Rightarrow> ptr \<Rightarrow> int \<Rightarrow> (ptr \<times> int) option" where
  "pq_search head prio h c p =
     Option.bind (fld h q_next c) (\<lambda>n. Option.bind (fld h q_prio n) (\<lambda>np.
       if p - np \<ge> prio \<and> n \<noteq> head then pq_search head prio h n (p - np) else Some (c, p)))"

definition pth_pqueue_insert :: "qid option \<Rightarrow> int \<Rightarrow> ptr \<Rightarrow> 'a thread_state_scheme
    \<Rightarrow> 'a thread_state_scheme option" where
  "pth_pqueue_insert qp prio t s = (case qp of None \<Rightarrow> Some s | Some q \<Rightarrow>
     (let head = q_head (queues s q) in
      if head = NULL \<or> q_num (queues s q) = 0 then do {
        s \<leftarrow> t_set (q_prev_update (\<lambda>_. t)) t s;
        s \<leftarrow> t_set (q_next_update (\<lambda>_. t)) t s;
        s \<leftarrow> t_set (q_prio_update (\<lambda>_. prio)) t s;
        let s = q_set (q_head_update (\<lambda>_. t)) q s;
        Some (q_set (q_num_update (\<lambda>n. n + 1)) q s) }
      else do {
        hp \<leftarrow> t_get q_prio head s;
        if hp < prio then do {
          v \<leftarrow> t_get q_prev head s;
          s \<leftarrow> t_set (q_prev_update (\<lambda>_. v)) t s;
          s \<leftarrow> t_set (q_next_update (\<lambda>_. head)) t s;
          tp \<leftarrow> t_get q_prev t s;
          s \<leftarrow> t_set (q_next_update (\<lambda>_. t)) tp s;
          tn \<leftarrow> t_get q_next t s;
          s \<leftarrow> t_set (q_prev_update (\<lambda>_. t)) tn s;
          s \<leftarrow> t_set (q_prio_update (\<lambda>_. prio)) t s;
          tn \<leftarrow> t_get q_next t s;
          s \<leftarrow> t_set (q_prio_update (\<lambda>x. prio - x)) tn s;
          let s = q_set (q_head_update (\<lambda>_. t)) q s;
          Some (q_set (q_num_update (\<lambda>n. n + 1)) q s) }
        else do {
          (c, p) \<leftarrow> pq_search head prio (tcbs s) head hp;
          s \<leftarrow> t_set (q_prev_update (\<lambda>_. c)) t s;
          cn \<leftarrow> t_get q_next c s;
          s \<leftarrow> t_set (q_next_update (\<lambda>_. cn)) t s;
          tp \<leftarrow> t_get q_prev t s;
          s \<leftarrow> t_set (q_next_update (\<lambda>_. t)) tp s;
          tn \<leftarrow> t_get q_next t s;
          s \<leftarrow> t_set (q_prev_update (\<lambda>_. t)) tn s;
          s \<leftarrow> t_set (q_prio_update (\<lambda>_. p - prio)) t s;
          tn \<leftarrow> t_get q_next t s;
          d \<leftarrow> t_get q_prio t s;
          s \<leftarrow> (if tn \<noteq> head then t_set (q_prio_update (\<lambda>x. x - d)) tn s else Some s);
          Some (q_set (q_num_update (\<lambda>n. n + 1)) q s) } }))"

text \<open>Unlinking the head of a queue of more than one thread, as \<^verbatim>\<open>delmax\<close> and \<^verbatim>\<open>delete\<close> both do.\<close>

definition pq_drop_head :: "qid \<Rightarrow> ptr \<Rightarrow> 'a thread_state_scheme
    \<Rightarrow> 'a thread_state_scheme option" where
  "pq_drop_head q t s = do {
     tp \<leftarrow> t_get q_prev t s;
     tn \<leftarrow> t_get q_next t s;
     s \<leftarrow> t_set (q_next_update (\<lambda>_. tn)) tp s;
     tn \<leftarrow> t_get q_next t s;
     tp \<leftarrow> t_get q_prev t s;
     s \<leftarrow> t_set (q_prev_update (\<lambda>_. tp)) tn s;
     tn \<leftarrow> t_get q_next t s;
     d \<leftarrow> t_get q_prio t s;
     s \<leftarrow> t_set (q_prio_update (\<lambda>x. d - x)) tn s;
     s \<leftarrow> t_set (q_prio_update (\<lambda>_. 0)) t s;
     tn \<leftarrow> t_get q_next t s;
     let s = q_set (q_head_update (\<lambda>_. tn)) q s;
     Some (q_set (q_num_update (\<lambda>n. n - 1)) q s) }"

definition pq_make_empty :: "qid \<Rightarrow> ptr \<Rightarrow> 'a thread_state_scheme
    \<Rightarrow> 'a thread_state_scheme option" where
  "pq_make_empty q t s = do {
     s \<leftarrow> t_set (q_next_update (\<lambda>_. NULL)) t s;
     s \<leftarrow> t_set (q_prev_update (\<lambda>_. NULL)) t s;
     s \<leftarrow> t_set (q_prio_update (\<lambda>_. 0)) t s;
     let s = q_set (q_head_update (\<lambda>_. NULL)) q s;
     Some (q_set (q_num_update (\<lambda>_. 0)) q s) }"

definition pth_pqueue_delmax :: "qid option \<Rightarrow> 'a thread_state_scheme
    \<Rightarrow> (ptr \<times> 'a thread_state_scheme) option" where
  "pth_pqueue_delmax qp s = (case qp of None \<Rightarrow> Some (NULL, s) | Some q \<Rightarrow>
     (let head = q_head (queues s q) in
      if head = NULL then Some (NULL, s)
      else do {
        hn \<leftarrow> t_get q_next head s;
        if hn = head then do { s \<leftarrow> pq_make_empty q head s; Some (head, s) }
        else do { s \<leftarrow> pq_drop_head q head s; Some (head, s) } }))"

definition pth_pqueue_delete :: "qid option \<Rightarrow> ptr \<Rightarrow> 'a thread_state_scheme
    \<Rightarrow> 'a thread_state_scheme option" where
  "pth_pqueue_delete qp t s = (case qp of None \<Rightarrow> Some s | Some q \<Rightarrow>
     (let head = q_head (queues s q) in
      if head = NULL then Some s
      else if head = t then do {
        tn \<leftarrow> t_get q_next t s;
        if tn = t then pq_make_empty q t s else pq_drop_head q t s }
      else do {
        tp \<leftarrow> t_get q_prev t s;
        tn \<leftarrow> t_get q_next t s;
        s \<leftarrow> t_set (q_next_update (\<lambda>_. tn)) tp s;
        tn \<leftarrow> t_get q_next t s;
        tp \<leftarrow> t_get q_prev t s;
        s \<leftarrow> t_set (q_prev_update (\<lambda>_. tp)) tn s;
        tn \<leftarrow> t_get q_next t s;
        d \<leftarrow> t_get q_prio t s;
        s \<leftarrow> (if tn \<noteq> head then t_set (q_prio_update (\<lambda>x. x + d)) tn s else Some s);
        s \<leftarrow> t_set (q_prio_update (\<lambda>_. 0)) t s;
        Some (q_set (q_num_update (\<lambda>n. n - 1)) q s) }))"

definition pth_pqueue_favorite_prio :: "qid \<Rightarrow> 'a thread_state_scheme \<Rightarrow> int option" where
  "pth_pqueue_favorite_prio q s =
     (let head = q_head (queues s q) in
      if head \<noteq> NULL then do { p \<leftarrow> t_get q_prio head s; Some (p + 1) } else Some PTH_PRIO_MAX)"

definition pth_pqueue_favorite :: "qid option \<Rightarrow> ptr \<Rightarrow> 'a thread_state_scheme
    \<Rightarrow> (bool \<times> 'a thread_state_scheme) option" where
  "pth_pqueue_favorite qp t s = (case qp of None \<Rightarrow> Some (False, s) | Some q \<Rightarrow>
     (if q_head (queues s q) = NULL \<or> q_num (queues s q) = 0 then Some (False, s)
      else if q_num (queues s q) = 1 then Some (True, s)
      else do {
        s \<leftarrow> pth_pqueue_delete (Some q) t s;
        p \<leftarrow> pth_pqueue_favorite_prio q s;
        s \<leftarrow> pth_pqueue_insert (Some q) p t s;
        Some (True, s) }))"

definition pth_pqueue_increase :: "qid option \<Rightarrow> 'a thread_state_scheme
    \<Rightarrow> 'a thread_state_scheme option" where
  "pth_pqueue_increase qp s = (case qp of None \<Rightarrow> Some s | Some q \<Rightarrow>
     (if q_head (queues s q) = NULL then Some s
      else t_set (q_prio_update (\<lambda>x. x + 1)) (q_head (queues s q)) s))"

definition pth_pqueue_elements :: "qid option \<Rightarrow> 'a thread_state_scheme \<Rightarrow> int" where
  "pth_pqueue_elements qp s = (case qp of None \<Rightarrow> -1 | Some q \<Rightarrow> q_num (queues s q))"

definition pth_pqueue_head :: "qid option \<Rightarrow> 'a thread_state_scheme \<Rightarrow> ptr" where
  "pth_pqueue_head qp s = (case qp of None \<Rightarrow> NULL | Some q \<Rightarrow> q_head (queues s q))"

definition pth_pqueue_tail :: "qid option \<Rightarrow> 'a thread_state_scheme \<Rightarrow> ptr option" where
  "pth_pqueue_tail qp s = (case qp of None \<Rightarrow> Some NULL | Some q \<Rightarrow>
     (if q_head (queues s q) = NULL then Some NULL else t_get q_prev (q_head (queues s q)) s))"

definition pth_pqueue_walk :: "qid option \<Rightarrow> ptr \<Rightarrow> walk_dir \<Rightarrow> 'a thread_state_scheme
    \<Rightarrow> ptr option" where
  "pth_pqueue_walk qp t direction s = (case qp of None \<Rightarrow> Some NULL | Some q \<Rightarrow>
     (if t = NULL then Some NULL
      else case direction of
        PTH_WALK_PREV \<Rightarrow> if t \<noteq> q_head (queues s q) then t_get q_prev t s else Some NULL
      | PTH_WALK_NEXT \<Rightarrow> do { tn \<leftarrow> t_get q_next t s;
                              Some (if tn = q_head (queues s q) then NULL else tn) }))"

partial_function (option) pq_contains_loop ::
    "qid option \<Rightarrow> ptr \<Rightarrow> 'a thread_state_scheme \<Rightarrow> ptr \<Rightarrow> bool option" where
  "pq_contains_loop qp t s tc =
     (if tc = NULL then Some False
      else if tc = t then Some True
      else Option.bind (pth_pqueue_walk qp tc PTH_WALK_NEXT s) (pq_contains_loop qp t s))"

definition pth_pqueue_contains :: "qid option \<Rightarrow> ptr \<Rightarrow> 'a thread_state_scheme \<Rightarrow> bool option" where
  "pth_pqueue_contains qp t s = pq_contains_loop qp t s (pth_pqueue_head qp s)"

section \<open>Queues represent priority lists\<close>

lemma tcb_fields [heap_simps]:
  "p \<in> dom h \<Longrightarrow> fld (upd h p (q_next_update (\<lambda>_. v))) q_next = (fld h q_next)(p \<mapsto> v)"
  "p \<in> dom h \<Longrightarrow> fld (upd h p (q_prev_update (\<lambda>_. v))) q_prev = (fld h q_prev)(p \<mapsto> v)"
  "fld (upd h p (q_prio_update f)) q_prio = (fld h q_prio)(p := map_option f (fld h q_prio p))"
  "fld (upd h p (q_next_update f')) q_prev = fld h q_prev"
  "fld (upd h p (q_next_update f')) q_prio = fld h q_prio"
  "fld (upd h p (q_prev_update f')) q_next = fld h q_next"
  "fld (upd h p (q_prev_update f')) q_prio = fld h q_prio"
  "fld (upd h p (q_prio_update f)) q_next = fld h q_next"
  "fld (upd h p (q_prio_update f)) q_prev = fld h q_prev"
  by (auto intro: fld_upd_write fld_upd_keep)
     (auto simp: fld_def upd_def fun_eq_iff option.map_comp comp_def)

lemma tcb_access [heap_simps]:
  "t_get f p s = fld (tcbs s) f p"
  "p \<in> dom (tcbs s) \<Longrightarrow> t_set u p s = Some (s\<lparr>tcbs := upd (tcbs s) p u\<rparr>)"
  by (simp_all add: t_get_def t_set_def)

lemma tcb_cells [cells]:
  "tcbs s t = Some c \<Longrightarrow> t_get f t s = Some (f c)"
  "tcbs s t = Some c \<Longrightarrow> t_set u t s = Some (s\<lparr>tcbs := (tcbs s)(t \<mapsto> u c)\<rparr>)"
  by (simp_all add: t_get_def t_set_def cells)

fun prel :: "(ptr \<rightharpoonup> int) \<Rightarrow> int \<Rightarrow> (ptr \<times> int) list \<Rightarrow> bool" where
  "prel q p [] = True"
| "prel q p ((x, px) # xs) \<longleftrightarrow> q x = Some (p - px) \<and> prel q px xs"

fun prio_rep :: "(ptr \<rightharpoonup> int) \<Rightarrow> (ptr \<times> int) list \<Rightarrow> bool" where
  "prio_rep q [] = True"
| "prio_rep q ((x, px) # xs) \<longleftrightarrow> q x = Some px \<and> prel q px xs"

lemma prel_append: "prel q p (xs @ ys) \<longleftrightarrow> prel q p xs \<and> prel q (last (p # map snd xs)) ys"
  by (induction q p xs rule: prel.induct) auto

lemma prio_rep_append:
  "xs \<noteq> [] \<Longrightarrow> prio_rep q (xs @ ys) \<longleftrightarrow> prio_rep q xs \<and> prel q (snd (last xs)) ys"
  by (cases xs) (auto simp: prel_append last_map)

lemma prel_cong: "(\<And>x. x \<in> fst ` set xs \<Longrightarrow> q x = q' x) \<Longrightarrow> prel q p xs = prel q' p xs"
  by (induction q p xs rule: prel.induct) auto

lemma prio_rep_cong: "(\<And>x. x \<in> fst ` set xs \<Longrightarrow> q x = q' x) \<Longrightarrow> prio_rep q xs = prio_rep q' xs"
  by (cases xs) (use prel_cong [of "tl xs" q q'] in auto)

definition pq_rep :: "(ptr \<rightharpoonup> pth_st) \<Rightarrow> pth_pqueue \<Rightarrow> (ptr \<times> int) list \<Rightarrow> bool" where
  "pq_rep h q xs \<longleftrightarrow>
     dring (fld h q_next) (fld h q_prev) (map fst xs) \<and> prio_rep (fld h q_prio) xs \<and>
     NULL \<notin> fst ` set xs \<and>
     q_head q = list_hook (map fst xs) \<and> q_num q = int (length xs)"

text \<open>The abstract operations: a list of threads with their priorities, highest first.\<close>

definition pq_ins :: "ptr \<Rightarrow> int \<Rightarrow> (ptr \<times> int) list \<Rightarrow> (ptr \<times> int) list" where
  "pq_ins t p xs = takeWhile (\<lambda>x. p \<le> snd x) xs @ (t, p) # dropWhile (\<lambda>x. p \<le> snd x) xs"

definition pq_sorted :: "(ptr \<times> int) list \<Rightarrow> bool" where
  "pq_sorted xs \<longleftrightarrow> sorted_wrt (\<lambda>x y. snd y \<le> snd x) xs"

definition noq :: "pth_st \<Rightarrow> pth_st" where
  "noq c = c\<lparr>q_next := NULL, q_prev := NULL, q_prio := 0\<rparr>"

lemma noq_upd [simp]:
  "noq (q_next_update f c) = noq c" "noq (q_prev_update f c) = noq c" "noq (q_prio_update g c) = noq c"
  by (simp_all add: noq_def)

definition qheap :: "ptr set \<Rightarrow> (ptr \<rightharpoonup> pth_st) \<Rightarrow> (ptr \<rightharpoonup> pth_st) \<Rightarrow> bool" where
  "qheap A h h' \<longleftrightarrow> (\<forall>x. x \<notin> A \<longrightarrow> h' x = h x) \<and>
     (\<forall>x. map_option noq (h' x) = map_option noq (h x))"

definition qstep :: "qid \<Rightarrow> ptr set \<Rightarrow> 'a thread_state_scheme \<Rightarrow> 'a thread_state_scheme \<Rightarrow> bool" where
  "qstep q A s s' \<longleftrightarrow>
     (\<exists>h' Q'. s' = s\<lparr>tcbs := h', queues := (queues s)(q := Q')\<rparr> \<and> qheap A (tcbs s) h')"

lemma qheap_refl [simp]: "qheap A h h"
  by (simp add: qheap_def)

lemma qheap_trans: "qheap A h h' \<Longrightarrow> qheap A h' h'' \<Longrightarrow> qheap A h h''"
  by (simp add: qheap_def)

lemma qheap_upd:
  "p \<in> A \<Longrightarrow> qheap A h h' \<Longrightarrow> qheap A h (upd h' p (q_next_update f))"
  "p \<in> A \<Longrightarrow> qheap A h h' \<Longrightarrow> qheap A h (upd h' p (q_prev_update f))"
  "p \<in> A \<Longrightarrow> qheap A h h' \<Longrightarrow> qheap A h (upd h' p (q_prio_update g))"
  by (auto simp: qheap_def upd_def option.map_comp comp_def)

lemma qheap_dom: "qheap A h h' \<Longrightarrow> dom h' = dom h"
  by (auto simp: qheap_def dom_def) (metis not_None_eq map_option_is_None)+

lemma pq_rep_cong:
  assumes "pq_rep h q xs" "\<And>x. x \<in> fst ` set xs \<Longrightarrow> h' x = h x"
  shows "pq_rep h' q xs"
proof -
  have "dring (fld h' q_next) (fld h' q_prev) (map fst xs) =
        dring (fld h q_next) (fld h q_prev) (map fst xs)"
    using assms(2) by (intro dring_cong) (auto simp: fld_def)
  moreover have "prio_rep (fld h' q_prio) xs = prio_rep (fld h q_prio) xs"
    using assms(2) by (intro prio_rep_cong) (auto simp: fld_def)
  ultimately show ?thesis
    using assms(1) by (simp add: pq_rep_def)
qed

lemma pq_rep_mem: "pq_rep h q xs \<Longrightarrow> x \<in> fst ` set xs \<Longrightarrow> x \<in> dom h \<and> x \<noteq> NULL"
  using dring_mem_dom [of "fld h q_next" "fld h q_prev" "map fst xs" x]
  by (force simp: pq_rep_def)

lemma pq_rep_distinct: "pq_rep h q xs \<Longrightarrow> distinct (map fst xs)"
  by (auto simp: pq_rep_def dest: dring_distinct)

lemma pq_rep_empty [simp]: "pq_rep h q [] \<longleftrightarrow> q = \<lparr>q_head = NULL, q_num = 0\<rparr>"
  by (auto simp: pq_rep_def)

lemma set_pq_ins [simp]: "set (pq_ins t p xs) = insert (t, p) (set xs)"
  unfolding pq_ins_def by (metis Un_insert_right list.simps(15) set_append takeWhile_dropWhile_id)

lemma pq_ins_sorted: "pq_sorted xs \<Longrightarrow> pq_sorted (pq_ins t p xs)"
proof -
  assume s: "pq_sorted xs"
  let ?u = "takeWhile (\<lambda>x. p \<le> snd x) xs" and ?w = "dropWhile (\<lambda>x. p \<le> snd x) xs"
  have sw: "sorted_wrt (\<lambda>x y. snd y \<le> snd x) (?u @ ?w)"
    using s by (simp add: pq_sorted_def)
  have "snd y \<le> p" if "y \<in> set ?w" for y
  proof (cases ?w)
    case Nil
    show ?thesis
      using that unfolding Nil by simp
  next
    case (Cons z zs)
    moreover have "\<not> p \<le> snd z"
      using takeWhile_dropWhile_hd [OF Cons] .
    ultimately show ?thesis
      using sw that by (auto simp: sorted_wrt_append)
  qed
  moreover have "sorted_wrt (\<lambda>x y. snd y \<le> snd x) ?u" "sorted_wrt (\<lambda>x y. snd y \<le> snd x) ?w"
    "\<forall>x \<in> set ?u. \<forall>y \<in> set ?w. snd y \<le> snd x"
    using sw unfolding sorted_wrt_append by blast+
  ultimately show ?thesis
    by (auto simp: pq_sorted_def pq_ins_def sorted_wrt_append dest: set_takeWhileD)
qed

section \<open>Every operation implements its list counterpart\<close>

lemma pq_search_spec:
  assumes "dseg (fld h q_next) (fld h q_prev) pr (c # map fst ws) head" "prel (fld h q_prio) p ws"
    "head \<notin> fst ` set ws" "head \<in> dom h"
  shows "pq_search head prio h c p = Some (last ((c, p) # takeWhile (\<lambda>x. prio \<le> snd x) ws))"
  using assms
proof (induction ws arbitrary: c p pr)
  case Nil
  then obtain hp where "fld h q_prio head = Some hp"
    by (auto simp: fld_def)
  with Nil show ?case
    by (subst pq_search.simps) auto
next
  case (Cons w ws)
  obtain y py where w: "w = (y, py)"
    by (cases w)
  have "pq_search head prio h y py = Some (last ((y, py) # takeWhile (\<lambda>x. prio \<le> snd x) ws))"
    using Cons.prems w by (intro Cons.IH [of c]) auto
  then show ?case
    using Cons.prems w by (subst pq_search.simps) auto
qed

text \<open>
  A pointer-level store sequence produces field functions; these three lemmas say which field
  functions represent the list after a link in front of the head, a link further down, and an
  unlink.
\<close>

definition pq_fields :: "(ptr \<rightharpoonup> ptr) \<Rightarrow> (ptr \<rightharpoonup> ptr) \<Rightarrow> (ptr \<rightharpoonup> int) \<Rightarrow> (ptr \<times> int) list \<Rightarrow> bool" where
  "pq_fields nx pv qp xs \<longleftrightarrow> dring nx pv (map fst xs) \<and> prio_rep qp xs"

lemma pq_rep_fields: "pq_rep h q xs \<longleftrightarrow>
   pq_fields (fld h q_next) (fld h q_prev) (fld h q_prio) xs \<and> NULL \<notin> fst ` set xs \<and>
   q_head q = list_hook (map fst xs) \<and> q_num q = int (length xs)"
  by (auto simp: pq_rep_def pq_fields_def)

lemma pq_fields_push:
  assumes "pq_fields nx pv qp ((x, px) # xs)" "t \<notin> fst ` set ((x, px) # xs)"
  shows "pq_fields (nx(t \<mapsto> x, fst (last ((x, px) # xs)) \<mapsto> t))
     (pv(t \<mapsto> fst (last ((x, px) # xs)), x \<mapsto> t)) (qp(t \<mapsto> p, x \<mapsto> p - px)) ((t, p) # (x, px) # xs)"
proof -
  have "dring nx pv (map fst ((x, px) # xs))"
    using assms(1) by (simp add: pq_fields_def)
  then have "dring (nx(t \<mapsto> x, fst (last ((x, px) # xs)) \<mapsto> t))
      (pv(t \<mapsto> fst (last ((x, px) # xs)), x \<mapsto> t)) (map fst ((t, p) # (x, px) # xs))"
    using dring_insert [of nx pv "map fst ((x, px) # xs)" t] assms(2)
    by (cases "xs = []") (simp_all add: last_map)
  moreover have "prel (qp(t \<mapsto> p, x \<mapsto> p - px)) px xs = prel qp px xs"
    using assms by (intro prel_cong) (force simp: pq_fields_def dest!: dring_distinct)
  ultimately show ?thesis
    using assms by (auto simp: pq_fields_def)
qed

lemma pq_fields_link:
  assumes f: "pq_fields nx pv qp (us @ ws)" and t: "t \<notin> fst ` set (us @ ws)" and us: "us \<noteq> []"
    and c_def: "c = fst (last us)" and pc_def: "pc = snd (last us)" and n_def: "n = fst (hd (ws @ us))"
  shows "pq_fields (nx(t \<mapsto> n, c \<mapsto> t)) (pv(t \<mapsto> c, n \<mapsto> t))
     (if ws = [] then qp(t \<mapsto> pc - p) else qp(t \<mapsto> pc - p, n \<mapsto> p - snd (hd ws))) (us @ (t, p) # ws)"
    (is "pq_fields ?nx ?pv ?qp _")
proof -
  let ?l = "map fst ws @ map fst us"
  have "dring nx pv ?l"
    using f dring_rotate [of nx pv "map fst us"] by (simp add: pq_fields_def)
  then have "dring (nx(t \<mapsto> hd ?l, last ?l \<mapsto> t)) (pv(t \<mapsto> last ?l, hd ?l \<mapsto> t)) (t # ?l)"
    using t us by (intro dring_insert) auto
  moreover have "hd ?l = n" "last ?l = c"
    using us by (auto simp: n_def c_def last_map hd_map hd_append)
  ultimately have ring: "dring ?nx ?pv (map fst (us @ (t, p) # ws))"
    using dring_rotate [of ?nx ?pv "map fst us" "t # map fst ws"] by simp
  have dist: "distinct (map fst (us @ ws))"
    using f unfolding pq_fields_def by (blast dest: dring_distinct)
  have pr: "prio_rep qp us" "prel qp pc ws"
    using f us by (auto simp: pq_fields_def prio_rep_append pc_def)
  have "prio_rep ?qp us = prio_rep qp us"
    using t dist by (intro prio_rep_cong) (cases ws; force simp: n_def)
  moreover have "prel ?qp p ws"
  proof (cases ws)
    case (Cons w ws')
    then have n: "n = fst w" "fst w \<notin> fst ` set ws'" "t \<notin> fst ` set ws'"
      using t dist by (auto simp: n_def)
    have "prel ?qp (snd w) ws' = prel qp (snd w) ws'"
    proof (rule prel_cong)
      fix x
      assume "x \<in> fst ` set ws'"
      then have "x \<noteq> t" "x \<noteq> n"
        using n by metis+
      then show "?qp x = qp x"
        by simp
    qed
    then show ?thesis
      using pr Cons by (cases w) (auto simp: n_def)
  qed simp
  moreover have "?qp t = Some (pc - p)"
    using t by (cases ws) (auto simp: n_def)
  ultimately show ?thesis
    using ring pr us by (simp add: pq_fields_def prio_rep_append pc_def)
qed

lemma pq_fields_unlink:
  assumes f: "pq_fields nx pv qp (us @ (t, p) # ws)" and ne: "us @ ws \<noteq> []"
    and c_def: "c = fst (last (ws @ us))" and n_def: "n = fst (hd (ws @ us))"
    and qp: "\<And>x. x \<in> fst ` set (us @ ws) \<Longrightarrow> x \<noteq> n \<Longrightarrow> qp' x = qp x"
    "us = [] \<Longrightarrow> qp' n = Some (snd (hd ws))"
    "us \<noteq> [] \<Longrightarrow> ws \<noteq> [] \<Longrightarrow> qp' n = Some (snd (last us) - snd (hd ws))"
    "us \<noteq> [] \<Longrightarrow> ws = [] \<Longrightarrow> qp' n = qp n"
  shows "pq_fields (nx(c \<mapsto> n)) (pv(n \<mapsto> c)) qp' (us @ ws)"
proof -
  let ?l = "map fst ws @ map fst us"
  have "dring nx pv (t # ?l)"
    using f dring_rotate [of nx pv "map fst us"] by (simp add: pq_fields_def)
  then have "dring (nx(last ?l \<mapsto> hd ?l)) (pv(hd ?l \<mapsto> last ?l)) ?l"
    using ne by (intro dring_remove) auto
  moreover have "hd ?l = n" "last ?l = c"
    using hd_map [of "ws @ us" fst] last_map [of "ws @ us" fst] ne by (auto simp: n_def c_def)
  ultimately have ring: "dring (nx(c \<mapsto> n)) (pv(n \<mapsto> c)) (map fst (us @ ws))"
    using dring_rotate by simp
  have dist: "distinct (map fst (us @ (t, p) # ws))"
    using f unfolding pq_fields_def by (blast dest: dring_distinct)
  have pr: "prio_rep qp (us @ (t, p) # ws)"
    using f by (simp add: pq_fields_def)
  have tail: "prel qp' (snd w) ws' = prel qp (snd w) ws'" if "ws = w # ws'" for w ws'
  proof (rule prel_cong, rule qp(1))
    fix x
    assume x: "x \<in> fst ` set ws'"
    then show "x \<in> fst ` set (us @ ws)"
      using that by auto
    have "n = fst w" "fst w \<notin> fst ` set ws'"
      using that dist by (auto simp: n_def)
    then show "x \<noteq> n"
      using x by metis
  qed
  have "prio_rep qp' (us @ ws)"
  proof (cases us)
    case Nil
    with ne obtain w ws' where "ws = w # ws'"
      by (cases ws) auto
    with Nil pr qp(2) tail show ?thesis
      by (cases w) (auto simp: n_def)
  next
    case (Cons u us')
    have us: "prio_rep qp' us = prio_rep qp us"
    proof (rule prio_rep_cong)
      fix x
      assume x: "x \<in> fst ` set us"
      show "qp' x = qp x"
      proof (cases "x = n")
        case True
        have "fst w \<notin> fst ` set us" if "ws = w # ws'" for w ws'
          using dist that by auto
        then have "ws = []"
          using True x by (cases ws) (auto simp: n_def)
        then show ?thesis
          using qp(4) True Cons by simp
      next
        case False
        then show ?thesis
          using qp(1) x by auto
      qed
    qed
    show ?thesis
    proof (cases ws)
      case Nil
      with us pr Cons show ?thesis
        using prio_rep_append [of us qp "[(t, p)]"] by simp
    next
      case (Cons w ws')
      with us pr \<open>us = u # us'\<close> qp(3) tail show ?thesis
        using prio_rep_append [of us qp "(t, p) # ws"] prio_rep_append [of us qp' ws]
        by (cases w) (auto simp: n_def)
    qed
  qed
  with ring show ?thesis
    by (simp add: pq_fields_def)
qed

lemma qstepI: "qheap A (tcbs s) h' \<Longrightarrow> qstep q A s (s\<lparr>tcbs := h', queues := (queues s)(q := Q')\<rparr>)"
  by (auto simp: qstep_def)

lemma qstep_refl [simp]: "qstep q A s s"
  using qstepI [of A s "tcbs s" q "queues s q"] by simp

lemma pq_rep_head:
  assumes "pq_rep h q ((x, px) # xs)"
  shows "q_head q = x" "x \<noteq> NULL" "x \<in> dom h" "q_num q = int (length xs) + 1"
    "fld h q_prio x = Some px" "fld h q_next x = Some (hd (map fst xs @ [x]))"
    "fld h q_prev x = Some (fst (last ((x, px) # xs)))"
  using assms pq_rep_mem [OF assms, of x]
  by (auto simp: pq_rep_def last_map dest!: dring_head)

lemma pq_insert_empty:
  assumes "pq_rep (tcbs s) (queues s q) []" "t \<in> dom (tcbs s)" "t \<noteq> NULL"
  shows "\<exists>s'. pth_pqueue_insert (Some q) p t s = Some s' \<and>
    pq_rep (tcbs s') (queues s' q) [(t, p)] \<and> qstep q {t} s s'"
proof -
  define h' where "h' = upd (upd (upd (tcbs s) t (q_prev_update (\<lambda>_. t)))
     t (q_next_update (\<lambda>_. t))) t (q_prio_update (\<lambda>_. p))"
  define s' where "s' = s\<lparr>tcbs := h', queues := (queues s)(q := \<lparr>q_head = t, q_num = 1\<rparr>)\<rparr>"
  have "pth_pqueue_insert (Some q) p t s = Some s'"
    using assms by (simp add: pth_pqueue_insert_def heap_simps q_set_def s'_def h'_def)
  moreover have "pq_rep (tcbs s') (queues s' q) [(t, p)]"
    using assms by (auto simp: pq_rep_def s'_def h'_def heap_simps dring_single fld_def)
  moreover have "qstep q {t} s s'"
    unfolding s'_def h'_def by (intro qstepI qheap_upd qheap_refl) auto
  ultimately show ?thesis by blast
qed

lemma pq_insert_front:
  assumes rep: "pq_rep (tcbs s) (queues s q) ((x, px) # xs)"
    and t: "t \<in> dom (tcbs s)" "t \<noteq> NULL" "t \<notin> fst ` set ((x, px) # xs)" and p: "px < p"
  shows "\<exists>s'. pth_pqueue_insert (Some q) p t s = Some s' \<and>
    pq_rep (tcbs s') (queues s' q) ((t, p) # (x, px) # xs) \<and>
    qstep q (insert t (fst ` set ((x, px) # xs))) s s'"
proof -
  let ?h = "tcbs s" and ?l = "fst (last ((x, px) # xs))"
  note hd = pq_rep_head [OF rep]
  have l: "?l \<in> fst ` set ((x, px) # xs)"
    by (intro imageI last_in_set) simp
  then have l': "?l \<in> dom ?h" "?l \<noteq> t"
    using pq_rep_mem [OF rep] t(3) by metis+
  have xt: "x \<noteq> t"
    using t(3) by auto
  define h' where "h' = upd (upd (upd (upd (upd (upd ?h t (q_prev_update (\<lambda>_. ?l)))
     t (q_next_update (\<lambda>_. x))) ?l (q_next_update (\<lambda>_. t))) x (q_prev_update (\<lambda>_. t)))
     t (q_prio_update (\<lambda>_. p))) x (q_prio_update (\<lambda>z. p - z))"
  define s' where
    "s' = s\<lparr>tcbs := h', queues := (queues s)(q := \<lparr>q_head = t, q_num = 2 + int (length xs)\<rparr>)\<rparr>"
  have Q: "queues s q = \<lparr>q_head = x, q_num = int (length xs) + 1\<rparr>"
    using hd by (cases "queues s q") simp
  obtain tp where tp: "fld ?h q_prio t = Some tp"
    using t(1) by (auto simp: fld_def)
  have "pth_pqueue_insert (Some q) p t s = Some s'"
    using Q hd(2-7) l' xt t(1,2) p tp unfolding pth_pqueue_insert_def s'_def h'_def
    by (simp add: heap_simps q_set_def del: last.simps)
  moreover have "fld h' q_next = (fld ?h q_next)(t \<mapsto> x, ?l \<mapsto> t)"
    "fld h' q_prev = (fld ?h q_prev)(t \<mapsto> ?l, x \<mapsto> t)"
    "fld h' q_prio = (fld ?h q_prio)(t \<mapsto> p, x \<mapsto> p - px)"
    using hd l' xt t(1) by (auto simp: h'_def heap_simps fld_def simp del: last.simps)
  then have "pq_rep (tcbs s') (queues s' q) ((t, p) # (x, px) # xs)"
    using pq_fields_push [of _ _ _ x px xs t p] rep t(2,3)
    by (simp add: pq_rep_fields s'_def del: last.simps)
  moreover have "qstep q (insert t (fst ` set ((x, px) # xs))) s s'"
    unfolding s'_def h'_def using l by (intro qstepI qheap_upd qheap_refl) auto
  ultimately show ?thesis by blast
qed

lemma pq_insert_middle:
  assumes rep: "pq_rep (tcbs s) (queues s q) (us @ ws)" and us: "us \<noteq> []"
    and t: "t \<in> dom (tcbs s)" "t \<noteq> NULL" "t \<notin> fst ` set (us @ ws)"
    and hd: "p \<le> snd (hd us)"
    and srch: "pq_search (fst (hd us)) p (tcbs s) (fst (hd us)) (snd (hd us)) = Some (last us)"
  shows "\<exists>s'. pth_pqueue_insert (Some q) p t s = Some s' \<and>
    pq_rep (tcbs s') (queues s' q) (us @ (t, p) # ws) \<and> qstep q (insert t (fst ` set (us @ ws))) s s'"
proof -
  let ?h = "tcbs s"
  define c where "c = fst (last us)"
  define pc where "pc = snd (last us)"
  define n where "n = fst (hd (ws @ us))"
  define x where "x = fst (hd us)"
  define us' where "us' = butlast us"
  have us': "us = us' @ [(c, pc)]"
    using us by (simp add: us'_def c_def pc_def)
  have mem: "c \<in> fst ` set (us @ ws)" "n \<in> fst ` set (us @ ws)" "x \<in> fst ` set (us @ ws)"
    using us last_in_set [OF us] hd_in_set [OF us] hd_in_set [of "ws @ us"]
    by (auto simp: c_def n_def x_def simp del: last_in_set hd_in_set)
  then have dom: "c \<in> dom ?h" "n \<in> dom ?h" "x \<in> dom ?h" "x \<noteq> NULL" "c \<noteq> t" "n \<noteq> t"
    using pq_rep_mem [OF rep] t(3) by metis+
  have rr: "dring (fld ?h q_next) (fld ?h q_prev) (map fst us' @ c # map fst ws)"
    using rep us' by (simp add: pq_rep_def)
  have nx: "fld ?h q_next c = Some n"
    using dring_nx [OF rr] us' by (cases ws; cases us') (auto simp: n_def)
  have nhead: "n = x \<longleftrightarrow> ws = []"
    using us pq_rep_distinct [OF rep] by (cases ws; cases us) (auto simp: n_def x_def)
  have hp: "fld ?h q_prio x = Some (snd (hd us))" "q_head (queues s q) = x"
    "q_num (queues s q) = int (length us + length ws)"
    using rep us by (cases us; auto simp: pq_rep_def x_def)+
  have pn: "ws \<noteq> [] \<Longrightarrow> fld ?h q_prio n = Some (pc - snd (hd ws))"
    using rep us by (cases ws) (auto simp: pq_rep_def prio_rep_append n_def pc_def)
  define h1 where "h1 = upd (upd (upd (upd (upd ?h t (q_prev_update (\<lambda>_. c)))
     t (q_next_update (\<lambda>_. n))) c (q_next_update (\<lambda>_. t))) n (q_prev_update (\<lambda>_. t)))
     t (q_prio_update (\<lambda>_. pc - p))"
  define h' where "h' = (if ws = [] then h1 else upd h1 n (q_prio_update (\<lambda>z. z - (pc - p))))"
  define s' where
    "s' = s\<lparr>tcbs := h', queues := (queues s)(q := \<lparr>q_head = x, q_num = int (length us + length ws) + 1\<rparr>)\<rparr>"
  have Q: "queues s q = \<lparr>q_head = x, q_num = int (length us + length ws)\<rparr>"
    using hp by (cases "queues s q") simp
  obtain tp where tp: "fld ?h q_prio t = Some tp"
    using t(1) by (auto simp: fld_def)
  have nz: "int (length us + length ws) \<noteq> 0"
    using us by (cases us) auto
  have srch': "pq_search x p ?h x (snd (hd us)) = Some (c, pc)"
    using srch by (simp add: x_def c_def pc_def)
  have "pth_pqueue_insert (Some q) p t s = Some s'"
    using dom nx hp(1) Q nz us t(1,2) hd nhead srch' tp
    unfolding pth_pqueue_insert_def s'_def h'_def h1_def
    by (cases "ws = []") (simp_all add: heap_simps q_set_def del: of_nat_add)
  moreover have "fld h' q_next = (fld ?h q_next)(t \<mapsto> n, c \<mapsto> t)"
    "fld h' q_prev = (fld ?h q_prev)(t \<mapsto> c, n \<mapsto> t)"
    "fld h' q_prio = (if ws = [] then (fld ?h q_prio)(t \<mapsto> pc - p)
       else (fld ?h q_prio)(t \<mapsto> pc - p, n \<mapsto> p - snd (hd ws)))"
    using dom t(1) pn by (auto simp: h'_def h1_def heap_simps fld_def)
  then have "pq_fields (fld h' q_next) (fld h' q_prev) (fld h' q_prio) (us @ (t, p) # ws)"
    using pq_fields_link [OF _ t(3) us c_def pc_def n_def, of "fld ?h q_next"] rep
    by (simp only: pq_rep_fields)
  then have "pq_rep (tcbs s') (queues s' q) (us @ (t, p) # ws)"
    using rep t(2) us by (simp add: pq_rep_fields s'_def x_def hd_map)
  moreover have "qstep q (insert t (fst ` set (us @ ws))) s s'"
  proof -
    let ?A = "insert t (fst ` set (us @ ws))"
    have A: "c \<in> ?A" "n \<in> ?A" "t \<in> ?A"
      using mem by simp_all
    then have "qheap ?A ?h h1"
      unfolding h1_def by (intro qheap_upd qheap_refl)
    with A have "qheap ?A ?h h'"
      unfolding h'_def by (split if_split) (blast intro: qheap_upd)
    then show ?thesis
      unfolding s'_def by (rule qstepI)
  qed
  ultimately show ?thesis by blast
qed

theorem pth_pqueue_insert_spec:
  assumes rep: "pq_rep (tcbs s) (queues s q) xs"
    and t: "t \<in> dom (tcbs s)" "t \<noteq> NULL" "t \<notin> fst ` set xs"
  shows "\<exists>s'. pth_pqueue_insert (Some q) p t s = Some s' \<and>
    pq_rep (tcbs s') (queues s' q) (pq_ins t p xs) \<and> qstep q (insert t (fst ` set xs)) s s'"
proof (cases xs)
  case Nil
  then show ?thesis
    using pq_insert_empty [of s q t p] assms by (simp add: pq_ins_def)
next
  case (Cons x ys)
  obtain h0 p0 where x: "x = (h0, p0)"
    by (cases x)
  show ?thesis
  proof (cases "p0 < p")
    case True
    then show ?thesis
      using pq_insert_front [of s q h0 p0 ys t p] assms Cons x by (simp add: pq_ins_def)
  next
    case False
    define us where "us = takeWhile (\<lambda>x. p \<le> snd x) xs"
    define ws where "ws = dropWhile (\<lambda>x. p \<le> snd x) xs"
    have us: "us = (h0, p0) # takeWhile (\<lambda>x. p \<le> snd x) ys" "us @ ws = xs"
      using Cons x False by (auto simp: us_def ws_def)
    have "dseg (fld (tcbs s) q_next) (fld (tcbs s) q_prev) (last (map fst xs)) (h0 # map fst ys) h0"
      "prel (fld (tcbs s) q_prio) p0 ys" "h0 \<notin> fst ` set ys"
      using rep Cons x pq_rep_distinct [OF rep] by (auto simp: pq_rep_def dring_def)
    then have "pq_search h0 p (tcbs s) h0 p0 = Some (last us)"
      using pq_search_spec pq_rep_head(3) rep Cons x us(1) by metis
    moreover have "us \<noteq> []" "hd us = (h0, p0)"
      using us(1) by simp_all
    ultimately show ?thesis
      using pq_insert_middle [of s q us ws t p] rep t us(2) False
      by (simp add: pq_ins_def us_def [symmetric] ws_def [symmetric])
  qed
qed

lemma pq_make_empty_spec:
  assumes rep: "pq_rep (tcbs s) (queues s q) [(t, p)]"
  shows "\<exists>s'. pq_make_empty q t s = Some s' \<and> pq_rep (tcbs s') (queues s' q) [] \<and> qstep q {t} s s'"
proof -
  define h' where "h' = upd (upd (upd (tcbs s) t (q_next_update (\<lambda>_. NULL)))
     t (q_prev_update (\<lambda>_. NULL))) t (q_prio_update (\<lambda>_. 0))"
  define s' where "s' = s\<lparr>tcbs := h', queues := (queues s)(q := \<lparr>q_head = NULL, q_num = 0\<rparr>)\<rparr>"
  have "queues s q = \<lparr>q_head = t, q_num = 1\<rparr>"
    using pq_rep_head [OF rep] by (cases "queues s q") simp
  then have "pq_make_empty q t s = Some s'"
    using pq_rep_head(3) [OF rep] by (simp add: pq_make_empty_def heap_simps q_set_def s'_def h'_def)
  moreover have "qstep q {t} s s'"
    unfolding s'_def h'_def by (intro qstepI qheap_upd qheap_refl) auto
  ultimately show ?thesis
    by (simp add: s'_def)
qed

lemma pq_drop_head_spec:
  assumes rep: "pq_rep (tcbs s) (queues s q) ((t, p) # (x, px) # xs)"
  shows "\<exists>s'. pq_drop_head q t s = Some s' \<and> pq_rep (tcbs s') (queues s' q) ((x, px) # xs) \<and>
    qstep q (fst ` set ((t, p) # (x, px) # xs)) s s'"
proof -
  let ?h = "tcbs s"
  define l where "l = fst (last ((x, px) # xs))"
  have lm: "l \<in> fst ` set ((x, px) # xs)"
    unfolding l_def by (intro imageI last_in_set) simp
  note hd = pq_rep_head [OF rep]
  have dist: "t \<notin> fst ` set ((x, px) # xs)"
    using pq_rep_distinct [OF rep] by auto
  then have dom: "l \<in> dom ?h" "l \<noteq> t" "x \<in> dom ?h" "x \<noteq> t"
    using pq_rep_mem [OF rep] lm by auto
  have px: "fld ?h q_prio x = Some (p - px)" "fld ?h q_prev t = Some l" "fld ?h q_next t = Some x"
    using rep hd by (auto simp: pq_rep_def l_def)
  have Q: "queues s q = \<lparr>q_head = t, q_num = 2 + int (length xs)\<rparr>"
    using hd by (cases "queues s q") simp
  define h' where "h' = upd (upd (upd (upd ?h l (q_next_update (\<lambda>_. x))) x (q_prev_update (\<lambda>_. l)))
     x (q_prio_update (\<lambda>z. p - z))) t (q_prio_update (\<lambda>_. 0))"
  define s' where
    "s' = s\<lparr>tcbs := h', queues := (queues s)(q := \<lparr>q_head = x, q_num = 1 + int (length xs)\<rparr>)\<rparr>"
  have "pq_drop_head q t s = Some s'"
    using Q px dom hd(2,3,5) unfolding pq_drop_head_def s'_def h'_def
    by (simp add: heap_simps q_set_def)
  moreover have f: "fld h' q_next = (fld ?h q_next)(l \<mapsto> x)" "fld h' q_prev = (fld ?h q_prev)(x \<mapsto> l)"
    "fld h' q_prio = (fld ?h q_prio)(x \<mapsto> px, t \<mapsto> 0)"
    using px dom hd(3,5) by (simp_all add: h'_def heap_simps)
  have "pq_fields (fld h' q_next) (fld h' q_prev) (fld h' q_prio) ([] @ (x, px) # xs)"
    unfolding f
  proof (rule pq_fields_unlink)
    show "pq_fields (fld ?h q_next) (fld ?h q_prev) (fld ?h q_prio) ([] @ (t, p) # (x, px) # xs)"
      using rep by (simp add: pq_rep_fields)
    fix z
    assume "z \<in> fst ` set ([] @ (x, px) # xs)" "z \<noteq> x"
    then show "((fld ?h q_prio)(x \<mapsto> px, t \<mapsto> 0)) z = fld ?h q_prio z"
      using dist by auto
  qed (use dom in \<open>simp_all add: l_def\<close>)
  then have "pq_rep (tcbs s') (queues s' q) ((x, px) # xs)"
    using rep by (simp add: pq_rep_fields s'_def)
  moreover have "qstep q (fst ` set ((t, p) # (x, px) # xs)) s s'"
    unfolding s'_def h'_def using lm by (intro qstepI qheap_upd qheap_refl) auto
  ultimately show ?thesis by blast
qed

theorem pth_pqueue_delmax_spec:
  assumes rep: "pq_rep (tcbs s) (queues s q) ((t, p) # xs)"
  shows "\<exists>s'. pth_pqueue_delmax (Some q) s = Some (t, s') \<and> pq_rep (tcbs s') (queues s' q) xs \<and>
    qstep q (fst ` set ((t, p) # xs)) s s'"
proof (cases xs)
  case Nil
  then show ?thesis
    using pq_make_empty_spec [of s q t p] pq_rep_head [OF rep] rep
    by (auto simp: pth_pqueue_delmax_def heap_simps)
next
  case (Cons x ys)
  have "fst x \<noteq> t"
    using pq_rep_distinct [OF rep] Cons by auto
  then show ?thesis
    using pq_drop_head_spec [of s q t p "fst x" "snd x" ys] pq_rep_head [OF rep] rep Cons
    by (auto simp: pth_pqueue_delmax_def heap_simps)
qed

lemma pth_pqueue_delmax_empty:
  "pq_rep (tcbs s) (queues s q) [] \<Longrightarrow> pth_pqueue_delmax (Some q) s = Some (NULL, s)"
  by (simp add: pth_pqueue_delmax_def)

lemma pq_delete_middle:
  assumes rep: "pq_rep (tcbs s) (queues s q) (us @ (t, p) # ws)" and us: "us \<noteq> []"
  shows "\<exists>s'. pth_pqueue_delete (Some q) t s = Some s' \<and> pq_rep (tcbs s') (queues s' q) (us @ ws) \<and>
    qstep q (fst ` set (us @ (t, p) # ws)) s s'"
proof -
  let ?h = "tcbs s"
  define c where "c = fst (last us)"
  define pc where "pc = snd (last us)"
  define n where "n = fst (hd (ws @ us))"
  define x where "x = fst (hd us)"
  have mem: "c \<in> fst ` set (us @ ws)" "n \<in> fst ` set (us @ ws)" "x \<in> fst ` set (us @ ws)"
    using us last_in_set [OF us] hd_in_set [OF us] hd_in_set [of "ws @ us"]
    by (auto simp: c_def n_def x_def simp del: last_in_set hd_in_set)
  have dist: "t \<notin> fst ` set (us @ ws)"
    using pq_rep_distinct [OF rep] by auto
  then have dom: "c \<in> dom ?h" "n \<in> dom ?h" "x \<noteq> NULL" "x \<noteq> t" "c \<noteq> t" "n \<noteq> t" "t \<in> dom ?h"
    using pq_rep_mem [OF rep] mem by auto
  have rr: "dring (fld ?h q_next) (fld ?h q_prev) (map fst us @ t # map fst ws)"
    using rep by (simp add: pq_rep_def)
  have nx: "fld ?h q_next t = Some n" "fld ?h q_prev t = Some c"
    using dring_nx [OF rr] dring_pv [OF rr] us
    by (auto simp: n_def c_def last_map hd_map hd_append)
  have nhead: "n = x \<longleftrightarrow> ws = []"
    using us pq_rep_distinct [OF rep] by (cases ws; cases us) (auto simp: n_def x_def)
  have qp: "fld ?h q_prio t = Some (pc - p)" "ws \<noteq> [] \<Longrightarrow> fld ?h q_prio n = Some (p - snd (hd ws))"
    using rep us by (auto simp: pq_rep_def prio_rep_append pc_def n_def neq_Nil_conv)
  have Q: "queues s q = \<lparr>q_head = x, q_num = 1 + int (length us + length ws)\<rparr>"
    using rep us by (cases "queues s q"; cases us) (auto simp: pq_rep_def x_def)
  define h1 where "h1 = upd (upd ?h c (q_next_update (\<lambda>_. n))) n (q_prev_update (\<lambda>_. c))"
  define h2 where "h2 = (if ws = [] then h1 else upd h1 n (q_prio_update (\<lambda>z. z + (pc - p))))"
  define h' where "h' = upd h2 t (q_prio_update (\<lambda>_. 0))"
  define s' where
    "s' = s\<lparr>tcbs := h', queues := (queues s)(q := \<lparr>q_head = x, q_num = int (length us + length ws)\<rparr>)\<rparr>"
  have "pth_pqueue_delete (Some q) t s = Some s'"
    using Q dom nx qp nhead unfolding pth_pqueue_delete_def s'_def h'_def h2_def h1_def
    by (cases "ws = []") (simp_all add: heap_simps q_set_def)
  moreover have f: "fld h' q_next = (fld ?h q_next)(c \<mapsto> n)" "fld h' q_prev = (fld ?h q_prev)(n \<mapsto> c)"
    "fld h' q_prio = (if ws = [] then (fld ?h q_prio)(t \<mapsto> 0)
       else (fld ?h q_prio)(n \<mapsto> pc - snd (hd ws), t \<mapsto> 0))"
    using dom qp by (simp_all add: h'_def h2_def h1_def heap_simps)
  have "pq_fields (fld h' q_next) (fld h' q_prev) (fld h' q_prio) (us @ ws)"
  proof -
    have "pq_fields (fld ?h q_next) (fld ?h q_prev) (fld ?h q_prio) (us @ (t, p) # ws)"
      using rep by (simp add: pq_rep_fields)
    then show ?thesis
      unfolding f
    proof (rule pq_fields_unlink)
      fix z
      assume "z \<in> fst ` set (us @ ws)" "z \<noteq> n"
      then show "(if ws = [] then (fld ?h q_prio)(t \<mapsto> 0)
       else (fld ?h q_prio)(n \<mapsto> pc - snd (hd ws), t \<mapsto> 0)) z = fld ?h q_prio z"
        using dist by auto
    qed (use us dom(6) in \<open>simp_all add: c_def n_def pc_def\<close>)
  qed
  then have "pq_rep (tcbs s') (queues s' q) (us @ ws)"
    using rep us by (cases us) (auto simp: pq_rep_fields s'_def x_def)
  moreover have "qstep q (fst ` set (us @ (t, p) # ws)) s s'"
  proof -
    let ?A = "fst ` set (us @ (t, p) # ws)"
    have A: "c \<in> ?A" "n \<in> ?A" "t \<in> ?A"
      using mem by auto
    then have "qheap ?A ?h h1"
      unfolding h1_def by (intro qheap_upd qheap_refl)
    with A have "qheap ?A ?h h2"
      unfolding h2_def by (split if_split) (blast intro: qheap_upd)
    with A have "qheap ?A ?h h'"
      unfolding h'_def by (blast intro: qheap_upd)
    then show ?thesis
      unfolding s'_def by (rule qstepI)
  qed
  ultimately show ?thesis by blast
qed

theorem pth_pqueue_delete_spec:
  assumes rep: "pq_rep (tcbs s) (queues s q) (us @ (t, p) # ws)"
  shows "\<exists>s'. pth_pqueue_delete (Some q) t s = Some s' \<and> pq_rep (tcbs s') (queues s' q) (us @ ws) \<and>
    qstep q (fst ` set (us @ (t, p) # ws)) s s'"
proof (cases us)
  case Nil
  then have rep': "pq_rep (tcbs s) (queues s q) ((t, p) # ws)"
    using rep by simp
  show ?thesis
  proof (cases ws)
    case Nil
    then show ?thesis
      using pq_make_empty_spec [of s q t p] pq_rep_head [OF rep'] rep' \<open>us = []\<close>
      by (auto simp: pth_pqueue_delete_def heap_simps)
  next
    case (Cons x ys)
    have "fst x \<noteq> t"
      using pq_rep_distinct [OF rep'] Cons by auto
    then show ?thesis
      using pq_drop_head_spec [of s q t p "fst x" "snd x" ys] pq_rep_head [OF rep'] rep' Cons \<open>us = []\<close>
      by (auto simp: pth_pqueue_delete_def heap_simps)
  qed
next
  case (Cons u us')
  then show ?thesis
    using pq_delete_middle [OF rep] by simp
qed

definition pq_inc :: "(ptr \<times> int) list \<Rightarrow> (ptr \<times> int) list" where
  "pq_inc xs = map (\<lambda>x. (fst x, snd x + 1)) xs"

lemma pq_inc_simps [simp]:
  "map fst (pq_inc xs) = map fst xs" "length (pq_inc xs) = length xs"
  "fst ` set (pq_inc xs) = fst ` set xs" "pq_inc [] = []"
  "pq_inc ((t, p) # xs) = (t, p + 1) # pq_inc xs"
  by (auto simp: pq_inc_def image_image)

lemma pq_inc_sorted: "pq_sorted xs \<Longrightarrow> pq_sorted (pq_inc xs)"
  by (simp add: pq_sorted_def pq_inc_def sorted_wrt_map)

lemma prel_inc: "prel q p xs \<Longrightarrow> prel q (p + 1) (pq_inc xs)"
  by (induction q p xs rule: prel.induct) auto

text \<open>Adding one to the head of the queue adds one to the absolute priority of every thread.\<close>

theorem pth_pqueue_increase_spec:
  assumes rep: "pq_rep (tcbs s) (queues s q) xs"
  shows "\<exists>s'. pth_pqueue_increase (Some q) s = Some s' \<and>
    pq_rep (tcbs s') (queues s' q) (pq_inc xs) \<and> qstep q (fst ` set xs) s s'"
proof (cases xs)
  case Nil
  then show ?thesis
    using rep by (simp add: pth_pqueue_increase_def)
next
  case (Cons x ys)
  obtain t p where x: "x = (t, p)"
    by (cases x)
  note hd = pq_rep_head [OF rep [unfolded Cons x]]
  define h' where "h' = upd (tcbs s) t (q_prio_update (\<lambda>z. z + 1))"
  define s' where "s' = s\<lparr>tcbs := h', queues := (queues s)(q := queues s q)\<rparr>"
  have f: "fld h' q_next = fld (tcbs s) q_next" "fld h' q_prev = fld (tcbs s) q_prev"
    "fld h' q_prio = (fld (tcbs s) q_prio)(t \<mapsto> p + 1)"
    using hd(5) by (simp_all add: h'_def heap_simps)
  have "t \<notin> fst ` set ys"
    using pq_rep_distinct [OF rep] Cons x by auto
  then have "prel ((fld (tcbs s) q_prio)(t \<mapsto> p + 1)) p ys = prel (fld (tcbs s) q_prio) p ys"
    by (intro prel_cong) (auto simp: image_iff)
  then have "prel ((fld (tcbs s) q_prio)(t \<mapsto> p + 1)) (p + 1) (pq_inc ys)"
    using rep Cons x prel_inc by (simp add: pq_rep_def)
  then have "pq_rep (tcbs s') (queues s' q) (pq_inc xs)"
    using rep Cons x by (simp add: pq_rep_def s'_def f)
  moreover have "pth_pqueue_increase (Some q) s = Some s'"
    using hd by (simp add: pth_pqueue_increase_def heap_simps s'_def h'_def)
  moreover have "qstep q (fst ` set xs) s s'"
    unfolding s'_def h'_def using Cons x by (intro qstepI qheap_upd qheap_refl) simp
  ultimately show ?thesis by blast
qed

lemma pth_pqueue_elements_spec:
  "pq_rep (tcbs s) (queues s q) xs \<Longrightarrow> pth_pqueue_elements (Some q) s = int (length xs)"
  by (simp add: pth_pqueue_elements_def pq_rep_def)

lemma pth_pqueue_head_spec:
  "pq_rep (tcbs s) (queues s q) xs \<Longrightarrow> pth_pqueue_head (Some q) s = list_hook (map fst xs)"
  by (simp add: pth_pqueue_head_def pq_rep_def)

lemma pth_pqueue_tail_spec:
  assumes rep: "pq_rep (tcbs s) (queues s q) xs"
  shows "pth_pqueue_tail (Some q) s = Some (if xs = [] then NULL else fst (last xs))"
proof (cases xs)
  case Nil
  with rep show ?thesis by (simp add: pth_pqueue_tail_def)
next
  case (Cons x ys)
  with rep show ?thesis
    using pq_rep_head [of "tcbs s" "queues s q" "fst x" "snd x" ys]
    by (simp add: pth_pqueue_tail_def heap_simps del: last.simps)
qed

lemma pth_pqueue_walk_next_spec:
  assumes rep: "pq_rep (tcbs s) (queues s q) (us @ (x, px) # ws)"
  shows "pth_pqueue_walk (Some q) x PTH_WALK_NEXT s = Some (list_hook (map fst ws))"
proof -
  have rr: "dring (fld (tcbs s) q_next) (fld (tcbs s) q_prev) (map fst us @ x # map fst ws)"
    and hd: "q_head (queues s q) = list_hook (map fst us @ x # map fst ws)"
    using rep by (simp_all add: pq_rep_def)
  have "x \<noteq> NULL" and dist: "distinct (map fst us @ x # map fst ws)"
    using pq_rep_mem [OF rep, of x] pq_rep_distinct [OF rep] by auto
  moreover have "ws \<noteq> [] \<Longrightarrow> fst (hd ws) \<noteq> q_head (queues s q)"
    using dist hd by (cases us; cases ws) auto
  ultimately show ?thesis
    using dring_nx [OF rr] hd
    by (cases ws; cases us) (auto simp: pth_pqueue_walk_def heap_simps)
qed

lemma pq_contains_loop_spec:
  assumes "pq_rep (tcbs s) (queues s q) (us @ ws)"
  shows "pq_contains_loop (Some q) t s (list_hook (map fst ws)) = Some (t \<in> fst ` set ws)"
  using assms
proof (induction ws arbitrary: us)
  case Nil
  then show ?case by (subst pq_contains_loop.simps) simp
next
  case (Cons w ws)
  obtain x px where w: "w = (x, px)"
    by (cases w)
  have "pq_contains_loop (Some q) t s (list_hook (map fst ws)) = Some (t \<in> fst ` set ws)"
    using Cons.IH [of "us @ [w]"] Cons.prems by simp
  moreover have "pth_pqueue_walk (Some q) x PTH_WALK_NEXT s = Some (list_hook (map fst ws))"
    using pth_pqueue_walk_next_spec Cons.prems w by blast
  moreover have "x \<noteq> NULL"
    using pq_rep_mem [OF Cons.prems, of x] w by simp
  ultimately show ?case
    using w by (subst pq_contains_loop.simps) auto
qed

theorem pth_pqueue_contains_spec:
  assumes "pq_rep (tcbs s) (queues s q) xs"
  shows "pth_pqueue_contains (Some q) t s = Some (t \<in> fst ` set xs)"
  using pq_contains_loop_spec [of s q "[]" xs] assms
  by (simp add: pth_pqueue_contains_def pth_pqueue_head_spec [OF assms])

definition fav_prio :: "(ptr \<times> int) list \<Rightarrow> int" where
  "fav_prio xs = (case xs of [] \<Rightarrow> PTH_PRIO_MAX | x # _ \<Rightarrow> snd x + 1)"

lemma pth_pqueue_favorite_prio_spec:
  assumes rep: "pq_rep (tcbs s) (queues s q) xs"
  shows "pth_pqueue_favorite_prio q s = Some (fav_prio xs)"
proof (cases xs)
  case Nil
  with rep show ?thesis by (simp add: pth_pqueue_favorite_prio_def fav_prio_def)
next
  case (Cons x ys)
  with rep show ?thesis
    using pq_rep_head [of "tcbs s" "queues s q" "fst x" "snd x" ys]
    by (simp add: pth_pqueue_favorite_prio_def heap_simps fav_prio_def)
qed

lemma pq_ins_favorite: "pq_ins t (fav_prio xs) xs = (t, fav_prio xs) # xs"
  by (cases xs) (auto simp: pq_ins_def fav_prio_def)

lemma qstep_trans:
  assumes "qstep q A s s'" "qstep q A s' s''"
  shows "qstep q A s s''"
proof -
  obtain h1 Q1 h2 Q2 where 1: "s' = s\<lparr>tcbs := h1, queues := (queues s)(q := Q1)\<rparr>" "qheap A (tcbs s) h1"
    and 2: "s'' = s'\<lparr>tcbs := h2, queues := (queues s')(q := Q2)\<rparr>" "qheap A (tcbs s') h2"
    using assms by (auto simp: qstep_def)
  have "s'' = s\<lparr>tcbs := h2, queues := (queues s)(q := Q2)\<rparr>"
    using 1(1) 2(1) by simp
  moreover have "qheap A (tcbs s) h2"
    using qheap_trans [OF 1(2)] 1(1) 2(2) by simp
  ultimately show ?thesis
    by (simp add: qstepI)
qed

lemma qstep_mono: "qstep q A s s' \<Longrightarrow> A \<subseteq> B \<Longrightarrow> qstep q B s s'"
  by (auto simp: qstep_def qheap_def)

lemma qstep_dom: "qstep q A s s' \<Longrightarrow> dom (tcbs s') = dom (tcbs s)"
  unfolding qstep_def using qheap_dom by fastforce

text \<open>After \<^verbatim>\<open>pth_pqueue_favorite\<close> the thread is at the top of its queue.\<close>

theorem pth_pqueue_favorite_spec:
  assumes rep: "pq_rep (tcbs s) (queues s q) (us @ (t, p) # ws)"
  shows "\<exists>s' p'. pth_pqueue_favorite (Some q) t s = Some (True, s') \<and>
    pq_rep (tcbs s') (queues s' q) ((t, p') # us @ ws) \<and> qstep q (fst ` set (us @ (t, p) # ws)) s s'"
proof (cases "us @ ws = []")
  case True
  then show ?thesis
    using rep pq_rep_head [of "tcbs s" "queues s q" t p "[]"]
    by (auto simp: pth_pqueue_favorite_def)
next
  case False
  let ?A = "fst ` set (us @ (t, p) # ws)"
  obtain s1 where s1: "pth_pqueue_delete (Some q) t s = Some s1"
    "pq_rep (tcbs s1) (queues s1 q) (us @ ws)" "qstep q ?A s s1"
    using pth_pqueue_delete_spec [OF rep] by blast
  have t: "t \<in> dom (tcbs s1)" "t \<noteq> NULL" "t \<notin> fst ` set (us @ ws)"
    using pq_rep_mem [OF rep, of t] qstep_dom [OF s1(3)] pq_rep_distinct [OF rep] by auto
  obtain s2 where s2: "pth_pqueue_insert (Some q) (fav_prio (us @ ws)) t s1 = Some s2"
    "pq_rep (tcbs s2) (queues s2 q) (pq_ins t (fav_prio (us @ ws)) (us @ ws))"
    "qstep q (insert t (fst ` set (us @ ws))) s1 s2"
    using pth_pqueue_insert_spec [OF s1(2) t] by blast
  have q2: "qstep q ?A s s2"
    using qstep_trans [OF s1(3)] s2(3) by (simp add: insert_commute Un_commute)
  have "q_head (queues s q) \<noteq> NULL" "q_num (queues s q) = int (length (us @ ws)) + 1"
    using rep pq_rep_mem [OF rep] by (cases us; auto simp: pq_rep_def)+
  moreover have "int (length us) + int (length ws) \<noteq> 0"
    using False by (cases us; cases ws) auto
  ultimately have "pth_pqueue_favorite (Some q) t s = Some (True, s2)"
    using s1(1) s2(1) False pth_pqueue_favorite_prio_spec [OF s1(2)]
    by (simp add: pth_pqueue_favorite_def)
  then show ?thesis
    using s2(2) q2 by (auto simp: pq_ins_favorite)
qed

end
