(* ===== verification/Pth_Queues.thy ===== *)
theory Pth_Queues
  imports Pth_Pqueue "HOL-Library.Multiset"
begin

text \<open>
  The five thread queues together. \<open>queues_ok s L\<close> says that queue \<open>q\<close> holds the list \<open>L q\<close>
  and that no thread is in two queues. The locale \<open>thread_queues\<close> is the interface the
  scheduler, the cancellation and the thread library code rely on: what insertion, deletion
  and \<^verbatim>\<open>delmax\<close> do to the lists; it is interpreted on the pointer-level operations.
\<close>

type_synonym qlists = "qid \<Rightarrow> (ptr \<times> int) list"

definition queues_ok :: "'a thread_state_scheme \<Rightarrow> qlists \<Rightarrow> bool" where
  "queues_ok s L \<longleftrightarrow> (\<forall>q. pq_rep (tcbs s) (queues s q) (L q)) \<and>
     (\<forall>q q'. q \<noteq> q' \<longrightarrow> fst ` set (L q) \<inter> fst ` set (L q') = {})"

definition qframe :: "'a thread_state_scheme \<Rightarrow> 'a thread_state_scheme \<Rightarrow> bool" where
  "qframe s s' \<longleftrightarrow> s'\<lparr>tcbs := tcbs s, queues := queues s\<rparr> = s \<and>
     (\<forall>x. map_option noq (tcbs s' x) = map_option noq (tcbs s x))"

definition queued :: "ptr \<Rightarrow> qlists \<Rightarrow> bool" where
  "queued t L \<longleftrightarrow> (\<exists>q. t \<in> fst ` set (L q))"

definition alive :: "ptr \<Rightarrow> 'a thread_state_scheme \<Rightarrow> bool" where
  "alive t s \<longleftrightarrow> t \<in> dom (tcbs s) \<and> t \<noteq> NULL"

lemma qframe_refl [simp]: "qframe s s"
  by (simp add: qframe_def)

lemma qframe_trans:
  assumes "qframe s s'" "qframe s' s''"
  shows "qframe s s''"
proof -
  have "s''\<lparr>tcbs := tcbs s, queues := queues s\<rparr> =
        (s''\<lparr>tcbs := tcbs s', queues := queues s'\<rparr>)\<lparr>tcbs := tcbs s, queues := queues s\<rparr>"
    by simp
  also have "\<dots> = s"
    using assms by (simp add: qframe_def)
  finally show ?thesis
    using assms by (simp add: qframe_def)
qed

lemma qstep_qframe: "qstep q A s s' \<Longrightarrow> qframe s s'"
  by (auto simp: qstep_def qframe_def qheap_def)

lemma qframe_dom: "qframe s s' \<Longrightarrow> dom (tcbs s') = dom (tcbs s)"
  unfolding qframe_def dom_def by (metis map_option_is_None)

lemma qframe_alive: "qframe s s' \<Longrightarrow> alive t s' = alive t s"
  by (simp add: alive_def qframe_dom)

text \<open>A field the queues do not use is read unchanged.\<close>

lemma qframe_fld:
  assumes "qframe s s'" "\<And>c. f (noq c) = f c"
  shows "fld (tcbs s') f = fld (tcbs s) f"
proof
  fix x
  have "map_option f (map_option noq (tcbs s' x)) = map_option f (map_option noq (tcbs s x))"
    using assms(1) by (simp add: qframe_def)
  then show "fld (tcbs s') f x = fld (tcbs s) f x"
    using assms(2) by (simp add: fld_def option.map_comp comp_def)
qed

lemma noq_fields [simp]:
  "t_prio (noq c) = t_prio c" "t_state (noq c) = t_state c" "t_joinable (noq c) = t_joinable c"
  "t_cancelreq (noq c) = t_cancelreq c" "t_cancelstate (noq c) = t_cancelstate c"
  "t_events (noq c) = t_events c" "t_sigpending (noq c) = t_sigpending c"
  "t_cleanups (noq c) = t_cleanups c" "t_data_value (noq c) = t_data_value c"
  "t_join_arg (noq c) = t_join_arg c" "t_dispatches (noq c) = t_dispatches c"
  by (simp_all add: noq_def)

lemma qframe_errno: "qframe s s' \<Longrightarrow> errno s' = errno s"
  unfolding qframe_def by (drule conjunct1, drule arg_cong [where f = errno]) simp

lemma queues_ok_rep: "queues_ok s L \<Longrightarrow> pq_rep (tcbs s) (queues s q) (L q)"
  by (simp add: queues_ok_def)

lemma queues_ok_alive: "queues_ok s L \<Longrightarrow> t \<in> fst ` set (L q) \<Longrightarrow> alive t s"
  using pq_rep_mem queues_ok_rep unfolding alive_def by blast

lemma queues_ok_elsewhere: "queues_ok s L \<Longrightarrow> t \<in> fst ` set (L q) \<Longrightarrow> q' \<noteq> q \<Longrightarrow> t \<notin> fst ` set (L q')"
  unfolding queues_ok_def by blast

text \<open>A step on one queue keeps the others, provided it touches none of their threads.\<close>

lemma queues_ok_step:
  assumes ok: "queues_ok s L" and st: "qstep q A s s'"
    and rep: "pq_rep (tcbs s') (queues s' q) xs"
    and A: "\<And>q'. q' \<noteq> q \<Longrightarrow> A \<inter> fst ` set (L q') = {}"
    and xs: "\<And>q'. q' \<noteq> q \<Longrightarrow> fst ` set xs \<inter> fst ` set (L q') = {}"
  shows "queues_ok s' (L(q := xs))"
proof -
  have "pq_rep (tcbs s') (queues s' q') (L q')" if "q' \<noteq> q" for q'
  proof -
    have "queues s' q' = queues s q'" "\<And>x. x \<notin> A \<Longrightarrow> tcbs s' x = tcbs s x"
      using st that by (auto simp: qstep_def qheap_def)
    moreover have "x \<notin> A" if "x \<in> fst ` set (L q')" for x
      using A [OF \<open>q' \<noteq> q\<close>] that by blast
    ultimately show ?thesis
      using pq_rep_cong [OF queues_ok_rep [OF ok], of q' "tcbs s'"] by metis
  qed
  then show ?thesis
    using rep xs ok unfolding queues_ok_def by (auto simp: Int_commute)
qed

lemma queues_ok_step_within:
  assumes ok: "queues_ok s L" and st: "qstep q A s s'"
    and rep: "pq_rep (tcbs s') (queues s' q) xs"
    and A: "A \<subseteq> fst ` set (L q)" and xs: "fst ` set xs \<subseteq> fst ` set (L q)"
  shows "queues_ok s' (L(q := xs))"
proof (rule queues_ok_step [OF ok st rep])
  fix q'
  assume "q' \<noteq> q"
  then have "fst ` set (L q) \<inter> fst ` set (L q') = {}"
    using ok unfolding queues_ok_def by metis
  with A xs show "A \<inter> fst ` set (L q') = {}" "fst ` set xs \<inter> fst ` set (L q') = {}"
    by blast+
qed

lemma queues_ok_upd_other:
  assumes "\<And>c. q_next (f c) = q_next c" "\<And>c. q_prev (f c) = q_prev c" "\<And>c. q_prio (f c) = q_prio c"
  shows "queues_ok (s\<lparr>tcbs := upd (tcbs s) t f\<rparr>) L = queues_ok s L"
  using assms by (simp add: queues_ok_def pq_rep_def fld_upd_keep)

lemma queues_ok_cong:
  "tcbs s' = tcbs s \<Longrightarrow> queues s' = queues s \<Longrightarrow> queues_ok s' L = queues_ok s L"
  by (simp add: queues_ok_def)

section \<open>The interface of the queues\<close>

locale thread_queues =
  fixes ok :: "'s \<Rightarrow> qlists \<Rightarrow> bool"
    and is_thread :: "ptr \<Rightarrow> 's \<Rightarrow> bool"
    and same :: "'s \<Rightarrow> 's \<Rightarrow> bool"
    and enter :: "qid option \<Rightarrow> int \<Rightarrow> ptr \<Rightarrow> 's \<Rightarrow> 's option"
    and leave :: "qid option \<Rightarrow> ptr \<Rightarrow> 's \<Rightarrow> 's option"
    and take_max :: "qid option \<Rightarrow> 's \<Rightarrow> (ptr \<times> 's) option"
  assumes same_refl: "same s s"
    and same_trans: "same s s' \<Longrightarrow> same s' s'' \<Longrightarrow> same s s''"
    and same_thread: "same s s' \<Longrightarrow> is_thread t s' = is_thread t s"
    and ok_thread: "ok s L \<Longrightarrow> t \<in> fst ` set (L q) \<Longrightarrow> is_thread t s"
    and ok_once: "ok s L \<Longrightarrow> L q = us @ (t, p) # ws \<Longrightarrow> \<not> queued t (L(q := us @ ws))"
    and enter_ok: "ok s L \<Longrightarrow> is_thread t s \<Longrightarrow> \<not> queued t L \<Longrightarrow>
      \<exists>s'. enter (Some q) p t s = Some s' \<and> ok s' (L(q := pq_ins t p (L q))) \<and> same s s'"
    and leave_ok: "ok s L \<Longrightarrow> L q = us @ (t, p) # ws \<Longrightarrow>
      \<exists>s'. leave (Some q) t s = Some s' \<and> ok s' (L(q := us @ ws)) \<and> same s s'"
    and take_max_ok: "ok s L \<Longrightarrow> L q = (t, p) # xs \<Longrightarrow>
      \<exists>s'. take_max (Some q) s = Some (t, s') \<and> ok s' (L(q := xs)) \<and> same s s'"
    and take_max_empty: "ok s L \<Longrightarrow> L q = [] \<Longrightarrow> take_max (Some q) s = Some (NULL, s)"
begin

text \<open>Moving a thread from one queue to another, the step all clients are made of.\<close>

lemma move_ok:
  assumes "ok s L" "L q = us @ (t, p) # ws"
  shows "\<exists>s1 s2. leave (Some q) t s = Some s1 \<and> same s s1 \<and> ok s1 (L(q := us @ ws)) \<and>
    enter (Some q') p' t s1 = Some s2 \<and> same s s2 \<and>
    ok s2 ((L(q := us @ ws))(q' := pq_ins t p' ((L(q := us @ ws)) q')))"
proof -
  let ?L = "L(q := us @ ws)"
  obtain s1 where s1: "leave (Some q) t s = Some s1" "ok s1 ?L" "same s s1"
    using leave_ok [OF assms] by blast
  have "is_thread t s1"
    using ok_thread [OF assms(1), of t q] assms(2) same_thread [OF s1(3)] by simp
  moreover have "\<not> queued t ?L"
    by (rule ok_once [OF assms])
  ultimately obtain s2 where "enter (Some q') p' t s1 = Some s2" "ok s2 (?L(q' := pq_ins t p' (?L q')))"
    "same s1 s2"
    using enter_ok [OF s1(2)] by blast
  with s1 same_trans show ?thesis by blast
qed

lemma enter_all_ok:
  "ok s L \<Longrightarrow> distinct (map fst xs) \<Longrightarrow> (\<And>t p. (t, p) \<in> set xs \<Longrightarrow> is_thread t s \<and> \<not> queued t L) \<Longrightarrow>
   \<exists>s'. put_all (\<lambda>(t, p). enter (Some q) p t) xs s = Some s' \<and>
     ok s' (L(q := fold (\<lambda>(t, p). pq_ins t p) xs (L q))) \<and> same s s'"
proof (induction xs arbitrary: s L)
  case Nil
  then show ?case by (simp add: same_refl)
next
  case (Cons x xs)
  obtain t p where x: "x = (t, p)" by (cases x)
  let ?L = "L(q := pq_ins t p (L q))"
  obtain s1 where s1: "enter (Some q) p t s = Some s1" "ok s1 ?L" "same s s1"
    using enter_ok [OF Cons.prems(1)] Cons.prems(3) x by fastforce
  have "is_thread u s1 \<and> \<not> queued u ?L" if "(u, p') \<in> set xs" for u p'
  proof -
    have "u \<noteq> t" using that Cons.prems(2) x by force
    then show ?thesis
      using Cons.prems(3) [of u p'] that same_thread [OF s1(3)] by (auto simp: queued_def fun_upd_apply)
  qed
  then obtain s2 where "put_all (\<lambda>(t, p). enter (Some q) p t) xs s1 = Some s2"
    "ok s2 (?L(q := fold (\<lambda>(t, p). pq_ins t p) xs (?L q)))" "same s1 s2"
    using Cons.IH [OF s1(2)] Cons.prems(2) by fastforce
  with s1 same_trans show ?case
    by (auto simp: x fun_upd_same simp del: fun_upd_apply)
qed

lemma take_many_ok:
  "ok s L \<Longrightarrow> L q = xs @ ys \<Longrightarrow>
   \<exists>s'. get_many (take_max (Some q)) (length xs) s = Some (map fst xs, s') \<and> ok s' (L(q := ys)) \<and> same s s'"
proof (induction xs arbitrary: s L)
  case Nil
  then show ?case by (auto simp: same_refl fun_upd_idem)
next
  case (Cons x xs)
  obtain s1 where s1: "take_max (Some q) s = Some (fst x, s1)" "ok s1 (L(q := xs @ ys))" "same s s1"
    using take_max_ok [OF Cons.prems(1), of q "fst x" "snd x" "xs @ ys"] Cons.prems(2) by auto
  obtain s2 where "get_many (take_max (Some q)) (length xs) s1 = Some (map fst xs, s2)"
    "ok s2 (L(q := ys))" "same s1 s2"
    using Cons.IH [OF s1(2)] by (auto simp: fun_upd_same simp del: fun_upd_apply)
  with s1 same_trans show ?case by fastforce
qed

end

interpretation pq: thread_queues queues_ok alive qframe pth_pqueue_insert pth_pqueue_delete pth_pqueue_delmax
proof unfold_locales
  fix s L t p q
  assume ok: "queues_ok s L" and t: "alive t s" "\<not> queued t L"
  have "t \<notin> fst ` set (L q)"
    using t(2) by (auto simp: queued_def)
  then obtain s' where s': "pth_pqueue_insert (Some q) p t s = Some s'"
    "pq_rep (tcbs s') (queues s' q) (pq_ins t p (L q))" "qstep q (insert t (fst ` set (L q))) s s'"
    using pth_pqueue_insert_spec [OF queues_ok_rep [OF ok]] t(1) unfolding alive_def by blast
  have "queues_ok s' (L(q := pq_ins t p (L q)))"
    using t(2) ok by (intro queues_ok_step [OF ok s'(3,2)]) (auto simp: queued_def queues_ok_def)
  with s' show "\<exists>s'. pth_pqueue_insert (Some q) p t s = Some s' \<and>
      queues_ok s' (L(q := pq_ins t p (L q))) \<and> qframe s s'"
    using qstep_qframe by blast
next
  fix s L q us t p ws
  assume ok: "queues_ok s L" and L: "L q = us @ (t, p) # ws"
  obtain s' where s': "pth_pqueue_delete (Some q) t s = Some s'"
    "pq_rep (tcbs s') (queues s' q) (us @ ws)" "qstep q (fst ` set (us @ (t, p) # ws)) s s'"
    using pth_pqueue_delete_spec queues_ok_rep [OF ok, of q] unfolding L by blast
  have "queues_ok s' (L(q := us @ ws))"
    unfolding L by (intro queues_ok_step_within [OF ok s'(3,2)]) (auto simp: L)
  with s' show "\<exists>s'. pth_pqueue_delete (Some q) t s = Some s' \<and>
      queues_ok s' (L(q := us @ ws)) \<and> qframe s s'"
    using qstep_qframe by blast
next
  fix s L q t p xs
  assume ok: "queues_ok s L" and L: "L q = (t, p) # xs"
  obtain s' where s': "pth_pqueue_delmax (Some q) s = Some (t, s')"
    "pq_rep (tcbs s') (queues s' q) xs" "qstep q (fst ` set ((t, p) # xs)) s s'"
    using pth_pqueue_delmax_spec queues_ok_rep [OF ok, of q] unfolding L by blast
  have "queues_ok s' (L(q := xs))"
    unfolding L by (intro queues_ok_step_within [OF ok s'(3,2)]) (auto simp: L)
  with s' show "\<exists>s'. pth_pqueue_delmax (Some q) s = Some (t, s') \<and>
      queues_ok s' (L(q := xs)) \<and> qframe s s'"
    using qstep_qframe by blast
next
  fix s L q us t p ws
  assume ok: "queues_ok s L" and L: "L q = us @ (t, p) # ws"
  have "t \<notin> fst ` set (us @ ws)"
    using pq_rep_distinct [OF queues_ok_rep [OF ok, of q]] L by auto
  moreover have "t \<notin> fst ` set (L q')" if "q' \<noteq> q" for q'
    using queues_ok_elsewhere [OF ok _ that, of t] L by simp
  ultimately show "\<not> queued t (L(q := us @ ws))"
    by (auto simp: queued_def)
next
  fix s L q
  assume "queues_ok s L" "L q = []"
  then show "pth_pqueue_delmax (Some q) s = Some (NULL, s)"
    using pth_pqueue_delmax_empty queues_ok_rep by metis
qed (auto intro: qframe_trans queues_ok_alive simp: qframe_alive)

lemma pth_pqueue_increase_ok:
  assumes ok: "queues_ok s L"
  shows "\<exists>s'. pth_pqueue_increase (Some q) s = Some s' \<and> queues_ok s' (L(q := pq_inc (L q))) \<and> qframe s s'"
proof -
  obtain s' where s': "pth_pqueue_increase (Some q) s = Some s'"
    "pq_rep (tcbs s') (queues s' q) (pq_inc (L q))" "qstep q (fst ` set (L q)) s s'"
    using pth_pqueue_increase_spec [OF queues_ok_rep [OF ok]] by blast
  have "queues_ok s' (L(q := pq_inc (L q)))"
    by (intro queues_ok_step_within [OF ok s'(3,2)]) simp_all
  with s' show ?thesis
    using qstep_qframe by blast
qed

lemma pth_pqueue_favorite_ok:
  assumes ok: "queues_ok s L" and L: "L q = us @ (t, p) # ws"
  shows "\<exists>s' p'. pth_pqueue_favorite (Some q) t s = Some (True, s') \<and>
    queues_ok s' (L(q := (t, p') # us @ ws)) \<and> qframe s s'"
proof -
  obtain s' p' where s': "pth_pqueue_favorite (Some q) t s = Some (True, s')"
    "pq_rep (tcbs s') (queues s' q) ((t, p') # us @ ws)" "qstep q (fst ` set (us @ (t, p) # ws)) s s'"
    using pth_pqueue_favorite_spec queues_ok_rep [OF ok, of q] unfolding L by blast
  have "queues_ok s' (L(q := (t, p') # us @ ws))"
    unfolding L by (intro queues_ok_step_within [OF ok s'(3,2)]) (auto simp: L)
  with s' show ?thesis
    using qstep_qframe by blast
qed

lemma pth_pqueue_contains_ok:
  "queues_ok s L \<Longrightarrow> pth_pqueue_contains (Some q) t s = Some (t \<in> fst ` set (L q))"
  using pth_pqueue_contains_spec queues_ok_rep by blast

lemma pth_pqueue_elements_ok:
  "queues_ok s L \<Longrightarrow> pth_pqueue_elements (Some q) s = int (length (L q))"
  using pth_pqueue_elements_spec queues_ok_rep by blast

end
