(* ===== verification/Pth_State.thy ===== *)
theory Pth_State
  imports Pth_Queues Complex_Main
begin

text \<open>
  The state of the library: the global variables of \<^verbatim>\<open>pth_lib.c\<close>, \<^verbatim>\<open>pth_sched.c\<close>, \<^verbatim>\<open>pth_data.c\<close>,
  \<^verbatim>\<open>pth_msg.c\<close> and \<^verbatim>\<open>pth_fork.c\<close>, and one partial heap per structure type (events, mutexes,
  condition variables, read-write locks, barriers, message ports, messages). It extends the
  ring and thread states by the remaining fields, so the operations of \<open>Pth_Ring\<close> and
  \<open>Pth_Pqueue\<close> apply to it as they are. A structure embedded in another one (the two mutexes of
  a read-write lock, the mutex and condition variable of a barrier) is a heap object of its own
  whose address the outer record holds.

  Code the library calls but does not contain enters as arguments: \<open>call\<close> is the effect of
  calling a function pointer supplied by the application, the result of \<^verbatim>\<open>malloc\<close> is an argument
  (\<open>NULL\<close> when it fails), and the time of day is an argument. \<open>app_log\<close> stands for the memory of
  the application, which only its own functions touch. Integers the code uses as bit sets
  are machine words.
\<close>

unbundle bit_operations_syntax

section \<open>Structures\<close>

datatype pth_status_t = PTH_STATUS_PENDING | PTH_STATUS_OCCURRED | PTH_STATUS_FAILED

text \<open>
  Pointers to an \<^verbatim>\<open>int\<close>: \<^verbatim>\<open>NULL\<close>, the static variable \<^verbatim>\<open>ev_key\<close> of a library function (each
  function that waits keeps one event per thread under such a key), or any other cell.
\<close>

datatype intref = NullInt | EvKey string | IntAt ptr

text \<open>The union \<^verbatim>\<open>ev_args\<close>; its constructor stands for the field \<^verbatim>\<open>ev_type\<close>.\<close>

datatype ev_args =
    EvFD int
  | EvSELECT intref int ptr ptr ptr
  | EvSIGS ptr intref
  | EvTIME pth_time_t
  | EvMSG ptr
  | EvMUTEX ptr
  | EvCOND ptr
  | EvTID ptr
  | EvFUNC ptr ptr pth_time_t

record pth_event_st =
  ev_next :: ptr
  ev_prev :: ptr
  ev_status :: pth_status_t
  ev_goal :: "32 word"
  ev_arg :: ev_args

record pth_mutex =
  mx_state :: "32 word"
  mx_owner :: ptr
  mx_count :: "64 word"

record pth_cond =
  cn_state :: "64 word"
  cn_waiters :: "32 word"

datatype rw_op = PTH_RWLOCK_RD | PTH_RWLOCK_RW

record pth_rwlock =
  rw_state :: "32 word"
  rw_mode :: rw_op
  rw_readers :: "64 word"
  rw_mutex_rd :: ptr
  rw_mutex_rw :: ptr

record pth_barrier =
  br_state :: "64 word"
  br_threshold :: int
  br_count :: int
  br_cycle :: bool
  br_cond :: ptr
  br_mutex :: ptr

record pth_msgport =
  mp_name :: "string option"
  mp_tid :: ptr

record pth_message =
  m_replyport :: ptr
  m_size :: "32 word"
  m_data :: ptr

text \<open>The names of threads and attribute objects are arrays of \<^verbatim>\<open>PTH_TCB_NAMELEN\<close> bytes.\<close>

definition PTH_TCB_NAMELEN :: nat where "PTH_TCB_NAMELEN = 40"

record pth_attr =
  a_tid :: ptr
  a_prio :: int
  a_dispatches :: int
  a_name :: string
  a_joinable :: int
  a_cancelstate :: "32 word"
  a_stacksize :: "32 word"
  a_stackaddr :: ptr

record pth_keytab_st =
  k_used :: bool
  k_destructor :: ptr

record pth_atfork_st =
  a_prepare :: ptr
  a_parent :: ptr
  a_child :: ptr
  a_arg :: ptr

type_synonym fd_set = "int set"

text \<open>
  The static variables of \<^verbatim>\<open>pthread.c\<close>, and the cells of the application that hold a handle of the POSIX interface
  (a \<^verbatim>\<open>pthread_mutex_t\<close>, for example, is a pointer to a mutex or \<^verbatim>\<open>NULL\<close>).
\<close>

record pthread_atfork_st =
  pa_prepare :: ptr
  pa_parent :: ptr
  pa_child :: ptr

record posix =
  pthread_initialized :: bool
  pthread_atexit :: bool
  pthread_concurrency :: int
  pthread_atfork_info :: "nat \<Rightarrow> pthread_atfork_st"
  pthread_atfork_idx :: nat
  handles :: "ptr \<rightharpoonup> ptr"

record pth_state = thread_state +
  pth_initialized :: bool
  pth_main :: ptr
  pth_sched :: ptr
  pth_current :: ptr
  pth_favournew :: bool
  pth_loadval :: rat
  pth_loadticknext :: pth_time_t
  evs :: "ptr \<rightharpoonup> pth_event_st"
  mutexes :: "ptr \<rightharpoonup> pth_mutex"
  conds :: "ptr \<rightharpoonup> pth_cond"
  rwlocks :: "ptr \<rightharpoonup> pth_rwlock"
  barriers :: "ptr \<rightharpoonup> pth_barrier"
  msgports :: "ptr \<rightharpoonup> pth_msgport"
  messages :: "ptr \<rightharpoonup> pth_message"
  attrs :: "ptr \<rightharpoonup> pth_attr"
  pth_keytab :: "nat \<Rightarrow> pth_keytab_st"
  pth_atfork_list :: "nat \<Rightarrow> pth_atfork_st"
  pth_atfork_idx :: nat
  os_sigpending :: sigset
  pth_sigpending :: sigset
  pth_sigblock :: sigset
  pth_sigcatch :: sigset
  pth_sigraised :: sigset
  pth_sigpipe :: "int \<times> int"
  sigpipe_data :: "nat list"
  mem_int :: "intref \<rightharpoonup> int"
  mem_fdset :: "ptr \<rightharpoonup> fd_set"
  mem_sigset :: "ptr \<rightharpoonup> sigset"
  app_log :: "(ptr \<times> ptr) list"
  fd_flags :: "int \<Rightarrow> 32 word"
  io_out :: "(int \<times> string) list"
  px :: posix

type_synonym callback = "ptr \<Rightarrow> ptr \<Rightarrow> pth_state \<Rightarrow> pth_state option"
type_synonym switch = "pth_state \<Rightarrow> pth_state option"

section \<open>Constants\<close>

definition PTH_KEY_MAX :: nat where "PTH_KEY_MAX = 256"
definition PTH_DESTRUCTOR_ITERATIONS :: nat where "PTH_DESTRUCTOR_ITERATIONS = 4"
definition PTH_ATFORK_MAX :: nat where "PTH_ATFORK_MAX = 128"
definition PTH_KEY_INIT :: int where "PTH_KEY_INIT = -1"
definition PTH_NSIG :: nat where "PTH_NSIG = 32"

definition PTH_CANCEL_ENABLE :: "32 word" where "PTH_CANCEL_ENABLE = 1"
definition PTH_CANCEL_DISABLE :: "32 word" where "PTH_CANCEL_DISABLE = 2"
definition PTH_CANCEL_ASYNCHRONOUS :: "32 word" where "PTH_CANCEL_ASYNCHRONOUS = 4"
definition PTH_CANCEL_DEFERRED :: "32 word" where "PTH_CANCEL_DEFERRED = 8"
definition PTH_CANCEL_DEFAULT :: "32 word" where
  "PTH_CANCEL_DEFAULT = PTH_CANCEL_ENABLE OR PTH_CANCEL_DEFERRED"

definition PTH_MUTEX_INITIALIZED :: "32 word" where "PTH_MUTEX_INITIALIZED = 1"
definition PTH_MUTEX_LOCKED :: "32 word" where "PTH_MUTEX_LOCKED = 2"
definition PTH_RWLOCK_INITIALIZED :: "32 word" where "PTH_RWLOCK_INITIALIZED = 1"
definition PTH_COND_INITIALIZED :: "64 word" where "PTH_COND_INITIALIZED = 1"
definition PTH_COND_SIGNALED :: "64 word" where "PTH_COND_SIGNALED = 2"
definition PTH_COND_BROADCAST :: "64 word" where "PTH_COND_BROADCAST = 4"
definition PTH_COND_HANDLED :: "64 word" where "PTH_COND_HANDLED = 8"
definition PTH_BARRIER_INITIALIZED :: "64 word" where "PTH_BARRIER_INITIALIZED = 1"
definition PTH_BARRIER_HEADLIGHT :: int where "PTH_BARRIER_HEADLIGHT = -1"
definition PTH_BARRIER_TAILLIGHT :: int where "PTH_BARRIER_TAILLIGHT = -2"

text \<open>\<^verbatim>\<open>PTH_CANCELED\<close> is the pointer \<^verbatim>\<open>(void *)-1\<close>, the largest address of a 64-bit machine.\<close>

definition PTH_CANCELED :: ptr where "PTH_CANCELED = 2 ^ 64 - 1"

definition flag :: "'a::len word \<Rightarrow> 'a word \<Rightarrow> bool" where
  "flag w f \<longleftrightarrow> w AND f \<noteq> 0"

text \<open>
  \<open>fd_flags\<close> gives the status flags of the file descriptors, what \<^verbatim>\<open>fcntl(fd, F_GETFL)\<close> returns: \<open>-1\<close> for one that is
  not open.
\<close>

definition fd_open :: "pth_state \<Rightarrow> int \<Rightarrow> bool" where
  "fd_open s fd \<longleftrightarrow> fd_flags s fd \<noteq> -1"

section \<open>Heap access\<close>

definition e_get :: "(pth_event_st \<Rightarrow> 'b) \<Rightarrow> ptr \<Rightarrow> pth_state \<Rightarrow> 'b option" where
  "e_get f p s = fld (evs s) f p"

definition e_set :: "(pth_event_st \<Rightarrow> pth_event_st) \<Rightarrow> ptr \<Rightarrow> pth_state \<Rightarrow> pth_state option" where
  "e_set f p s = map_option (\<lambda>h. s\<lparr>evs := h\<rparr>) (setf (evs s) p f)"

definition mx_get :: "(pth_mutex \<Rightarrow> 'b) \<Rightarrow> ptr \<Rightarrow> pth_state \<Rightarrow> 'b option" where
  "mx_get f p s = fld (mutexes s) f p"

definition mx_set :: "(pth_mutex \<Rightarrow> pth_mutex) \<Rightarrow> ptr \<Rightarrow> pth_state \<Rightarrow> pth_state option" where
  "mx_set f p s = map_option (\<lambda>h. s\<lparr>mutexes := h\<rparr>) (setf (mutexes s) p f)"

definition cn_get :: "(pth_cond \<Rightarrow> 'b) \<Rightarrow> ptr \<Rightarrow> pth_state \<Rightarrow> 'b option" where
  "cn_get f p s = fld (conds s) f p"

definition cn_set :: "(pth_cond \<Rightarrow> pth_cond) \<Rightarrow> ptr \<Rightarrow> pth_state \<Rightarrow> pth_state option" where
  "cn_set f p s = map_option (\<lambda>h. s\<lparr>conds := h\<rparr>) (setf (conds s) p f)"

definition rw_get :: "(pth_rwlock \<Rightarrow> 'b) \<Rightarrow> ptr \<Rightarrow> pth_state \<Rightarrow> 'b option" where
  "rw_get f p s = fld (rwlocks s) f p"

definition rw_set :: "(pth_rwlock \<Rightarrow> pth_rwlock) \<Rightarrow> ptr \<Rightarrow> pth_state \<Rightarrow> pth_state option" where
  "rw_set f p s = map_option (\<lambda>h. s\<lparr>rwlocks := h\<rparr>) (setf (rwlocks s) p f)"

definition br_get :: "(pth_barrier \<Rightarrow> 'b) \<Rightarrow> ptr \<Rightarrow> pth_state \<Rightarrow> 'b option" where
  "br_get f p s = fld (barriers s) f p"

definition br_set :: "(pth_barrier \<Rightarrow> pth_barrier) \<Rightarrow> ptr \<Rightarrow> pth_state \<Rightarrow> pth_state option" where
  "br_set f p s = map_option (\<lambda>h. s\<lparr>barriers := h\<rparr>) (setf (barriers s) p f)"

definition at_get :: "(pth_attr \<Rightarrow> 'b) \<Rightarrow> ptr \<Rightarrow> pth_state \<Rightarrow> 'b option" where
  "at_get f p s = fld (attrs s) f p"

definition at_set :: "(pth_attr \<Rightarrow> pth_attr) \<Rightarrow> ptr \<Rightarrow> pth_state \<Rightarrow> pth_state option" where
  "at_set f p s = map_option (\<lambda>h. s\<lparr>attrs := h\<rparr>) (setf (attrs s) p f)"

lemma attr_cells [cells]:
  "attrs s p = Some a \<Longrightarrow> at_get f p s = Some (f a)"
  "attrs s p = Some a \<Longrightarrow> at_set u p s = Some (s\<lparr>attrs := (attrs s)(p \<mapsto> u a)\<rparr>)"
  by (simp_all add: at_get_def at_set_def cells)

lemma state_access [heap_simps]:
  "e_get f0 p s = fld (evs s) f0 p"
  "mx_get f1 p s = fld (mutexes s) f1 p"
  "cn_get f2 p s = fld (conds s) f2 p"
  "rw_get f3 p s = fld (rwlocks s) f3 p"
  "br_get f4 p s = fld (barriers s) f4 p"
  "p \<in> dom (evs s) \<Longrightarrow> e_set u0 p s = Some (s\<lparr>evs := upd (evs s) p u0\<rparr>)"
  "p \<in> dom (mutexes s) \<Longrightarrow> mx_set u1 p s = Some (s\<lparr>mutexes := upd (mutexes s) p u1\<rparr>)"
  "p \<in> dom (conds s) \<Longrightarrow> cn_set u2 p s = Some (s\<lparr>conds := upd (conds s) p u2\<rparr>)"
  "p \<in> dom (rwlocks s) \<Longrightarrow> rw_set u3 p s = Some (s\<lparr>rwlocks := upd (rwlocks s) p u3\<rparr>)"
  "p \<in> dom (barriers s) \<Longrightarrow> br_set u4 p s = Some (s\<lparr>barriers := upd (barriers s) p u4\<rparr>)"
  by (simp_all add: e_get_def mx_get_def cn_get_def rw_get_def br_get_def
      e_set_def mx_set_def cn_set_def rw_set_def br_set_def)

lemma state_cells [cells]:
  "evs s p = Some e \<Longrightarrow> e_get f0 p s = Some (f0 e)"
  "evs s p = Some e \<Longrightarrow> e_set u0 p s = Some (s\<lparr>evs := (evs s)(p \<mapsto> u0 e)\<rparr>)"
  "mutexes s p = Some m \<Longrightarrow> mx_get f1 p s = Some (f1 m)"
  "mutexes s p = Some m \<Longrightarrow> mx_set u1 p s = Some (s\<lparr>mutexes := (mutexes s)(p \<mapsto> u1 m)\<rparr>)"
  "conds s p = Some c \<Longrightarrow> cn_get f2 p s = Some (f2 c)"
  "conds s p = Some c \<Longrightarrow> cn_set u2 p s = Some (s\<lparr>conds := (conds s)(p \<mapsto> u2 c)\<rparr>)"
  "rwlocks s p = Some r \<Longrightarrow> rw_get f3 p s = Some (f3 r)"
  "rwlocks s p = Some r \<Longrightarrow> rw_set u3 p s = Some (s\<lparr>rwlocks := (rwlocks s)(p \<mapsto> u3 r)\<rparr>)"
  "barriers s p = Some b \<Longrightarrow> br_get f4 p s = Some (f4 b)"
  "barriers s p = Some b \<Longrightarrow> br_set u4 p s = Some (s\<lparr>barriers := (barriers s)(p \<mapsto> u4 b)\<rparr>)"
  by (simp_all add: e_get_def mx_get_def cn_get_def rw_get_def br_get_def
      e_set_def mx_set_def cn_set_def rw_set_def br_set_def cells)

lemma self_upd:
  "tcbs s t = Some c \<Longrightarrow> s\<lparr>tcbs := (tcbs s)(t \<mapsto> c)\<rparr> = s"
  "evs s p = Some e \<Longrightarrow> s\<lparr>evs := (evs s)(p \<mapsto> e)\<rparr> = s"
  "mutexes s p = Some m \<Longrightarrow> s\<lparr>mutexes := (mutexes s)(p \<mapsto> m)\<rparr> = s"
  "conds s p = Some d \<Longrightarrow> s\<lparr>conds := (conds s)(p \<mapsto> d)\<rparr> = s"
  for s :: pth_state
  by (simp_all add: fun_upd_idem)

text \<open>Updates of different variables commute; the order of declaration is the canonical one.\<close>

lemma state_order:
  "errno_update f0 (nodes_update f1 s) = nodes_update f1 (errno_update f0 s)"
  "errno_update f0 (rings_update f2 s) = rings_update f2 (errno_update f0 s)"
  "errno_update f0 (tcbs_update f3 s) = tcbs_update f3 (errno_update f0 s)"
  "errno_update f0 (queues_update f4 s) = queues_update f4 (errno_update f0 s)"
  "errno_update f0 (pth_current_update f5 s) = pth_current_update f5 (errno_update f0 s)"
  "errno_update f0 (evs_update f6 s) = evs_update f6 (errno_update f0 s)"
  "errno_update f0 (mutexes_update f7 s) = mutexes_update f7 (errno_update f0 s)"
  "errno_update f0 (conds_update f8 s) = conds_update f8 (errno_update f0 s)"
  "errno_update f0 (rwlocks_update f9 s) = rwlocks_update f9 (errno_update f0 s)"
  "errno_update f0 (pth_keytab_update f10 s) = pth_keytab_update f10 (errno_update f0 s)"
  "errno_update f0 (pth_atfork_idx_update f11 s) = pth_atfork_idx_update f11 (errno_update f0 s)"
  "errno_update f0 (os_sigpending_update f12 s) = os_sigpending_update f12 (errno_update f0 s)"
  "errno_update f0 (pth_sigpending_update f13 s) = pth_sigpending_update f13 (errno_update f0 s)"
  "errno_update f0 (mem_int_update f14 s) = mem_int_update f14 (errno_update f0 s)"
  "errno_update f0 (app_log_update f15 s) = app_log_update f15 (errno_update f0 s)"
  "nodes_update f1 (rings_update f2 s) = rings_update f2 (nodes_update f1 s)"
  "nodes_update f1 (tcbs_update f3 s) = tcbs_update f3 (nodes_update f1 s)"
  "nodes_update f1 (queues_update f4 s) = queues_update f4 (nodes_update f1 s)"
  "nodes_update f1 (pth_current_update f5 s) = pth_current_update f5 (nodes_update f1 s)"
  "nodes_update f1 (evs_update f6 s) = evs_update f6 (nodes_update f1 s)"
  "nodes_update f1 (mutexes_update f7 s) = mutexes_update f7 (nodes_update f1 s)"
  "nodes_update f1 (conds_update f8 s) = conds_update f8 (nodes_update f1 s)"
  "nodes_update f1 (rwlocks_update f9 s) = rwlocks_update f9 (nodes_update f1 s)"
  "nodes_update f1 (pth_keytab_update f10 s) = pth_keytab_update f10 (nodes_update f1 s)"
  "nodes_update f1 (pth_atfork_idx_update f11 s) = pth_atfork_idx_update f11 (nodes_update f1 s)"
  "nodes_update f1 (os_sigpending_update f12 s) = os_sigpending_update f12 (nodes_update f1 s)"
  "nodes_update f1 (pth_sigpending_update f13 s) = pth_sigpending_update f13 (nodes_update f1 s)"
  "nodes_update f1 (mem_int_update f14 s) = mem_int_update f14 (nodes_update f1 s)"
  "nodes_update f1 (app_log_update f15 s) = app_log_update f15 (nodes_update f1 s)"
  "rings_update f2 (tcbs_update f3 s) = tcbs_update f3 (rings_update f2 s)"
  "rings_update f2 (queues_update f4 s) = queues_update f4 (rings_update f2 s)"
  "rings_update f2 (pth_current_update f5 s) = pth_current_update f5 (rings_update f2 s)"
  "rings_update f2 (evs_update f6 s) = evs_update f6 (rings_update f2 s)"
  "rings_update f2 (mutexes_update f7 s) = mutexes_update f7 (rings_update f2 s)"
  "rings_update f2 (conds_update f8 s) = conds_update f8 (rings_update f2 s)"
  "rings_update f2 (rwlocks_update f9 s) = rwlocks_update f9 (rings_update f2 s)"
  "rings_update f2 (pth_keytab_update f10 s) = pth_keytab_update f10 (rings_update f2 s)"
  "rings_update f2 (pth_atfork_idx_update f11 s) = pth_atfork_idx_update f11 (rings_update f2 s)"
  "rings_update f2 (os_sigpending_update f12 s) = os_sigpending_update f12 (rings_update f2 s)"
  "rings_update f2 (pth_sigpending_update f13 s) = pth_sigpending_update f13 (rings_update f2 s)"
  "rings_update f2 (mem_int_update f14 s) = mem_int_update f14 (rings_update f2 s)"
  "rings_update f2 (app_log_update f15 s) = app_log_update f15 (rings_update f2 s)"
  "tcbs_update f3 (queues_update f4 s) = queues_update f4 (tcbs_update f3 s)"
  "tcbs_update f3 (pth_current_update f5 s) = pth_current_update f5 (tcbs_update f3 s)"
  "tcbs_update f3 (evs_update f6 s) = evs_update f6 (tcbs_update f3 s)"
  "tcbs_update f3 (mutexes_update f7 s) = mutexes_update f7 (tcbs_update f3 s)"
  "tcbs_update f3 (conds_update f8 s) = conds_update f8 (tcbs_update f3 s)"
  "tcbs_update f3 (rwlocks_update f9 s) = rwlocks_update f9 (tcbs_update f3 s)"
  "tcbs_update f3 (pth_keytab_update f10 s) = pth_keytab_update f10 (tcbs_update f3 s)"
  "tcbs_update f3 (pth_atfork_idx_update f11 s) = pth_atfork_idx_update f11 (tcbs_update f3 s)"
  "tcbs_update f3 (os_sigpending_update f12 s) = os_sigpending_update f12 (tcbs_update f3 s)"
  "tcbs_update f3 (pth_sigpending_update f13 s) = pth_sigpending_update f13 (tcbs_update f3 s)"
  "tcbs_update f3 (mem_int_update f14 s) = mem_int_update f14 (tcbs_update f3 s)"
  "tcbs_update f3 (app_log_update f15 s) = app_log_update f15 (tcbs_update f3 s)"
  "queues_update f4 (pth_current_update f5 s) = pth_current_update f5 (queues_update f4 s)"
  "queues_update f4 (evs_update f6 s) = evs_update f6 (queues_update f4 s)"
  "queues_update f4 (mutexes_update f7 s) = mutexes_update f7 (queues_update f4 s)"
  "queues_update f4 (conds_update f8 s) = conds_update f8 (queues_update f4 s)"
  "queues_update f4 (rwlocks_update f9 s) = rwlocks_update f9 (queues_update f4 s)"
  "queues_update f4 (pth_keytab_update f10 s) = pth_keytab_update f10 (queues_update f4 s)"
  "queues_update f4 (pth_atfork_idx_update f11 s) = pth_atfork_idx_update f11 (queues_update f4 s)"
  "queues_update f4 (os_sigpending_update f12 s) = os_sigpending_update f12 (queues_update f4 s)"
  "queues_update f4 (pth_sigpending_update f13 s) = pth_sigpending_update f13 (queues_update f4 s)"
  "queues_update f4 (mem_int_update f14 s) = mem_int_update f14 (queues_update f4 s)"
  "queues_update f4 (app_log_update f15 s) = app_log_update f15 (queues_update f4 s)"
  "pth_current_update f5 (evs_update f6 s) = evs_update f6 (pth_current_update f5 s)"
  "pth_current_update f5 (mutexes_update f7 s) = mutexes_update f7 (pth_current_update f5 s)"
  "pth_current_update f5 (conds_update f8 s) = conds_update f8 (pth_current_update f5 s)"
  "pth_current_update f5 (rwlocks_update f9 s) = rwlocks_update f9 (pth_current_update f5 s)"
  "pth_current_update f5 (pth_keytab_update f10 s) = pth_keytab_update f10 (pth_current_update f5 s)"
  "pth_current_update f5 (pth_atfork_idx_update f11 s) = pth_atfork_idx_update f11 (pth_current_update f5 s)"
  "pth_current_update f5 (os_sigpending_update f12 s) = os_sigpending_update f12 (pth_current_update f5 s)"
  "pth_current_update f5 (pth_sigpending_update f13 s) = pth_sigpending_update f13 (pth_current_update f5 s)"
  "pth_current_update f5 (mem_int_update f14 s) = mem_int_update f14 (pth_current_update f5 s)"
  "pth_current_update f5 (app_log_update f15 s) = app_log_update f15 (pth_current_update f5 s)"
  "evs_update f6 (mutexes_update f7 s) = mutexes_update f7 (evs_update f6 s)"
  "evs_update f6 (conds_update f8 s) = conds_update f8 (evs_update f6 s)"
  "evs_update f6 (rwlocks_update f9 s) = rwlocks_update f9 (evs_update f6 s)"
  "evs_update f6 (pth_keytab_update f10 s) = pth_keytab_update f10 (evs_update f6 s)"
  "evs_update f6 (pth_atfork_idx_update f11 s) = pth_atfork_idx_update f11 (evs_update f6 s)"
  "evs_update f6 (os_sigpending_update f12 s) = os_sigpending_update f12 (evs_update f6 s)"
  "evs_update f6 (pth_sigpending_update f13 s) = pth_sigpending_update f13 (evs_update f6 s)"
  "evs_update f6 (mem_int_update f14 s) = mem_int_update f14 (evs_update f6 s)"
  "evs_update f6 (app_log_update f15 s) = app_log_update f15 (evs_update f6 s)"
  "mutexes_update f7 (conds_update f8 s) = conds_update f8 (mutexes_update f7 s)"
  "mutexes_update f7 (rwlocks_update f9 s) = rwlocks_update f9 (mutexes_update f7 s)"
  "mutexes_update f7 (pth_keytab_update f10 s) = pth_keytab_update f10 (mutexes_update f7 s)"
  "mutexes_update f7 (pth_atfork_idx_update f11 s) = pth_atfork_idx_update f11 (mutexes_update f7 s)"
  "mutexes_update f7 (os_sigpending_update f12 s) = os_sigpending_update f12 (mutexes_update f7 s)"
  "mutexes_update f7 (pth_sigpending_update f13 s) = pth_sigpending_update f13 (mutexes_update f7 s)"
  "mutexes_update f7 (mem_int_update f14 s) = mem_int_update f14 (mutexes_update f7 s)"
  "mutexes_update f7 (app_log_update f15 s) = app_log_update f15 (mutexes_update f7 s)"
  "conds_update f8 (rwlocks_update f9 s) = rwlocks_update f9 (conds_update f8 s)"
  "conds_update f8 (pth_keytab_update f10 s) = pth_keytab_update f10 (conds_update f8 s)"
  "conds_update f8 (pth_atfork_idx_update f11 s) = pth_atfork_idx_update f11 (conds_update f8 s)"
  "conds_update f8 (os_sigpending_update f12 s) = os_sigpending_update f12 (conds_update f8 s)"
  "conds_update f8 (pth_sigpending_update f13 s) = pth_sigpending_update f13 (conds_update f8 s)"
  "conds_update f8 (mem_int_update f14 s) = mem_int_update f14 (conds_update f8 s)"
  "conds_update f8 (app_log_update f15 s) = app_log_update f15 (conds_update f8 s)"
  "rwlocks_update f9 (pth_keytab_update f10 s) = pth_keytab_update f10 (rwlocks_update f9 s)"
  "rwlocks_update f9 (pth_atfork_idx_update f11 s) = pth_atfork_idx_update f11 (rwlocks_update f9 s)"
  "rwlocks_update f9 (os_sigpending_update f12 s) = os_sigpending_update f12 (rwlocks_update f9 s)"
  "rwlocks_update f9 (pth_sigpending_update f13 s) = pth_sigpending_update f13 (rwlocks_update f9 s)"
  "rwlocks_update f9 (mem_int_update f14 s) = mem_int_update f14 (rwlocks_update f9 s)"
  "rwlocks_update f9 (app_log_update f15 s) = app_log_update f15 (rwlocks_update f9 s)"
  "pth_keytab_update f10 (pth_atfork_idx_update f11 s) = pth_atfork_idx_update f11 (pth_keytab_update f10 s)"
  "pth_keytab_update f10 (os_sigpending_update f12 s) = os_sigpending_update f12 (pth_keytab_update f10 s)"
  "pth_keytab_update f10 (pth_sigpending_update f13 s) = pth_sigpending_update f13 (pth_keytab_update f10 s)"
  "pth_keytab_update f10 (mem_int_update f14 s) = mem_int_update f14 (pth_keytab_update f10 s)"
  "pth_keytab_update f10 (app_log_update f15 s) = app_log_update f15 (pth_keytab_update f10 s)"
  "pth_atfork_idx_update f11 (os_sigpending_update f12 s) = os_sigpending_update f12 (pth_atfork_idx_update f11 s)"
  "pth_atfork_idx_update f11 (pth_sigpending_update f13 s) = pth_sigpending_update f13 (pth_atfork_idx_update f11 s)"
  "pth_atfork_idx_update f11 (mem_int_update f14 s) = mem_int_update f14 (pth_atfork_idx_update f11 s)"
  "pth_atfork_idx_update f11 (app_log_update f15 s) = app_log_update f15 (pth_atfork_idx_update f11 s)"
  "os_sigpending_update f12 (pth_sigpending_update f13 s) = pth_sigpending_update f13 (os_sigpending_update f12 s)"
  "os_sigpending_update f12 (mem_int_update f14 s) = mem_int_update f14 (os_sigpending_update f12 s)"
  "os_sigpending_update f12 (app_log_update f15 s) = app_log_update f15 (os_sigpending_update f12 s)"
  "pth_sigpending_update f13 (mem_int_update f14 s) = mem_int_update f14 (pth_sigpending_update f13 s)"
  "pth_sigpending_update f13 (app_log_update f15 s) = app_log_update f15 (pth_sigpending_update f13 s)"
  "mem_int_update f14 (app_log_update f15 s) = app_log_update f15 (mem_int_update f14 s)"
  for s :: pth_state
  by simp_all

text \<open>What a queue operation or a ring operation leaves of the rest of the state.\<close>

lemma qframe_state:
  assumes "qframe s (s' :: pth_state)"
  shows
    "pth_current s' = pth_current s" "pth_main s' = pth_main s" "pth_sched s' = pth_sched s"
    "evs s' = evs s" "mutexes s' = mutexes s" "conds s' = conds s"
    "pth_favournew s' = pth_favournew s" "rings s' = rings s" "nodes s' = nodes s"
    "msgports s' = msgports s" "pth_keytab s' = pth_keytab s" "mem_int s' = mem_int s"
    "mem_fdset s' = mem_fdset s" "mem_sigset s' = mem_sigset s" "os_sigpending s' = os_sigpending s"
    "pth_sigraised s' = pth_sigraised s" "app_log s' = app_log s" "messages s' = messages s"
    "pth_loadval s' = pth_loadval s" "pth_loadticknext s' = pth_loadticknext s" "pth_sigpending s' = pth_sigpending s"
    "pth_sigblock s' = pth_sigblock s" "pth_sigcatch s' = pth_sigcatch s"
proof -
  have "s'\<lparr>tcbs := tcbs s, queues := queues s\<rparr> = s"
    using assms by (simp add: qframe_def)
  note eq = this [THEN arg_cong]
  show
    "pth_current s' = pth_current s" "pth_main s' = pth_main s" "pth_sched s' = pth_sched s"
    "evs s' = evs s" "mutexes s' = mutexes s" "conds s' = conds s"
    "pth_favournew s' = pth_favournew s" "rings s' = rings s" "nodes s' = nodes s"
    "msgports s' = msgports s" "pth_keytab s' = pth_keytab s" "mem_int s' = mem_int s"
    "mem_fdset s' = mem_fdset s" "mem_sigset s' = mem_sigset s" "os_sigpending s' = os_sigpending s"
    "pth_sigraised s' = pth_sigraised s" "app_log s' = app_log s" "messages s' = messages s"
    "pth_loadval s' = pth_loadval s" "pth_loadticknext s' = pth_loadticknext s" "pth_sigpending s' = pth_sigpending s"
    "pth_sigblock s' = pth_sigblock s" "pth_sigcatch s' = pth_sigcatch s"
    using
      eq [of pth_current] eq [of pth_main] eq [of pth_sched] eq [of evs] eq [of mutexes]
      eq [of conds] eq [of pth_favournew] eq [of rings] eq [of nodes] eq [of msgports]
      eq [of pth_keytab] eq [of mem_int] eq [of mem_fdset] eq [of mem_sigset] eq [of os_sigpending]
      eq [of pth_sigraised] eq [of app_log] eq [of messages] eq [of pth_loadval] eq [of pth_loadticknext]
      eq [of pth_sigpending] eq [of pth_sigblock] eq [of pth_sigcatch]
    by simp_all
qed

lemma rframe_state:
  assumes "rframe r A s (s' :: pth_state)"
  shows "tcbs s' = tcbs s" "queues s' = queues s" "pth_current s' = pth_current s"
    "mutexes s' = mutexes s" "conds s' = conds s" "evs s' = evs s" "msgports s' = msgports s"
    "messages s' = messages s" "errno s' = errno s"
proof -
  have "s'\<lparr>rings := rings s, nodes := nodes s\<rparr> = s"
    using assms by (simp add: rframe_def)
  note eq = this [THEN arg_cong]
  show "tcbs s' = tcbs s" "queues s' = queues s" "pth_current s' = pth_current s"
    "mutexes s' = mutexes s" "conds s' = conds s" "evs s' = evs s" "msgports s' = msgports s"
    "messages s' = messages s" "errno s' = errno s"
    using eq [of tcbs] eq [of queues] eq [of pth_current] eq [of mutexes] eq [of conds]
      eq [of evs] eq [of msgports] eq [of messages] eq [of errno]
    by simp_all
qed

section \<open>Cleared memory\<close>

text \<open>
  The process before \<^verbatim>\<open>pth_init\<close>: the static variables are zero and nothing is allocated; and a
  control block as \<^verbatim>\<open>memset\<close> would leave it. Concrete states are built from these.
\<close>

definition tcb0 :: pth_st where
  "tcb0 = \<lparr>q_next = NULL, q_prev = NULL, q_prio = 0, t_prio = 0,
     t_name = replicate PTH_TCB_NAMELEN (CHR 0x00), t_dispatches = 0,
     t_state = PTH_STATE_SCHEDULER, t_spawned = PTH_TIME_ZERO, t_lastran = PTH_TIME_ZERO,
     t_running = PTH_TIME_ZERO, t_events = NULL, t_sigpending = {}, t_sigpendcnt = 0,
     t_mctx_sigs = {}, t_mctx_regs = replicate 9 0, t_mctx_start = NULL, t_stack = NULL, t_stacksize = 0, t_stackguard = None,
     t_stackloan = False, t_start_func = NULL, t_start_arg = NULL, t_joinable = 0,
     t_join_arg = NULL, t_data_value = None, t_data_count = 0, t_cancelreq = False,
     t_cancelstate = 0, t_cleanups = []\<rparr>"

definition state0 :: pth_state where
  "state0 = \<lparr>errno = EOK, rings = Map.empty, nodes = Map.empty, tcbs = Map.empty,
     queues = (\<lambda>_. \<lparr>q_head = NULL, q_num = 0\<rparr>), pth_initialized = False, pth_main = NULL,
     pth_sched = NULL, pth_current = NULL, pth_favournew = True, pth_loadval = 1,
     pth_loadticknext = PTH_TIME_ZERO, evs = Map.empty, mutexes = Map.empty, conds = Map.empty,
     rwlocks = Map.empty, barriers = Map.empty, msgports = Map.empty, messages = Map.empty,
     attrs = Map.empty, pth_keytab = (\<lambda>_. \<lparr>k_used = False, k_destructor = NULL\<rparr>),
     pth_atfork_list = (\<lambda>_. \<lparr>a_prepare = NULL, a_parent = NULL, a_child = NULL, a_arg = NULL\<rparr>),
     pth_atfork_idx = 0, os_sigpending = {}, pth_sigpending = {}, pth_sigblock = {},
     pth_sigcatch = {}, pth_sigraised = {}, pth_sigpipe = (0, 0), sigpipe_data = [], mem_int = Map.empty, mem_fdset = Map.empty,
     mem_sigset = Map.empty, app_log = [], fd_flags = (\<lambda>_. -1), io_out = [],
     px = \<lparr>pthread_initialized = False, pthread_atexit = False, pthread_concurrency = 0,
       pthread_atfork_info = (\<lambda>_. \<lparr>pa_prepare = NULL, pa_parent = NULL, pa_child = NULL\<rparr>),
       pthread_atfork_idx = 0, handles = Map.empty\<rparr>\<rparr>"

text \<open>Heap updates stay folded: a read at another address is decided by the address alone.\<close>

declare fun_upd_apply [simp del]
declare fun_upd_same [simp]
declare fun_upd_other [simp]

end
