(* ===== verification/Pth_Data.thy ===== *)
theory Pth_Data
  imports Pth_State
begin

text \<open>
  Thread specific data (\<^verbatim>\<open>pth_data.c\<close>): the key table and the value table of each thread. The
  invariant is that \<^verbatim>\<open>data_count\<close> is the number of keys with a value other than \<^verbatim>\<open>NULL\<close>; the
  loop that runs the destructors at thread exit relies on it to stop early.
\<close>

definition int_set :: "intref \<Rightarrow> int \<Rightarrow> pth_state \<Rightarrow> pth_state option" where
  "int_set r v s = map_option (\<lambda>h. s\<lparr>mem_int := h\<rparr>) (setf (mem_int s) r (\<lambda>_. v))"

lemma int_set_Some [heap_simps]:
  "r \<in> dom (mem_int s) \<Longrightarrow> int_set r v s = Some (s\<lparr>mem_int := upd (mem_int s) r (\<lambda>_. v)\<rparr>)"
  by (simp add: int_set_def)

text \<open>The search loop of \<^verbatim>\<open>pth_key_create\<close>.\<close>

function key_search :: "(nat \<Rightarrow> pth_keytab_st) \<Rightarrow> nat \<Rightarrow> nat" where
  "key_search tab key =
     (if key < PTH_KEY_MAX \<and> k_used (tab key) then key_search tab (key + 1) else key)"
  by pat_completeness auto

termination by (relation "measure (\<lambda>(_, key). PTH_KEY_MAX - key)") auto

declare key_search.simps [simp del]

definition pth_key_create :: "intref \<Rightarrow> ptr \<Rightarrow> pth_state \<Rightarrow> (bool \<times> pth_state) option" where
  "pth_key_create key func s =
     (if key = NullInt then Some (pth_error False EINVAL s)
      else (let k = key_search (pth_keytab s) 0 in do {
        s \<leftarrow> int_set key (int k) s;
        if k < PTH_KEY_MAX
        then Some (True, s\<lparr>pth_keytab := (pth_keytab s)(k := \<lparr>k_used = True, k_destructor = func\<rparr>)\<rparr>)
        else Some (pth_error False EAGAIN s) }))"

definition key_in_range :: "int \<Rightarrow> bool" where
  "key_in_range key \<longleftrightarrow> \<not> (key < 0 \<or> key \<ge> int PTH_KEY_MAX)"

definition pth_key_delete :: "int \<Rightarrow> pth_state \<Rightarrow> bool \<times> pth_state" where
  "pth_key_delete key s =
     (if \<not> key_in_range key then pth_error False EINVAL s
      else if \<not> k_used (pth_keytab s (nat key)) then pth_error False ENOENT s
      else (True, s\<lparr>pth_keytab := (pth_keytab s)
              (nat key := (pth_keytab s (nat key))\<lparr>k_used := False\<rparr>)\<rparr>))"

text \<open>\<open>calloc_ok\<close> says whether \<^verbatim>\<open>calloc\<close> returns memory for the value table.\<close>

definition pth_key_setdata :: "bool \<Rightarrow> int \<Rightarrow> ptr \<Rightarrow> pth_state \<Rightarrow> (bool \<times> pth_state) option" where
  "pth_key_setdata calloc_ok key value s =
     (if \<not> key_in_range key then Some (pth_error False EINVAL s)
      else if \<not> k_used (pth_keytab s (nat key)) then Some (pth_error False ENOENT s)
      else (let t = pth_current s in do {
        dv \<leftarrow> t_get t_data_value t s;
        if dv = None \<and> \<not> calloc_ok then Some (pth_error False ENOMEM s)
        else do {
          s \<leftarrow> (if dv = None then t_set (\<lambda>c. c\<lparr>t_data_value := Some (\<lambda>_. NULL)\<rparr>) t s else Some s);
          dv \<leftarrow> t_get t_data_value t s;
          v \<leftarrow> dv;
          s \<leftarrow> (if v (nat key) = NULL
                then (if value \<noteq> NULL then t_set (\<lambda>c. c\<lparr>t_data_count := t_data_count c + 1\<rparr>) t s else Some s)
                else (if value = NULL then t_set (\<lambda>c. c\<lparr>t_data_count := t_data_count c - 1\<rparr>) t s else Some s));
          s \<leftarrow> t_set (\<lambda>c. c\<lparr>t_data_value := Some (v(nat key := value))\<rparr>) t s;
          Some (True, s) } }))"

definition pth_key_getdata :: "int \<Rightarrow> pth_state \<Rightarrow> (ptr \<times> pth_state) option" where
  "pth_key_getdata key s =
     (if \<not> key_in_range key then Some (pth_error NULL EINVAL s)
      else if \<not> k_used (pth_keytab s (nat key)) then Some (pth_error NULL ENOENT s)
      else do {
        dv \<leftarrow> t_get t_data_value (pth_current s) s;
        Some (case dv of None \<Rightarrow> (NULL, s) | Some v \<Rightarrow> (v (nat key), s)) })"

text \<open>
  The two loops of \<^verbatim>\<open>pth_key_destroydata\<close>. A destructor runs with the state it finds and may
  change it (it may store new values), which is what the four iterations are for.
\<close>

definition destroy_key :: "callback \<Rightarrow> ptr \<Rightarrow> nat \<Rightarrow> pth_state \<Rightarrow> pth_state option" where
  "destroy_key call t key s = do {
     count \<leftarrow> t_get t_data_count t s;
     if count > 0 then
       (if k_used (pth_keytab s key) then do {
          dv \<leftarrow> t_get t_data_value t s;
          v \<leftarrow> dv;
          if v key \<noteq> NULL then do {
            s \<leftarrow> t_set (\<lambda>c. c\<lparr>t_data_value := Some (v(key := NULL))\<rparr>) t s;
            s \<leftarrow> t_set (\<lambda>c. c\<lparr>t_data_count := t_data_count c - 1\<rparr>) t s;
            (let destructor = k_destructor (pth_keytab s key) in
             if destructor \<noteq> NULL then call destructor (v key) s else Some s) }
          else Some s }
        else Some s)
     else Some s }"

function destroy_keys :: "callback \<Rightarrow> ptr \<Rightarrow> nat \<Rightarrow> pth_state \<Rightarrow> pth_state option" where
  "destroy_keys call t key s =
     (if key < PTH_KEY_MAX then do {
        s \<leftarrow> destroy_key call t key s;
        count \<leftarrow> t_get t_data_count t s;
        if count = 0 then Some s else destroy_keys call t (key + 1) s }
      else Some s)"
  by pat_completeness auto

termination by (relation "measure (\<lambda>(_, _, key, _). PTH_KEY_MAX - key)") auto

declare destroy_keys.simps [simp del]

primrec destroy_iterations :: "callback \<Rightarrow> ptr \<Rightarrow> nat \<Rightarrow> pth_state \<Rightarrow> pth_state option" where
  "destroy_iterations call t 0 s = Some s"
| "destroy_iterations call t (Suc itr) s = do {
     s \<leftarrow> destroy_keys call t 0 s;
     count \<leftarrow> t_get t_data_count t s;
     if count = 0 then Some s else destroy_iterations call t itr s }"

definition pth_key_destroydata :: "callback \<Rightarrow> ptr \<Rightarrow> pth_state \<Rightarrow> pth_state option" where
  "pth_key_destroydata call t s =
     (if t = NULL then Some s
      else do {
        dv \<leftarrow> t_get t_data_value t s;
        if dv = None then Some s
        else do {
          s \<leftarrow> destroy_iterations call t PTH_DESTRUCTOR_ITERATIONS s;
          t_set (\<lambda>c. c\<lparr>t_data_value := None\<rparr>) t s } })"

section \<open>Key allocation\<close>

lemma key_search_ge: "key \<le> key_search tab key"
proof (induction tab key rule: key_search.induct)
  case (1 tab key)
  then show ?case
    by (subst key_search.simps) auto
qed

lemma key_search_used: "key \<le> k \<Longrightarrow> k < key_search tab key \<Longrightarrow> k_used (tab k)"
proof (induction tab key rule: key_search.induct)
  case (1 tab key)
  show ?case
  proof (cases "key < PTH_KEY_MAX \<and> k_used (tab key)")
    case True
    with 1 show ?thesis
      by (cases "k = key") (auto simp: key_search.simps [of tab key])
  next
    case False
    with 1 show ?thesis
      by (auto simp: key_search.simps [of tab key] split: if_splits)
  qed
qed

lemma key_search_stop: "key_search tab key < PTH_KEY_MAX \<Longrightarrow> \<not> k_used (tab (key_search tab key))"
proof (induction tab key rule: key_search.induct)
  case (1 tab key)
  then show ?case
    by (cases "key < PTH_KEY_MAX \<and> k_used (tab key)") (auto simp: key_search.simps [of tab key])
qed

lemma key_search_LEAST:
  assumes "k < PTH_KEY_MAX" "\<not> k_used (tab k)"
  shows "key_search tab 0 = (LEAST k. \<not> k_used (tab k))"
proof -
  have le: "key_search tab 0 \<le> k"
    using key_search_used [of 0 k tab] assms by force
  then have "\<not> k_used (tab (key_search tab 0))"
    using assms key_search_stop by simp
  moreover have "key_search tab 0 \<le> y" if "\<not> k_used (tab y)" for y
    using key_search_used [of 0 y tab] that by (meson leI zero_le)
  ultimately show ?thesis
    by (intro Least_equality [symmetric])
qed

section \<open>The value table\<close>

lemma data_order: "t_data_value_update f (t_data_count_update g c) =
    t_data_count_update g (t_data_value_update f c)"
  by simp

definition live_keys :: "(nat \<Rightarrow> ptr) \<Rightarrow> nat list" where
  "live_keys v = filter (\<lambda>k. v k \<noteq> NULL) [0..<PTH_KEY_MAX]"

definition data_ok :: "pth_st \<Rightarrow> bool" where
  "data_ok c \<longleftrightarrow> t_data_count c =
     (case t_data_value c of None \<Rightarrow> 0 | Some v \<Rightarrow> int (length (live_keys v)))"

lemma upt_split_key: "k < n \<Longrightarrow> [0..<n] = [0..<k] @ k # [Suc k..<n]"
  by (metis less_imp_add_positive plus_nat.add_0 upt_add_eq_append upt_conv_Cons zero_le)

lemma live_keys_upd:
  assumes "k < PTH_KEY_MAX"
  shows "int (length (live_keys (v(k := x)))) = int (length (live_keys v)) +
    (if v k = NULL then (if x = NULL then 0 else 1) else (if x = NULL then -1 else 0))"
proof -
  have "filter (\<lambda>j. (v(k := x)) j \<noteq> NULL) [0..<k] = filter (\<lambda>j. v j \<noteq> NULL) [0..<k]"
    "filter (\<lambda>j. (v(k := x)) j \<noteq> NULL) [Suc k..<PTH_KEY_MAX] =
     filter (\<lambda>j. v j \<noteq> NULL) [Suc k..<PTH_KEY_MAX]"
    by (auto intro!: filter_cong)
  then show ?thesis
    unfolding live_keys_def upt_split_key [OF assms] by (simp add: fun_upd_apply)
qed

lemma live_keys_null: "live_keys (\<lambda>_. NULL) = []"
  by (simp add: live_keys_def)

lemma setdata_result:
  assumes key: "key_in_range key" "k_used (pth_keytab s (nat key))" and t: "tcbs s (pth_current s) = Some c"
    and mem: "t_data_value c = None \<longrightarrow> calloc_ok"
  obtains c' where
    "pth_key_setdata calloc_ok key value s = Some (True, s\<lparr>tcbs := (tcbs s)(pth_current s \<mapsto> c')\<rparr>)"
    "t_data_value c' = Some ((case t_data_value c of None \<Rightarrow> (\<lambda>_. NULL) | Some v \<Rightarrow> v)(nat key := value))"
    "data_ok c \<Longrightarrow> data_ok c'" "c'\<lparr>t_data_value := t_data_value c, t_data_count := t_data_count c\<rparr> = c"
proof -
  let ?v = "case t_data_value c of None \<Rightarrow> (\<lambda>_. NULL) | Some v \<Rightarrow> v"
  let ?k = "nat key"
  define c' where "c' = c\<lparr>t_data_value := Some (?v(?k := value)), t_data_count := t_data_count c +
    (if ?v ?k = NULL then (if value = NULL then 0 else 1) else (if value = NULL then -1 else 0))\<rparr>"
  have "pth_key_setdata calloc_ok key value s = Some (True, s\<lparr>tcbs := (tcbs s)(pth_current s \<mapsto> c')\<rparr>)"
    using key t mem
    by (cases "t_data_value c") (auto simp: pth_key_setdata_def cells Let_def c'_def data_order)
  moreover have "data_ok c'" if "data_ok c"
    using that key(1) live_keys_upd [of ?k ?v "value"]
    by (cases "t_data_value c") (auto simp: data_ok_def c'_def key_in_range_def live_keys_null)
  ultimately show ?thesis
    using that [of c'] by (simp add: c'_def)
qed

section \<open>Destructors\<close>

text \<open>
  The destructor calls a value table asks for, from key \<open>k\<close> on. A well-behaved destructor
  returns, leaves the control blocks and the key table alone and does its work in the memory of
  the application.
\<close>

definition destructor_calls :: "(nat \<Rightarrow> pth_keytab_st) \<Rightarrow> (nat \<Rightarrow> ptr) \<Rightarrow> nat \<Rightarrow> (ptr \<times> ptr) list" where
  "destructor_calls tab v k =
     [(k_destructor (tab j), v j). j \<leftarrow> [k..<PTH_KEY_MAX], v j \<noteq> NULL \<and> k_destructor (tab j) \<noteq> NULL]"

definition logs_calls :: "callback \<Rightarrow> bool" where
  "logs_calls call \<longleftrightarrow> (\<forall>f a s. call f a s = Some (s\<lparr>app_log := app_log s @ [(f, a)]\<rparr>))"

lemma live_keys_from:
  "k < PTH_KEY_MAX \<Longrightarrow> filter (\<lambda>j. v j \<noteq> NULL) [k..<PTH_KEY_MAX] =
     (if v k \<noteq> NULL then [k] else []) @ filter (\<lambda>j. v j \<noteq> NULL) [Suc k..<PTH_KEY_MAX]"
  by (simp add: upt_conv_Cons)

lemma destructor_calls_from:
  "k < PTH_KEY_MAX \<Longrightarrow> destructor_calls tab v k =
     (if v k \<noteq> NULL \<and> k_destructor (tab k) \<noteq> NULL then [(k_destructor (tab k), v k)] else []) @
     destructor_calls tab v (Suc k)"
  by (simp add: destructor_calls_def upt_conv_Cons)

lemma destructor_calls_none:
  "filter (\<lambda>j. v j \<noteq> NULL) [k..<PTH_KEY_MAX] = [] \<Longrightarrow> destructor_calls tab v k = []"
  by (auto simp: destructor_calls_def filter_empty_conv)

lemma destroy_keys_spec:
  assumes "logs_calls call" "tcbs s t = Some c" "t_data_value c = Some v"
    "t_data_count c = int (length (filter (\<lambda>j. v j \<noteq> NULL) [k..<PTH_KEY_MAX]))"
    "\<forall>j<PTH_KEY_MAX. v j \<noteq> NULL \<longrightarrow> k_used (pth_keytab s j)"
  shows "\<exists>v'. destroy_keys call t k s = Some (s\<lparr>
     tcbs := (tcbs s)(t \<mapsto> c\<lparr>t_data_value := Some v', t_data_count := 0\<rparr>),
     app_log := app_log s @ destructor_calls (pth_keytab s) v k\<rparr>)"
  using assms
proof (induction "PTH_KEY_MAX - k" arbitrary: k s c v)
  case 0
  then have c: "c\<lparr>t_data_value := Some v, t_data_count := 0\<rparr> = c"
    by (cases c) simp
  have "destroy_keys call t k s = Some s" "destructor_calls (pth_keytab s) v k = []"
    using 0 by (simp_all add: destroy_keys.simps destructor_calls_def)
  moreover have "s\<lparr>tcbs := (tcbs s)(t \<mapsto> c), app_log := app_log s @ []\<rparr> = s"
    by (simp add: self_upd(1) [OF 0(3)])
  ultimately show ?case
    by (intro exI [of _ v]) (simp only: c)
next
  case (Suc n)
  from Suc.hyps(2) have k: "k < PTH_KEY_MAX" by simp
  let ?f = "filter (\<lambda>j. v j \<noteq> NULL) [Suc k..<PTH_KEY_MAX]"
  let ?d = "k_destructor (pth_keytab s k)"
  define c1 where "c1 = (if v k \<noteq> NULL then c\<lparr>t_data_value := Some (v(k := NULL)),
    t_data_count := t_data_count c - 1\<rparr> else c)"
  define s1 where "s1 = s\<lparr>tcbs := (tcbs s)(t \<mapsto> c1),
    app_log := app_log s @ (if v k \<noteq> NULL \<and> ?d \<noteq> NULL then [(?d, v k)] else [])\<rparr>"
  define v1 where "v1 = (if v k \<noteq> NULL then v(k := NULL) else v)"
  note prems = Suc.prems
  have step: "destroy_key call t k s = Some s1"
  proof (cases "v k = NULL")
    case True
    with prems show ?thesis
      by (simp add: destroy_key_def cells c1_def s1_def self_upd)
  next
    case False
    moreover have "0 < t_data_count c"
      using prems(4) False unfolding live_keys_from [OF k] by simp
    ultimately show ?thesis
      using prems k by (simp add: destroy_key_def cells c1_def s1_def logs_calls_def Let_def data_order)
  qed
  have cnt: "t_data_count c1 = int (length ?f)"
    using prems(4) unfolding live_keys_from [OF k] by (simp add: c1_def)
  have t1: "tcbs s1 t = Some c1" "pth_keytab s1 = pth_keytab s" "t_data_value c1 = Some v1"
    using prems(3) by (simp_all add: s1_def c1_def v1_def)
  show ?case
  proof (cases "t_data_count c1 = 0")
    case True
    then have none: "destructor_calls (pth_keytab s) v (Suc k) = []"
      using cnt by (intro destructor_calls_none) simp
    have "destroy_keys call t k s = Some s1"
      using step True t1 k by (subst destroy_keys.simps) (simp add: cells)
    moreover have "c1 = c\<lparr>t_data_value := t_data_value c1, t_data_count := 0\<rparr>"
      using True by (cases c) (auto simp: c1_def split: if_splits)
    then have "c1 = c\<lparr>t_data_value := Some v1, t_data_count := 0\<rparr>"
      using t1(3) by simp
    moreover have "destructor_calls (pth_keytab s) v k =
      (if v k \<noteq> NULL \<and> ?d \<noteq> NULL then [(?d, v k)] else [])"
      by (simp add: destructor_calls_from [OF k] none)
    ultimately show ?thesis
      unfolding s1_def by (intro exI [of _ v1]) simp
  next
    case False
    have same: "filter (\<lambda>j. v1 j \<noteq> NULL) [Suc k..<PTH_KEY_MAX] = ?f"
      "destructor_calls (pth_keytab s) v1 (Suc k) = destructor_calls (pth_keytab s) v (Suc k)"
      by (auto simp: v1_def destructor_calls_def intro!: filter_cong arg_cong [where f = concat] map_cong)
    have "\<exists>v'. destroy_keys call t (Suc k) s1 = Some (s1\<lparr>
       tcbs := (tcbs s1)(t \<mapsto> c1\<lparr>t_data_value := Some v', t_data_count := 0\<rparr>),
       app_log := app_log s1 @ destructor_calls (pth_keytab s1) v1 (Suc k)\<rparr>)"
    proof (rule Suc.hyps(1))
      show "n = PTH_KEY_MAX - Suc k" using Suc.hyps(2) by simp
      show "t_data_value c1 = Some v1" by (rule t1(3))
      show "t_data_count c1 = int (length (filter (\<lambda>j. v1 j \<noteq> NULL) [Suc k..<PTH_KEY_MAX]))"
        using cnt same by simp
      show "\<forall>j<PTH_KEY_MAX. v1 j \<noteq> NULL \<longrightarrow> k_used (pth_keytab s1 j)"
        using prems(5) by (auto simp: v1_def t1 fun_upd_apply split: if_splits)
    qed (use prems(1) t1 in auto)
    moreover have "destroy_keys call t k s = destroy_keys call t (Suc k) s1"
      using step False t1 k by (subst destroy_keys.simps) (simp add: cells)
    moreover have "c1\<lparr>t_data_value := Some v', t_data_count := 0\<rparr> =
      c\<lparr>t_data_value := Some v', t_data_count := 0\<rparr>" for v'
      by (simp add: c1_def)
    ultimately show ?thesis
      using same k by (auto simp: s1_def destructor_calls_from [of k])
  qed
qed

lemma destroydata_spec:
  assumes "logs_calls call" "t \<noteq> NULL" "tcbs s t = Some c" "t_data_value c = Some v" "data_ok c"
    "\<forall>j<PTH_KEY_MAX. v j \<noteq> NULL \<longrightarrow> k_used (pth_keytab s j)"
  shows "pth_key_destroydata call t s = Some (s\<lparr>
     tcbs := (tcbs s)(t \<mapsto> c\<lparr>t_data_value := None, t_data_count := 0\<rparr>),
     app_log := app_log s @ destructor_calls (pth_keytab s) v 0\<rparr>)"
proof -
  obtain v' where "destroy_keys call t 0 s = Some (s\<lparr>
     tcbs := (tcbs s)(t \<mapsto> c\<lparr>t_data_value := Some v', t_data_count := 0\<rparr>),
     app_log := app_log s @ destructor_calls (pth_keytab s) v 0\<rparr>)"
    using destroy_keys_spec [of call s t c v 0] assms by (auto simp: data_ok_def live_keys_def)
  then show ?thesis
    using assms by (simp add: pth_key_destroydata_def data_order state_order cells PTH_DESTRUCTOR_ITERATIONS_def numeral_eq_Suc)
qed

section \<open>Properties\<close>

text \<open>
  \<^verbatim>\<open>pth_key_create\<close> finds a key whenever one of the 256 is free, it returns the least free one,
  marks exactly that one as used with the given destructor and stores it in \<^verbatim>\<open>*key\<close>; when all
  keys are in use it fails with \<^verbatim>\<open>EAGAIN\<close> and changes no key.
\<close>

theorem pth_key_create_least_free:
  assumes "key \<noteq> NullInt" "key \<in> dom (mem_int s)"
  shows "\<exists>ok s'. pth_key_create key func s = Some (ok, s') \<and>
    (ok \<longleftrightarrow> (\<exists>k<PTH_KEY_MAX. \<not> k_used (pth_keytab s k))) \<and>
    (ok \<longrightarrow> (\<exists>k<PTH_KEY_MAX. \<not> k_used (pth_keytab s k) \<and> (\<forall>j<k. k_used (pth_keytab s j)) \<and>
       mem_int s' key = Some (int k) \<and> pth_keytab s' k = \<lparr>k_used = True, k_destructor = func\<rparr> \<and>
       (\<forall>j. j \<noteq> k \<longrightarrow> pth_keytab s' j = pth_keytab s j) \<and> errno s' = errno s)) \<and>
    (\<not> ok \<longrightarrow> errno s' = EAGAIN \<and> pth_keytab s' = pth_keytab s)"
proof -
  let ?k = "key_search (pth_keytab s) 0"
  obtain v where v: "mem_int s key = Some v"
    using assms(2) by blast
  have below: "k_used (pth_keytab s j)" if "j < ?k" for j
    using key_search_used [of 0 j] that by simp
  show ?thesis
  proof (cases "?k < PTH_KEY_MAX")
    case True
    with key_search_stop [OF True] below v assms show ?thesis
      by (auto simp: pth_key_create_def int_set_def setf_def Let_def)
  next
    case False
    with below v assms show ?thesis
      by (auto simp: pth_key_create_def int_set_def setf_def Let_def pth_error_def)
  qed
qed

theorem pth_key_create_least_free_witness:
  "\<exists>ok s'. pth_key_create (IntAt 8) 77 (state0\<lparr>mem_int := [IntAt 8 \<mapsto> -1]\<rparr>) = Some (ok, s') \<and> ok"
proof -
  have "\<not> k_used (pth_keytab (state0\<lparr>mem_int := [IntAt 8 \<mapsto> -1]\<rparr>) 0)" "0 < PTH_KEY_MAX"
    by (simp_all add: state0_def PTH_KEY_MAX_def)
  with pth_key_create_least_free [of "IntAt 8" "state0\<lparr>mem_int := [IntAt 8 \<mapsto> -1]\<rparr>" 77]
  show ?thesis by auto
qed

text \<open>
  C28: storing a value under an allocated key succeeds (memory permitting); afterwards the thread
  reads that value back under the key and every other allocated key reads as before, the count
  of non-\<^verbatim>\<open>NULL\<close> values stays exact, and no other thread's data changes.
\<close>

theorem pth_key_setdata_getdata:
  assumes "key_in_range key" "k_used (pth_keytab s (nat key))" "tcbs s (pth_current s) = Some c"
    "t_data_value c = None \<longrightarrow> calloc_ok" "data_ok c"
  shows "\<exists>s' c'. pth_key_setdata calloc_ok key val s = Some (True, s') \<and>
    pth_key_getdata key s' = Some (val, s') \<and>
    (\<forall>key'. key' \<noteq> key \<and> key_in_range key' \<and> k_used (pth_keytab s (nat key')) \<longrightarrow>
       map_option fst (pth_key_getdata key' s') = map_option fst (pth_key_getdata key' s)) \<and>
    tcbs s' (pth_current s) = Some c' \<and> data_ok c' \<and>
    (\<forall>t. t \<noteq> pth_current s \<longrightarrow> tcbs s' t = tcbs s t)"
proof -
  obtain c' where c': "pth_key_setdata calloc_ok key val s =
      Some (True, s\<lparr>tcbs := (tcbs s)(pth_current s \<mapsto> c')\<rparr>)"
    "t_data_value c' = Some ((case t_data_value c of None \<Rightarrow> (\<lambda>_. NULL) | Some v \<Rightarrow> v)(nat key := val))"
    "data_ok c'"
    using setdata_result [OF assms(1-4)] assms(5) by metis
  have "map_option fst (pth_key_getdata key' (s\<lparr>tcbs := (tcbs s)(pth_current s \<mapsto> c')\<rparr>)) =
        map_option fst (pth_key_getdata key' s)"
    if "key' \<noteq> key" "key_in_range key'" "k_used (pth_keytab s (nat key'))" for key'
  proof -
    have "nat key' \<noteq> nat key"
      using that assms(1) by (auto simp: key_in_range_def)
    with that show ?thesis
      using assms(3) c'(2) by (simp add: pth_key_getdata_def cells split: option.splits)
  qed
  moreover have "pth_key_getdata key (s\<lparr>tcbs := (tcbs s)(pth_current s \<mapsto> c')\<rparr>) =
      Some (val, s\<lparr>tcbs := (tcbs s)(pth_current s \<mapsto> c')\<rparr>)"
    using assms(1-3) c'(2) by (simp add: pth_key_getdata_def cells)
  ultimately show ?thesis
    using c' by auto
qed

theorem pth_key_setdata_getdata_witness:
  "\<exists>s'. pth_key_setdata True 3 42 (state0\<lparr>pth_current := 1, tcbs := [1 \<mapsto> tcb0],
      pth_keytab := (\<lambda>_. \<lparr>k_used = True, k_destructor = NULL\<rparr>)\<rparr>) = Some (True, s') \<and>
    pth_key_getdata 3 s' = Some (42, s')"
  using pth_key_setdata_getdata [of 3 "state0\<lparr>pth_current := 1, tcbs := [1 \<mapsto> tcb0],
      pth_keytab := (\<lambda>_. \<lparr>k_used = True, k_destructor = NULL\<rparr>)\<rparr>" tcb0 True 42]
  by (auto simp: key_in_range_def PTH_KEY_MAX_def data_ok_def tcb0_def)

text \<open>
  With well-behaved destructors, \<^verbatim>\<open>pth_key_destroydata\<close> returns after calling, in key order,
  the destructor of every key under which the thread has a value, each once and on that value,
  and releases the table with the count at zero.
\<close>

theorem pth_key_destroydata_calls:
  assumes "logs_calls call" "t \<noteq> NULL" "tcbs s t = Some c" "t_data_value c = Some v" "data_ok c"
    "\<forall>j<PTH_KEY_MAX. v j \<noteq> NULL \<longrightarrow> k_used (pth_keytab s j)"
  shows "\<exists>s'. pth_key_destroydata call t s = Some s' \<and>
    app_log s' = app_log s @ [(k_destructor (pth_keytab s j), v j).
      j \<leftarrow> [0..<PTH_KEY_MAX], v j \<noteq> NULL \<and> k_destructor (pth_keytab s j) \<noteq> NULL] \<and>
    tcbs s' = (tcbs s)(t \<mapsto> c\<lparr>t_data_value := None, t_data_count := 0\<rparr>)"
  unfolding destroydata_spec [OF assms] destructor_calls_def by simp

theorem pth_key_destroydata_calls_witness:
  "\<exists>s'. pth_key_destroydata (\<lambda>f a s. Some (s\<lparr>app_log := app_log s @ [(f, a)]\<rparr>)) 1
     (state0\<lparr>tcbs := [1 \<mapsto> tcb0\<lparr>t_data_value := Some ((\<lambda>_. NULL)(0 := 42)), t_data_count := 1\<rparr>],
       pth_keytab := (\<lambda>_. \<lparr>k_used = True, k_destructor = 9\<rparr>)\<rparr>) = Some s' \<and>
   app_log s' = [(9, 42)]"
proof -
  let ?v = "(\<lambda>_. NULL)(0 := 42)"
  let ?c = "tcb0\<lparr>t_data_value := Some ?v, t_data_count := 1\<rparr>"
  let ?s = "state0\<lparr>tcbs := [1 \<mapsto> ?c], pth_keytab := (\<lambda>_. \<lparr>k_used = True, k_destructor = 9\<rparr>)\<rparr>"
  have upt: "[0..<PTH_KEY_MAX] = 0 # [1..<PTH_KEY_MAX]"
    by (simp add: upt_conv_Cons PTH_KEY_MAX_def)
  have "filter (\<lambda>k. ?v k \<noteq> NULL) [1..<PTH_KEY_MAX] = []"
    by (auto simp: filter_empty_conv)
  then have "data_ok ?c"
    unfolding data_ok_def live_keys_def upt by simp
  moreover have "[(k_destructor (pth_keytab ?s j), ?v j). j \<leftarrow> [0..<PTH_KEY_MAX],
      ?v j \<noteq> NULL \<and> k_destructor (pth_keytab ?s j) \<noteq> NULL] = [(9, 42)]"
    unfolding upt by (auto simp: concat_eq_Nil_conv)
  moreover have "app_log ?s = []"
    by (simp add: state0_def)
  ultimately show ?thesis
    using pth_key_destroydata_calls [of "\<lambda>f a s. Some (s\<lparr>app_log := app_log s @ [(f, a)]\<rparr>)" 1 ?s ?c ?v]
    by (auto simp: logs_calls_def)
qed

end
