(* ===== verification/Pth_Clean.thy ===== *)
theory Pth_Clean
  imports Pth_Data
begin

text \<open>
  The cleanup handlers of a thread (\<^verbatim>\<open>pth_clean.c\<close>). The handlers form a list of nodes that only
  the field \<^verbatim>\<open>cleanups\<close> of the control block reaches; the model keeps the list of their
  functions and arguments, the newest first. A handler may push further handlers, so
  \<^verbatim>\<open>pth_cleanup_popall\<close> need not end; for well-behaved handlers it does.
\<close>

definition pth_cleanup_push :: "bool \<Rightarrow> ptr \<Rightarrow> ptr \<Rightarrow> pth_state \<Rightarrow> (bool \<times> pth_state) option" where
  "pth_cleanup_push malloc_ok func arg s =
     (if func = NULL then Some (pth_error False EINVAL s)
      else if \<not> malloc_ok then Some (pth_error False ENOMEM s)
      else do {
        s \<leftarrow> t_set (\<lambda>c. c\<lparr>t_cleanups := (func, arg) # t_cleanups c\<rparr>) (pth_current s) s;
        Some (True, s) })"

definition pth_cleanup_pop :: "callback \<Rightarrow> bool \<Rightarrow> pth_state \<Rightarrow> (bool \<times> pth_state) option" where
  "pth_cleanup_pop call execute s = do {
     cs \<leftarrow> t_get t_cleanups (pth_current s) s;
     case cs of
       [] \<Rightarrow> Some (False, s)
     | (func, arg) # rest \<Rightarrow> do {
         s \<leftarrow> t_set (\<lambda>c. c\<lparr>t_cleanups := rest\<rparr>) (pth_current s) s;
         s \<leftarrow> (if execute then call func arg s else Some s);
         Some (True, s) } }"

partial_function (option) pth_cleanup_popall :: "callback \<Rightarrow> ptr \<Rightarrow> bool \<Rightarrow> pth_state \<Rightarrow> pth_state option" where
  "pth_cleanup_popall call t execute s =
     Option.bind (t_get t_cleanups t s) (\<lambda>cs.
       case cs of
         [] \<Rightarrow> Some s
       | (func, arg) # rest \<Rightarrow>
           Option.bind (t_set (\<lambda>c. c\<lparr>t_cleanups := rest\<rparr>) t s) (\<lambda>s.
           Option.bind (if execute then call func arg s else Some s)
             (pth_cleanup_popall call t execute)))"

lemma cleanup_popall_spec:
  assumes "logs_calls call" "tcbs s t = Some c"
  shows "pth_cleanup_popall call t execute s =
    Some (s\<lparr>tcbs := (tcbs s)(t \<mapsto> c\<lparr>t_cleanups := []\<rparr>),
            app_log := app_log s @ (if execute then t_cleanups c else [])\<rparr>)"
  using assms
proof (induction "t_cleanups c" arbitrary: s c)
  case Nil
  then have c: "c\<lparr>t_cleanups := []\<rparr> = c"
    by (cases c) simp
  show ?case
    using Nil by (subst pth_cleanup_popall.simps) (simp add: cells c self_upd)
next
  case (Cons x xs)
  obtain f a where x: "x = (f, a)" by (cases x)
  let ?s = "s\<lparr>tcbs := (tcbs s)(t \<mapsto> c\<lparr>t_cleanups := xs\<rparr>),
              app_log := app_log s @ (if execute then [(f, a)] else [])\<rparr>"
  have "pth_cleanup_popall call t execute s = pth_cleanup_popall call t execute ?s"
    using Cons.prems Cons.hyps(2) x
    by (subst pth_cleanup_popall.simps) (simp add: cells logs_calls_def Cons.hyps(2) [symmetric])
  also have "\<dots> = Some (?s\<lparr>tcbs := (tcbs ?s)(t \<mapsto> (c\<lparr>t_cleanups := xs\<rparr>)\<lparr>t_cleanups := []\<rparr>),
      app_log := app_log ?s @ (if execute then t_cleanups (c\<lparr>t_cleanups := xs\<rparr>) else [])\<rparr>)"
    using Cons.prems by (intro Cons.hyps(1)) simp_all
  finally show ?case
    using x Cons.hyps(2) by simp
qed

section \<open>Properties\<close>

text \<open>
  Cleanup handlers run in reverse order of their registration: after pushing handlers
  \<open>hs\<close>, \<^verbatim>\<open>pth_cleanup_popall\<close> returns, has called each exactly once, the latest first and before
  all the earlier handlers, and leaves none behind.
\<close>

theorem pth_cleanup_lifo:
  assumes "logs_calls call" "tcbs s (pth_current s) = Some c" "\<forall>(f, a) \<in> set hs. f \<noteq> NULL"
  shows "\<exists>s1 s2. put_all (\<lambda>(f, a) s. map_option snd (pth_cleanup_push True f a s)) hs s = Some s1 \<and>
    pth_cleanup_popall call (pth_current s) True s1 = Some s2 \<and>
    app_log s2 = app_log s @ rev hs @ t_cleanups c \<and>
    tcbs s2 = (tcbs s)(pth_current s \<mapsto> c\<lparr>t_cleanups := []\<rparr>)"
proof -
  have "put_all (\<lambda>(f, a) s. map_option snd (pth_cleanup_push True f a s)) hs s =
    Some (s\<lparr>tcbs := (tcbs s)(pth_current s \<mapsto> c\<lparr>t_cleanups := rev hs @ t_cleanups c\<rparr>)\<rparr>)"
    using assms(2,3)
  proof (induction hs arbitrary: s c)
    case Nil
    then show ?case by (simp add: self_upd)
  next
    case (Cons h hs)
    obtain f a where h: "h = (f, a)" by (cases h)
    let ?c = "c\<lparr>t_cleanups := (f, a) # t_cleanups c\<rparr>"
    have "pth_cleanup_push True f a s = Some (True, s\<lparr>tcbs := (tcbs s)(pth_current s \<mapsto> ?c)\<rparr>)"
      using Cons.prems h by (simp add: pth_cleanup_push_def cells)
    then show ?case
      using Cons.IH [of "s\<lparr>tcbs := (tcbs s)(pth_current s \<mapsto> ?c)\<rparr>" ?c] Cons.prems h by simp
  qed
  then show ?thesis
    using assms(1) by (simp add: cleanup_popall_spec)
qed

theorem pth_cleanup_lifo_witness:
  "\<exists>s1 s2. put_all (\<lambda>(f, a) s. map_option snd (pth_cleanup_push True f a s)) [(7, 1), (8, 2)]
      (state0\<lparr>pth_current := 1, tcbs := [1 \<mapsto> tcb0]\<rparr>) = Some s1 \<and>
    pth_cleanup_popall (\<lambda>f a s. Some (s\<lparr>app_log := app_log s @ [(f, a)]\<rparr>)) 1 True s1 = Some s2 \<and>
    app_log s2 = [(8, 2), (7, 1)]"
  using pth_cleanup_lifo [of "\<lambda>f a s. Some (s\<lparr>app_log := app_log s @ [(f, a)]\<rparr>)"
      "state0\<lparr>pth_current := 1, tcbs := [1 \<mapsto> tcb0]\<rparr>" tcb0 "[(7, 1), (8, 2)]"]
  by (fastforce simp: logs_calls_def state0_def tcb0_def)

text \<open>
  \<^verbatim>\<open>pth_cleanup_pop\<close> undoes \<^verbatim>\<open>pth_cleanup_push\<close>: it restores the state exactly, and with
  \<^verbatim>\<open>execute\<close> it calls the pushed handler on its argument in that restored state.
\<close>

theorem pth_cleanup_push_pop:
  assumes "func \<noteq> NULL" "pth_current s \<in> dom (tcbs s)"
  shows "\<exists>s1. pth_cleanup_push True func arg s = Some (True, s1) \<and>
    pth_cleanup_pop call False s1 = Some (True, s) \<and>
    pth_cleanup_pop call True s1 = map_option (Pair True) (call func arg s)"
proof -
  obtain c where c: "tcbs s (pth_current s) = Some c"
    using assms(2) by blast
  let ?s = "s\<lparr>tcbs := (tcbs s)(pth_current s \<mapsto> c\<lparr>t_cleanups := (func, arg) # t_cleanups c\<rparr>)\<rparr>"
  have "pth_cleanup_push True func arg s = Some (True, ?s)"
    using c assms(1) by (simp add: pth_cleanup_push_def cells)
  moreover have "pth_cleanup_pop call ex ?s =
      Option.bind (if ex then call func arg s else Some s) (\<lambda>s. Some (True, s))" for ex
    using c by (simp add: pth_cleanup_pop_def cells self_upd)
  ultimately show ?thesis
    by (cases "call func arg s") simp_all
qed

theorem pth_cleanup_push_pop_witness:
  "\<exists>s1. pth_cleanup_push True 5 6 (state0\<lparr>pth_current := 1, tcbs := [1 \<mapsto> tcb0]\<rparr>) = Some (True, s1) \<and>
    pth_cleanup_pop (\<lambda>_ _ s. Some s) True s1 =
      Some (True, state0\<lparr>pth_current := 1, tcbs := [1 \<mapsto> tcb0]\<rparr>)"
  using pth_cleanup_push_pop [of 5 "state0\<lparr>pth_current := 1, tcbs := [1 \<mapsto> tcb0]\<rparr>" 6 "\<lambda>_ _ s. Some s"]
  by auto

end
