(* ===== verification/Pth_Util.thy ===== *)
theory Pth_Util
  imports Pth_State
begin

text \<open>
  The utilities of \<^verbatim>\<open>pth_util.c\<close>: descriptor sets, the bounded string copy and the removal of a
  pending signal. The input descriptor sets belong to the caller and may be the same object, so
  they are addresses in the memory of sets (\<open>NULL\<close> when absent); the output sets are variables of
  the scheduler. A buffer is the list of its bytes and an access outside it has no result.
\<close>

definition FD_SETSIZE :: int where "FD_SETSIZE = 1024"

type_synonym fdmem = "ptr \<rightharpoonup> fd_set"

text \<open>\<open>is_open fd\<close> says that \<^verbatim>\<open>fcntl(fd, F_GETFL)\<close> does not fail with \<^verbatim>\<open>EBADF\<close>.\<close>

definition pth_util_fd_valid :: "(int \<Rightarrow> bool) \<Rightarrow> int \<Rightarrow> bool" where
  "pth_util_fd_valid is_open fd \<longleftrightarrow> \<not> (fd < 0 \<or> fd \<ge> FD_SETSIZE) \<and> is_open fd"

text \<open>One set of one descriptor in each of the three loops.\<close>

definition fd_merge1 :: "fdmem \<Rightarrow> int \<Rightarrow> ptr \<Rightarrow> fd_set \<Rightarrow> fd_set option" where
  "fd_merge1 m s ifds ofds =
     (if ifds = NULL then Some ofds
      else do { i \<leftarrow> m ifds; Some (if s \<in> i then insert s ofds else ofds) })"

definition fd_test1 :: "fdmem \<Rightarrow> int \<Rightarrow> ptr \<Rightarrow> fd_set \<Rightarrow> bool option" where
  "fd_test1 m s ifds ofds =
     (if ifds = NULL then Some False else do { i \<leftarrow> m ifds; Some (s \<in> i \<and> s \<in> ofds) })"

definition fd_select1 :: "int \<Rightarrow> ptr \<Rightarrow> fd_set \<Rightarrow> int \<times> fdmem \<Rightarrow> (int \<times> fdmem) option" where
  "fd_select1 s ifds ofds nm = (case nm of (n, m) \<Rightarrow>
     (if ifds = NULL then Some (n, m)
      else do { i \<leftarrow> m ifds;
                Some (if s \<in> i then (if s \<notin> ofds then (n, m(ifds \<mapsto> i - {s})) else (n + 1, m)) else (n, m)) }))"

primrec fds_merge_loop :: "fdmem \<Rightarrow> int list \<Rightarrow> ptr \<times> ptr \<times> ptr \<Rightarrow> fd_set \<times> fd_set \<times> fd_set
    \<Rightarrow> (fd_set \<times> fd_set \<times> fd_set) option" where
  "fds_merge_loop m [] i out = Some out"
| "fds_merge_loop m (s # ss) i out = (case i of (i1, i2, i3) \<Rightarrow> case out of (o1, o2, o3) \<Rightarrow> do {
     o1 \<leftarrow> fd_merge1 m s i1 o1;
     o2 \<leftarrow> fd_merge1 m s i2 o2;
     o3 \<leftarrow> fd_merge1 m s i3 o3;
     fds_merge_loop m ss i (o1, o2, o3) })"

definition pth_util_fds_merge :: "fdmem \<Rightarrow> int \<Rightarrow> ptr \<times> ptr \<times> ptr \<Rightarrow> fd_set \<times> fd_set \<times> fd_set
    \<Rightarrow> (fd_set \<times> fd_set \<times> fd_set) option" where
  "pth_util_fds_merge m nfd i out = fds_merge_loop m [0..nfd - 1] i out"

primrec fds_test_loop :: "fdmem \<Rightarrow> int list \<Rightarrow> ptr \<times> ptr \<times> ptr \<Rightarrow> fd_set \<times> fd_set \<times> fd_set
    \<Rightarrow> bool option" where
  "fds_test_loop m [] i out = Some False"
| "fds_test_loop m (s # ss) i out = (case i of (i1, i2, i3) \<Rightarrow> case out of (o1, o2, o3) \<Rightarrow> do {
     b \<leftarrow> fd_test1 m s i1 o1;
     if b then Some True else do {
       b \<leftarrow> fd_test1 m s i2 o2;
       if b then Some True else do {
         b \<leftarrow> fd_test1 m s i3 o3;
         if b then Some True else fds_test_loop m ss i out } } })"

definition pth_util_fds_test :: "fdmem \<Rightarrow> int \<Rightarrow> ptr \<times> ptr \<times> ptr \<Rightarrow> fd_set \<times> fd_set \<times> fd_set
    \<Rightarrow> bool option" where
  "pth_util_fds_test m nfd i out = fds_test_loop m [0..nfd - 1] i out"

primrec fds_select_loop :: "int list \<Rightarrow> ptr \<times> ptr \<times> ptr \<Rightarrow> fd_set \<times> fd_set \<times> fd_set
    \<Rightarrow> int \<times> fdmem \<Rightarrow> (int \<times> fdmem) option" where
  "fds_select_loop [] i out nm = Some nm"
| "fds_select_loop (s # ss) i out nm = (case i of (i1, i2, i3) \<Rightarrow> case out of (o1, o2, o3) \<Rightarrow> do {
     nm \<leftarrow> fd_select1 s i1 o1 nm;
     nm \<leftarrow> fd_select1 s i2 o2 nm;
     nm \<leftarrow> fd_select1 s i3 o3 nm;
     fds_select_loop ss i out nm })"

definition pth_util_fds_select :: "int \<Rightarrow> ptr \<times> ptr \<times> ptr \<Rightarrow> fd_set \<times> fd_set \<times> fd_set
    \<Rightarrow> fdmem \<Rightarrow> (int \<times> fdmem) option" where
  "pth_util_fds_select nfd i out m = fds_select_loop [0..nfd - 1] i out (0, m)"

text \<open>The copy loop; \<open>d\<close> is the index of the byte to write, \<open>end\<close> that of the last byte allowed.\<close>

abbreviation NUL :: char where "NUL \<equiv> CHR 0x00"

function cpystrn_loop :: "string \<Rightarrow> string \<Rightarrow> nat \<Rightarrow> nat \<Rightarrow> (nat \<times> string) option" where
  "cpystrn_loop dst src d e =
     (if d < e then
        (if d < length dst \<and> d < length src then
           (if src ! d = NUL then Some (d, dst[d := src ! d])
            else cpystrn_loop (dst[d := src ! d]) src (d + 1) e)
         else None)
      else if d < length dst then Some (d, dst[d := NUL]) else None)"
  by pat_completeness auto

termination by (relation "measure (\<lambda>(_, _, d, e). e - d)") auto

declare cpystrn_loop.simps [simp del]

definition pth_util_cpystrn :: "string \<Rightarrow> string \<Rightarrow> nat \<Rightarrow> (nat \<times> string) option" where
  "pth_util_cpystrn dst src dst_size =
     (if dst_size = 0 then Some (0, dst) else cpystrn_loop dst src 0 (dst_size - 1))"

text \<open>
  \<open>sigaction_ok\<close> says whether the dummy handler can be installed; \<^verbatim>\<open>sigsuspend\<close> with all signals but
  \<open>sig\<close> blocked delivers the pending \<open>sig\<close> to it, and mask and handler are restored afterwards.
\<close>

definition pth_util_sigdelete :: "bool \<Rightarrow> nat \<Rightarrow> pth_state \<Rightarrow> bool \<times> pth_state" where
  "pth_util_sigdelete sigaction_ok sig s =
     (if sig \<notin> os_sigpending s then (False, s)
      else if \<not> sigaction_ok then (False, s)
      else (True, s\<lparr>os_sigpending := os_sigpending s - {sig}\<rparr>))"

section \<open>The string copy\<close>

lemma cpystrn_loop_spec:
  assumes "length dst > e" "d \<le> e" "length src > n" "src ! n = NUL" "\<forall>i<n. src ! i \<noteq> NUL" "d \<le> n"
    "take d dst = take d src"
  shows "\<exists>dst'. cpystrn_loop dst src d e = Some (min n e, dst') \<and>
    take (min n e) dst' = take (min n e) src \<and> dst' ! min n e = NUL \<and> length dst' = length dst \<and>
    (\<forall>i>min n e. dst' ! i = dst ! i)"
  using assms
proof (induction "e - d" arbitrary: d dst)
  case 0
  then have de: "d = e" "e \<le> n" by auto
  have "cpystrn_loop dst src d e = Some (e, dst[e := NUL])"
    using 0 de by (simp add: cpystrn_loop.simps)
  moreover have "take e (dst[e := NUL]) = take e src"
    using 0 de by simp
  ultimately show ?case
    using 0 de by (simp add: min_def)
next
  case (Suc k)
  then have d: "d < e" "d < length dst" "d < length src" by auto
  show ?case
  proof (cases "d = n")
    case True
    have "cpystrn_loop dst src d e = Some (n, dst[n := NUL])"
      using Suc.prems(4) True d by (subst cpystrn_loop.simps) simp
    then show ?thesis
      using Suc.prems d True by (simp add: min_def)
  next
    case False
    then have nz: "src ! d \<noteq> NUL" "d + 1 \<le> n"
      using Suc.prems(5,6) by auto
    let ?dst = "dst[d := src ! d]"
    have "take (d + 1) ?dst = take (d + 1) src"
      using Suc.prems(7) d by (simp add: take_Suc_conv_app_nth)
    then obtain dst' where "cpystrn_loop ?dst src (d + 1) e = Some (min n e, dst')"
      "take (min n e) dst' = take (min n e) src" "dst' ! min n e = NUL" "length dst' = length ?dst"
      "\<forall>i>min n e. dst' ! i = ?dst ! i"
      using Suc.hyps(1) [of "d + 1" ?dst] Suc.hyps(2) Suc.prems(1-5) d nz by fastforce
    moreover have "cpystrn_loop dst src d e = cpystrn_loop ?dst src (d + 1) e"
      using d nz by (subst cpystrn_loop.simps) simp
    ultimately show ?thesis
      using nz d by auto
  qed
qed

lemma cpystrn_spec:
  assumes "0 < dst_size" "dst_size \<le> length dst" "NUL \<notin> set str"
  shows "\<exists>dst'. pth_util_cpystrn dst (str @ NUL # rest) dst_size =
      Some (min (length str) (dst_size - 1), dst') \<and> length dst' = length dst \<and>
    dst' = take (dst_size - 1) str @ NUL # drop (min (length str) (dst_size - 1) + 1) dst"
proof -
  let ?n = "length str" and ?e = "dst_size - 1" and ?src = "str @ NUL # rest"
  let ?k = "min ?n ?e"
  have "\<forall>i<?n. ?src ! i \<noteq> NUL"
    using assms(3) by (metis nth_append nth_mem)
  moreover have "?e < length dst"
    using assms(1,2) by linarith
  ultimately obtain dst' where d: "cpystrn_loop dst ?src 0 ?e = Some (?k, dst')"
    "take ?k dst' = take ?k ?src" "dst' ! ?k = NUL" "length dst' = length dst"
    "\<forall>i>?k. dst' ! i = dst ! i"
    using cpystrn_loop_spec [where e = ?e and dst = dst and d = 0 and src = ?src and n = ?n] by auto
  have k: "?k < length dst'"
    using assms(1,2) d(4) by auto
  have "drop (?k + 1) dst' = drop (?k + 1) dst"
    using d(4,5) by (intro nth_equalityI) auto
  then have "dst' = take ?k ?src @ NUL # drop (?k + 1) dst"
    using d(2,3) id_take_nth_drop [OF k] by simp
  moreover have "take ?k ?src = take ?e str"
    by (simp add: min_def)
  ultimately show ?thesis
    using d assms(1) by (auto simp: pth_util_cpystrn_def)
qed

section \<open>Descriptor sets\<close>

text \<open>
  The set at an address (nothing at \<open>NULL\<close>), and clearing members of it. The three addresses of
  a call must be allocated or \<open>NULL\<close>; the sets may be shared unless \<open>fds_distinct\<close> is asked for.
\<close>

definition rd :: "fdmem \<Rightarrow> ptr \<Rightarrow> fd_set" where
  "rd m p = (if p = NULL then {} else the (m p))"

definition clr :: "fdmem \<Rightarrow> ptr \<Rightarrow> fd_set \<Rightarrow> fdmem" where
  "clr m p X = (if p = NULL then m else m(p \<mapsto> the (m p) - X))"

definition fds_ok :: "fdmem \<Rightarrow> ptr \<times> ptr \<times> ptr \<Rightarrow> bool" where
  "fds_ok m i \<longleftrightarrow> (case i of (i1, i2, i3) \<Rightarrow> (\<forall>p \<in> {i1, i2, i3}. p \<noteq> NULL \<longrightarrow> m p \<noteq> None))"

definition fds_distinct :: "ptr \<times> ptr \<times> ptr \<Rightarrow> bool" where
  "fds_distinct i \<longleftrightarrow> (case i of (i1, i2, i3) \<Rightarrow>
     (i1 = i2 \<longrightarrow> i1 = NULL) \<and> (i1 = i3 \<longrightarrow> i1 = NULL) \<and> (i2 = i3 \<longrightarrow> i2 = NULL))"

lemma fds_okD: "fds_ok m (i1, i2, i3) \<Longrightarrow> p \<in> {i1, i2, i3} \<Longrightarrow> p \<noteq> NULL \<Longrightarrow> \<exists>v. m p = Some v"
  by (auto simp: fds_ok_def)

lemma fd_merge1_rd: "p \<noteq> NULL \<longrightarrow> m p \<noteq> None \<Longrightarrow> fd_merge1 m s p q = Some (q \<union> (rd m p \<inter> {s}))"
  by (auto simp: fd_merge1_def rd_def)

lemma fd_test1_rd: "p \<noteq> NULL \<longrightarrow> m p \<noteq> None \<Longrightarrow> fd_test1 m s p q = Some (s \<in> rd m p \<and> s \<in> q)"
  by (auto simp: fd_test1_def rd_def)

lemma fd_select1_rd:
  "p \<noteq> NULL \<longrightarrow> m p \<noteq> None \<Longrightarrow>
   fd_select1 s p q (n, m) = Some (n + of_bool (s \<in> rd m p \<inter> q), clr m p ({s} - q))"
  by (cases "m p") (auto simp: fd_select1_def rd_def clr_def fun_upd_idem insert_Diff_if)

lemma fds_merge_loop_spec:
  assumes "fds_ok m (i1, i2, i3)"
  shows "fds_merge_loop m ss (i1, i2, i3) (o1, o2, o3) =
    Some (o1 \<union> (rd m i1 \<inter> set ss), o2 \<union> (rd m i2 \<inter> set ss), o3 \<union> (rd m i3 \<inter> set ss))"
proof (induction ss arbitrary: o1 o2 o3)
  case Nil
  then show ?case by simp
next
  case (Cons s ss)
  have ok: "i1 \<noteq> NULL \<longrightarrow> m i1 \<noteq> None" "i2 \<noteq> NULL \<longrightarrow> m i2 \<noteq> None" "i3 \<noteq> NULL \<longrightarrow> m i3 \<noteq> None"
    using assms by (auto simp: fds_ok_def)
  show ?case
    by (simp add: fd_merge1_rd ok Cons.IH) auto
qed

lemma fds_test_loop_spec:
  assumes "fds_ok m (i1, i2, i3)"
  shows "fds_test_loop m ss (i1, i2, i3) (o1, o2, o3) =
    Some (set ss \<inter> (rd m i1 \<inter> o1 \<union> rd m i2 \<inter> o2 \<union> rd m i3 \<inter> o3) \<noteq> {})"
proof (induction ss)
  case Nil
  then show ?case by simp
next
  case (Cons s ss)
  have ok: "i1 \<noteq> NULL \<longrightarrow> m i1 \<noteq> None" "i2 \<noteq> NULL \<longrightarrow> m i2 \<noteq> None" "i3 \<noteq> NULL \<longrightarrow> m i3 \<noteq> None"
    using assms by (auto simp: fds_ok_def)
  show ?case
    by (simp add: fd_test1_rd ok Cons.IH) blast
qed

lemma clr_simps:
  "rd (clr m p X) p = rd m p - X"
  "p \<noteq> p' \<Longrightarrow> rd (clr m p' X) p = rd m p"
  "clr (clr m p X) p Y = clr m p (X \<union> Y)"
  "p \<noteq> p' \<Longrightarrow> clr (clr m p X) p' Y = clr (clr m p' Y) p X"
  "clr m NULL X = m" "rd m NULL = {}"
  by (auto simp: rd_def clr_def Diff_Diff_Int fun_upd_twist Un_Diff set_diff_eq)

lemma clr_ok: "fds_ok (clr m p X) i = fds_ok m i" if "p \<noteq> NULL \<longrightarrow> m p \<noteq> None"
proof -
  have "(clr m p X q \<noteq> None) = (m q \<noteq> None)" for q
    using that by (simp add: clr_def fun_upd_apply)
  then show ?thesis
    by (simp add: fds_ok_def)
qed

definition clr3 :: "fdmem \<Rightarrow> ptr \<times> ptr \<times> ptr \<Rightarrow> fd_set \<times> fd_set \<times> fd_set \<Rightarrow> fdmem" where
  "clr3 m i X = (case i of (i1, i2, i3) \<Rightarrow> case X of (X1, X2, X3) \<Rightarrow> clr (clr (clr m i1 X1) i2 X2) i3 X3)"

lemma clr3_rd:
  assumes "fds_distinct (i1, i2, i3)"
  shows "rd (clr3 m (i1, i2, i3) (X1, X2, X3)) i1 = rd m i1 - X1"
    "rd (clr3 m (i1, i2, i3) (X1, X2, X3)) i2 = rd m i2 - X2"
    "rd (clr3 m (i1, i2, i3) (X1, X2, X3)) i3 = rd m i3 - X3"
  using assms unfolding clr3_def fds_distinct_def
  by (cases "i1 = NULL"; cases "i2 = NULL"; cases "i3 = NULL"; simp add: clr_simps)+

lemma clr_apply: "clr m p X x = (if p \<noteq> NULL \<and> x = p then Some (the (m p) - X) else m x)"
  by (simp add: clr_def)

lemma clr3_apply:
  assumes "fds_distinct (i1, i2, i3)"
  shows "clr3 m (i1, i2, i3) (X1, X2, X3) x =
    (if x = NULL then m x else if x = i1 then Some (the (m x) - X1) else
     if x = i2 then Some (the (m x) - X2) else if x = i3 then Some (the (m x) - X3) else m x)"
proof -
  consider "x = NULL" | "x \<noteq> NULL" "x = i1" "i2 \<noteq> x" "i3 \<noteq> x" | "x \<noteq> NULL" "x = i2" "i1 \<noteq> x" "i3 \<noteq> x"
    | "x \<noteq> NULL" "x = i3" "i1 \<noteq> x" "i2 \<noteq> x" | "x \<noteq> i1" "x \<noteq> i2" "x \<noteq> i3"
    using assms unfolding fds_distinct_def prod.case by metis
  then show ?thesis
    by cases (auto simp: clr3_def clr_apply)
qed

lemma clr3_clr3:
  assumes "fds_distinct (i1, i2, i3)"
  shows "clr3 (clr3 m (i1, i2, i3) (X1, X2, X3)) (i1, i2, i3) (Y1, Y2, Y3) =
    clr3 m (i1, i2, i3) (X1 \<union> Y1, X2 \<union> Y2, X3 \<union> Y3)"
  by (rule ext) (simp add: clr3_apply [OF assms] Diff_Un set_diff_eq Collect_conj_eq)

lemma clr3_ok: "fds_ok m (i1, i2, i3) \<Longrightarrow> fds_ok (clr3 m (i1, i2, i3) X) (i1, i2, i3)"
proof -
  assume ok: "fds_ok m (i1, i2, i3)"
  obtain X1 X2 X3 where X: "X = (X1, X2, X3)" by (cases X)
  have "fds_ok (clr m' p Y) (i1, i2, i3)" if "fds_ok m' (i1, i2, i3)" "p \<in> {i1, i2, i3}" for m' p Y
    using that clr_ok [of p m' Y "(i1, i2, i3)"] by (auto simp: fds_ok_def)
  with ok show ?thesis by (simp add: clr3_def X)
qed

lemma fds_select_step:
  assumes ok: "fds_ok m (i1, i2, i3)" and dist: "fds_distinct (i1, i2, i3)"
  shows "fds_select_loop (s # ss) (i1, i2, i3) (o1, o2, o3) (n, m) =
    fds_select_loop ss (i1, i2, i3) (o1, o2, o3)
      (n + (of_bool (s \<in> rd m i1 \<inter> o1) + of_bool (s \<in> rd m i2 \<inter> o2) + of_bool (s \<in> rd m i3 \<inter> o3)),
       clr3 m (i1, i2, i3) ({s} - o1, {s} - o2, {s} - o3))"
proof -
  let ?m1 = "clr m i1 ({s} - o1)" and ?m2 = "clr (clr m i1 ({s} - o1)) i2 ({s} - o2)"
  have ok: "i1 \<noteq> NULL \<longrightarrow> m i1 \<noteq> None" "i2 \<noteq> NULL \<longrightarrow> ?m1 i2 \<noteq> None" "i3 \<noteq> NULL \<longrightarrow> ?m2 i3 \<noteq> None"
    using ok by (auto simp: fds_ok_def clr_def fun_upd_apply split: if_splits)
  have r: "rd ?m1 i2 = rd m i2" "rd ?m2 i3 = rd m i3"
    using dist by (cases "i1 = NULL"; cases "i2 = NULL"; cases "i3 = NULL";
        simp add: fds_distinct_def clr_simps)+
  show ?thesis
    by (simp add: fd_select1_rd ok r clr3_def algebra_simps)
qed

lemma fds_select_loop_spec:
  assumes "fds_ok m (i1, i2, i3)" "fds_distinct (i1, i2, i3)" "distinct ss"
  shows "fds_select_loop ss (i1, i2, i3) (o1, o2, o3) (n, m) =
    Some (n + int (card (rd m i1 \<inter> o1 \<inter> set ss)) + int (card (rd m i2 \<inter> o2 \<inter> set ss)) +
            int (card (rd m i3 \<inter> o3 \<inter> set ss)),
          clr3 m (i1, i2, i3) (set ss - o1, set ss - o2, set ss - o3))"
  using assms
proof (induction ss arbitrary: n m)
  case Nil
  then have "clr m p {} = m" if "p \<in> {i1, i2, i3}" for p
    using that by (auto simp: clr_def fds_ok_def fun_upd_idem)
  then show ?case by (simp add: clr3_def)
next
  case (Cons s ss)
  let ?m = "clr3 m (i1, i2, i3) ({s} - o1, {s} - o2, {s} - o3)"
  have card: "int (card (A \<inter> insert s (set ss))) = of_bool (s \<in> A) + int (card ((A - ({s} - B)) \<inter> set ss))"
    for A B :: "int set"
  proof -
    have "(A - ({s} - B)) \<inter> set ss = A \<inter> set ss" "finite (A \<inter> set ss)"
      using Cons.prems(3) by auto
    then show ?thesis
      using Cons.prems(3) by (auto simp: Int_insert_right)
  qed
  have ord: "(rd m i - ({s} - q)) \<inter> q \<inter> X = (rd m i \<inter> q - ({s} - q)) \<inter> X" for i q X
    by auto
  have sets: "({s} - q) \<union> (set ss - q) = insert s (set ss) - q" for q
    by auto
  have "fds_select_loop ss (i1, i2, i3) (o1, o2, o3) (n', ?m) = Some
     (n' + int (card (rd ?m i1 \<inter> o1 \<inter> set ss)) + int (card (rd ?m i2 \<inter> o2 \<inter> set ss)) +
        int (card (rd ?m i3 \<inter> o3 \<inter> set ss)),
      clr3 ?m (i1, i2, i3) (set ss - o1, set ss - o2, set ss - o3))" for n'
    using Cons.prems by (intro Cons.IH clr3_ok) auto
  then show ?case
    unfolding fds_select_step [OF Cons.prems(1,2)]
    using card [of "rd m i1 \<inter> o1" o1] card [of "rd m i2 \<inter> o2" o2] card [of "rd m i3 \<inter> o3" o3]
    by (simp add: clr3_rd [OF Cons.prems(2)] clr3_clr3 [OF Cons.prems(2)] ord sets algebra_simps)
qed

section \<open>Properties\<close>

text \<open>
  \<^verbatim>\<open>pth_util_cpystrn\<close> never writes outside the \<^verbatim>\<open>dst_size\<close> bytes it is given, always terminates
  the copy, copies as many characters of the source as fit, returns the address of the
  terminator and leaves the bytes after it alone.
\<close>

theorem pth_util_cpystrn_bounded:
  assumes "0 < dst_size" "dst_size \<le> length dst" "NUL \<notin> set str"
  shows "\<exists>dst'. pth_util_cpystrn dst (str @ NUL # rest) dst_size =
      Some (min (length str) (dst_size - 1), dst') \<and> length dst' = length dst \<and>
    dst' = take (dst_size - 1) str @ NUL # drop (min (length str) (dst_size - 1) + 1) dst"
  by (rule cpystrn_spec [OF assms])

theorem pth_util_cpystrn_bounded_witness:
  "pth_util_cpystrn ''xxxxxx'' (''pthread'' @ NUL # []) 4 = Some (3, ''pth'' @ NUL # ''xx'')"
  using pth_util_cpystrn_bounded [of 4 "''xxxxxx''" "''pthread''" "[]"] by simp

text \<open>
  \<^verbatim>\<open>pth_util_fds_select\<close> on three different sets keeps in each input set, among the descriptors
  below \<^verbatim>\<open>nfd\<close>, exactly those that occurred in the corresponding output set, and returns their
  number with a descriptor that occurs in two sets counted twice; nothing else changes.
\<close>

theorem pth_util_fds_select_result:
  assumes "fds_ok m (i1, i2, i3)" "fds_distinct (i1, i2, i3)"
  shows "\<exists>m'. pth_util_fds_select nfd (i1, i2, i3) (o1, o2, o3) m =
      Some (int (card (rd m i1 \<inter> o1 \<inter> {0..<nfd})) + int (card (rd m i2 \<inter> o2 \<inter> {0..<nfd})) +
            int (card (rd m i3 \<inter> o3 \<inter> {0..<nfd})), m') \<and>
    rd m' i1 = rd m i1 - ({0..<nfd} - o1) \<and> rd m' i2 = rd m i2 - ({0..<nfd} - o2) \<and>
    rd m' i3 = rd m i3 - ({0..<nfd} - o3) \<and> (\<forall>p. p \<notin> {i1, i2, i3} \<longrightarrow> m' p = m p)"
proof -
  have "set [0..nfd - 1] = {0..<nfd}"
    by auto
  then show ?thesis
    using fds_select_loop_spec [OF assms, of "[0..nfd - 1]" o1 o2 o3 0] assms(2)
    by (simp add: pth_util_fds_select_def clr3_rd clr3_apply)
qed

theorem pth_util_fds_select_result_witness:
  "\<exists>m'. pth_util_fds_select 4 (1, 2, NULL) ({3}, {3}, {}) [1 \<mapsto> {2, 3}, 2 \<mapsto> {3}] = Some (2, m') \<and>
    rd m' 1 = {3}"
proof -
  have s: "{2, 3} \<inter> {3} \<inter> {0..<4} = {3 :: int}" "{3} \<inter> {3} \<inter> {0..<4} = {3 :: int}"
    "{2, 3} - ({0..<4} - {3}) = {3 :: int}"
    by auto
  have "fds_ok [1 \<mapsto> {2, 3}, 2 \<mapsto> {3}] (1, 2, NULL)" "fds_distinct (1, 2, NULL)"
    by (simp_all add: fds_ok_def fds_distinct_def fun_upd_apply)
  from pth_util_fds_select_result [OF this, of 4 "{3}" "{3}" "{}"] s
  show ?thesis
    by (auto simp: rd_def)
qed

text \<open>
  The scheduler's two views of a \<^verbatim>\<open>select\<close> event agree: after merging the requested sets into
  empty sets, testing them against any result of \<^verbatim>\<open>select(2)\<close> reports an occurrence exactly when
  the result has a merged descriptor.
\<close>

theorem pth_util_fds_merge_test:
  assumes "fds_ok m (i1, i2, i3)"
  shows "\<exists>r w e. pth_util_fds_merge m nfd (i1, i2, i3) ({}, {}, {}) = Some (r, w, e) \<and>
    r = rd m i1 \<inter> {0..<nfd} \<and> w = rd m i2 \<inter> {0..<nfd} \<and> e = rd m i3 \<inter> {0..<nfd} \<and>
    pth_util_fds_test m nfd (i1, i2, i3) (o1, o2, o3) = Some (r \<inter> o1 \<noteq> {} \<or> w \<inter> o2 \<noteq> {} \<or> e \<inter> o3 \<noteq> {})"
proof -
  have "set [0..nfd - 1] = {0..<nfd}"
    by auto
  moreover have "pth_util_fds_test m nfd (i1, i2, i3) (o1, o2, o3) = Some
      (rd m i1 \<inter> {0..<nfd} \<inter> o1 \<noteq> {} \<or> rd m i2 \<inter> {0..<nfd} \<inter> o2 \<noteq> {} \<or> rd m i3 \<inter> {0..<nfd} \<inter> o3 \<noteq> {})"
    using fds_test_loop_spec [OF assms, of "[0..nfd - 1]" o1 o2 o3] calculation
    unfolding pth_util_fds_test_def by auto
  ultimately show ?thesis
    using fds_merge_loop_spec [OF assms, of "[0..nfd - 1]" "{}" "{}" "{}"]
    by (simp add: pth_util_fds_merge_def)
qed

theorem pth_util_fds_merge_test_witness:
  "\<exists>r w e. pth_util_fds_merge [1 \<mapsto> {2, 7}] 4 (1, NULL, NULL) ({}, {}, {}) = Some (r, w, e) \<and> r = {2}"
proof -
  have "fds_ok [1 \<mapsto> {2, 7}] (1, NULL, NULL)" "{2, 7} \<inter> {0..<4} = {2 :: int}"
    by (auto simp: fds_ok_def fun_upd_apply)
  with pth_util_fds_merge_test [of "[1 \<mapsto> {2, 7}]" 1 NULL NULL 4] show ?thesis
    by (fastforce simp: rd_def)
qed

end
