(* ===== verification/Pth_Event.thy ===== *)
theory Pth_Event
  imports Pth_Clean Pth_Util
begin

text \<open>
  Events (\<^verbatim>\<open>pth_event.c\<close>): the event constructor, the extractor and the operations on event
  rings. An event ring is a circular doubly linked list through \<^verbatim>\<open>ev_next\<close> and \<^verbatim>\<open>ev_prev\<close>
  (\<open>ev_ring\<close>); every operation on it is shown to be the corresponding operation on the list of
  its events. The variable arguments of \<^verbatim>\<open>pth_event\<close> are explicit: the event to reuse, the key of
  a static event, the ring to chain to and the arguments \<open>ev_args\<close> of the event; arguments of
  another type than the specification asks for have no result (undefined behaviour in C).
\<close>

section \<open>Constants\<close>

definition PTH_EVENT_FD :: "64 word" where "PTH_EVENT_FD = 0x2"
definition PTH_EVENT_SELECT :: "64 word" where "PTH_EVENT_SELECT = 0x4"
definition PTH_EVENT_SIGS :: "64 word" where "PTH_EVENT_SIGS = 0x8"
definition PTH_EVENT_TIME :: "64 word" where "PTH_EVENT_TIME = 0x10"
definition PTH_EVENT_MSG :: "64 word" where "PTH_EVENT_MSG = 0x20"
definition PTH_EVENT_MUTEX :: "64 word" where "PTH_EVENT_MUTEX = 0x40"
definition PTH_EVENT_COND :: "64 word" where "PTH_EVENT_COND = 0x80"
definition PTH_EVENT_TID :: "64 word" where "PTH_EVENT_TID = 0x100"
definition PTH_EVENT_FUNC :: "64 word" where "PTH_EVENT_FUNC = 0x200"
definition PTH_UNTIL_OCCURRED :: "64 word" where "PTH_UNTIL_OCCURRED = 0x800"
definition PTH_UNTIL_FD_READABLE :: "64 word" where "PTH_UNTIL_FD_READABLE = 0x1000"
definition PTH_UNTIL_FD_WRITEABLE :: "64 word" where "PTH_UNTIL_FD_WRITEABLE = 0x2000"
definition PTH_UNTIL_FD_EXCEPTION :: "64 word" where "PTH_UNTIL_FD_EXCEPTION = 0x4000"
definition PTH_UNTIL_TID_NEW :: "64 word" where "PTH_UNTIL_TID_NEW = 0x8000"
definition PTH_UNTIL_TID_READY :: "64 word" where "PTH_UNTIL_TID_READY = 0x10000"
definition PTH_UNTIL_TID_WAITING :: "64 word" where "PTH_UNTIL_TID_WAITING = 0x20000"
definition PTH_UNTIL_TID_DEAD :: "64 word" where "PTH_UNTIL_TID_DEAD = 0x40000"
definition PTH_MODE_REUSE :: "64 word" where "PTH_MODE_REUSE = 0x100000"
definition PTH_MODE_CHAIN :: "64 word" where "PTH_MODE_CHAIN = 0x200000"
definition PTH_MODE_STATIC :: "64 word" where "PTH_MODE_STATIC = 0x400000"

lemmas event_bits = PTH_EVENT_FD_def PTH_EVENT_SELECT_def PTH_EVENT_SIGS_def PTH_EVENT_TIME_def
  PTH_EVENT_MSG_def PTH_EVENT_MUTEX_def PTH_EVENT_COND_def PTH_EVENT_TID_def PTH_EVENT_FUNC_def
lemmas until_bits = PTH_UNTIL_OCCURRED_def PTH_UNTIL_FD_READABLE_def PTH_UNTIL_FD_WRITEABLE_def
  PTH_UNTIL_FD_EXCEPTION_def PTH_UNTIL_TID_NEW_def PTH_UNTIL_TID_READY_def
  PTH_UNTIL_TID_WAITING_def PTH_UNTIL_TID_DEAD_def
lemmas mode_bits = PTH_MODE_REUSE_def PTH_MODE_CHAIN_def PTH_MODE_STATIC_def

datatype free_mode = PTH_FREE_THIS | PTH_FREE_ALL

text \<open>The numbers behind the enumeration \<^verbatim>\<open>pth_state_t\<close>, which a thread event has as its goal.\<close>

fun state_num :: "pth_state_t \<Rightarrow> 32 word" where
  "state_num PTH_STATE_SCHEDULER = 0"
| "state_num PTH_STATE_NEW = 1"
| "state_num PTH_STATE_READY = 2"
| "state_num PTH_STATE_WAITING = 3"
| "state_num PTH_STATE_DEAD = 4"

text \<open>The field \<^verbatim>\<open>ev_type\<close>.\<close>

fun ev_type :: "ev_args \<Rightarrow> 64 word" where
  "ev_type (EvFD _) = PTH_EVENT_FD"
| "ev_type (EvSELECT _ _ _ _ _) = PTH_EVENT_SELECT"
| "ev_type (EvSIGS _ _) = PTH_EVENT_SIGS"
| "ev_type (EvTIME _) = PTH_EVENT_TIME"
| "ev_type (EvMSG _) = PTH_EVENT_MSG"
| "ev_type (EvMUTEX _) = PTH_EVENT_MUTEX"
| "ev_type (EvCOND _) = PTH_EVENT_COND"
| "ev_type (EvTID _) = PTH_EVENT_TID"
| "ev_type (EvFUNC _ _ _) = PTH_EVENT_FUNC"

section \<open>The constructor\<close>

text \<open>The address of the static function \<^verbatim>\<open>pth_event_destructor\<close>; all that matters is that it is one.\<close>

definition event_destructor_addr :: ptr where "event_destructor_addr = 2 ^ 64 - 2"

text \<open>Fresh memory from \<^verbatim>\<open>malloc\<close>; its contents are written before they are read.\<close>

definition event_malloc :: "ptr \<Rightarrow> pth_state \<Rightarrow> pth_state" where
  "event_malloc p s = (if p = NULL then s else s\<lparr>evs := (evs s)(p \<mapsto>
     \<lparr>ev_next = NULL, ev_prev = NULL, ev_status = PTH_STATUS_PENDING, ev_goal = 0, ev_arg = EvFD 0\<rparr>)\<rparr>)"

definition event_obtain :: "64 word \<Rightarrow> ptr \<Rightarrow> intref \<Rightarrow> ptr \<Rightarrow> bool \<Rightarrow> pth_state
    \<Rightarrow> (ptr \<times> pth_state) option" where
  "event_obtain spec reuse ev_key mem calloc_ok s =
     (if flag spec PTH_MODE_REUSE then Some (reuse, s)
      else if flag spec PTH_MODE_STATIC then do {
        k \<leftarrow> mem_int s ev_key;
        s \<leftarrow> (if k = PTH_KEY_INIT
              then map_option snd (pth_key_create ev_key event_destructor_addr s) else Some s);
        k \<leftarrow> mem_int s ev_key;
        (ev, s) \<leftarrow> pth_key_getdata k s;
        if ev = NULL then do {
          let s = event_malloc mem s;
          (rc, s) \<leftarrow> pth_key_setdata calloc_ok k mem s;
          Some (mem, s) }
        else Some (ev, s) }
      else Some (mem, event_malloc mem s))"

definition event_link :: "64 word \<Rightarrow> ptr \<Rightarrow> ptr \<Rightarrow> pth_state \<Rightarrow> pth_state option" where
  "event_link spec ev ch s =
     (if flag spec PTH_MODE_CHAIN then do {
        p \<leftarrow> e_get ev_prev ch s;
        s \<leftarrow> e_set (\<lambda>e. e\<lparr>ev_prev := p\<rparr>) ev s;
        s \<leftarrow> e_set (\<lambda>e. e\<lparr>ev_next := ch\<rparr>) ev s;
        p \<leftarrow> e_get ev_prev ev s;
        s \<leftarrow> e_set (\<lambda>e. e\<lparr>ev_next := ev\<rparr>) p s;
        n \<leftarrow> e_get ev_next ev s;
        e_set (\<lambda>e. e\<lparr>ev_prev := ev\<rparr>) n s }
      else do {
        s \<leftarrow> e_set (\<lambda>e. e\<lparr>ev_prev := ev\<rparr>) ev s;
        e_set (\<lambda>e. e\<lparr>ev_next := ev\<rparr>) ev s })"

definition event_set :: "ptr \<Rightarrow> 32 word \<Rightarrow> ev_args \<Rightarrow> pth_state \<Rightarrow> (ptr \<times> pth_state) option" where
  "event_set ev goal args s = do {
     s \<leftarrow> e_set (\<lambda>e. e\<lparr>ev_goal := goal, ev_arg := args\<rparr>) ev s; Some (ev, s) }"

definition tid_goal :: "64 word \<Rightarrow> pth_state_t" where
  "tid_goal spec =
     (if flag spec PTH_UNTIL_TID_NEW then PTH_STATE_NEW
      else if flag spec PTH_UNTIL_TID_READY then PTH_STATE_READY
      else if flag spec PTH_UNTIL_TID_WAITING then PTH_STATE_WAITING
      else if flag spec PTH_UNTIL_TID_DEAD then PTH_STATE_DEAD
      else PTH_STATE_READY)"

definition event_init :: "(int \<Rightarrow> bool) \<Rightarrow> 64 word \<Rightarrow> ptr \<Rightarrow> ev_args \<Rightarrow> pth_state
    \<Rightarrow> (ptr \<times> pth_state) option" where
  "event_init is_open spec ev args s =
     (let occurred = ucast (spec AND PTH_UNTIL_OCCURRED) :: 32 word in
      if flag spec PTH_EVENT_FD then
        (case args of
           EvFD fd \<Rightarrow>
             if \<not> pth_util_fd_valid is_open fd then Some (pth_error NULL EBADF s)
             else event_set ev (ucast (spec AND (PTH_UNTIL_FD_READABLE OR PTH_UNTIL_FD_WRITEABLE OR
               PTH_UNTIL_FD_EXCEPTION))) args s
         | _ \<Rightarrow> None)
      else if flag spec PTH_EVENT_SELECT then
        (case args of EvSELECT _ _ _ _ _ \<Rightarrow> event_set ev occurred args s | _ \<Rightarrow> None)
      else if flag spec PTH_EVENT_SIGS then
        (case args of EvSIGS _ _ \<Rightarrow> event_set ev occurred args s | _ \<Rightarrow> None)
      else if flag spec PTH_EVENT_TIME then
        (case args of EvTIME _ \<Rightarrow> event_set ev occurred args s | _ \<Rightarrow> None)
      else if flag spec PTH_EVENT_MSG then
        (case args of EvMSG _ \<Rightarrow> event_set ev occurred args s | _ \<Rightarrow> None)
      else if flag spec PTH_EVENT_MUTEX then
        (case args of EvMUTEX _ \<Rightarrow> event_set ev occurred args s | _ \<Rightarrow> None)
      else if flag spec PTH_EVENT_COND then
        (case args of EvCOND _ \<Rightarrow> event_set ev occurred args s | _ \<Rightarrow> None)
      else if flag spec PTH_EVENT_TID then
        (case args of EvTID _ \<Rightarrow> event_set ev (state_num (tid_goal spec)) args s | _ \<Rightarrow> None)
      else if flag spec PTH_EVENT_FUNC then
        (case args of EvFUNC _ _ _ \<Rightarrow> event_set ev occurred args s | _ \<Rightarrow> None)
      else Some (pth_error NULL EINVAL s))"

text \<open>
  \<open>mem\<close> is the result of \<^verbatim>\<open>malloc\<close>, \<open>calloc_ok\<close> the success of the \<^verbatim>\<open>calloc\<close> in \<^verbatim>\<open>pth_key_setdata\<close>,
  and \<open>is_open\<close> tells the open file descriptors.
\<close>

definition pth_event :: "(int \<Rightarrow> bool) \<Rightarrow> ptr \<Rightarrow> bool \<Rightarrow> 64 word \<Rightarrow> ptr \<Rightarrow> intref \<Rightarrow> ptr \<Rightarrow> ev_args
    \<Rightarrow> pth_state \<Rightarrow> (ptr \<times> pth_state) option" where
  "pth_event is_open mem calloc_ok spec reuse ev_key ch args s = do {
     (ev, s) \<leftarrow> event_obtain spec reuse ev_key mem calloc_ok s;
     if ev = NULL then Some (pth_error NULL (errno s) s)
     else do {
       s \<leftarrow> event_link spec ev ch s;
       s \<leftarrow> e_set (\<lambda>e. e\<lparr>ev_status := PTH_STATUS_PENDING\<rparr>) ev s;
       event_init is_open spec ev args s } }"

definition pth_event_typeof :: "ptr \<Rightarrow> pth_state \<Rightarrow> (64 word \<times> pth_state) option" where
  "pth_event_typeof ev s =
     (if ev = NULL then Some (pth_error 0 EINVAL s)
      else do { a \<leftarrow> e_get ev_arg ev s; g \<leftarrow> e_get ev_goal ev s; Some (ev_type a OR ucast g, s) })"

text \<open>The values stored through the result pointers are returned, in the form of the arguments.\<close>

definition pth_event_extract :: "ptr \<Rightarrow> pth_state \<Rightarrow> ((bool \<times> ev_args option) \<times> pth_state) option" where
  "pth_event_extract ev s =
     (if ev = NULL then Some (pth_error (False, None) EINVAL s)
      else do {
        a \<leftarrow> e_get ev_arg ev s;
        Some (if flag (ev_type a) PTH_EVENT_FD \<or> flag (ev_type a) PTH_EVENT_SIGS \<or>
                 flag (ev_type a) PTH_EVENT_TIME \<or> flag (ev_type a) PTH_EVENT_MSG \<or>
                 flag (ev_type a) PTH_EVENT_MUTEX \<or> flag (ev_type a) PTH_EVENT_COND \<or>
                 flag (ev_type a) PTH_EVENT_TID \<or> flag (ev_type a) PTH_EVENT_FUNC
              then ((True, Some a), s)
              else pth_error (False, None) EINVAL s) })"

section \<open>Ring operations\<close>

primrec concat_loop :: "ptr list \<Rightarrow> ptr \<Rightarrow> pth_state \<Rightarrow> (ptr \<times> pth_state) option" where
  "concat_loop [] evc s = Some (evc, s)"
| "concat_loop (evn # evns) evc s =
     (if evn = NULL then Some (evc, s)
      else do {
        s \<leftarrow> e_set (\<lambda>e. e\<lparr>ev_next := evn\<rparr>) evc s;
        evt \<leftarrow> e_get ev_prev evn s;
        s \<leftarrow> e_set (\<lambda>e. e\<lparr>ev_prev := evc\<rparr>) evn s;
        concat_loop evns evt s })"

definition pth_event_concat :: "ptr \<Rightarrow> ptr list \<Rightarrow> pth_state \<Rightarrow> (ptr \<times> pth_state) option" where
  "pth_event_concat evf evns s =
     (if evf = NULL then Some (pth_error NULL EINVAL s)
      else do {
        evl \<leftarrow> e_get ev_next evf s;
        (evc, s) \<leftarrow> concat_loop evns evf s;
        s \<leftarrow> e_set (\<lambda>e. e\<lparr>ev_next := evl\<rparr>) evc s;
        s \<leftarrow> e_set (\<lambda>e. e\<lparr>ev_prev := evc\<rparr>) evl s;
        Some (evf, s) })"

definition event_unlink :: "ptr \<Rightarrow> pth_state \<Rightarrow> pth_state option" where
  "event_unlink ev s = do {
     p \<leftarrow> e_get ev_prev ev s;
     n \<leftarrow> e_get ev_next ev s;
     s \<leftarrow> e_set (\<lambda>e. e\<lparr>ev_next := n\<rparr>) p s;
     n \<leftarrow> e_get ev_next ev s;
     p \<leftarrow> e_get ev_prev ev s;
     e_set (\<lambda>e. e\<lparr>ev_prev := p\<rparr>) n s }"

definition pth_event_isolate :: "ptr \<Rightarrow> pth_state \<Rightarrow> (ptr \<times> pth_state) option" where
  "pth_event_isolate ev s =
     (if ev = NULL then Some (pth_error NULL EINVAL s)
      else do {
        n \<leftarrow> e_get ev_next ev s;
        p \<leftarrow> e_get ev_prev ev s;
        if n = ev \<and> p = ev then Some (NULL, s)
        else do {
          s \<leftarrow> event_unlink ev s;
          s \<leftarrow> e_set (\<lambda>e. e\<lparr>ev_prev := ev\<rparr>) ev s;
          s \<leftarrow> e_set (\<lambda>e. e\<lparr>ev_next := ev\<rparr>) ev s;
          Some (n, s) } })"

text \<open>\<^verbatim>\<open>FALSE\<close> is the number of \<^verbatim>\<open>PTH_STATUS_PENDING\<close>.\<close>

definition pth_event_status :: "ptr \<Rightarrow> pth_state \<Rightarrow> (pth_status_t \<times> pth_state) option" where
  "pth_event_status ev s =
     (if ev = NULL then Some (pth_error PTH_STATUS_PENDING EINVAL s)
      else do { st \<leftarrow> e_get ev_status ev s; Some (st, s) })"

definition WALK_NEXT :: "64 word" where "WALK_NEXT = 0x2"
definition WALK_PREV :: "64 word" where "WALK_PREV = 0x4"

partial_function (option) event_walk_loop :: "64 word \<Rightarrow> pth_state \<Rightarrow> ptr \<Rightarrow> (ptr \<times> pth_state) option" where
  "event_walk_loop direction s ev =
     (if flag direction WALK_NEXT \<or> flag direction WALK_PREV then
        Option.bind (if flag direction WALK_NEXT then e_get ev_next ev s else e_get ev_prev ev s) (\<lambda>ev.
        Option.bind (e_get ev_status ev s) (\<lambda>st.
        if flag direction PTH_UNTIL_OCCURRED \<and> st \<noteq> PTH_STATUS_OCCURRED
        then event_walk_loop direction s ev else Some (ev, s)))
      else Some (pth_error NULL EINVAL s))"

definition pth_event_walk :: "ptr \<Rightarrow> 64 word \<Rightarrow> pth_state \<Rightarrow> (ptr \<times> pth_state) option" where
  "pth_event_walk ev direction s =
     (if ev = NULL then Some (pth_error NULL EINVAL s) else event_walk_loop direction s ev)"

partial_function (option) event_free_all :: "ptr \<Rightarrow> ptr \<Rightarrow> pth_state \<Rightarrow> pth_state option" where
  "event_free_all ev evc s =
     Option.bind (e_get ev_next evc s) (\<lambda>evn.
       let s = s\<lparr>evs := (evs s)(evc := None)\<rparr>
       in if evn \<noteq> ev then event_free_all ev evn s else Some s)"

definition pth_event_free :: "ptr \<Rightarrow> free_mode \<Rightarrow> pth_state \<Rightarrow> (bool \<times> pth_state) option" where
  "pth_event_free ev mode s =
     (if ev = NULL then Some (pth_error False EINVAL s)
      else case mode of
        PTH_FREE_THIS \<Rightarrow> do {
          s \<leftarrow> event_unlink ev s;
          Some (True, s\<lparr>evs := (evs s)(ev := None)\<rparr>) }
      | PTH_FREE_ALL \<Rightarrow> do { s \<leftarrow> event_free_all ev ev s; Some (True, s) })"

definition pth_event_destructor :: "ptr \<Rightarrow> pth_state \<Rightarrow> pth_state option" where
  "pth_event_destructor vp s = do { (rc, s) \<leftarrow> pth_event_free vp PTH_FREE_THIS s; Some s }"

section \<open>Event rings represent lists\<close>

definition ev_ring :: "(ptr \<rightharpoonup> pth_event_st) \<Rightarrow> ptr list \<Rightarrow> bool" where
  "ev_ring h xs \<longleftrightarrow> dring (fld h ev_next) (fld h ev_prev) xs \<and> NULL \<notin> set xs"

definition nolink :: "pth_event_st \<Rightarrow> pth_event_st" where
  "nolink e = e\<lparr>ev_next := NULL, ev_prev := NULL\<rparr>"

text \<open>A link step changes links of events in \<open>A\<close> and nothing else.\<close>

definition lstep :: "ptr set \<Rightarrow> (ptr \<rightharpoonup> pth_event_st) \<Rightarrow> (ptr \<rightharpoonup> pth_event_st) \<Rightarrow> bool" where
  "lstep A h h' \<longleftrightarrow> (\<forall>x. map_option nolink (h' x) = map_option nolink (h x)) \<and> (\<forall>x. x \<notin> A \<longrightarrow> h' x = h x)"

lemma lstep_refl [simp]: "lstep A h h"
  by (simp add: lstep_def)

lemma lstep_trans: "lstep A h h' \<Longrightarrow> lstep B h' h'' \<Longrightarrow> lstep (A \<union> B) h h''"
  by (simp add: lstep_def)

lemma lstep_mono: "lstep A h h' \<Longrightarrow> A \<subseteq> B \<Longrightarrow> lstep B h h'"
  by (auto simp: lstep_def)

lemma lstep_dom: "lstep A h h' \<Longrightarrow> dom h' = dom h"
  unfolding lstep_def dom_def by (metis map_option_is_None)

lemma lstep_upd:
  assumes "lstep A h h'" "p \<in> A"
  shows "lstep A h (upd h' p (\<lambda>e. e\<lparr>ev_next := v\<rparr>))" "lstep A h (upd h' p (\<lambda>e. e\<lparr>ev_prev := v\<rparr>))"
proof -
  have "map_option nolink (upd h' p f x) = map_option nolink (h' x)" if "\<And>e. nolink (f e) = nolink e" for f x
    using that by (simp add: upd_def option.map_comp comp_def)
  then show "lstep A h (upd h' p (\<lambda>e. e\<lparr>ev_next := v\<rparr>))" "lstep A h (upd h' p (\<lambda>e. e\<lparr>ev_prev := v\<rparr>))"
    using assms by (simp_all add: lstep_def nolink_def upd_def)
qed

lemma event_fields [heap_simps]:
  "p \<in> dom h \<Longrightarrow> fld (upd h p (\<lambda>e. e\<lparr>ev_next := v\<rparr>)) ev_next = (fld h ev_next)(p \<mapsto> v)"
  "p \<in> dom h \<Longrightarrow> fld (upd h p (\<lambda>e. e\<lparr>ev_prev := v\<rparr>)) ev_prev = (fld h ev_prev)(p \<mapsto> v)"
  "fld (upd h p (\<lambda>e. e\<lparr>ev_next := v\<rparr>)) ev_prev = fld h ev_prev"
  "fld (upd h p (\<lambda>e. e\<lparr>ev_prev := v\<rparr>)) ev_next = fld h ev_next"
  by (auto intro: fld_upd_write fld_upd_keep)

lemma ev_ring_rotate: "ev_ring h (us @ ws) \<longleftrightarrow> ev_ring h (ws @ us)"
  by (auto simp: ev_ring_def dring_rotate [of _ _ us ws])

lemma ev_ring_mem: "ev_ring h xs \<Longrightarrow> x \<in> set xs \<Longrightarrow> x \<in> dom h \<and> x \<noteq> NULL"
  unfolding ev_ring_def using dring_mem_dom [of "fld h ev_next"] by (metis dom_fld)

lemma ev_ring_cong: "ev_ring h xs \<Longrightarrow> (\<And>x. x \<in> set xs \<Longrightarrow> h' x = h x) \<Longrightarrow> ev_ring h' xs"
  unfolding ev_ring_def by (subst dring_cong [of xs _ "fld h ev_next" _ "fld h ev_prev"]) (auto simp: fld_def)

lemma ev_ring_distinct: "ev_ring h xs \<Longrightarrow> distinct xs"
  by (auto simp: ev_ring_def dest: dring_distinct)

lemma ev_ring_head:
  "ev_ring h (x # xs) \<Longrightarrow> fld h ev_next x = Some (hd (xs @ [x])) \<and> fld h ev_prev x = Some (last (x # xs))"
  unfolding ev_ring_def using dring_head by blast

text \<open>Linking an event in front of a ring, as the constructor does with \<^verbatim>\<open>PTH_MODE_CHAIN\<close>.\<close>

lemma event_link_chain:
  assumes "flag spec PTH_MODE_CHAIN" "ev_ring (evs s) (ch # xs)" "ev \<in> dom (evs s)" "ev \<notin> set (ch # xs)" "ev \<noteq> NULL"
  shows "\<exists>h'. event_link spec ev ch s = Some (s\<lparr>evs := h'\<rparr>) \<and> ev_ring h' (ev # ch # xs) \<and>
    lstep (set (ev # ch # xs)) (evs s) h'"
proof -
  let ?h = "evs s" and ?b = "last (ch # xs)"
  have mem: "ch \<in> dom ?h" "?b \<in> dom ?h"
    using ev_ring_mem [OF assms(2)] by (metis list.set_intros(1), metis last_in_set list.discI)
  have b: "fld ?h ev_prev ch = Some ?b" "?b \<noteq> ev" "ch \<noteq> ev"
    using ev_ring_head [OF assms(2)] assms(4) by (auto simp: last_in_set)
  define h' where "h' = upd (upd (upd (upd ?h ev (\<lambda>e. e\<lparr>ev_prev := ?b\<rparr>)) ev (\<lambda>e. e\<lparr>ev_next := ch\<rparr>))
     ?b (\<lambda>e. e\<lparr>ev_next := ev\<rparr>)) ch (\<lambda>e. e\<lparr>ev_prev := ev\<rparr>)"
  have "event_link spec ev ch s = Some (s\<lparr>evs := h'\<rparr>)"
    using assms(1,3) mem b unfolding event_link_def h'_def by (simp add: heap_simps)
  moreover have "fld h' ev_next = (fld ?h ev_next)(ev \<mapsto> ch, ?b \<mapsto> ev)"
    "fld h' ev_prev = (fld ?h ev_prev)(ev \<mapsto> ?b, ch \<mapsto> ev)"
    using mem assms(3) by (simp_all add: h'_def heap_simps)
  then have "ev_ring h' (ev # ch # xs)"
    using dring_insert [of "fld ?h ev_next" "fld ?h ev_prev" "ch # xs" ev] assms(2,4,5)
    by (simp add: ev_ring_def)
  moreover have "lstep (set (ev # ch # xs)) ?h h'"
  proof -
    have "?b \<in> set (ev # ch # xs)"
      using last_in_set [of "ch # xs"] by simp
    then show ?thesis
      unfolding h'_def by (intro lstep_upd lstep_refl) simp_all
  qed
  ultimately show ?thesis by blast
qed

lemma event_unlink_spec:
  assumes "ev_ring (evs s) (ev # xs)" "xs \<noteq> []"
  shows "\<exists>h'. event_unlink ev s = Some (s\<lparr>evs := h'\<rparr>) \<and> ev_ring h' xs \<and> lstep (set xs) (evs s) h'"
proof -
  let ?h = "evs s" and ?a = "hd xs" and ?b = "last xs"
  have in_xs: "?a \<in> set xs" "?b \<in> set xs"
    using assms(2) by simp_all
  then have mem: "?a \<in> dom ?h" "?b \<in> dom ?h" "?a \<noteq> ev" "?b \<noteq> ev" "ev \<in> dom ?h"
    using ev_ring_mem [OF assms(1)] ev_ring_distinct [OF assms(1)] by auto
  have hd: "fld ?h ev_next ev = Some ?a" "fld ?h ev_prev ev = Some ?b"
    using ev_ring_head [OF assms(1)] assms(2) by (simp_all add: hd_append)
  define h' where "h' = upd (upd ?h ?b (\<lambda>e. e\<lparr>ev_next := ?a\<rparr>)) ?a (\<lambda>e. e\<lparr>ev_prev := ?b\<rparr>)"
  have "event_unlink ev s = Some (s\<lparr>evs := h'\<rparr>)"
    using mem hd unfolding event_unlink_def h'_def by (simp add: heap_simps)
  moreover have "fld h' ev_next = (fld ?h ev_next)(?b \<mapsto> ?a)" "fld h' ev_prev = (fld ?h ev_prev)(?a \<mapsto> ?b)"
    using mem by (simp_all add: h'_def heap_simps)
  then have "ev_ring h' xs"
    using dring_remove [of "fld ?h ev_next" "fld ?h ev_prev" ev xs] assms by (simp add: ev_ring_def)
  moreover have "lstep (set xs) ?h h'"
    unfolding h'_def by (intro lstep_upd lstep_refl in_xs)
  ultimately show ?thesis by blast
qed

text \<open>Joining two segments.\<close>

lemma dseg_join:
  assumes "dseg nx pv p C n" "dseg nx pv q R m" "C \<noteq> []" "R \<noteq> []" "distinct (C @ R)"
  shows "dseg (nx(last C \<mapsto> hd R)) (pv(hd R \<mapsto> last C)) p (C @ R) m"
proof -
  have out: "hd R \<notin> set C" "last C \<notin> set R"
    using assms(3-5) by (metis disjoint_iff distinct_append hd_in_set, metis disjoint_iff distinct_append last_in_set)
  have "pv (hd C) = Some p" "nx (last R) = Some m"
    using assms(1-4) dseg_append [of nx pv q "butlast R" "[last R]" m]
    by (cases C; simp add: append_butlast_last_id)+
  then have "pv(hd C \<mapsto> p) = pv" "nx(last R \<mapsto> m) = nx"
    by (simp_all add: fun_upd_idem)
  with dseg_ends [OF assms(1), of "hd R" p] dseg_ends [OF assms(2), of m "last C"] assms(3-5)
  have "dseg (nx(last C \<mapsto> hd R)) pv p C (hd R)" "dseg nx (pv(hd R \<mapsto> last C)) (last C) R m"
    by simp_all
  then have "dseg (nx(last C \<mapsto> hd R)) (pv(hd R \<mapsto> last C)) p C (hd R)"
    "dseg (nx(last C \<mapsto> hd R)) (pv(hd R \<mapsto> last C)) (last C) R m"
    using out by (subst dseg_cong [of _ _ "nx(last C \<mapsto> hd R)" _ pv], auto simp: fun_upd_apply,
        subst dseg_cong [of _ _ nx _ "pv(hd R \<mapsto> last C)"], auto simp: fun_upd_apply)
  then show ?thesis
    using assms(3,4) by (simp add: dseg_append)
qed

lemma dring_dseg: "dring nx pv xs \<Longrightarrow> xs \<noteq> [] \<Longrightarrow> dseg nx pv (last xs) xs (hd xs)"
  by (simp add: dring_def)

lemma concat_step:
  assumes "C \<noteq> []" "R \<noteq> []" "last C \<in> dom (evs s)" "ev_ring (evs s) R" "last C \<notin> set R"
  defines "h' \<equiv> upd (upd (evs s) (last C) (\<lambda>e. e\<lparr>ev_next := hd R\<rparr>)) (hd R) (\<lambda>e. e\<lparr>ev_prev := last C\<rparr>)"
  shows "concat_loop (hd R # evns) (last C) s = concat_loop evns (last R) (s\<lparr>evs := h'\<rparr>)"
    "fld h' ev_next = (fld (evs s) ev_next)(last C \<mapsto> hd R)"
    "fld h' ev_prev = (fld (evs s) ev_prev)(hd R \<mapsto> last C)" "lstep {last C, hd R} (evs s) h'"
proof -
  have mem: "hd R \<in> dom (evs s)" "hd R \<noteq> NULL"
    using ev_ring_mem [OF assms(4)] assms(2) by auto
  have "fld (evs s) ev_prev (hd R) = Some (last R)"
    using ev_ring_head [of "evs s" "hd R" "tl R"] assms(2,4) by simp
  then show "concat_loop (hd R # evns) (last C) s = concat_loop evns (last R) (s\<lparr>evs := h'\<rparr>)"
    using mem assms(3) unfolding h'_def by (simp add: heap_simps)
  show "fld h' ev_next = (fld (evs s) ev_next)(last C \<mapsto> hd R)"
    "fld h' ev_prev = (fld (evs s) ev_prev)(hd R \<mapsto> last C)"
    using mem assms(3) by (simp_all add: h'_def heap_simps)
  show "lstep {last C, hd R} (evs s) h'"
    unfolding h'_def by (intro lstep_upd lstep_refl) simp_all
qed

lemma concat_loop_spec:
  assumes "dseg (fld (evs s) ev_next) (fld (evs s) ev_prev) p C n" "C \<noteq> []"
    "\<forall>R \<in> set Rs. R \<noteq> [] \<and> ev_ring (evs s) R" "distinct (C @ concat Rs)"
  shows "\<exists>h' n'. concat_loop (map hd Rs) (last C) s = Some (last (C @ concat Rs), s\<lparr>evs := h'\<rparr>) \<and>
    dseg (fld h' ev_next) (fld h' ev_prev) p (C @ concat Rs) n' \<and>
    lstep (set (C @ concat Rs)) (evs s) h'"
  using assms
proof (induction Rs arbitrary: C n s)
  case Nil
  then show ?case by (auto intro!: exI [of _ "evs s"])
next
  case (Cons R Rs)
  let ?h = "evs s"
  have R: "R \<noteq> []" "ev_ring ?h R" and dist: "distinct (C @ R)" "distinct ((C @ R) @ concat Rs)"
    using Cons.prems(3,4) by auto
  have lastC: "last C \<in> set C" "last C \<notin> set R" "last C \<in> dom ?h"
  proof -
    show "last C \<in> set C"
      using Cons.prems(2) by simp
    then show "last C \<notin> set R"
      using dist(1) by auto
    have "dseg (fld ?h ev_next) (fld ?h ev_prev) p (butlast C @ [last C]) n"
      using Cons.prems(1,2) by simp
    then show "last C \<in> dom ?h"
      unfolding dseg_append by (auto dest: fld_dom)
  qed
  define h1 where "h1 = upd (upd ?h (last C) (\<lambda>e. e\<lparr>ev_next := hd R\<rparr>)) (hd R) (\<lambda>e. e\<lparr>ev_prev := last C\<rparr>)"
  note step = concat_step [OF Cons.prems(2) R(1) lastC(3) R(2) lastC(2), folded h1_def]
  have seg: "dseg (fld h1 ev_next) (fld h1 ev_prev) p (C @ R) (hd R)"
    unfolding step(2,3) using R dist(1) Cons.prems(1,2)
    by (intro dseg_join [where q = "last R"]) (auto simp: ev_ring_def intro: dring_dseg)
  have keep: "ev_ring h1 R'" if "R' \<in> set Rs" for R'
  proof (rule ev_ring_cong)
    show "ev_ring ?h R'"
      using Cons.prems(3) that by simp
    fix x assume "x \<in> set R'"
    then have "x \<noteq> last C" "x \<noteq> hd R"
      using dist(2) that lastC(1) hd_in_set [OF R(1)] by auto
    then show "h1 x = ?h x"
      using step(4) by (simp add: lstep_def)
  qed
  obtain h' n' where h': "concat_loop (map hd Rs) (last (C @ R)) (s\<lparr>evs := h1\<rparr>) =
      Some (last ((C @ R) @ concat Rs), (s\<lparr>evs := h1\<rparr>)\<lparr>evs := h'\<rparr>)"
    "dseg (fld h' ev_next) (fld h' ev_prev) p ((C @ R) @ concat Rs) n'"
    "lstep (set ((C @ R) @ concat Rs)) h1 h'"
    using Cons.IH [of "s\<lparr>evs := h1\<rparr>" "C @ R" "hd R"] seg keep Cons.prems(2,3) dist(2) by auto
  have "lstep (set (C @ R)) ?h h1"
    using lastC(1) hd_in_set [OF R(1)] by (intro lstep_mono [OF step(4)]) auto
  from lstep_trans [OF this h'(3)] have "lstep (set (C @ R) \<union> set ((C @ R) @ concat Rs)) ?h h'" .
  then have "lstep (set (C @ concat (R # Rs))) ?h h'"
    by (rule lstep_mono) auto
  then show ?case
    using step(1) [of "map hd Rs"] h'(1,2) R(1) by auto
qed

lemma dring_close:
  assumes seg: "dseg nx pv p C n" and C: "C = e # C'" and X: "X \<noteq> [] \<longrightarrow> p = last X \<and> dseg nx pv e X e"
    and dist: "distinct (C @ X)"
  shows "dring (nx(last C \<mapsto> hd (X @ [e]))) (pv(hd (X @ [e]) \<mapsto> last C)) (C @ X)"
proof (cases "X = []")
  case True
  have "dseg (nx(last C \<mapsto> e)) (pv(hd C \<mapsto> last C)) (last C) C e"
    using dist True C by (intro dseg_ends [OF seg]) auto
  then show ?thesis
    using True C dist by (simp add: dring_def)
next
  case False
  then have "dseg (nx(last C \<mapsto> hd X)) (pv(hd X \<mapsto> last C)) p (C @ X) e"
    using X C dist by (intro dseg_join [OF seg]) auto
  then show ?thesis
    using False X C dist by (simp add: dring_def)
qed

lemma pth_event_concat_spec:
  assumes ring: "ev_ring (evs s) (evf # X)" and Rs: "\<forall>R \<in> set Rs. R \<noteq> [] \<and> ev_ring (evs s) R"
    and dist: "distinct (evf # X @ concat Rs)"
  shows "\<exists>h'. pth_event_concat evf (map hd Rs) s = Some (evf, s\<lparr>evs := h'\<rparr>) \<and>
    ev_ring h' (evf # concat Rs @ X) \<and> lstep (set (evf # concat Rs @ X)) (evs s) h'"
proof -
  let ?h = "evs s" and ?C = "[evf] @ concat Rs" and ?e = "hd (X @ [evf])" and ?p = "last (evf # X)"
  have fields: "fld ?h ev_next evf = Some ?e" "fld ?h ev_prev evf = Some ?p"
    using ev_ring_head [OF ring] by simp_all
  have "dseg (fld ?h ev_next) (fld ?h ev_prev) ?p [evf] ?e"
    using fields by simp
  then obtain h1 n1 where h1: "concat_loop (map hd Rs) evf s = Some (last ?C, s\<lparr>evs := h1\<rparr>)"
    "dseg (fld h1 ev_next) (fld h1 ev_prev) ?p ?C n1" "lstep (set ?C) ?h h1"
    using concat_loop_spec [of s ?p "[evf]" ?e Rs] Rs dist by auto
  have dom1: "dom h1 = dom ?h"
    using lstep_dom [OF h1(3)] .
  have "set X \<inter> set ?C = {}"
    using dist by auto
  then have same: "\<And>x. x \<in> set X \<Longrightarrow> h1 x = ?h x"
    using h1(3) unfolding lstep_def by blast
  have mem: "last ?C \<in> dom h1" "?e \<in> dom h1" "?e \<in> set (evf # X)"
  proof -
    show "?e \<in> set (evf # X)"
      by (cases X) auto
    then show "?e \<in> dom h1"
      using ev_ring_mem [OF ring] dom1 by blast
    have "x \<in> dom ?h" if x: "x \<in> set ?C" for x
    proof (cases "x = evf")
      case True
      then show ?thesis using ev_ring_mem [OF ring, of evf] by simp
    next
      case False
      then obtain R where "R \<in> set Rs" "x \<in> set R" using x by auto
      then show ?thesis using ev_ring_mem Rs by blast
    qed
    moreover have "last ?C \<in> set ?C" by (rule last_in_set) simp
    ultimately show "last ?C \<in> dom h1" using dom1 by blast
  qed
  have X: "X \<noteq> [] \<longrightarrow> ?p = last X \<and> dseg (fld h1 ev_next) (fld h1 ev_prev) evf X evf"
  proof
    assume "X \<noteq> []"
    then have "dseg (fld ?h ev_next) (fld ?h ev_prev) evf X evf"
      using ring by (auto simp: ev_ring_def dring_def)
    then show "?p = last X \<and> dseg (fld h1 ev_next) (fld h1 ev_prev) evf X evf"
      using \<open>X \<noteq> []\<close> same by (subst dseg_cong [of _ _ "fld ?h ev_next" _ "fld ?h ev_prev"]) (auto simp: fld_def)
  qed
  define h2 where "h2 = upd (upd h1 (last ?C) (\<lambda>e. e\<lparr>ev_next := ?e\<rparr>)) ?e (\<lambda>e. e\<lparr>ev_prev := last ?C\<rparr>)"
  have "fld h2 ev_next = (fld h1 ev_next)(last ?C \<mapsto> ?e)" "fld h2 ev_prev = (fld h1 ev_prev)(?e \<mapsto> last ?C)"
    using mem by (simp_all add: h2_def heap_simps)
  moreover have "dring ((fld h1 ev_next)(last ?C \<mapsto> ?e)) ((fld h1 ev_prev)(?e \<mapsto> last ?C)) (?C @ X)"
    using dist by (intro dring_close [OF h1(2) _ X]) auto
  moreover have "NULL \<notin> set (?C @ X)"
    using ring Rs by (auto simp: ev_ring_def)
  ultimately have ring2: "ev_ring h2 (evf # concat Rs @ X)"
    by (simp add: ev_ring_def)
  have "lstep (set (?C @ X)) ?h h1"
    by (rule lstep_mono [OF h1(3)]) auto
  moreover have "last ?C \<in> set (?C @ X)" "?e \<in> set (?C @ X)"
    using last_in_set [of ?C] mem(3) by (simp only: set_append Un_iff, auto)
  ultimately have "lstep (set (?C @ X)) ?h h2"
    unfolding h2_def by (intro lstep_upd)
  moreover have "pth_event_concat evf (map hd Rs) s = Some (evf, s\<lparr>evs := h2\<rparr>)"
    using fields h1(1) mem ev_ring_mem [OF ring, of evf] unfolding pth_event_concat_def h2_def
    by (simp add: heap_simps)
  ultimately show ?thesis
    using ring2 by auto
qed

lemma pth_event_isolate_spec:
  assumes "ev_ring (evs s) (ev # xs)"
  shows "\<exists>h'. pth_event_isolate ev s = Some (list_hook xs, s\<lparr>evs := h'\<rparr>) \<and> ev_ring h' [ev] \<and>
    ev_ring h' xs \<and> lstep (set (ev # xs)) (evs s) h'"
proof (cases "xs = []")
  case True
  with assms ev_ring_head [OF assms] ev_ring_mem [OF assms, of ev] show ?thesis
    by (auto simp: pth_event_isolate_def heap_simps ev_ring_def intro!: exI [of _ "evs s"])
next
  case False
  let ?h = "evs s"
  obtain h1 where h1: "event_unlink ev s = Some (s\<lparr>evs := h1\<rparr>)" "ev_ring h1 xs" "lstep (set xs) ?h h1"
    using event_unlink_spec [OF assms False] by blast
  have ev: "ev \<in> dom h1" "ev \<noteq> NULL" "ev \<notin> set xs"
    using ev_ring_mem [OF assms] ev_ring_distinct [OF assms] lstep_dom [OF h1(3)] by auto
  have fields: "fld ?h ev_next ev = Some (hd xs)" "hd xs \<noteq> ev" "\<exists>p. fld ?h ev_prev ev = Some p"
    using ev_ring_head [OF assms] False ev(3) hd_in_set [OF False] by (auto simp: hd_append)
  define h2 where "h2 = upd (upd h1 ev (\<lambda>e. e\<lparr>ev_prev := ev\<rparr>)) ev (\<lambda>e. e\<lparr>ev_next := ev\<rparr>)"
  have "fld h2 ev_next = (fld h1 ev_next)(ev \<mapsto> ev)" "fld h2 ev_prev = (fld h1 ev_prev)(ev \<mapsto> ev)"
    using ev by (simp_all add: h2_def heap_simps)
  then have "ev_ring h2 [ev]"
    using ev by (simp add: ev_ring_def dring_single)
  moreover have "ev_ring h2 xs"
    using ev(3) by (intro ev_ring_cong [OF h1(2)]) (metis h2_def upd_other)
  moreover have "lstep (set (ev # xs)) ?h h2"
    unfolding h2_def by (intro lstep_upd lstep_mono [OF h1(3)]) auto
  moreover have "pth_event_isolate ev s = Some (hd xs, s\<lparr>evs := h2\<rparr>)"
    using fields ev h1(1) unfolding pth_event_isolate_def h2_def by (auto simp: heap_simps)
  ultimately show ?thesis
    using False by auto
qed

text \<open>
  Walking: from \<open>ev\<close> the successors are visited in ring order, \<open>ev\<close> itself last. With
  \<^verbatim>\<open>PTH_UNTIL_OCCURRED\<close> the walk goes on to the first event that has occurred.
\<close>

lemma event_walk_until:
  assumes "flag d WALK_NEXT" "flag d PTH_UNTIL_OCCURRED" "set (ev # ys) \<subseteq> dom (evs s)"
    "fld (evs s) ev_status y = Some PTH_STATUS_OCCURRED"
    "\<forall>x \<in> set ys. fld (evs s) ev_status x \<noteq> Some PTH_STATUS_OCCURRED"
    "dseg (fld (evs s) ev_next) pv q (ev # ys) y"
  shows "event_walk_loop d s ev = Some (y, s)"
  using assms(3-6)
proof (induction ys arbitrary: ev q)
  case Nil
  then show ?case
    using assms(1,2) by (subst event_walk_loop.simps) (simp add: heap_simps)
next
  case (Cons z zs)
  obtain st where st: "fld (evs s) ev_status z = Some st" "st \<noteq> PTH_STATUS_OCCURRED"
    using Cons.prems(1,3) by (auto simp: fld_def)
  have "event_walk_loop d s ev = event_walk_loop d s z"
    using assms(1,2) Cons.prems(4) st by (subst event_walk_loop.simps) (simp add: heap_simps)
  also have "\<dots> = Some (y, s)"
    using Cons.prems by (intro Cons.IH [of z ev]) auto
  finally show ?case .
qed

lemma event_walk_next_spec:
  assumes ring: "ev_ring (evs s) (ev # xs)" and d: "flag d WALK_NEXT" "flag d PTH_UNTIL_OCCURRED"
    and y: "find (\<lambda>x. fld (evs s) ev_status x = Some PTH_STATUS_OCCURRED) (xs @ [ev]) = Some y"
  shows "pth_event_walk ev d s = Some (y, s)"
proof -
  let ?P = "\<lambda>x. fld (evs s) ev_status x = Some PTH_STATUS_OCCURRED"
  obtain ys zs where split: "xs @ [ev] = ys @ y # zs" "?P y" "\<forall>x \<in> set ys. \<not> ?P x"
    using y unfolding find_Some_iff
    by (metis append_take_drop_id id_take_nth_drop in_set_conv_nth length_take less_imp_le_nat min.absorb2 nth_take)
  have ev: "ev \<noteq> NULL"
    using ev_ring_mem [OF ring] by auto
  have seg: "dseg (fld (evs s) ev_next) (fld (evs s) ev_prev) (last (ev # xs)) (ev # ys) y"
  proof -
    have all: "dseg (fld (evs s) ev_next) (fld (evs s) ev_prev) (last (ev # xs)) (ev # xs) ev"
      using ring by (simp add: ev_ring_def dring_def)
    show ?thesis
    proof (cases zs rule: rev_cases)
      case Nil
      then have "xs = ys" "y = ev" using split(1) by auto
      with all show ?thesis by simp
    next
      case (snoc zs' z)
      then have "ev # xs = (ev # ys) @ (y # zs')" using split(1) by auto
      with all show ?thesis by (simp only: dseg_append) simp
    qed
  qed
  have "set ys \<subseteq> set (xs @ [ev])"
    using split(1) by auto
  then have "set (ev # ys) \<subseteq> dom (evs s)"
    using ev_ring_mem [OF ring] by fastforce
  then have "event_walk_loop d s ev = Some (y, s)"
    by (rule event_walk_until [OF d _ split(2) split(3) seg])
  then show ?thesis
    using ev by (simp add: pth_event_walk_def)
qed

lemma event_free_all_spec:
  assumes "dseg (fld (evs s) ev_next) pv q (x # xs) ev" "distinct (x # xs)" "ev \<notin> set xs"
  shows "event_free_all ev x s = Some (s\<lparr>evs := (evs s) |` (- set (x # xs))\<rparr>)"
  using assms
proof (induction xs arbitrary: x s q)
  case Nil
  have "(evs s)(x := None) = (evs s) |` (- {x})"
    by (auto simp: restrict_map_def fun_eq_iff fun_upd_apply)
  with Nil show ?case
    by (subst event_free_all.simps) (simp add: heap_simps Let_def)
next
  case (Cons y ys)
  let ?s = "s\<lparr>evs := (evs s)(x := None)\<rparr>"
  have "event_free_all ev x s = event_free_all ev y ?s"
    using Cons.prems by (subst event_free_all.simps) (auto simp: heap_simps Let_def)
  also have "\<dots> = Some (?s\<lparr>evs := (evs ?s) |` (- set (y # ys))\<rparr>)"
  proof (rule Cons.IH)
    have "dseg (fld (evs s) ev_next) pv x (y # ys) ev"
      using Cons.prems(1) by simp
    moreover have "fld (evs ?s) ev_next z = fld (evs s) ev_next z" if "z \<in> set (y # ys)" for z
    proof -
      have "z \<noteq> x" using Cons.prems(2) that by auto
      then show ?thesis by (simp add: fld_def)
    qed
    ultimately show "dseg (fld (evs ?s) ev_next) pv x (y # ys) ev"
      using dseg_cong [of "y # ys" "fld (evs ?s) ev_next" "fld (evs s) ev_next" pv pv] by blast
  qed (use Cons.prems in auto)
  also have "(evs ?s) |` (- set (y # ys)) = (evs s) |` (- set (x # y # ys))"
    by (auto simp: restrict_map_def fun_eq_iff fun_upd_apply)
  finally show ?case by simp
qed

section \<open>Properties\<close>

text \<open>
  \<^verbatim>\<open>pth_event_concat\<close> builds one ring out of any number of disjoint event rings: it returns the
  first event, the events of the other rings follow it ring by ring in their own order, then the
  rest of its own ring; no event is lost and only links change.
\<close>

theorem pth_event_concat_ring:
  assumes "ev_ring (evs s) (evf # xs)" "\<forall>R \<in> set Rs. R \<noteq> [] \<and> ev_ring (evs s) R"
    "distinct (evf # xs @ concat Rs)"
  shows "\<exists>s'. pth_event_concat evf (map hd Rs) s = Some (evf, s') \<and>
    ev_ring (evs s') (evf # concat Rs @ xs) \<and>
    (\<forall>p. map_option nolink (evs s' p) = map_option nolink (evs s p)) \<and> s'\<lparr>evs := evs s\<rparr> = s"
  using pth_event_concat_spec [OF assms] by (auto simp: lstep_def)

definition ev_self :: "ptr \<Rightarrow> pth_status_t \<Rightarrow> pth_event_st" where
  "ev_self p st = \<lparr>ev_next = p, ev_prev = p, ev_status = st, ev_goal = 0, ev_arg = EvMSG 1\<rparr>"

theorem pth_event_concat_ring_witness:
  "\<exists>s'. pth_event_concat 3 [4, 5] (state0\<lparr>evs := [3 \<mapsto> ev_self 3 PTH_STATUS_PENDING,
     4 \<mapsto> ev_self 4 PTH_STATUS_PENDING, 5 \<mapsto> ev_self 5 PTH_STATUS_PENDING]\<rparr>) = Some (3, s') \<and>
   ev_ring (evs s') [3, 4, 5]"
proof -
  let ?s = "state0\<lparr>evs := [3 \<mapsto> ev_self 3 PTH_STATUS_PENDING,
     4 \<mapsto> ev_self 4 PTH_STATUS_PENDING, 5 \<mapsto> ev_self 5 PTH_STATUS_PENDING]\<rparr>"
  have "ev_ring (evs ?s) [3]" "ev_ring (evs ?s) [4]" "ev_ring (evs ?s) [5]"
    by (simp_all add: ev_ring_def dring_single fld_def ev_self_def)
  then show ?thesis
    using pth_event_concat_ring [of ?s 3 "[]" "[[4], [5]]"] by auto
qed

text \<open>
  \<^verbatim>\<open>pth_event_isolate\<close> takes an event out of its ring: afterwards the event is a ring of its
  own, the other events form the old ring without it, and the return value is the next event of
  the old ring, or \<^verbatim>\<open>NULL\<close> if there was none.
\<close>

theorem pth_event_isolate_ring:
  assumes "ev_ring (evs s) (ev # xs)"
  shows "\<exists>s'. pth_event_isolate ev s = Some (if xs = [] then NULL else hd xs, s') \<and>
    ev_ring (evs s') [ev] \<and> ev_ring (evs s') xs \<and>
    (\<forall>p. map_option nolink (evs s' p) = map_option nolink (evs s p)) \<and> s'\<lparr>evs := evs s\<rparr> = s"
  using pth_event_isolate_spec [OF assms] by (cases xs) (auto simp: lstep_def)

theorem pth_event_isolate_ring_witness:
  "\<exists>s'. pth_event_isolate 3 (state0\<lparr>evs := [3 \<mapsto> (ev_self 4 PTH_STATUS_PENDING),
     4 \<mapsto> ev_self 3 PTH_STATUS_PENDING]\<rparr>) = Some (4, s') \<and> ev_ring (evs s') [3] \<and> ev_ring (evs s') [4]"
  using pth_event_isolate_ring [of "state0\<lparr>evs := [3 \<mapsto> (ev_self 4 PTH_STATUS_PENDING),
     4 \<mapsto> ev_self 3 PTH_STATUS_PENDING]\<rparr>" 3 "[4]"]
  by (auto simp: ev_ring_def dring_def fld_def ev_self_def)

text \<open>
  \<^verbatim>\<open>pth_event_free\<close> with \<^verbatim>\<open>PTH_FREE_ALL\<close> on any event of a ring returns and frees exactly the
  events of that ring, each once and without touching freed memory.
\<close>

theorem pth_event_free_all_ring:
  assumes "ev_ring (evs s) (ev # xs)"
  shows "pth_event_free ev PTH_FREE_ALL s = Some (True, s\<lparr>evs := (evs s) |` (- set (ev # xs))\<rparr>)"
proof -
  have "ev \<noteq> NULL" "ev \<notin> set xs" "distinct (ev # xs)"
    and seg: "dseg (fld (evs s) ev_next) (fld (evs s) ev_prev) (last (ev # xs)) (ev # xs) ev"
    using assms by (auto simp: ev_ring_def dring_def)
  then show ?thesis
    using event_free_all_spec [OF seg] by (simp add: pth_event_free_def)
qed

theorem pth_event_free_all_ring_witness:
  "\<exists>s'. pth_event_free 3 PTH_FREE_ALL (state0\<lparr>evs := [3 \<mapsto> (ev_self 4 PTH_STATUS_PENDING),
     4 \<mapsto> ev_self 3 PTH_STATUS_PENDING]\<rparr>) = Some (True, s') \<and> evs s' 3 = None \<and> evs s' 4 = None"
  using pth_event_free_all_ring [of "state0\<lparr>evs := [3 \<mapsto> (ev_self 4 PTH_STATUS_PENDING),
     4 \<mapsto> ev_self 3 PTH_STATUS_PENDING]\<rparr>" 3 "[4]"]
  by (simp add: ev_ring_def dring_def fld_def ev_self_def restrict_map_def)

text \<open>
  A walk with \<^verbatim>\<open>PTH_WALK_NEXT|PTH_UNTIL_OCCURRED\<close> finds the first event after \<open>ev\<close> in ring order
  that has occurred (\<open>ev\<close> itself counts as the last), if there is one.
\<close>

theorem pth_event_walk_first_occurred:
  assumes "ev_ring (evs s) (ev # xs)" "flag d WALK_NEXT" "flag d PTH_UNTIL_OCCURRED"
    "find (\<lambda>x. fld (evs s) ev_status x = Some PTH_STATUS_OCCURRED) (xs @ [ev]) = Some y"
  shows "pth_event_walk ev d s = Some (y, s)"
  by (rule event_walk_next_spec [OF assms])

theorem pth_event_walk_first_occurred_witness:
  "pth_event_walk 3 0x802 (state0\<lparr>evs := [3 \<mapsto> (ev_self 4 PTH_STATUS_OCCURRED),
     4 \<mapsto> ev_self 3 PTH_STATUS_PENDING]\<rparr>) = Some (3, state0\<lparr>evs := [3 \<mapsto> (ev_self 4 PTH_STATUS_OCCURRED),
     4 \<mapsto> ev_self 3 PTH_STATUS_PENDING]\<rparr>)"
  by (rule pth_event_walk_first_occurred [of _ 3 "[4]"])
    (simp_all add: ev_ring_def dring_def fld_def ev_self_def flag_def WALK_NEXT_def PTH_UNTIL_OCCURRED_def)

lemma event_flags:
  "flag PTH_EVENT_FD PTH_EVENT_FD" "\<not> flag PTH_EVENT_SELECT PTH_EVENT_FD"
  "flag PTH_EVENT_SELECT PTH_EVENT_SELECT" "\<not> flag PTH_EVENT_SIGS PTH_EVENT_FD"
  "\<not> flag PTH_EVENT_SIGS PTH_EVENT_SELECT" "flag PTH_EVENT_SIGS PTH_EVENT_SIGS"
  "\<not> flag PTH_EVENT_TIME PTH_EVENT_FD" "\<not> flag PTH_EVENT_TIME PTH_EVENT_SELECT"
  "\<not> flag PTH_EVENT_TIME PTH_EVENT_SIGS" "flag PTH_EVENT_TIME PTH_EVENT_TIME"
  "\<not> flag PTH_EVENT_MSG PTH_EVENT_FD" "\<not> flag PTH_EVENT_MSG PTH_EVENT_SELECT"
  "\<not> flag PTH_EVENT_MSG PTH_EVENT_SIGS" "\<not> flag PTH_EVENT_MSG PTH_EVENT_TIME"
  "flag PTH_EVENT_MSG PTH_EVENT_MSG" "\<not> flag PTH_EVENT_MUTEX PTH_EVENT_FD"
  "\<not> flag PTH_EVENT_MUTEX PTH_EVENT_SELECT" "\<not> flag PTH_EVENT_MUTEX PTH_EVENT_SIGS"
  "\<not> flag PTH_EVENT_MUTEX PTH_EVENT_TIME" "\<not> flag PTH_EVENT_MUTEX PTH_EVENT_MSG"
  "flag PTH_EVENT_MUTEX PTH_EVENT_MUTEX" "\<not> flag PTH_EVENT_COND PTH_EVENT_FD"
  "\<not> flag PTH_EVENT_COND PTH_EVENT_SELECT" "\<not> flag PTH_EVENT_COND PTH_EVENT_SIGS"
  "\<not> flag PTH_EVENT_COND PTH_EVENT_TIME" "\<not> flag PTH_EVENT_COND PTH_EVENT_MSG"
  "\<not> flag PTH_EVENT_COND PTH_EVENT_MUTEX" "flag PTH_EVENT_COND PTH_EVENT_COND"
  "\<not> flag PTH_EVENT_TID PTH_EVENT_FD" "\<not> flag PTH_EVENT_TID PTH_EVENT_SELECT"
  "\<not> flag PTH_EVENT_TID PTH_EVENT_SIGS" "\<not> flag PTH_EVENT_TID PTH_EVENT_TIME"
  "\<not> flag PTH_EVENT_TID PTH_EVENT_MSG" "\<not> flag PTH_EVENT_TID PTH_EVENT_MUTEX"
  "\<not> flag PTH_EVENT_TID PTH_EVENT_COND" "flag PTH_EVENT_TID PTH_EVENT_TID"
  "\<not> flag PTH_EVENT_FUNC PTH_EVENT_FD" "\<not> flag PTH_EVENT_FUNC PTH_EVENT_SELECT"
  "\<not> flag PTH_EVENT_FUNC PTH_EVENT_SIGS" "\<not> flag PTH_EVENT_FUNC PTH_EVENT_TIME"
  "\<not> flag PTH_EVENT_FUNC PTH_EVENT_MSG" "\<not> flag PTH_EVENT_FUNC PTH_EVENT_MUTEX"
  "\<not> flag PTH_EVENT_FUNC PTH_EVENT_COND" "\<not> flag PTH_EVENT_FUNC PTH_EVENT_TID"
  "flag PTH_EVENT_FUNC PTH_EVENT_FUNC"
  by (simp_all add: flag_def event_bits)

lemma flag_or: "flag (a OR b) f \<longleftrightarrow> flag a f \<or> flag b f"
  by (simp add: flag_def bit.conj_disj_distrib2 or_eq_0_iff)

lemma flag_masked: "u AND m = 0 \<Longrightarrow> m AND f = f \<Longrightarrow> \<not> flag u f"
  unfolding flag_def by (metis and.assoc and.commute zero_and_eq)

lemma event_init_typed:
  assumes "\<not> flag u PTH_EVENT_FD" "\<not> flag u PTH_EVENT_SELECT" "\<not> flag u PTH_EVENT_SIGS"
    "\<not> flag u PTH_EVENT_TIME" "\<not> flag u PTH_EVENT_MSG" "\<not> flag u PTH_EVENT_MUTEX"
    "\<not> flag u PTH_EVENT_COND" "\<not> flag u PTH_EVENT_TID" "\<not> flag u PTH_EVENT_FUNC"
    "\<forall>fd. args = EvFD fd \<longrightarrow> pth_util_fd_valid is_open fd"
  shows "\<exists>g. event_init is_open (ev_type args OR u) ev args s = event_set ev g args s"
proof (cases args)
  case (EvFD fd)
  with assms(10) show ?thesis
    by (simp add: event_init_def flag_or event_flags Let_def) blast
qed (simp add: event_init_def flag_or event_flags assms(1-9) Let_def; blast)+

definition event_mode_mask :: "64 word" where "event_mode_mask = 0x7003FE"



end
