(* ===== verification/Pth_Wait.thy ===== *)
theory Pth_Wait
  imports Pth_Event
begin

text \<open>
  Giving up the processor: \<^verbatim>\<open>pth_yield\<close> (\<^verbatim>\<open>pth_lib.c\<close>), the cancellation point of \<^verbatim>\<open>pth_cancel.c\<close> and
  \<^verbatim>\<open>pth_wait\<close> (\<^verbatim>\<open>pth_event.c\<close>). The context switch to the scheduler is a parameter \<open>sw\<close>: from the
  state at the switch it gives the state in which the thread runs again. A function that calls
  \<^verbatim>\<open>pth_exit\<close> does not return; its result is then \<open>Exit v\<close> instead of \<open>Ret r\<close>.
\<close>

datatype 'r ctl = Ret 'r | Exit ptr

definition state_queue :: "pth_state_t \<Rightarrow> qid option" where
  "state_queue st = (case st of PTH_STATE_NEW \<Rightarrow> Some NQ | PTH_STATE_READY \<Rightarrow> Some RQ
     | PTH_STATE_WAITING \<Rightarrow> Some WQ | _ \<Rightarrow> None)"

definition pth_yield :: "switch \<Rightarrow> ptr \<Rightarrow> pth_state \<Rightarrow> (bool \<times> pth_state) option" where
  "pth_yield sw to s =
     (if to \<noteq> NULL then do {
        st \<leftarrow> t_get t_state to s;
        (let q = (case st of PTH_STATE_NEW \<Rightarrow> Some NQ | PTH_STATE_READY \<Rightarrow> Some RQ | _ \<Rightarrow> None) in do {
          found \<leftarrow> (if q = None then Some False else pth_pqueue_contains q to s);
          if \<not> found then Some (pth_error False EINVAL s)
          else do {
            (rc, s) \<leftarrow> pth_pqueue_favorite q to s;
            s \<leftarrow> sw s;
            Some (True, s) } }) }
      else do { s \<leftarrow> sw s; Some (True, s) })"

definition pth_cancel_state :: "32 word \<Rightarrow> intref \<Rightarrow> pth_state \<Rightarrow> pth_state option" where
  "pth_cancel_state newstate oldstate s = do {
     s \<leftarrow> (if oldstate \<noteq> NullInt then do {
             c \<leftarrow> t_get t_cancelstate (pth_current s) s; int_set oldstate (sint c) s }
           else Some s);
     if newstate \<noteq> 0 then t_set (\<lambda>c. c\<lparr>t_cancelstate := newstate\<rparr>) (pth_current s) s else Some s }"

definition pth_cancel_point :: "pth_state \<Rightarrow> (unit ctl \<times> pth_state) option" where
  "pth_cancel_point s = do {
     req \<leftarrow> t_get t_cancelreq (pth_current s) s;
     st \<leftarrow> t_get t_cancelstate (pth_current s) s;
     if req \<and> flag st PTH_CANCEL_ENABLE then do {
       s \<leftarrow> t_set (\<lambda>c. c\<lparr>t_cancelreq := False\<rparr>) (pth_current s) s;
       Some (Exit PTH_CANCELED, s) }
     else Some (Ret (), s) }"

text \<open>The two loops of \<^verbatim>\<open>pth_wait\<close> over the event ring.\<close>

partial_function (option) mark_pending :: "ptr \<Rightarrow> ptr \<Rightarrow> pth_state \<Rightarrow> pth_state option" where
  "mark_pending ring ev s =
     Option.bind (e_set (\<lambda>e. e\<lparr>ev_status := PTH_STATUS_PENDING\<rparr>) ev s) (\<lambda>s.
     Option.bind (e_get ev_next ev s) (\<lambda>ev.
       if ev \<noteq> ring then mark_pending ring ev s else Some s))"

partial_function (option) count_nonpending :: "ptr \<Rightarrow> ptr \<Rightarrow> int \<Rightarrow> pth_state \<Rightarrow> int option" where
  "count_nonpending ring ev n s =
     Option.bind (e_get ev_status ev s) (\<lambda>st.
     Option.bind (e_get ev_next ev s) (\<lambda>ev.
       let n = (if st \<noteq> PTH_STATUS_PENDING then n + 1 else n)
       in if ev \<noteq> ring then count_nonpending ring ev n s else Some n))"

definition pth_wait :: "switch \<Rightarrow> ptr \<Rightarrow> pth_state \<Rightarrow> (int ctl \<times> pth_state) option" where
  "pth_wait sw ring s =
     (if ring = NULL then Some (pth_error (Ret (-1)) EINVAL s)
      else do {
        s \<leftarrow> mark_pending ring ring s;
        s \<leftarrow> t_set (\<lambda>c. c\<lparr>t_events := ring\<rparr>) (pth_current s) s;
        s \<leftarrow> t_set (\<lambda>c. c\<lparr>t_state := PTH_STATE_WAITING\<rparr>) (pth_current s) s;
        (rc, s) \<leftarrow> pth_yield sw NULL s;
        (c, s) \<leftarrow> pth_cancel_point s;
        case c of
          Exit v \<Rightarrow> Some (Exit v, s)
        | Ret _ \<Rightarrow> do {
            s \<leftarrow> t_set (\<lambda>c. c\<lparr>t_events := NULL\<rparr>) (pth_current s) s;
            n \<leftarrow> count_nonpending ring ring 0 s;
            Some (Ret n, s) } })"

section \<open>The loops over an event ring\<close>

definition all_pending :: "ptr list \<Rightarrow> (ptr \<rightharpoonup> pth_event_st) \<Rightarrow> (ptr \<rightharpoonup> pth_event_st)" where
  "all_pending xs h = (\<lambda>p. if p \<in> set xs then map_option (\<lambda>e. e\<lparr>ev_status := PTH_STATUS_PENDING\<rparr>) (h p) else h p)"

lemma all_pending_links [simp]:
  "fld (all_pending xs h) ev_next = fld h ev_next" "fld (all_pending xs h) ev_prev = fld h ev_prev"
  by (auto simp: all_pending_def fld_def fun_eq_iff option.map_comp comp_def)

lemma mark_pending_spec:
  assumes "dseg (fld (evs s) ev_next) pv q (x # xs) r" "r \<notin> set xs"
  shows "mark_pending r x s = Some (s\<lparr>evs := all_pending (x # xs) (evs s)\<rparr>)"
  using assms
proof (induction xs arbitrary: x s q)
  case Nil
  then have "x \<in> dom (evs s)"
    by (auto dest: fld_dom)
  moreover have "upd (evs s) x (\<lambda>e. e\<lparr>ev_status := PTH_STATUS_PENDING\<rparr>) = all_pending [x] (evs s)"
    by (auto simp: upd_def all_pending_def)
  ultimately show ?case
    using Nil by (subst mark_pending.simps) (simp add: heap_simps)
next
  case (Cons y ys)
  let ?s = "s\<lparr>evs := all_pending [x] (evs s)\<rparr>"
  have dom: "x \<in> dom (evs s)"
    using Cons.prems(1) by (auto dest: fld_dom)
  have upd: "upd (evs s) x (\<lambda>e. e\<lparr>ev_status := PTH_STATUS_PENDING\<rparr>) = all_pending [x] (evs s)"
    by (auto simp: upd_def all_pending_def)
  have "mark_pending r x s = mark_pending r y ?s"
    using Cons.prems dom upd by (subst mark_pending.simps) (auto simp: heap_simps)
  also have "\<dots> = Some (?s\<lparr>evs := all_pending (y # ys) (evs ?s)\<rparr>)"
    using Cons.prems by (intro Cons.IH [where q = x]) auto
  also have "all_pending (y # ys) (evs ?s) = all_pending (x # y # ys) (evs s)"
    by (auto simp: all_pending_def fun_eq_iff option.map_comp comp_def)
  finally show ?case by simp
qed

definition nonpending :: "(ptr \<rightharpoonup> pth_event_st) \<Rightarrow> ptr \<Rightarrow> bool" where
  "nonpending h p \<longleftrightarrow> fld h ev_status p \<noteq> Some PTH_STATUS_PENDING"

lemma count_nonpending_spec:
  assumes "dseg (fld (evs s) ev_next) pv q (x # xs) r" "r \<notin> set xs"
  shows "count_nonpending r x n s = Some (n + int (length (filter (nonpending (evs s)) (x # xs))))"
  using assms
proof (induction xs arbitrary: x q n)
  case Nil
  then obtain e where "evs s x = Some e"
    by (auto dest: fld_dom)
  with Nil show ?case
    by (subst count_nonpending.simps) (simp add: heap_simps Let_def nonpending_def fld_def)
next
  case (Cons y ys)
  obtain e where e: "evs s x = Some e" "ev_next e = y"
    using Cons.prems(1) by (auto simp: fld_def)
  have "count_nonpending r x n s =
    count_nonpending r y (if nonpending (evs s) x then n + 1 else n) s"
    using Cons.prems e by (subst count_nonpending.simps) (auto simp: state_cells Let_def nonpending_def fld_def)
  also have "\<dots> = Some ((if nonpending (evs s) x then n + 1 else n) +
      int (length (filter (nonpending (evs s)) (y # ys))))"
    using Cons.prems by (intro Cons.IH [where q = x]) auto
  finally show ?case by simp
qed

lemma ev_ring_dseg: "ev_ring h (x # xs) \<Longrightarrow> dseg (fld h ev_next) (fld h ev_prev) (last (x # xs)) (x # xs) x"
  by (simp add: ev_ring_def dring_def)

section \<open>Properties\<close>

text \<open>
  C14: \<^verbatim>\<open>pth_wait\<close> hands the thread over to the scheduler in the waiting state, linked to its event
  ring with every event pending; when the scheduler comes back, it unlinks the ring and returns
  the number of events of the ring that are no longer pending, unless a cancellation request is
  pending and enabled: then it leaves the thread with \<^verbatim>\<open>PTH_CANCELED\<close>.
\<close>

theorem pth_wait_result:
  assumes ring: "ev_ring (evs s) (ev # xs)" and cur: "tcbs s (pth_current s) = Some c"
  defines "s1 \<equiv> s\<lparr>evs := all_pending (ev # xs) (evs s),
    tcbs := (tcbs s)(pth_current s \<mapsto> c\<lparr>t_events := ev, t_state := PTH_STATE_WAITING\<rparr>)\<rparr>"
  assumes sw: "sw s1 = Some s2" and ring2: "ev_ring (evs s2) (ev # ys)"
    and cur2: "tcbs s2 (pth_current s2) = Some c2"
  shows "pth_wait sw ev s =
    (if t_cancelreq c2 \<and> flag (t_cancelstate c2) PTH_CANCEL_ENABLE
     then Some (Exit PTH_CANCELED, s2\<lparr>tcbs := (tcbs s2)(pth_current s2 \<mapsto> c2\<lparr>t_cancelreq := False\<rparr>)\<rparr>)
     else Some (Ret (int (length (filter (nonpending (evs s2)) (ev # ys)))),
                s2\<lparr>tcbs := (tcbs s2)(pth_current s2 \<mapsto> c2\<lparr>t_events := NULL\<rparr>)\<rparr>))"
proof -
  have ev: "ev \<noteq> NULL" "ev \<notin> set xs" "ev \<notin> set ys"
    using ev_ring_mem [OF ring] ev_ring_distinct [OF ring] ev_ring_distinct [OF ring2] by auto
  have "mark_pending ev ev s = Some (s\<lparr>evs := all_pending (ev # xs) (evs s)\<rparr>)"
    by (rule mark_pending_spec [OF ev_ring_dseg [OF ring] ev(2)])
  moreover have "count_nonpending ev ev 0 (s2\<lparr>tcbs := h\<rparr>) =
      Some (int (length (filter (nonpending (evs s2)) (ev # ys))))" for h
  proof -
    have "dseg (fld (evs (s2\<lparr>tcbs := h\<rparr>)) ev_next) (fld (evs s2) ev_prev) (last (ev # ys)) (ev # ys) ev"
      using ev_ring_dseg [OF ring2] by simp
    from count_nonpending_spec [OF this ev(3), of 0] show ?thesis by simp
  qed
  moreover have "(s\<lparr>evs := E, tcbs := h\<rparr>) = (s\<lparr>tcbs := h, evs := E\<rparr>)" for E h
    by simp
  ultimately show ?thesis
    using ev(1) cur cur2 sw
    by (simp add: pth_wait_def cells s1_def pth_yield_def pth_cancel_point_def)
qed

theorem pth_wait_result_witness:
  "\<exists>s'. pth_wait (\<lambda>s. Some (s\<lparr>evs := [3 \<mapsto> ev_self 3 PTH_STATUS_OCCURRED]\<rparr>)) 3
     (state0\<lparr>pth_current := 1, tcbs := [1 \<mapsto> tcb0], evs := [3 \<mapsto> ev_self 3 PTH_STATUS_PENDING]\<rparr>) =
   Some (Ret 1, s')"
proof -
  let ?s = "state0\<lparr>pth_current := 1, tcbs := [1 \<mapsto> tcb0], evs := [3 \<mapsto> ev_self 3 PTH_STATUS_PENDING]\<rparr>"
  let ?s2 = "?s\<lparr>evs := [3 \<mapsto> ev_self 3 PTH_STATUS_OCCURRED],
    tcbs := [1 \<mapsto> tcb0\<lparr>t_events := 3, t_state := PTH_STATE_WAITING\<rparr>]\<rparr>"
  have "ev_ring (evs ?s) [3]" "ev_ring (evs ?s2) [3]" "tcbs ?s (pth_current ?s) = Some tcb0"
    by (simp_all add: ev_ring_def dring_single fld_def ev_self_def)
  then show ?thesis
    using pth_wait_result [of ?s 3 "[]" tcb0 "\<lambda>s. Some (s\<lparr>evs := [3 \<mapsto> ev_self 3 PTH_STATUS_OCCURRED]\<rparr>)" ?s2 "[]"
        "tcb0\<lparr>t_events := 3, t_state := PTH_STATE_WAITING\<rparr>"]
    by (simp add: nonpending_def fld_def ev_self_def tcb0_def)
qed

text \<open>
  \<^verbatim>\<open>pth_yield\<close> to a thread that is new or ready and in its queue gives it the head position of
  that queue, with the order of the other threads kept, before it switches to the scheduler; for
  any other thread it fails with \<^verbatim>\<open>EINVAL\<close> and does not switch.
\<close>

theorem pth_yield_favors:
  assumes ok: "queues_ok s L" and to: "to \<noteq> NULL" "fld (tcbs s) t_state to = Some st"
    and q: "st = PTH_STATE_NEW \<and> q = NQ \<or> st = PTH_STATE_READY \<and> q = RQ"
  shows "if to \<in> fst ` set (L q)
    then \<exists>us p ws p' s1. L q = us @ (to, p) # ws \<and> queues_ok s1 (L(q := (to, p') # us @ ws)) \<and>
      qframe s s1 \<and> pth_yield sw to s = map_option (Pair True) (sw s1)
    else pth_yield sw to s = Some (False, s\<lparr>errno := EINVAL\<rparr>)"
proof (cases "to \<in> fst ` set (L q)")
  case True
  then obtain p where "(to, p) \<in> set (L q)"
    by fastforce
  then obtain us ws where L: "L q = us @ (to, p) # ws"
    using split_list by fastforce
  obtain s1 p' where s1: "pth_pqueue_favorite (Some q) to s = Some (True, s1)"
    "queues_ok s1 (L(q := (to, p') # us @ ws))" "qframe s s1"
    using pth_pqueue_favorite_ok [OF ok L] by blast
  have "pth_yield sw to s = map_option (Pair True) (sw s1)"
    using to q s1(1) pth_pqueue_contains_ok [OF ok, of q to] True
    by (cases "sw s1") (auto simp: pth_yield_def tcb_access)
  with L s1 have "\<exists>us p ws p' s1. L q = us @ (to, p) # ws \<and> queues_ok s1 (L(q := (to, p') # us @ ws)) \<and>
      qframe s s1 \<and> pth_yield sw to s = map_option (Pair True) (sw s1)"
    by blast
  with True show ?thesis by simp
next
  case False
  then show ?thesis
    using to q pth_pqueue_contains_ok [OF ok, of q to]
    by (auto simp: pth_yield_def tcb_access pth_error_def)
qed

definition two_ready :: pth_state where
  "two_ready = state0\<lparr>tcbs := [1 \<mapsto> tcb0\<lparr>q_next := 2, q_prev := 2, q_prio := 4, t_state := PTH_STATE_READY\<rparr>,
     2 \<mapsto> tcb0\<lparr>q_next := 1, q_prev := 1, q_prio := 1, t_state := PTH_STATE_READY\<rparr>],
     queues := (\<lambda>_. \<lparr>q_head = NULL, q_num = 0\<rparr>)(RQ := \<lparr>q_head = 1, q_num = 2\<rparr>)\<rparr>"

lemma two_ready_ok: "queues_ok two_ready ((\<lambda>_. [])(RQ := [(1, 4), (2, 3)]))"
proof -
  have "pq_rep (tcbs two_ready) (queues two_ready q) (((\<lambda>_. [])(RQ := [(1, 4), (2, 3)])) q)" for q
    by (cases "q = RQ") (simp_all add: pq_rep_def dring_def two_ready_def fld_def)
  then show ?thesis
    by (auto simp: queues_ok_def fun_upd_apply)
qed

theorem pth_yield_favors_witness:
  "\<exists>s1. pth_yield (\<lambda>s. Some s) 2 two_ready = Some (True, s1) \<and> q_head (queues s1 RQ) = 2"
proof -
  have h: "fld (tcbs two_ready) t_state 2 = Some PTH_STATE_READY"
    by (simp add: two_ready_def fld_def)
  from pth_yield_favors [OF two_ready_ok _ h, of RQ "\<lambda>s. Some s"] obtain us p ws p' s1 where
    "queues_ok s1 ((\<lambda>_. [])(RQ := (2, p') # us @ ws))" "pth_yield (\<lambda>s. Some s) 2 two_ready = Some (True, s1)"
    by auto
  then show ?thesis
    using queues_ok_rep [of s1 _ RQ] by (fastforce simp: pq_rep_def)
qed

end
