(* ===== verification/Pth_Msg.thy ===== *)
theory Pth_Msg
  imports Pth_Clean
begin

text \<open>
  Message ports (\<^verbatim>\<open>pth_msg.c\<close>). A port at address \<open>mp\<close> consists of its ring node (in the static
  ring of all ports), its record and the ring of pending messages \<open>MpQueue mp\<close>. Messages are put
  at the end of that ring and taken from its front, so a port is a queue: it is shown to
  interpret the \<open>fifo\<close> interface. \<open>ports_ok s ports Q\<close> is the invariant: the list of all ports in
  order of creation and the pending messages \<open>Q mp\<close> of each.
\<close>

definition pth_msgport_put :: "ptr \<Rightarrow> ptr \<Rightarrow> pth_state \<Rightarrow> (bool \<times> pth_state) option" where
  "pth_msgport_put mp m s =
     (if mp = NULL then Some (pth_error False EINVAL s)
      else do { s \<leftarrow> pth_ring_append (MpQueue mp) m s; Some (True, s) })"

definition pth_msgport_get :: "ptr \<Rightarrow> pth_state \<Rightarrow> (ptr \<times> pth_state) option" where
  "pth_msgport_get mp s =
     (if mp = NULL then Some (pth_error NULL EINVAL s) else pth_ring_pop (MpQueue mp) s)"

definition pth_msgport_reply :: "ptr \<Rightarrow> pth_state \<Rightarrow> (bool \<times> pth_state) option" where
  "pth_msgport_reply m s =
     (if m = NULL then Some (pth_error False EINVAL s)
      else do { rp \<leftarrow> fld (messages s) m_replyport m; pth_msgport_put rp m s })"

definition pth_msgport_pending :: "ptr \<Rightarrow> pth_state \<Rightarrow> (int \<times> pth_state) option" where
  "pth_msgport_pending mp s =
     (if mp = NULL then Some (pth_error (-1) EINVAL s)
      else do { n \<leftarrow> pth_ring_elements (MpQueue mp) s; Some (n, s) })"

text \<open>\<open>mp\<close> is what \<^verbatim>\<open>malloc\<close> returns: \<^verbatim>\<open>NULL\<close> or the address of a fresh structure.\<close>

definition pth_msgport_create :: "string option \<Rightarrow> ptr \<Rightarrow> pth_state \<Rightarrow> (ptr \<times> pth_state) option" where
  "pth_msgport_create name mp s =
     (if mp = NULL then Some (pth_error NULL ENOMEM s)
      else do {
        let s = s\<lparr>rings := (rings s)(MpQueue mp \<mapsto> \<lparr>r_hook = NULL, r_nodes = 0\<rparr>),
                  nodes := (nodes s)(mp \<mapsto> \<lparr>rn_next = NULL, rn_prev = NULL\<rparr>),
                  msgports := (msgports s)(mp \<mapsto> \<lparr>mp_name = name, mp_tid = pth_current s\<rparr>)\<rparr>;
        s \<leftarrow> pth_ring_init (MpQueue mp) s;
        s \<leftarrow> pth_ring_append MsgportRing mp s;
        Some (mp, s) })"

text \<open>The loop that replies to the pending messages; it need not end.\<close>

partial_function (option) msgport_drain :: "ptr \<Rightarrow> pth_state \<Rightarrow> pth_state option" where
  "msgport_drain mp s =
     Option.bind (pth_msgport_get mp s) (\<lambda>(m, s).
       if m = NULL then Some s
       else Option.bind (pth_msgport_reply m s) (\<lambda>(rc, s). msgport_drain mp s))"

definition free_msgport :: "ptr \<Rightarrow> pth_state \<Rightarrow> pth_state" where
  "free_msgport mp s = s\<lparr>rings := (rings s)(MpQueue mp := None), nodes := (nodes s)(mp := None),
     msgports := (msgports s)(mp := None)\<rparr>"

definition pth_msgport_destroy :: "ptr \<Rightarrow> pth_state \<Rightarrow> pth_state option" where
  "pth_msgport_destroy mp s =
     (if mp = NULL then Some s
      else do {
        s \<leftarrow> msgport_drain mp s;
        s \<leftarrow> pth_ring_delete MsgportRing mp s;
        Some (free_msgport mp s) })"

partial_function (option) msgport_search :: "string \<Rightarrow> ptr \<Rightarrow> pth_state \<Rightarrow> ptr \<Rightarrow> ptr option" where
  "msgport_search name mpf s mp =
     (if mp = NULL then Some NULL
      else Option.bind (fld (msgports s) mp_name mp) (\<lambda>n.
        if n = Some name then Some mp
        else Option.bind (pth_ring_next MsgportRing mp s) (\<lambda>mp.
          if mp = mpf then Some NULL else msgport_search name mpf s mp)))"

definition pth_msgport_find :: "string option \<Rightarrow> pth_state \<Rightarrow> (ptr \<times> pth_state) option" where
  "pth_msgport_find name s =
     (case name of
        None \<Rightarrow> Some (pth_error NULL EINVAL s)
      | Some n \<Rightarrow> do {
          mpf \<leftarrow> pth_ring_first MsgportRing s;
          mp \<leftarrow> msgport_search n mpf s mpf;
          Some (mp, s) })"

section \<open>A port is a queue\<close>

interpretation port: fifo "\<lambda>m s. map_option snd (pth_msgport_put mp m s)" "pth_msgport_get mp"
  "\<lambda>s xs. mp \<noteq> NULL \<and> ring_rep s (MpQueue mp) xs" is_node for mp
proof unfold_locales
  fix s :: pth_state and xs m
  assume h: "mp \<noteq> NULL \<and> ring_rep s (MpQueue mp) xs" "is_node m s" "m \<notin> set xs"
  then obtain s' where "pth_ring_append (MpQueue mp) m s = Some s'"
    "ring_rep s' (MpQueue mp) (xs @ [m])" "\<forall>m'. is_node m' s \<longrightarrow> is_node m' s'"
    using ring_fifo.put_holds [of s "MpQueue mp" xs m] by blast
  with h show "\<exists>s'. map_option snd (pth_msgport_put mp m s) = Some s' \<and>
      (mp \<noteq> NULL \<and> ring_rep s' (MpQueue mp) (xs @ [m])) \<and> (\<forall>m'. is_node m' s \<longrightarrow> is_node m' s')"
    by (simp add: pth_msgport_put_def)
next
  fix s :: pth_state and x xs
  assume "mp \<noteq> NULL \<and> ring_rep s (MpQueue mp) (x # xs)"
  then show "\<exists>s'. pth_msgport_get mp s = Some (x, s') \<and> (mp \<noteq> NULL \<and> ring_rep s' (MpQueue mp) xs)"
    using ring_fifo.get_holds [of s "MpQueue mp" x xs] by (auto simp: pth_msgport_get_def)
qed

section \<open>All ports\<close>

definition ports_ok :: "pth_state \<Rightarrow> ptr list \<Rightarrow> (ptr \<Rightarrow> ptr list) \<Rightarrow> bool" where
  "ports_ok s ports Q \<longleftrightarrow> ring_rep s MsgportRing ports \<and> set ports \<subseteq> dom (msgports s) \<and>
     (\<forall>p \<in> set ports. ring_rep s (MpQueue p) (Q p) \<and> set (Q p) \<inter> set ports = {}) \<and>
     (\<forall>p \<in> set ports. \<forall>p' \<in> set ports. p \<noteq> p' \<longrightarrow> set (Q p) \<inter> set (Q p') = {})"

lemma ports_ok_queue: "ports_ok s ports Q \<Longrightarrow> p \<in> set ports \<Longrightarrow> ring_rep s (MpQueue p) (Q p) \<and> p \<noteq> NULL"
  using ring_rep_nodes unfolding ports_ok_def by blast

lemma ports_ok_msgports:
  "ports_ok s ports Q \<Longrightarrow> mp \<in> set ports \<Longrightarrow> \<exists>c. msgports s mp = Some c"
  unfolding ports_ok_def by blast

text \<open>A step on the queue of one port, given the nodes it writes.\<close>

lemma ports_ok_step:
  assumes ok: "ports_ok s ports Q" and mp: "mp \<in> set ports"
    and st: "rframe (MpQueue mp) A s s'" and rep: "ring_rep s' (MpQueue mp) xs"
    and A: "A \<inter> set ports = {}" "\<And>p. p \<in> set ports \<Longrightarrow> p \<noteq> mp \<Longrightarrow> A \<inter> set (Q p) = {}"
    and xs: "set xs \<subseteq> A \<union> set (Q mp)"
  shows "ports_ok s' ports (Q(mp := xs))"
proof -
  have ms: "msgports s' = msgports s"
    using rframe_state [OF st] by simp
  have "ring_rep s' MsgportRing ports"
    using ok A(1) by (intro ring_rep_frame [OF _ st]) (auto simp: ports_ok_def)
  moreover have "ring_rep s' (MpQueue p) (Q p)" if "p \<in> set ports" "p \<noteq> mp" for p
    using ok that A(2) [OF that] by (intro ring_rep_frame [OF _ st]) (auto simp: ports_ok_def)
  moreover have "set xs \<inter> set ports = {}"
    using ok mp A(1) xs unfolding ports_ok_def by blast
  moreover have "set xs \<inter> set (Q p) = {}" if "p \<in> set ports" "p \<noteq> mp" for p
    using ok mp A(2) [OF that] xs that unfolding ports_ok_def by blast
  ultimately show ?thesis
    using ok rep ms unfolding ports_ok_def by (auto simp: fun_upd_apply Int_commute)
qed

lemma msgport_get_ok:
  assumes ok: "ports_ok s ports Q" and mp: "mp \<in> set ports" and Q: "Q mp = m # xs"
  shows "\<exists>s'. pth_msgport_get mp s = Some (m, s') \<and> ports_ok s' ports (Q(mp := xs)) \<and>
    messages s' = messages s \<and> is_node m s' \<and> (\<forall>p \<in> set ports. m \<notin> set ((Q(mp := xs)) p))"
proof -
  have rep: "ring_rep s (MpQueue mp) (m # xs)" "mp \<noteq> NULL"
    using ports_ok_queue [OF ok mp] Q by simp_all
  obtain s' where s': "pth_ring_pop (MpQueue mp) s = Some (m, s')" "ring_rep s' (MpQueue mp) xs"
    "rframe (MpQueue mp) (set xs) s s'"
    using pth_ring_pop_spec [OF rep(1)] by blast
  have "ports_ok s' ports (Q(mp := xs))"
    using ok mp Q by (intro ports_ok_step [OF ok mp s'(3,2)]) (fastforce simp: ports_ok_def)+
  moreover have "is_node m s'"
    using ring_rep_nodes [OF rep(1)] rframe_is_node [OF s'(3)] by simp
  moreover have "m \<notin> set ((Q(mp := xs)) p)" if "p \<in> set ports" for p
  proof (cases "p = mp")
    case True
    with ring_rep_distinct [OF rep(1)] show ?thesis by simp
  next
    case False
    with ok mp that Q show ?thesis unfolding ports_ok_def by fastforce
  qed
  ultimately show ?thesis
    using s' rep(2) rframe_state [OF s'(3)] by (auto simp: pth_msgport_get_def)
qed

lemma msgport_put_ok:
  assumes ok: "ports_ok s ports Q" and mp: "mp \<in> set ports" and m: "is_node m s" "m \<notin> set ports"
    "\<And>p. p \<in> set ports \<Longrightarrow> m \<notin> set (Q p)"
  shows "\<exists>s'. pth_msgport_put mp m s = Some (True, s') \<and> ports_ok s' ports (Q(mp := Q mp @ [m])) \<and>
    messages s' = messages s"
proof -
  have rep: "ring_rep s (MpQueue mp) (Q mp)" "mp \<noteq> NULL"
    using ports_ok_queue [OF ok mp] by simp_all
  obtain s' where s': "pth_ring_append (MpQueue mp) m s = Some s'"
    "ring_rep s' (MpQueue mp) (Q mp @ [m])" "rframe (MpQueue mp) (insert m (set (Q mp))) s s'"
    using pth_ring_append_spec [OF rep(1)] m mp by metis
  have "ports_ok s' ports (Q(mp := Q mp @ [m]))"
    using ok mp m by (intro ports_ok_step [OF ok mp s'(3,2)]) (auto simp: ports_ok_def)
  with s' rep(2) show ?thesis
    using rframe_state [OF s'(3)] by (simp add: pth_msgport_put_def)
qed


text \<open>Draining: every pending message moves to the end of the queue of its reply port.\<close>

definition replyport :: "pth_state \<Rightarrow> ptr \<Rightarrow> ptr \<Rightarrow> bool" where
  "replyport s m p \<longleftrightarrow> fld (messages s) m_replyport m = Some p"

definition replied :: "pth_state \<Rightarrow> ptr list \<Rightarrow> (ptr \<Rightarrow> ptr list) \<Rightarrow> ptr \<Rightarrow> ptr list" where
  "replied s xs Q p = Q p @ filter (\<lambda>m. replyport s m p) xs"

lemma msgport_drain_spec:
  assumes "ports_ok s ports Q" "mp \<in> set ports"
    "\<And>m. m \<in> set (Q mp) \<Longrightarrow> \<exists>p \<in> set ports. p \<noteq> mp \<and> replyport s m p"
  shows "\<exists>s'. msgport_drain mp s = Some s' \<and> messages s' = messages s \<and>
    ports_ok s' ports (\<lambda>p. if p = mp then [] else replied s (Q mp) Q p)"
  using assms
proof (induction "Q mp" arbitrary: Q s)
  case Nil
  have rep: "ring_rep s (MpQueue mp) []" "mp \<noteq> NULL"
    using ports_ok_queue [OF Nil.prems(1,2)] Nil.hyps by simp_all
  have "Q = (\<lambda>p. if p = mp then [] else replied s (Q mp) Q p)"
    using Nil.hyps by (auto simp: replied_def)
  moreover have "msgport_drain mp s = Some s"
    using pth_ring_pop_empty [OF rep(1)] rep(2)
    by (subst msgport_drain.simps) (simp add: pth_msgport_get_def)
  ultimately show ?case
    using Nil.prems(1) by metis
next
  case (Cons m xs)
  let ?Q = "Q(mp := xs)"
  obtain p where p: "p \<in> set ports" "p \<noteq> mp" "replyport s m p"
    using Cons.prems(3) [of m] Cons.hyps(2) by (metis list.set_intros(1))
  obtain s1 where s1: "pth_msgport_get mp s = Some (m, s1)" "ports_ok s1 ports ?Q"
    "messages s1 = messages s" "is_node m s1" "\<And>p. p \<in> set ports \<Longrightarrow> m \<notin> set (?Q p)"
    using msgport_get_ok [OF Cons.prems(1,2) Cons.hyps(2) [symmetric]] by blast
  have "m \<notin> set ports"
    using Cons.prems(1,2) Cons.hyps(2) unfolding ports_ok_def by (metis disjoint_iff list.set_intros(1))
  then obtain s2 where s2: "pth_msgport_put p m s1 = Some (True, s2)"
    "ports_ok s2 ports (?Q(p := ?Q p @ [m]))" "messages s2 = messages s1"
    using msgport_put_ok [OF s1(2) p(1) s1(4) _ s1(5)] by blast
  have step: "msgport_drain mp s = msgport_drain mp s2"
    using s1 s2(1) p(3)
    by (subst msgport_drain.simps) (simp add: pth_msgport_reply_def replyport_def)
  have same: "replyport s2 = replyport s"
    by (intro ext) (simp add: replyport_def s1(3) s2(3))
  define Q2 where "Q2 = ?Q(p := ?Q p @ [m])"
  have xs: "xs = Q2 mp"
    using p(2) by (simp add: Q2_def)
  have "\<exists>s'. msgport_drain mp s2 = Some s' \<and> messages s' = messages s2 \<and>
    ports_ok s' ports (\<lambda>p. if p = mp then [] else replied s2 (Q2 mp) Q2 p)"
  proof (rule Cons.hyps(1) [of Q2 s2, OF xs])
    show "ports_ok s2 ports Q2" using s2(2) by (simp add: Q2_def)
    show "\<exists>p \<in> set ports. p \<noteq> mp \<and> replyport s2 m' p" if "m' \<in> set (Q2 mp)" for m'
      using Cons.prems(3) [of m'] that xs Cons.hyps(2) by (metis list.set_intros(2) same)
  qed (rule Cons.prems(2))
  moreover have "(\<lambda>q. if q = mp then [] else replied s2 (Q2 mp) Q2 q) =
    (\<lambda>q. if q = mp then [] else replied s (Q mp) Q q)"
    using p Cons.hyps(2) [symmetric] xs [symmetric]
    by (auto simp: replied_def same fun_eq_iff Q2_def fun_upd_apply replyport_def)
  ultimately show ?case
    using step s1(3) s2(3) by metis
qed

lemma free_msgport_ok:
  assumes ok: "ports_ok s ports Q" and mp: "mp \<notin> set ports" "mp \<notin> (\<Union>p \<in> set ports. set (Q p))"
  shows "ports_ok (free_msgport mp s) ports Q"
proof -
  have keep: "ring_rep (free_msgport mp s) r xs" if "ring_rep s r xs" "r \<noteq> MpQueue mp" "mp \<notin> set xs" for r xs
  proof -
    have "dring (fld (nodes (free_msgport mp s)) rn_next) (fld (nodes (free_msgport mp s)) rn_prev) xs =
          dring (fld (nodes s) rn_next) (fld (nodes s) rn_prev) xs"
      using that(3) by (intro dring_cong) (auto simp: free_msgport_def fld_def fun_upd_apply)
    with that show ?thesis
      by (simp add: ring_rep_def free_msgport_def)
  qed
  have "ring_rep (free_msgport mp s) (MpQueue p) (Q p)" if "p \<in> set ports" for p
    using ok mp that by (intro keep) (auto simp: ports_ok_def)
  moreover have "ring_rep (free_msgport mp s) MsgportRing ports"
    using ok mp by (intro keep) (auto simp: ports_ok_def)
  moreover have "set ports \<subseteq> dom (msgports (free_msgport mp s))"
    using ok mp by (auto simp: ports_ok_def free_msgport_def)
  ultimately show ?thesis
    using ok unfolding ports_ok_def by blast
qed

lemma msgport_search_spec:
  assumes ring: "ring_rep s MsgportRing (us @ ws)" and dom: "set ws \<subseteq> dom (msgports s)"
    and mpf: "us \<noteq> [] \<Longrightarrow> mpf = hd us" "us = [] \<Longrightarrow> mpf = list_hook ws"
  shows "msgport_search name mpf s (list_hook ws) =
    Some (case find (\<lambda>p. fld (msgports s) mp_name p = Some (Some name)) ws of None \<Rightarrow> NULL | Some p \<Rightarrow> p)"
  using assms
proof (induction ws arbitrary: us)
  case Nil
  then show ?case by (subst msgport_search.simps) simp
next
  case (Cons x ws)
  have x: "x \<noteq> NULL" "x \<notin> set us" "x \<notin> set ws" "distinct (us @ x # ws)" "NULL \<notin> set (us @ x # ws)"
    using Cons.prems(1) ring_rep_distinct [OF Cons.prems(1)] by (auto simp: ring_rep_def)
  obtain n where n: "fld (msgports s) mp_name x = Some n"
    using Cons.prems(2) by (auto simp: fld_def)
  have nx: "pth_ring_next MsgportRing x s = Some (list_hook ws)"
    using pth_ring_next_spec Cons.prems(1) .
  have "msgport_search name mpf s (list_hook ws) = Some (case find (\<lambda>p. fld (msgports s) mp_name p = Some (Some name)) ws of None \<Rightarrow> NULL | Some p \<Rightarrow> p)"
    using Cons.prems by (intro Cons.IH [of "us @ [x]"]) (auto simp: hd_append split: if_splits)
  moreover have "list_hook ws \<noteq> mpf"
  proof -
    have "mpf \<in> set (us @ [x])"
      using Cons.prems(3,4) by (cases us) auto
    moreover from this have "mpf \<noteq> NULL" "mpf \<notin> set ws"
      using x by auto
    ultimately show ?thesis
      by (cases ws) auto
  qed
  ultimately show ?case
    using n nx x(1) by (subst msgport_search.simps) simp
qed

text \<open>A concrete state: ports 1 and 2, one message pending on port 1, to be replied to \<open>rp\<close>.\<close>

definition two_ports :: "ptr \<Rightarrow> pth_state" where
  "two_ports rp = state0\<lparr>
     rings := [MsgportRing \<mapsto> \<lparr>r_hook = 1, r_nodes = 2\<rparr>, MpQueue 1 \<mapsto> \<lparr>r_hook = 10, r_nodes = 1\<rparr>,
               MpQueue 2 \<mapsto> \<lparr>r_hook = NULL, r_nodes = 0\<rparr>],
     nodes := [1 \<mapsto> \<lparr>rn_next = 2, rn_prev = 2\<rparr>, 2 \<mapsto> \<lparr>rn_next = 1, rn_prev = 1\<rparr>,
               10 \<mapsto> \<lparr>rn_next = 10, rn_prev = 10\<rparr>],
     msgports := [1 \<mapsto> \<lparr>mp_name = Some ''a'', mp_tid = 5\<rparr>, 2 \<mapsto> \<lparr>mp_name = Some ''b'', mp_tid = 5\<rparr>],
     messages := [10 \<mapsto> \<lparr>m_replyport = rp, m_size = 0, m_data = NULL\<rparr>]\<rparr>"

lemma two_ports_ok: "ports_ok (two_ports rp) [1, 2] ((\<lambda>_. [])(1 := [10]))"
  by (simp add: ports_ok_def ring_rep_def dring_def two_ports_def fld_def)

section \<open>Properties\<close>

text \<open>
  C26: a message port delivers in order: messages put one after the other on an empty port are
  all accepted, and as many \<^verbatim>\<open>pth_msgport_get\<close> calls return exactly these messages in the order in
  which they were put, leaving the port empty.
\<close>

theorem pth_msgport_fifo:
  assumes "mp \<noteq> NULL" "ring_rep s (MpQueue mp) []" "distinct ms" "\<forall>m \<in> set ms. is_node m s"
  shows "\<exists>s1 s2. put_all (\<lambda>m s. map_option snd (pth_msgport_put mp m s)) ms s = Some s1 \<and>
    get_many (pth_msgport_get mp) (length ms) s1 = Some (ms, s2) \<and> ring_rep s2 (MpQueue mp) []"
  using port.fifo_order [of mp s ms] assms by blast

theorem pth_msgport_fifo_witness:
  "\<exists>s1 s2. put_all (\<lambda>m s. map_option snd (pth_msgport_put 1 m s)) [10, 11, 12]
     (state0\<lparr>rings := [MpQueue 1 \<mapsto> \<lparr>r_hook = NULL, r_nodes = 0\<rparr>],
             nodes := (\<lambda>_. Some \<lparr>rn_next = NULL, rn_prev = NULL\<rparr>)\<rparr>) = Some s1 \<and>
    get_many (pth_msgport_get 1) 3 s1 = Some ([10, 11, 12], s2)"
  using pth_msgport_fifo [of 1 "state0\<lparr>rings := [MpQueue 1 \<mapsto> \<lparr>r_hook = NULL, r_nodes = 0\<rparr>],
             nodes := (\<lambda>_. Some \<lparr>rn_next = NULL, rn_prev = NULL\<rparr>)\<rparr>" "[10, 11, 12]"]
  by (fastforce simp: ring_rep_def numeral_eq_Suc)



definition self_reply :: "ptr \<Rightarrow> ptr \<Rightarrow> pth_state \<Rightarrow> bool" where
  "self_reply mp m s \<longleftrightarrow> mp \<noteq> NULL \<and> ring_rep s (MpQueue mp) [m] \<and> replyport s m mp"

lemma self_reply_step:
  assumes "self_reply mp m s"
  shows "\<exists>s1 s2. pth_msgport_get mp s = Some (m, s1) \<and> m \<noteq> NULL \<and>
    pth_msgport_reply m s1 = Some (True, s2) \<and> self_reply mp m s2"
proof -
  have h: "mp \<noteq> NULL" "ring_rep s (MpQueue mp) [m]" "replyport s m mp"
    using assms by (simp_all add: self_reply_def)
  have m: "is_node m s" using ring_rep_nodes [OF h(2)] by simp
  obtain s1 where s1: "pth_ring_pop (MpQueue mp) s = Some (m, s1)" "ring_rep s1 (MpQueue mp) []"
    "rframe (MpQueue mp) (set []) s s1"
    using pth_ring_pop_spec [OF h(2)] by blast
  have "is_node m s1" using rframe_is_node [OF s1(3) m] .
  then obtain s2 where s2: "pth_ring_append (MpQueue mp) m s1 = Some s2"
    "ring_rep s2 (MpQueue mp) ([] @ [m])" "rframe (MpQueue mp) (insert m (set [])) s1 s2"
    using pth_ring_append_spec [OF s1(2)] by auto
  have "messages s1 = messages s" "messages s2 = messages s"
    using rframe_state(8) [OF s1(3)] rframe_state(8) [OF s2(3)] by simp_all
  with h s1(1) s2(1,2) m show ?thesis
    by (simp add: pth_msgport_get_def pth_msgport_reply_def pth_msgport_put_def self_reply_def replyport_def)
qed

lemma msgport_drain_self_reply:
  assumes "msgport_drain mp s = Some s'"
  shows "\<not> self_reply mp m s"
proof (rule msgport_drain.raw_induct [where P = "\<lambda>mp s s'. \<not> self_reply mp m s", OF _ assms])
  fix drain mp and s s' :: pth_state
  assume IH: "\<And>mp s s'. drain mp s = Some s' \<Longrightarrow> \<not> self_reply mp m s"
    and body: "Option.bind (pth_msgport_get mp s) (\<lambda>(m, s). if m = NULL then Some s
      else Option.bind (pth_msgport_reply m s) (\<lambda>(rc, s). drain mp s)) = Some s'"
  show "\<not> self_reply mp m s"
  proof
    assume "self_reply mp m s"
    then obtain s1 s2 where "pth_msgport_get mp s = Some (m, s1)" "m \<noteq> NULL"
      "pth_msgport_reply m s1 = Some (True, s2)" "self_reply mp m s2"
      using self_reply_step by blast
    with body have "drain mp s2 = Some s'" by simp
    with IH \<open>self_reply mp m s2\<close> show False by blast
  qed
qed

text \<open>
  \<^verbatim>\<open>pth_msgport_destroy\<close> never returns on a port with one pending message whose reply port is
  the port itself: the loop that replies to the pending messages puts it back each time.
\<close>

theorem pth_msgport_destroy_self_reply:
  assumes "self_reply mp m s"
  shows "pth_msgport_destroy mp s = None"
proof -
  have "msgport_drain mp s = None"
    using msgport_drain_self_reply assms by (cases "msgport_drain mp s") auto
  then show ?thesis
    using assms by (simp add: pth_msgport_destroy_def self_reply_def)
qed

theorem pth_msgport_destroy_self_reply_witness: "pth_msgport_destroy 1 (two_ports 1) = None"
  by (rule pth_msgport_destroy_self_reply [of 1 10])
    (simp add: self_reply_def replyport_def ring_rep_def dring_def two_ports_def fld_def)

text \<open>
  \<^verbatim>\<open>pth_msgport_find\<close> returns the earliest created port with the given name, or \<^verbatim>\<open>NULL\<close> when no
  port has it, and changes nothing.
\<close>

theorem pth_msgport_find_first:
  assumes "ports_ok s ports Q"
  shows "pth_msgport_find (Some name) s = Some
    (case find (\<lambda>p. fld (msgports s) mp_name p = Some (Some name)) ports of None \<Rightarrow> NULL | Some p \<Rightarrow> p, s)"
proof -
  have "ring_rep s MsgportRing ports" "set ports \<subseteq> dom (msgports s)"
    using assms by (simp_all add: ports_ok_def)
  then show ?thesis
    using msgport_search_spec [of s "[]" ports "list_hook ports" name]
    by (simp add: pth_msgport_find_def pth_ring_first_spec)
qed

theorem pth_msgport_find_first_witness: "pth_msgport_find (Some ''b'') (two_ports 2) = Some (2, two_ports 2)"
  using pth_msgport_find_first [OF two_ports_ok, of "''b''" 2]
  by (simp add: two_ports_def fld_def)

end
