(* ===== verification/Pth_Sync.thy ===== *)
theory Pth_Sync
  imports Pth_Wait Pth_Msg
begin

text \<open>
  The synchronization objects of \<^verbatim>\<open>pth_sync.c\<close>: mutexes, read-write locks, condition variables and
  barriers. A mutex is a ring node and a record at the same address; the ring \<open>MutexRing t\<close> holds
  the mutexes thread \<open>t\<close> owns. What the library is given by its environment comes in a record
  \<open>env\<close>: the context switch (with the saving and restoring of \<^verbatim>\<open>errno\<close> around it), the calls into
  the application, the allocator and the contents of fresh memory, the address of a local array,
  the time of day, the installed signal actions, the name a spawned thread is given, the argument
  words a variadic call without them picks up, and the system calls on descriptors and processes.
\<close>

datatype sig_action = SigError | SigIgnore | SigDefault | SigHandle

type_synonym fd_sets = "fd_set \<times> fd_set \<times> fd_set"

record env =
  sw :: switch
  app_call :: callback
  malloc :: "pth_state \<Rightarrow> ptr"
  calloc_ok :: "pth_state \<Rightarrow> bool"
  frame :: "pth_state \<Rightarrow> ptr"
  now :: "pth_state \<Rightarrow> pth_time_t"
  stack_mem :: "pth_state \<Rightarrow> ptr"
  junk :: pth_st
  junk_ring :: pth_ring
  app_test :: "ptr \<Rightarrow> ptr \<Rightarrow> pth_state \<Rightarrow> (bool \<times> pth_state) option"
  os_select :: "int \<Rightarrow> fd_sets \<Rightarrow> pth_time_t option \<Rightarrow> pth_state \<Rightarrow> int \<times> fd_sets \<times> pth_state"
  os_fork :: "pth_state \<Rightarrow> int"
  os_pipe :: "errcode + int \<times> int"
  sig_act :: "nat \<Rightarrow> sig_action"
  os_time :: "pth_state \<Rightarrow> 32 word"
  stray :: "ptr \<times> pth_time_t"

text \<open>An environment to compute with: the scheduler comes back at once, no memory, no open files.\<close>

definition env0 :: env where
  "env0 = \<lparr>sw = Some, app_call = (\<lambda>f a s. Some (s\<lparr>app_log := app_log s @ [(f, a)]\<rparr>)), malloc = (\<lambda>_. NULL),
     calloc_ok = (\<lambda>_. False), frame = (\<lambda>_. 1000),
     now = (\<lambda>_. PTH_TIME_ZERO), stack_mem = (\<lambda>_. NULL), junk = tcb0,
     junk_ring = \<lparr>r_hook = NULL, r_nodes = 0\<rparr>, app_test = (\<lambda>_ _ s. Some (False, s)),
     os_select = (\<lambda>_ _ _ s. (0, ({}, {}, {}), s)), os_fork = (\<lambda>_. -1), os_pipe = Inr (3, 4),
     sig_act = (\<lambda>_. SigHandle),
     os_time = (\<lambda>_. 0), stray = (NULL, PTH_TIME_ZERO)\<rparr>"

section \<open>Mutual exclusion locks\<close>

definition pth_mutex_init :: "ptr \<Rightarrow> pth_state \<Rightarrow> (bool \<times> pth_state) option" where
  "pth_mutex_init mutex s =
     (if mutex = NULL then Some (pth_error False EINVAL s)
      else do {
        s \<leftarrow> mx_set (\<lambda>m. m\<lparr>mx_state := PTH_MUTEX_INITIALIZED, mx_owner := NULL, mx_count := 0\<rparr>) mutex s;
        Some (True, s) })"

definition mutex_lock :: "ptr \<Rightarrow> pth_state \<Rightarrow> pth_state option" where
  "mutex_lock mutex s = do {
     s \<leftarrow> mx_set (\<lambda>m. m\<lparr>mx_state := mx_state m OR PTH_MUTEX_LOCKED, mx_owner := pth_current s, mx_count := 1\<rparr>) mutex s;
     pth_ring_append (MutexRing (pth_current s)) mutex s }"

text \<open>A static event of the current thread, as the waiting functions create it.\<close>

definition static_event :: "env \<Rightarrow> 64 word \<Rightarrow> string \<Rightarrow> ev_args \<Rightarrow> pth_state \<Rightarrow> (ptr \<times> pth_state) option" where
  "static_event E spec site args s =
     pth_event (fd_open s) (malloc E s) (calloc_ok E s) (spec OR PTH_MODE_STATIC) NULL (EvKey site) NULL args s"

partial_function (option) mutex_wait_loop :: "env \<Rightarrow> ptr \<Rightarrow> ptr \<Rightarrow> pth_state \<Rightarrow> (bool ctl \<times> pth_state) option" where
  "mutex_wait_loop E mutex ev_extra s =
     Option.bind (static_event E PTH_EVENT_MUTEX ''pth_mutex_acquire'' (EvMUTEX mutex) s) (\<lambda>(ev, s).
     Option.bind (if ev_extra \<noteq> NULL then map_option snd (pth_event_concat ev [ev_extra] s) else Some s) (\<lambda>s.
     Option.bind (pth_wait (sw E) ev s) (\<lambda>(c, s).
       case c of
         Exit v \<Rightarrow> Some (Exit v, s)
       | Ret _ \<Rightarrow>
           Option.bind (if ev_extra \<noteq> NULL then
               Option.bind (pth_event_isolate ev s) (\<lambda>(_, s).
               Option.bind (pth_event_status ev s) (\<lambda>(st, s). Some (st = PTH_STATUS_PENDING, s)))
             else Some (False, s)) (\<lambda>(intr, s).
           if intr then Some (pth_error (Ret False) EINTR s)
           else Option.bind (mx_get mx_state mutex s) (\<lambda>st.
             if \<not> flag st PTH_MUTEX_LOCKED then
               Option.bind (mutex_lock mutex s) (\<lambda>s. Some (Ret True, s))
             else mutex_wait_loop E mutex ev_extra s)))))"

definition pth_mutex_acquire :: "env \<Rightarrow> ptr \<Rightarrow> bool \<Rightarrow> ptr \<Rightarrow> pth_state \<Rightarrow> (bool ctl \<times> pth_state) option" where
  "pth_mutex_acquire E mutex tryonly ev_extra s =
     (if mutex = NULL then Some (pth_error (Ret False) EINVAL s)
      else do {
        st \<leftarrow> mx_get mx_state mutex s;
        if \<not> flag st PTH_MUTEX_INITIALIZED then Some (pth_error (Ret False) EDEADLK s)
        else if \<not> flag st PTH_MUTEX_LOCKED then do { s \<leftarrow> mutex_lock mutex s; Some (Ret True, s) }
        else do {
          count \<leftarrow> mx_get mx_count mutex s;
          owner \<leftarrow> mx_get mx_owner mutex s;
          if count \<ge> 1 \<and> owner = pth_current s then do {
            s \<leftarrow> mx_set (\<lambda>m. m\<lparr>mx_count := mx_count m + 1\<rparr>) mutex s;
            Some (Ret True, s) }
          else if tryonly then Some (pth_error (Ret False) EBUSY s)
          else mutex_wait_loop E mutex ev_extra s } })"

definition pth_mutex_release :: "ptr \<Rightarrow> pth_state \<Rightarrow> (bool \<times> pth_state) option" where
  "pth_mutex_release mutex s =
     (if mutex = NULL then Some (pth_error False EINVAL s)
      else do {
        st \<leftarrow> mx_get mx_state mutex s;
        owner \<leftarrow> mx_get mx_owner mutex s;
        if \<not> flag st PTH_MUTEX_INITIALIZED then Some (pth_error False EDEADLK s)
        else if \<not> flag st PTH_MUTEX_LOCKED then Some (pth_error False EDEADLK s)
        else if owner \<noteq> pth_current s then Some (pth_error False EACCES s)
        else do {
          s \<leftarrow> mx_set (\<lambda>m. m\<lparr>mx_count := mx_count m - 1\<rparr>) mutex s;
          count \<leftarrow> mx_get mx_count mutex s;
          s \<leftarrow> (if count \<le> 0 then do {
                  s \<leftarrow> mx_set (\<lambda>m. m\<lparr>mx_state := mx_state m AND NOT PTH_MUTEX_LOCKED,
                                     mx_owner := NULL, mx_count := 0\<rparr>) mutex s;
                  pth_ring_delete (MutexRing (pth_current s)) mutex s }
                else Some s);
          Some (True, s) } })"

partial_function (option) releaseall_loop :: "ptr \<Rightarrow> ptr \<Rightarrow> ptr \<Rightarrow> pth_state \<Rightarrow> pth_state option" where
  "releaseall_loop thread rnf rn s =
     (if rn = NULL then Some s
      else Option.bind (pth_mutex_release rn s) (\<lambda>(rc, s).
           Option.bind (pth_ring_next (MutexRing thread) rn s) (\<lambda>rn.
             if rn = rnf then Some s else releaseall_loop thread rnf rn s)))"

definition pth_mutex_releaseall :: "ptr \<Rightarrow> pth_state \<Rightarrow> pth_state option" where
  "pth_mutex_releaseall thread s =
     (if thread = NULL then Some s
      else do { rnf \<leftarrow> pth_ring_first (MutexRing thread) s; releaseall_loop thread rnf rnf s })"

section \<open>Read-write locks\<close>

definition pth_rwlock_init :: "ptr \<Rightarrow> pth_state \<Rightarrow> (bool \<times> pth_state) option" where
  "pth_rwlock_init rwlock s =
     (if rwlock = NULL then Some (pth_error False EINVAL s)
      else do {
        s \<leftarrow> rw_set (\<lambda>r. r\<lparr>rw_state := PTH_RWLOCK_INITIALIZED, rw_readers := 0\<rparr>) rwlock s;
        rd \<leftarrow> rw_get rw_mutex_rd rwlock s;
        rw \<leftarrow> rw_get rw_mutex_rw rwlock s;
        (_, s) \<leftarrow> pth_mutex_init rd s;
        (_, s) \<leftarrow> pth_mutex_init rw s;
        Some (True, s) })"

text \<open>\<^verbatim>\<open>pth_shield { \<dots> }\<close> keeps the value of \<^verbatim>\<open>errno\<close> over a call.\<close>

definition shielded_release :: "ptr \<Rightarrow> pth_state \<Rightarrow> pth_state option" where
  "shielded_release mutex s =
     (let saved = errno s in do { (_, s) \<leftarrow> pth_mutex_release mutex s; Some (s\<lparr>errno := saved\<rparr>) })"

definition pth_rwlock_acquire :: "env \<Rightarrow> ptr \<Rightarrow> rw_op \<Rightarrow> bool \<Rightarrow> ptr \<Rightarrow> pth_state \<Rightarrow> (bool ctl \<times> pth_state) option" where
  "pth_rwlock_acquire E rwlock op tryonly ev_extra s =
     (if rwlock = NULL then Some (pth_error (Ret False) EINVAL s)
      else do {
        st \<leftarrow> rw_get rw_state rwlock s;
        rd \<leftarrow> rw_get rw_mutex_rd rwlock s;
        rw \<leftarrow> rw_get rw_mutex_rw rwlock s;
        if \<not> flag st PTH_RWLOCK_INITIALIZED then Some (pth_error (Ret False) EDEADLK s)
        else if op = PTH_RWLOCK_RW then do {
          (c, s) \<leftarrow> pth_mutex_acquire E rw tryonly ev_extra s;
          if c \<noteq> Ret True then Some (c, s)
          else do {
            s \<leftarrow> rw_set (\<lambda>r. r\<lparr>rw_mode := PTH_RWLOCK_RW\<rparr>) rwlock s;
            Some (Ret True, s) } }
        else do {
          (c, s) \<leftarrow> pth_mutex_acquire E rd tryonly ev_extra s;
          if c \<noteq> Ret True then Some (c, s)
          else do {
            s \<leftarrow> rw_set (\<lambda>r. r\<lparr>rw_readers := rw_readers r + 1\<rparr>) rwlock s;
            n \<leftarrow> rw_get rw_readers rwlock s;
            (c, s) \<leftarrow> (if n = 1 then pth_mutex_acquire E rw tryonly ev_extra s else Some (Ret True, s));
            case c of
              Exit v \<Rightarrow> Some (Exit v, s)
            | Ret ok \<Rightarrow>
                if \<not> ok then do {
                  s \<leftarrow> rw_set (\<lambda>r. r\<lparr>rw_readers := rw_readers r - 1\<rparr>) rwlock s;
                  s \<leftarrow> shielded_release rd s;
                  Some (Ret False, s) }
                else do {
                  s \<leftarrow> rw_set (\<lambda>r. r\<lparr>rw_mode := PTH_RWLOCK_RD\<rparr>) rwlock s;
                  (_, s) \<leftarrow> pth_mutex_release rd s;
                  Some (Ret True, s) } } } })"

definition pth_rwlock_release :: "env \<Rightarrow> ptr \<Rightarrow> pth_state \<Rightarrow> (bool ctl \<times> pth_state) option" where
  "pth_rwlock_release E rwlock s =
     (if rwlock = NULL then Some (pth_error (Ret False) EINVAL s)
      else do {
        st \<leftarrow> rw_get rw_state rwlock s;
        mode \<leftarrow> rw_get rw_mode rwlock s;
        rd \<leftarrow> rw_get rw_mutex_rd rwlock s;
        rw \<leftarrow> rw_get rw_mutex_rw rwlock s;
        if \<not> flag st PTH_RWLOCK_INITIALIZED then Some (pth_error (Ret False) EDEADLK s)
        else if mode = PTH_RWLOCK_RW then do {
          (ok, s) \<leftarrow> pth_mutex_release rw s;
          Some (Ret ok, s) }
        else do {
          (c, s) \<leftarrow> pth_mutex_acquire E rd False NULL s;
          if c \<noteq> Ret True then Some (c, s)
          else do {
            s \<leftarrow> rw_set (\<lambda>r. r\<lparr>rw_readers := rw_readers r - 1\<rparr>) rwlock s;
            n \<leftarrow> rw_get rw_readers rwlock s;
            (ok, s) \<leftarrow> (if n = 0 then pth_mutex_release rw s else Some (True, s));
            if \<not> ok then do {
              s \<leftarrow> rw_set (\<lambda>r. r\<lparr>rw_readers := rw_readers r + 1\<rparr>) rwlock s;
              s \<leftarrow> shielded_release rd s;
              Some (Ret False, s) }
            else do {
              s \<leftarrow> rw_set (\<lambda>r. r\<lparr>rw_mode := PTH_RWLOCK_RD\<rparr>) rwlock s;
              (_, s) \<leftarrow> pth_mutex_release rd s;
              Some (Ret True, s) } } } })"

section \<open>Condition variables\<close>

definition pth_cond_init :: "ptr \<Rightarrow> pth_state \<Rightarrow> (bool \<times> pth_state) option" where
  "pth_cond_init cond s =
     (if cond = NULL then Some (pth_error False EINVAL s)
      else do {
        s \<leftarrow> cn_set (\<lambda>c. c\<lparr>cn_state := PTH_COND_INITIALIZED, cn_waiters := 0\<rparr>) cond s;
        Some (True, s) })"

definition pth_cond_cleanup_handler :: "env \<Rightarrow> ptr \<Rightarrow> ptr \<Rightarrow> pth_state \<Rightarrow> (unit ctl \<times> pth_state) option" where
  "pth_cond_cleanup_handler E mutex cond s = do {
     (c, s) \<leftarrow> pth_mutex_acquire E mutex False NULL s;
     case c of
       Exit v \<Rightarrow> Some (Exit v, s)
     | Ret _ \<Rightarrow> do { s \<leftarrow> cn_set (\<lambda>c. c\<lparr>cn_waiters := cn_waiters c - 1\<rparr>) cond s; Some (Ret (), s) } }"

definition cond_cleanup_addr :: ptr where "cond_cleanup_addr = 2 ^ 64 - 3"

definition pth_cond_await :: "env \<Rightarrow> ptr \<Rightarrow> ptr \<Rightarrow> ptr \<Rightarrow> pth_state \<Rightarrow> (bool ctl \<times> pth_state) option" where
  "pth_cond_await E cond mutex ev_extra s =
     (if cond = NULL \<or> mutex = NULL then Some (pth_error (Ret False) EINVAL s)
      else do {
        st \<leftarrow> cn_get cn_state cond s;
        if \<not> flag st PTH_COND_INITIALIZED then Some (pth_error (Ret False) EDEADLK s)
        else if flag st PTH_COND_SIGNALED \<and> \<not> flag st PTH_COND_BROADCAST then do {
          s \<leftarrow> cn_set (\<lambda>c. c\<lparr>cn_state := cn_state c AND NOT PTH_COND_SIGNALED
                 AND NOT PTH_COND_BROADCAST AND NOT PTH_COND_HANDLED\<rparr>) cond s;
          Some (Ret True, s) }
        else do {
          s \<leftarrow> cn_set (\<lambda>c. c\<lparr>cn_waiters := cn_waiters c + 1\<rparr>) cond s;
          (_, s) \<leftarrow> pth_mutex_release mutex s;
          (ev, s) \<leftarrow> static_event E PTH_EVENT_COND ''pth_cond_await'' (EvCOND cond) s;
          s \<leftarrow> (if ev_extra \<noteq> NULL then map_option snd (pth_event_concat ev [ev_extra] s) else Some s);
          (_, s) \<leftarrow> pth_cleanup_push (malloc E s \<noteq> NULL) cond_cleanup_addr (frame E s) s;
          (c, s) \<leftarrow> pth_wait (sw E) ev s;
          case c of
            Exit v \<Rightarrow> Some (Exit v, s)
          | Ret _ \<Rightarrow> do {
              (_, s) \<leftarrow> pth_cleanup_pop (app_call E) False s;
              s \<leftarrow> (if ev_extra \<noteq> NULL then map_option snd (pth_event_isolate ev s) else Some s);
              (c, s) \<leftarrow> pth_mutex_acquire E mutex False NULL s;
              case c of
                Exit v \<Rightarrow> Some (Exit v, s)
              | Ret _ \<Rightarrow> do {
                  s \<leftarrow> cn_set (\<lambda>c. c\<lparr>cn_waiters := cn_waiters c - 1\<rparr>) cond s;
                  Some (Ret True, s) } } } })"

definition pth_cond_notify :: "env \<Rightarrow> ptr \<Rightarrow> bool \<Rightarrow> pth_state \<Rightarrow> (bool \<times> pth_state) option" where
  "pth_cond_notify E cond broadcast s =
     (if cond = NULL then Some (pth_error False EINVAL s)
      else do {
        st \<leftarrow> cn_get cn_state cond s;
        waiters \<leftarrow> cn_get cn_waiters cond s;
        if \<not> flag st PTH_COND_INITIALIZED then Some (pth_error False EDEADLK s)
        else if waiters > 0 then do {
          s \<leftarrow> cn_set (\<lambda>c. c\<lparr>cn_state := cn_state c OR PTH_COND_SIGNALED\<rparr>) cond s;
          s \<leftarrow> (if broadcast then cn_set (\<lambda>c. c\<lparr>cn_state := cn_state c OR PTH_COND_BROADCAST\<rparr>) cond s
                else cn_set (\<lambda>c. c\<lparr>cn_state := cn_state c AND NOT PTH_COND_BROADCAST\<rparr>) cond s);
          s \<leftarrow> cn_set (\<lambda>c. c\<lparr>cn_state := cn_state c AND NOT PTH_COND_HANDLED\<rparr>) cond s;
          (_, s) \<leftarrow> pth_yield (sw E) NULL s;
          Some (True, s) }
        else Some (True, s) })"

section \<open>Barriers\<close>

definition pth_barrier_init :: "ptr \<Rightarrow> int \<Rightarrow> pth_state \<Rightarrow> (bool \<times> pth_state) option" where
  "pth_barrier_init barrier threshold s =
     (if barrier = NULL \<or> threshold \<le> 0 then Some (pth_error False EINVAL s)
      else do {
        mx \<leftarrow> br_get br_mutex barrier s;
        cn \<leftarrow> br_get br_cond barrier s;
        (ok, s) \<leftarrow> pth_mutex_init mx s;
        if \<not> ok then Some (False, s)
        else do {
          (ok, s) \<leftarrow> pth_cond_init cn s;
          if \<not> ok then Some (False, s)
          else do {
            s \<leftarrow> br_set (\<lambda>b. b\<lparr>br_state := PTH_BARRIER_INITIALIZED, br_threshold := threshold,
                   br_count := threshold, br_cycle := False\<rparr>) barrier s;
            Some (True, s) } } })"

partial_function (option) barrier_wait_loop :: "env \<Rightarrow> ptr \<Rightarrow> bool \<Rightarrow> int \<Rightarrow> pth_state \<Rightarrow> (int ctl \<times> pth_state) option" where
  "barrier_wait_loop E barrier cycle rv s =
     Option.bind (br_get br_cycle barrier s) (\<lambda>now.
     Option.bind (br_get br_cond barrier s) (\<lambda>cn.
     Option.bind (br_get br_mutex barrier s) (\<lambda>mx.
       if cycle = now then
         Option.bind (pth_cond_await E cn mx NULL s) (\<lambda>(c, s).
           case c of
             Exit v \<Rightarrow> Some (Exit v, s)
           | Ret ok \<Rightarrow> if \<not> ok then Some (Ret 0, s) else barrier_wait_loop E barrier cycle 1 s)
       else Some (Ret rv, s))))"

definition pth_barrier_reach :: "env \<Rightarrow> ptr \<Rightarrow> pth_state \<Rightarrow> (int ctl \<times> pth_state) option" where
  "pth_barrier_reach E barrier s =
     (if barrier = NULL then Some (pth_error (Ret 0) EINVAL s)
      else do {
        st \<leftarrow> br_get br_state barrier s;
        mx \<leftarrow> br_get br_mutex barrier s;
        cn \<leftarrow> br_get br_cond barrier s;
        if \<not> flag st PTH_BARRIER_INITIALIZED then Some (pth_error (Ret 0) EINVAL s)
        else do {
          (c, s) \<leftarrow> pth_mutex_acquire E mx False NULL s;
          case c of
            Exit v \<Rightarrow> Some (Exit v, s)
          | Ret ok \<Rightarrow>
              if \<not> ok then Some (Ret 0, s)
              else do {
                cycle \<leftarrow> br_get br_cycle barrier s;
                s \<leftarrow> br_set (\<lambda>b. b\<lparr>br_count := br_count b - 1\<rparr>) barrier s;
                count \<leftarrow> br_get br_count barrier s;
                threshold \<leftarrow> br_get br_threshold barrier s;
                if count = 0 then do {
                  s \<leftarrow> br_set (\<lambda>b. b\<lparr>br_cycle := \<not> br_cycle b, br_count := br_threshold b\<rparr>) barrier s;
                  (ok, s) \<leftarrow> pth_cond_notify E cn True s;
                  (_, s) \<leftarrow> pth_mutex_release mx s;
                  Some (Ret (if ok then PTH_BARRIER_TAILLIGHT else 0), s) }
                else do {
                  cancel \<leftarrow> t_get t_cancelstate (pth_current s) s;
                  s \<leftarrow> pth_cancel_state PTH_CANCEL_DISABLE NullInt s;
                  (c, s) \<leftarrow> barrier_wait_loop E barrier cycle
                    (if threshold = count then PTH_BARRIER_HEADLIGHT else 1) s;
                  case c of
                    Exit v \<Rightarrow> Some (Exit v, s)
                  | Ret rv \<Rightarrow> do {
                      s \<leftarrow> pth_cancel_state cancel NullInt s;
                      (_, s) \<leftarrow> pth_mutex_release mx s;
                      Some (Ret rv, s) } } } } })"

section \<open>The invariant of the mutexes\<close>

definition locked :: "pth_mutex \<Rightarrow> bool" where
  "locked c \<longleftrightarrow> flag (mx_state c) PTH_MUTEX_LOCKED"

text \<open>
  \<open>mutexes_ok s M\<close>: the ring of thread \<open>t\<close> holds exactly the mutexes \<open>M t\<close> that are locked with
  owner \<open>t\<close>, and a locked mutex has a live owner and a positive recursion count.
\<close>

definition mutexes_ok :: "pth_state \<Rightarrow> (ptr \<Rightarrow> ptr list) \<Rightarrow> bool" where
  "mutexes_ok s M \<longleftrightarrow>
     (\<forall>t \<in> dom (tcbs s). ring_rep s (MutexRing t) (M t)) \<and>
     (\<forall>t \<in> dom (tcbs s). \<forall>m. m \<in> set (M t) \<longleftrightarrow> (\<exists>c. mutexes s m = Some c \<and> locked c \<and> mx_owner c = t)) \<and>
     (\<forall>m c. mutexes s m = Some c \<longrightarrow> locked c \<longrightarrow> mx_owner c \<in> dom (tcbs s) \<and> 1 \<le> mx_count c) \<and>
     (\<forall>m \<in> dom (mutexes s). is_node m s)"

lemma mutexes_ok_ring: "mutexes_ok s M \<Longrightarrow> t \<in> dom (tcbs s) \<Longrightarrow> ring_rep s (MutexRing t) (M t)"
  by (simp add: mutexes_ok_def)

lemma mutexes_ok_mem: "mutexes_ok s M \<Longrightarrow> t \<in> dom (tcbs s) \<Longrightarrow>
    m \<in> set (M t) \<longleftrightarrow> (\<exists>c. mutexes s m = Some c \<and> locked c \<and> mx_owner c = t)"
  by (simp add: mutexes_ok_def)

lemma mutexes_ok_disjoint:
  "mutexes_ok s M \<Longrightarrow> t \<in> dom (tcbs s) \<Longrightarrow> t' \<in> dom (tcbs s) \<Longrightarrow> t \<noteq> t' \<Longrightarrow> set (M t) \<inter> set (M t') = {}"
  using mutexes_ok_mem [of s M t] mutexes_ok_mem [of s M t'] by auto

lemma mutexes_ok_node: "mutexes_ok s M \<Longrightarrow> mutexes s m = Some c \<Longrightarrow> is_node m s"
  unfolding mutexes_ok_def by blast

lemma mutexes_ok_locked:
  "mutexes_ok s M \<Longrightarrow> mutexes s m = Some c \<Longrightarrow> locked c \<Longrightarrow> mx_owner c \<in> dom (tcbs s) \<and> 1 \<le> mx_count c"
  unfolding mutexes_ok_def by blast

lemma locked_bits [simp]:
  "locked (c\<lparr>mx_state := st OR PTH_MUTEX_LOCKED\<rparr>)"
  "\<not> locked (c\<lparr>mx_state := st AND NOT PTH_MUTEX_LOCKED\<rparr>)"
  "locked (mx_count_update f c) = locked c" "locked (mx_owner_update g c) = locked c"
  by (simp_all add: locked_def flag_def PTH_MUTEX_LOCKED_def bit.conj_disj_distrib2 or_eq_0_iff ac_simps)

text \<open>
  A change of one mutex \<open>m\<close> and of the ring of one thread \<open>t\<close>, written as one step: the
  invariant holds again if the new contents of the ring agree with the new state of the mutex.
\<close>

lemma mutexes_ok_step:
  assumes ok: "mutexes_ok s M" and t: "t \<in> dom (tcbs s)" and m: "mutexes s m = Some c"
    and fr: "rframe (MutexRing t) A (s\<lparr>mutexes := (mutexes s)(m \<mapsto> c')\<rparr>) s'"
    and rep: "ring_rep s' (MutexRing t) xs"
    and A: "\<And>u. u \<in> dom (tcbs s) \<Longrightarrow> u \<noteq> t \<Longrightarrow> A \<inter> set (M u) = {}"
    and xs: "\<And>x. x \<in> set xs \<longleftrightarrow> x \<in> set (M t) \<and> x \<noteq> m \<or> x = m \<and> locked c'"
    and own: "locked c' \<Longrightarrow> mx_owner c' = t \<and> 1 \<le> mx_count c'" "locked c \<Longrightarrow> mx_owner c = t"
  shows "mutexes_ok s' (M(t := xs))"
proof -
  have st: "tcbs s' = tcbs s" "mutexes s' = (mutexes s)(m \<mapsto> c')"
    using rframe_state [OF fr] by simp_all
  have ring: "ring_rep s' (MutexRing u) ((M(t := xs)) u)" if "u \<in> dom (tcbs s)" for u
  proof (cases "u = t")
    case True
    with rep show ?thesis by simp
  next
    case False
    have "ring_rep (s\<lparr>mutexes := (mutexes s)(m \<mapsto> c')\<rparr>) (MutexRing u) (M u)"
      using mutexes_ok_ring [OF ok that] by (simp add: ring_rep_def)
    then have "ring_rep s' (MutexRing u) (M u)"
      using A [OF that False] False by (intro ring_rep_frame [OF _ fr]) auto
    with False show ?thesis by simp
  qed
  have mem: "x \<in> set ((M(t := xs)) u) \<longleftrightarrow> (\<exists>d. mutexes s' x = Some d \<and> locked d \<and> mx_owner d = u)"
    if u: "u \<in> dom (tcbs s)" for u x
  proof (cases "x = m")
    case True
    have "x \<in> set ((M(t := xs)) u) \<longleftrightarrow> u = t \<and> locked c'"
      using xs [of m] mutexes_ok_mem [OF ok u, of m] m own(2) True by (cases "u = t") auto
    with True st own(1) show ?thesis by auto
  next
    case False
    have "x \<in> set ((M(t := xs)) u) \<longleftrightarrow> x \<in> set (M u)"
      using xs [of x] False by (cases "u = t") auto
    with False st mutexes_ok_mem [OF ok u, of x] show ?thesis by simp
  qed
  have "mx_owner d \<in> dom (tcbs s) \<and> 1 \<le> mx_count d" if "mutexes s' x = Some d" "locked d" for x d
    using that st own t mutexes_ok_locked [OF ok, of x d] by (cases "x = m") auto
  moreover have "is_node x s'" if "x \<in> dom (mutexes s')" for x
  proof -
    have "is_node x s" using that st m mutexes_ok_node [OF ok] by (cases "x = m") auto
    then show ?thesis using rframe_is_node [OF fr] by simp
  qed
  ultimately show ?thesis
    using ring mem unfolding mutexes_ok_def st(1) by blast
qed

lemma mutexes_ok_errno [simp]:
  "mutexes_ok (s\<lparr>errno := e\<rparr>) M = mutexes_ok s M" "mutexes_ok (s\<lparr>pth_current := t\<rparr>) M = mutexes_ok s M"
  "mutexes_ok (s\<lparr>rwlocks := h\<rparr>) M = mutexes_ok s M" "mutexes_ok (s\<lparr>barriers := b\<rparr>) M = mutexes_ok s M"
  by (simp_all add: mutexes_ok_def ring_rep_def)

text \<open>Changing the recursion count of a mutex one holds.\<close>

lemma mutexes_ok_count:
  assumes ok: "mutexes_ok s M" and m: "mutexes s m = Some c" and l: "locked c" and n: "1 \<le> n"
  shows "mutexes_ok (s\<lparr>mutexes := (mutexes s)(m \<mapsto> c\<lparr>mx_count := n\<rparr>)\<rparr>) M"
proof -
  let ?s = "s\<lparr>mutexes := (mutexes s)(m \<mapsto> c\<lparr>mx_count := n\<rparr>)\<rparr>" and ?t = "mx_owner c"
  have t: "?t \<in> dom (tcbs s)"
    using mutexes_ok_locked [OF ok m l] by blast
  have "mutexes_ok ?s (M(?t := M ?t))"
  proof (rule mutexes_ok_step [OF ok t m])
    show "rframe (MutexRing ?t) {} ?s ?s" by simp
    show "ring_rep ?s (MutexRing ?t) (M ?t)"
      using mutexes_ok_ring [OF ok t] by (simp add: ring_rep_def)
    show "x \<in> set (M ?t) \<longleftrightarrow> x \<in> set (M ?t) \<and> x \<noteq> m \<or> x = m \<and> locked (c\<lparr>mx_count := n\<rparr>)" for x
      using mutexes_ok_mem [OF ok t, of m] m l by auto
  qed (use n in auto)
  then show ?thesis by simp
qed

section \<open>Locking and unlocking\<close>

lemma mutex_lock_ok:
  assumes ok: "mutexes_ok s M" and t: "pth_current s \<in> dom (tcbs s)" and m: "mutexes s m = Some c"
    and l: "\<not> locked c"
  defines "c' \<equiv> c\<lparr>mx_state := mx_state c OR PTH_MUTEX_LOCKED, mx_owner := pth_current s, mx_count := 1\<rparr>"
  shows "\<exists>s'. mutex_lock m s = Some s' \<and> mutexes_ok s' (M(pth_current s := M (pth_current s) @ [m])) \<and>
    mutexes s' = (mutexes s)(m \<mapsto> c') \<and> tcbs s' = tcbs s \<and> pth_current s' = pth_current s \<and> errno s' = errno s"
proof -
  let ?t = "pth_current s" and ?s = "s\<lparr>mutexes := (mutexes s)(m \<mapsto> c')\<rparr>"
  have out: "m \<notin> set (M u)" if "u \<in> dom (tcbs s)" for u
    using mutexes_ok_mem [OF ok that] m l by auto
  have rep: "ring_rep ?s (MutexRing ?t) (M ?t)" and node: "is_node m ?s"
    using mutexes_ok_ring [OF ok t] mutexes_ok_node [OF ok m] by (simp_all add: ring_rep_def)
  obtain s' where s': "pth_ring_append (MutexRing ?t) m ?s = Some s'" "ring_rep s' (MutexRing ?t) (M ?t @ [m])"
    "rframe (MutexRing ?t) (insert m (set (M ?t))) ?s s'"
    using pth_ring_append_spec [OF rep] node out [OF t] by blast
  have "mutexes_ok s' (M(?t := M ?t @ [m]))"
  proof (rule mutexes_ok_step [OF ok t m s'(3) s'(2)])
    show "insert m (set (M ?t)) \<inter> set (M u) = {}" if "u \<in> dom (tcbs s)" "u \<noteq> ?t" for u
      using out [OF that(1)] mutexes_ok_disjoint [OF ok t that(1)] that(2) by auto
    show "x \<in> set (M ?t @ [m]) \<longleftrightarrow> x \<in> set (M ?t) \<and> x \<noteq> m \<or> x = m \<and> locked c'" for x
      using out [OF t] by (auto simp: c'_def)
  qed (use l in \<open>auto simp: c'_def\<close>)
  moreover have "mutex_lock m s = Some s'"
    using m s'(1) by (simp add: mutex_lock_def cells c'_def)
  ultimately show ?thesis
    using rframe_state [OF s'(3)] by auto
qed

definition unlocked :: "pth_mutex \<Rightarrow> pth_mutex" where
  "unlocked c = c\<lparr>mx_state := mx_state c AND NOT PTH_MUTEX_LOCKED, mx_owner := NULL, mx_count := 0\<rparr>"

lemma release_last_ok:
  assumes ok: "mutexes_ok s M" and t: "pth_current s \<in> dom (tcbs s)" and m: "mutexes s m = Some c"
    and l: "flag (mx_state c) PTH_MUTEX_INITIALIZED" "locked c" "mx_owner c = pth_current s" "mx_count c = 1"
  shows "\<exists>s'. pth_mutex_release m s = Some (True, s') \<and>
    mutexes_ok s' (M(pth_current s := removeAll m (M (pth_current s)))) \<and>
    mutexes s' = (mutexes s)(m \<mapsto> unlocked c) \<and> tcbs s' = tcbs s \<and> pth_current s' = pth_current s \<and>
    errno s' = errno s \<and> nodes s' m = nodes s m"
proof -
  let ?t = "pth_current s" and ?s = "s\<lparr>mutexes := (mutexes s)(m \<mapsto> unlocked c)\<rparr>"
  have "m \<in> set (M ?t)"
    using mutexes_ok_mem [OF ok t] m l by auto
  then obtain us ws where M: "M ?t = us @ m # ws" "m \<notin> set us" "m \<notin> set ws"
    using split_list ring_rep_distinct [OF mutexes_ok_ring [OF ok t]] by fastforce
  have rep: "ring_rep ?s (MutexRing ?t) (us @ m # ws)"
    using mutexes_ok_ring [OF ok t] M(1) by (simp add: ring_rep_def)
  obtain s' where s': "pth_ring_delete (MutexRing ?t) m ?s = Some s'" "ring_rep s' (MutexRing ?t) (us @ ws)"
    "rframe (MutexRing ?t) (set (us @ ws)) ?s s'"
    using pth_ring_delete_spec [OF rep] by blast
  have "mutexes_ok s' (M(?t := us @ ws))"
  proof (rule mutexes_ok_step [OF ok t m s'(3) s'(2)])
    show "set (us @ ws) \<inter> set (M u) = {}" if "u \<in> dom (tcbs s)" "u \<noteq> ?t" for u
      using mutexes_ok_disjoint [OF ok t that(1)] that(2) M(1) by auto
    show "x \<in> set (us @ ws) \<longleftrightarrow> x \<in> set (M ?t) \<and> x \<noteq> m \<or> x = m \<and> locked (unlocked c)" for x
      using M by (auto simp: unlocked_def)
  qed (use l in \<open>auto simp: unlocked_def\<close>)
  moreover have "removeAll m (M ?t) = us @ ws"
    using M by simp
  moreover have "m \<noteq> NULL"
    using mutexes_ok_node [OF ok m] by simp
  then have "pth_mutex_release m s = Some (True, s')"
    using m l s'(1) by (simp add: pth_mutex_release_def cells locked_def [symmetric] unlocked_def)
  moreover have "nodes s' m = nodes s m"
    using s'(3) M by (simp add: rframe_def)
  ultimately show ?thesis
    using rframe_state [OF s'(3)] by auto
qed

lemma word_ge_1: "1 \<le> x \<longleftrightarrow> x \<noteq> 0" for x :: "64 word"
  by (metis linorder_not_le word_less_1)

lemma release_nested_ok:
  assumes ok: "mutexes_ok s M" and m: "mutexes s m = Some c"
    and l: "flag (mx_state c) PTH_MUTEX_INITIALIZED" "locked c" "mx_owner c = pth_current s" "mx_count c \<noteq> 1"
  shows "pth_mutex_release m s = Some (True, s\<lparr>mutexes := (mutexes s)(m \<mapsto> c\<lparr>mx_count := mx_count c - 1\<rparr>)\<rparr>)"
    "mutexes_ok (s\<lparr>mutexes := (mutexes s)(m \<mapsto> c\<lparr>mx_count := mx_count c - 1\<rparr>)\<rparr>) M"
proof -
  have n: "mx_count c - 1 \<noteq> 0" "m \<noteq> NULL"
    using l(4) mutexes_ok_node [OF ok m] by auto
  then show "pth_mutex_release m s = Some (True, s\<lparr>mutexes := (mutexes s)(m \<mapsto> c\<lparr>mx_count := mx_count c - 1\<rparr>)\<rparr>)"
    using m l by (simp add: pth_mutex_release_def cells locked_def)
  show "mutexes_ok (s\<lparr>mutexes := (mutexes s)(m \<mapsto> c\<lparr>mx_count := mx_count c - 1\<rparr>)\<rparr>) M"
    using n(1) by (intro mutexes_ok_count [OF ok m l(2)]) (simp add: word_ge_1)
qed

section \<open>Properties of mutexes\<close>


definition one_mutex :: pth_state where
  "one_mutex = state0\<lparr>pth_current := 1, tcbs := [1 \<mapsto> tcb0],
     rings := [MutexRing 1 \<mapsto> \<lparr>r_hook = NULL, r_nodes = 0\<rparr>], nodes := [5 \<mapsto> \<lparr>rn_next = NULL, rn_prev = NULL\<rparr>],
     mutexes := [5 \<mapsto> \<lparr>mx_state = PTH_MUTEX_INITIALIZED, mx_owner = NULL, mx_count = 0\<rparr>]\<rparr>"

lemma one_mutex_ok: "mutexes_ok one_mutex (\<lambda>_. [])"
  by (auto simp: mutexes_ok_def one_mutex_def ring_rep_def locked_def flag_def PTH_MUTEX_INITIALIZED_def
      PTH_MUTEX_LOCKED_def fun_upd_apply split: if_splits)




text \<open>What appending to a ring leaves alone, whatever the state of the ring.\<close>

lemma rn_set_keeps: "rn_set f p s = Some s' \<Longrightarrow> \<exists>h. s' = s\<lparr>nodes := h\<rparr>"
  by (auto simp: rn_set_def)

lemma r_set_keeps: "r_set f p s = Some s' \<Longrightarrow> \<exists>h. s' = s\<lparr>rings := h\<rparr>"
  by (auto simp: r_set_def)

lemma ring_link_keeps: "ring_link a b s = Some s' \<Longrightarrow> \<exists>h. s' = s\<lparr>nodes := h\<rparr>"
  unfolding ring_link_def by (auto dest!: rn_set_keeps split: Option.bind_splits)

text \<open>The part of the state no ring operation writes.\<close>

definition ringless :: "pth_state \<Rightarrow> pth_state" where
  "ringless s = s\<lparr>rings := Map.empty, nodes := Map.empty\<rparr>"

lemma ringless_steps:
  "ring_link a b s = Some s' \<Longrightarrow> ringless s' = ringless s"
  "rn_set f p s = Some s' \<Longrightarrow> ringless s' = ringless s"
  "r_set g r s = Some s' \<Longrightarrow> ringless s' = ringless s"
  by (auto simp: ringless_def dest!: ring_link_keeps rn_set_keeps r_set_keeps)

lemma ringless_eqD:
  assumes "ringless s' = ringless s"
  shows "mutexes s' = mutexes s" "pth_current s' = pth_current s" "rwlocks s' = rwlocks s"
    "conds s' = conds s" "barriers s' = barriers s" "tcbs s' = tcbs s" "errno s' = errno s" "evs s' = evs s"
  using assms [THEN arg_cong [where f = mutexes]] assms [THEN arg_cong [where f = pth_current]]
    assms [THEN arg_cong [where f = rwlocks]] assms [THEN arg_cong [where f = conds]]
    assms [THEN arg_cong [where f = barriers]] assms [THEN arg_cong [where f = tcbs]]
    assms [THEN arg_cong [where f = errno]] assms [THEN arg_cong [where f = evs]]
  by (simp_all add: ringless_def)

lemma ring_append_keeps: "pth_ring_append r m (s :: pth_state) = Some s' \<Longrightarrow> ringless s' = ringless s"
  unfolding pth_ring_append_def by (auto dest!: ringless_steps split: if_splits Option.bind_splits)

lemma ring_delete_keeps: "pth_ring_delete r m (s :: pth_state) = Some s' \<Longrightarrow> ringless s' = ringless s"
  unfolding pth_ring_delete_def by (auto dest!: ringless_steps split: if_splits Option.bind_splits)

definition held_by_current :: "ptr \<Rightarrow> pth_state \<Rightarrow> bool" where
  "held_by_current m s \<longleftrightarrow> (\<exists>c. mutexes s m = Some c \<and> locked c \<and> mx_owner c = pth_current s)"

lemma mutex_lock_holds:
  assumes "mutex_lock m s = Some s'"
  shows "held_by_current m s'"
proof -
  obtain c where c: "mutexes s m = Some c"
    using assms by (auto simp: mutex_lock_def mx_set_def setf_def split: if_splits)
  let ?s = "s\<lparr>mutexes := (mutexes s)(m \<mapsto> c\<lparr>mx_state := mx_state c OR PTH_MUTEX_LOCKED, mx_owner := pth_current s, mx_count := 1\<rparr>)\<rparr>"
  have "pth_ring_append (MutexRing (pth_current s)) m ?s = Some s'"
    using assms c by (simp add: mutex_lock_def cells)
  note ringless_eqD [OF ring_append_keeps [OF this]]
  then show ?thesis
    by (simp add: held_by_current_def)
qed

lemma mutex_wait_holds:
  assumes "mutex_wait_loop E m ev s = Some (c, s')"
  shows "c = Ret True \<longrightarrow> held_by_current m s'"
proof -
  have "case r of (c, s') \<Rightarrow> c = Ret True \<longrightarrow> held_by_current m s'" if "mutex_wait_loop E m ev s = Some r" for r
    using that
  proof (rule mutex_wait_loop.raw_induct [where P = "\<lambda>E m ev s r. case r of (c, s') \<Rightarrow> c = Ret True \<longrightarrow> held_by_current m s'", rotated])
    fix loop :: "env \<Rightarrow> ptr \<Rightarrow> ptr \<Rightarrow> pth_state \<Rightarrow> (bool ctl \<times> pth_state) option" and E mutex ev_extra s r
    assume IH: "\<And>E mutex ev_extra s r. loop E mutex ev_extra s = Some r \<Longrightarrow>
        case r of (c, s') \<Rightarrow> c = Ret True \<longrightarrow> held_by_current mutex s'"
      and body: "Option.bind (static_event E PTH_EVENT_MUTEX ''pth_mutex_acquire'' (EvMUTEX mutex) s) (\<lambda>(ev, s).
     Option.bind (if ev_extra \<noteq> NULL then map_option snd (pth_event_concat ev [ev_extra] s) else Some s) (\<lambda>s.
     Option.bind (pth_wait (sw E) ev s) (\<lambda>(c, s).
       case c of
         Exit v \<Rightarrow> Some (Exit v, s)
       | Ret _ \<Rightarrow>
           Option.bind (if ev_extra \<noteq> NULL then
               Option.bind (pth_event_isolate ev s) (\<lambda>(_, s).
               Option.bind (pth_event_status ev s) (\<lambda>(st, s). Some (st = PTH_STATUS_PENDING, s)))
             else Some (False, s)) (\<lambda>(intr, s).
           if intr then Some (pth_error (Ret False) EINTR s)
           else Option.bind (mx_get mx_state mutex s) (\<lambda>st.
             if \<not> flag st PTH_MUTEX_LOCKED then
               Option.bind (mutex_lock mutex s) (\<lambda>s. Some (Ret True, s))
             else loop E mutex ev_extra s))))) = Some r"
    show "case r of (c, s') \<Rightarrow> c = Ret True \<longrightarrow> held_by_current mutex s'"
      using body IH mutex_lock_holds
      by (auto split: Option.bind_splits ctl.splits if_splits prod.splits simp: pth_error_def)
  qed
  with assms show ?thesis by fastforce
qed

section \<open>Further properties of mutexes\<close>



text \<open>
  C13: \<^verbatim>\<open>pth_mutex_releaseall\<close> does not release all mutexes of a terminating thread: with two or more
  mutexes held once each it releases the first one only, because that release moves the ring's
  hook and the walk to the next ring node then stops; the others stay locked by the thread.
\<close>

theorem pth_mutex_releaseall_stops:
  assumes ok: "mutexes_ok s M" and t: "pth_current s \<in> dom (tcbs s)" "pth_current s \<noteq> NULL"
    and M: "M (pth_current s) = m1 # m2 # ms" and m1: "mutexes s m1 = Some c"
    and l: "flag (mx_state c) PTH_MUTEX_INITIALIZED" "mx_count c = 1"
  shows "\<exists>s'. pth_mutex_releaseall (pth_current s) s = Some s' \<and>
    mutexes_ok s' (M(pth_current s := m2 # ms)) \<and> mutexes s' = (mutexes s)(m1 \<mapsto> unlocked c) \<and>
    (\<forall>m \<in> set (m2 # ms). \<exists>d. mutexes s' m = Some d \<and> locked d \<and> mx_owner d = pth_current s)"
proof -
  let ?t = "pth_current s" and ?r = "MutexRing (pth_current s)"
  have rep: "ring_rep s ?r (m1 # m2 # ms)"
    using mutexes_ok_ring [OF ok t(1)] M by simp
  then have dist: "m1 \<noteq> NULL" "m2 \<noteq> m1" "m1 \<notin> set ms" "m2 \<noteq> NULL"
    using ring_rep_distinct [OF rep] by (auto simp: ring_rep_def)
  have own: "locked c" "mx_owner c = ?t"
    using mutexes_ok_mem [OF ok t(1), of m1] M m1 by auto
  obtain s1 where s1: "pth_mutex_release m1 s = Some (True, s1)"
    "mutexes_ok s1 (M(?t := removeAll m1 (M ?t)))" "mutexes s1 = (mutexes s)(m1 \<mapsto> unlocked c)"
    "tcbs s1 = tcbs s" "pth_current s1 = ?t" "nodes s1 m1 = nodes s m1"
    using release_last_ok [OF ok t(1) m1 l(1) own l(2)] by blast
  have rest: "removeAll m1 (M ?t) = m2 # ms"
    using M dist by simp
  have rep1: "ring_rep s1 ?r (m2 # ms)"
    using mutexes_ok_ring [OF s1(2), of ?t] t(1) s1(4) rest by simp
  have "fld (nodes s) rn_next m1 = Some m2"
    using rep dring_head [of "fld (nodes s) rn_next" "fld (nodes s) rn_prev" m1 "m2 # ms"] by (simp add: ring_rep_def)
  then have "pth_ring_next ?r m1 s1 = Some NULL"
    using s1(6) ring_rep_hook [OF rep1] dist by (auto simp: pth_ring_next_def ring_access fld_def)
  then have "releaseall_loop ?t m1 m1 s = Some s1"
    using s1(1) dist(1)
    by (subst releaseall_loop.simps, simp, subst releaseall_loop.simps, simp)
  then have "pth_mutex_releaseall ?t s = Some s1"
    using t(2) pth_ring_first_spec [OF rep] by (simp add: pth_mutex_releaseall_def)
  moreover have "\<exists>d. mutexes s1 m = Some d \<and> locked d \<and> mx_owner d = ?t" if "m \<in> set (m2 # ms)" for m
    using mutexes_ok_mem [OF s1(2), of ?t m] t(1) s1(4) rest that by simp
  ultimately show ?thesis
    using s1(2,3) rest by auto
qed

definition two_mutexes :: pth_state where
  "two_mutexes = state0\<lparr>pth_current := 1, tcbs := [1 \<mapsto> tcb0, 2 \<mapsto> tcb0],
     rings := [MutexRing 1 \<mapsto> \<lparr>r_hook = 5, r_nodes = 2\<rparr>, MutexRing 2 \<mapsto> \<lparr>r_hook = NULL, r_nodes = 0\<rparr>],
     nodes := [5 \<mapsto> \<lparr>rn_next = 6, rn_prev = 6\<rparr>, 6 \<mapsto> \<lparr>rn_next = 5, rn_prev = 5\<rparr>],
     mutexes := [5 \<mapsto> \<lparr>mx_state = 3, mx_owner = 1, mx_count = 1\<rparr>, 6 \<mapsto> \<lparr>mx_state = 3, mx_owner = 1, mx_count = 1\<rparr>]\<rparr>"

lemma two_mutexes_ok: "mutexes_ok two_mutexes ((\<lambda>_. [])(1 := [5, 6]))"
  by (auto simp: mutexes_ok_def two_mutexes_def ring_rep_def dring_def locked_def flag_def
      PTH_MUTEX_LOCKED_def fld_def fun_upd_apply split: if_splits)

theorem pth_mutex_releaseall_stops_witness:
  "\<exists>s' d. pth_mutex_releaseall 1 two_mutexes = Some s' \<and> mutexes s' 6 = Some d \<and> locked d"
proof -
  have h: "pth_current two_mutexes = 1" "1 \<in> dom (tcbs two_mutexes)"
    "mutexes two_mutexes 5 = Some \<lparr>mx_state = 3, mx_owner = 1, mx_count = 1\<rparr>"
    by (simp_all add: two_mutexes_def)
  show ?thesis
    using pth_mutex_releaseall_stops [OF two_mutexes_ok, of 5 6 "[]" "\<lparr>mx_state = 3, mx_owner = 1, mx_count = 1\<rparr>"] h
    by (auto simp: flag_def PTH_MUTEX_INITIALIZED_def)
qed

lemma releaseall_foreign_loop:
  assumes ok: "mutexes_ok s M" and t: "t \<in> dom (tcbs s)" "t \<noteq> pth_current s"
    and M: "M t = us @ m # ws" and i: "\<forall>m \<in> set (M t). \<forall>c. mutexes s m = Some c \<longrightarrow> flag (mx_state c) PTH_MUTEX_INITIALIZED"
  shows "releaseall_loop t (hd (M t)) m s = Some (s\<lparr>errno := EACCES\<rparr>)"
  using ok t M i
proof (induction ws arbitrary: us m s)
  case (Cons m' ws)
  let ?s = "s\<lparr>errno := EACCES\<rparr>"
  have mem: "m \<in> set (M t)" "m \<noteq> NULL"
    using Cons.prems(4) ring_rep_nodes [OF mutexes_ok_ring [OF Cons.prems(1,2)], of m] by auto
  then obtain c where c: "mutexes s m = Some c" "locked c" "mx_owner c = t"
    using mutexes_ok_mem [OF Cons.prems(1,2), of m] by auto
  have rel: "pth_mutex_release m s = Some (False, ?s)"
    using c Cons.prems(3,5) mem by (simp add: pth_mutex_release_def cells pth_error_def locked_def)
  have rep: "ring_rep ?s (MutexRing t) (us @ m # m' # ws)"
    using mutexes_ok_ring [OF Cons.prems(1,2)] Cons.prems(4) by (simp add: ring_rep_def)
  have nx: "pth_ring_next (MutexRing t) m ?s = Some m'"
    using pth_ring_next_spec [OF rep] by simp
  have "m' \<noteq> hd (M t)"
    using ring_rep_distinct [OF rep] Cons.prems(4) by (cases us) auto
  then have "releaseall_loop t (hd (M t)) m s = releaseall_loop t (hd (M t)) m' ?s"
    using rel nx mem by (subst releaseall_loop.simps) simp
  also have "\<dots> = Some (?s\<lparr>errno := EACCES\<rparr>)"
    using Cons.prems by (intro Cons.IH [of _ "us @ [m]"]) auto
  finally show ?case by simp
next
  case Nil
  let ?s = "s\<lparr>errno := EACCES\<rparr>"
  have mem: "m \<in> set (M t)" "m \<noteq> NULL"
    using Nil.prems(4) ring_rep_nodes [OF mutexes_ok_ring [OF Nil.prems(1,2)], of m] by auto
  then obtain c where c: "mutexes s m = Some c" "locked c" "mx_owner c = t"
    using mutexes_ok_mem [OF Nil.prems(1,2), of m] by auto
  have rel: "pth_mutex_release m s = Some (False, ?s)"
    using c Nil.prems(3,5) mem by (simp add: pth_mutex_release_def cells pth_error_def locked_def)
  have rep: "ring_rep ?s (MutexRing t) (us @ m # [])"
    using mutexes_ok_ring [OF Nil.prems(1,2)] Nil.prems(4) by (simp add: ring_rep_def)
  have nx: "pth_ring_next (MutexRing t) m ?s = Some NULL"
    using pth_ring_next_spec [OF rep] by simp
  show ?case
    using rel nx mem by (subst releaseall_loop.simps, simp, subst releaseall_loop.simps, simp)
qed

text \<open>
  Called for another thread than the running one, as an asynchronous \<^verbatim>\<open>pth_cancel\<close> does,
  \<^verbatim>\<open>pth_mutex_releaseall\<close> walks over all its mutexes, fails on each with \<^verbatim>\<open>EACCES\<close> and releases none.
\<close>

theorem pth_mutex_releaseall_foreign:
  assumes ok: "mutexes_ok s M" and t: "t \<in> dom (tcbs s)" "t \<noteq> pth_current s" "t \<noteq> NULL" "M t \<noteq> []"
    and i: "\<forall>m \<in> set (M t). \<forall>c. mutexes s m = Some c \<longrightarrow> flag (mx_state c) PTH_MUTEX_INITIALIZED"
  shows "pth_mutex_releaseall t s = Some (s\<lparr>errno := EACCES\<rparr>)"
proof -
  obtain m ws where M: "M t = [] @ m # ws"
    using t(4) by (cases "M t") auto
  have "releaseall_loop t (hd (M t)) m s = Some (s\<lparr>errno := EACCES\<rparr>)"
    by (rule releaseall_foreign_loop [OF ok t(1,2) M i])
  then show ?thesis
    using t(3) M pth_ring_first_spec [OF mutexes_ok_ring [OF ok t(1)]]
    by (simp add: pth_mutex_releaseall_def)
qed

theorem pth_mutex_releaseall_foreign_witness:
  "pth_mutex_releaseall 1 (two_mutexes\<lparr>pth_current := 2\<rparr>) = Some (two_mutexes\<lparr>pth_current := 2, errno := EACCES\<rparr>)"
proof -
  have "mutexes_ok (two_mutexes\<lparr>pth_current := 2\<rparr>) ((\<lambda>_. [])(1 := [5, 6]))"
    using two_mutexes_ok by simp
  moreover have "\<forall>m \<in> {5, 6}. \<forall>c. mutexes two_mutexes m = Some c \<longrightarrow> flag (mx_state c) PTH_MUTEX_INITIALIZED"
    by (simp add: two_mutexes_def flag_def PTH_MUTEX_INITIALIZED_def)
  moreover have "1 \<in> dom (tcbs two_mutexes)"
    by (simp add: two_mutexes_def)
  ultimately show ?thesis
    using pth_mutex_releaseall_foreign [of "two_mutexes\<lparr>pth_current := 2\<rparr>" "(\<lambda>_. [])(1 := [5, 6])" 1] by simp
qed

end
