(* ===== verification/Pth_Locks.thy ===== *)
theory Pth_Locks
  imports Pth_Sync
begin

text \<open>
  Properties of the read-write locks, condition variables and barriers of \<^verbatim>\<open>pth_sync.c\<close>, which are
  built from mutexes: their proofs rest on what \<open>Pth_Sync\<close> shows of locking and unlocking.
\<close>

section \<open>Uncontended acquisition\<close>

lemma pth_mutex_acquire_free:
  assumes ok: "mutexes_ok s M" and t: "pth_current s \<in> dom (tcbs s)" and m: "mutexes s m = Some c"
    and i: "flag (mx_state c) PTH_MUTEX_INITIALIZED" "\<not> locked c"
  defines "c' \<equiv> c\<lparr>mx_state := mx_state c OR PTH_MUTEX_LOCKED, mx_owner := pth_current s, mx_count := 1\<rparr>"
  shows "\<exists>s'. pth_mutex_acquire E m tryonly ev s = Some (Ret True, s') \<and>
    mutexes_ok s' (M(pth_current s := M (pth_current s) @ [m])) \<and> mutexes s' = (mutexes s)(m \<mapsto> c') \<and>
    rwlocks s' = rwlocks s \<and> tcbs s' = tcbs s \<and> pth_current s' = pth_current s \<and> errno s' = errno s"
proof -
  let ?t = "pth_current s" and ?s = "s\<lparr>mutexes := (mutexes s)(m \<mapsto> c')\<rparr>"
  obtain s' where s': "mutex_lock m s = Some s'" "mutexes_ok s' (M(?t := M ?t @ [m]))"
    "mutexes s' = (mutexes s)(m \<mapsto> c')" "tcbs s' = tcbs s" "pth_current s' = ?t" "errno s' = errno s"
    using mutex_lock_ok [OF ok t m i(2)] unfolding c'_def by blast
  have nn: "m \<noteq> NULL"
    using mutexes_ok_node [OF ok m] by simp
  have "pth_ring_append (MutexRing ?t) m ?s = Some s'"
    using s'(1) m by (simp add: mutex_lock_def cells c'_def)
  then have "rwlocks s' = rwlocks s"
    using ringless_eqD [OF ring_append_keeps] by simp
  with s' nn m i show ?thesis
    by (auto simp: pth_mutex_acquire_def cells locked_def)
qed

lemma initialized_bits [simp]:
  "flag (st OR PTH_MUTEX_LOCKED) PTH_MUTEX_INITIALIZED = flag st PTH_MUTEX_INITIALIZED"
  by (simp add: flag_or) (simp add: flag_def PTH_MUTEX_LOCKED_def PTH_MUTEX_INITIALIZED_def)

lemma pth_mutex_release_owned:
  assumes ok: "mutexes_ok s M" and t: "pth_current s \<in> dom (tcbs s)" and m: "mutexes s m = Some c"
    and i: "flag (mx_state c) PTH_MUTEX_INITIALIZED" "locked c" "mx_owner c = pth_current s" "mx_count c = 1"
  shows "\<exists>s'. pth_mutex_release m s = Some (True, s') \<and>
    mutexes_ok s' (M(pth_current s := removeAll m (M (pth_current s)))) \<and>
    mutexes s' = (mutexes s)(m \<mapsto> unlocked c) \<and> rwlocks s' = rwlocks s \<and> tcbs s' = tcbs s \<and>
    pth_current s' = pth_current s \<and> errno s' = errno s"
proof -
  obtain s' where s': "pth_mutex_release m s = Some (True, s')"
    "mutexes_ok s' (M(pth_current s := removeAll m (M (pth_current s))))"
    "mutexes s' = (mutexes s)(m \<mapsto> unlocked c)" "tcbs s' = tcbs s" "pth_current s' = pth_current s" "errno s' = errno s"
    using release_last_ok [OF ok t m i] by blast
  have "pth_ring_delete (MutexRing (pth_current s)) m (s\<lparr>mutexes := (mutexes s)(m \<mapsto> unlocked c)\<rparr>) = Some s'"
    using s'(1) m i mutexes_ok_node [OF ok m]
    by (simp add: pth_mutex_release_def cells locked_def [symmetric] unlocked_def split: Option.bind_splits)
  then have "rwlocks s' = rwlocks s"
    using ringless_eqD [OF ring_delete_keeps] by simp
  with s' show ?thesis by blast
qed

section \<open>Read-write locks\<close>

text \<open>
  A read acquisition of an initialized read-write lock whose guard is free succeeds without
  waiting if there are readers already or nobody holds the lock: the number of readers grows by
  one, the first reader becomes the owner of the exclusive mutex, further readers leave it as it
  is, and the guard is free again.
\<close>

theorem pth_rwlock_acquire_reader:
  assumes ok: "mutexes_ok s M" and t: "pth_current s \<in> dom (tcbs s)"
    and r: "rwlock \<noteq> NULL" "rwlocks s rwlock = Some r" "flag (rw_state r) PTH_RWLOCK_INITIALIZED"
    and rd: "mutexes s (rw_mutex_rd r) = Some d" "flag (mx_state d) PTH_MUTEX_INITIALIZED" "\<not> locked d"
    and rw: "mutexes s (rw_mutex_rw r) = Some w" "flag (mx_state w) PTH_MUTEX_INITIALIZED"
    and ne: "rw_mutex_rd r \<noteq> rw_mutex_rw r" and free: "rw_readers r = 0 \<longrightarrow> \<not> locked w"
  shows "\<exists>s' M' d' w'. pth_rwlock_acquire E rwlock PTH_RWLOCK_RD tryonly ev s = Some (Ret True, s') \<and>
    mutexes_ok s' M' \<and> rwlocks s' rwlock = Some (r\<lparr>rw_readers := rw_readers r + 1, rw_mode := PTH_RWLOCK_RD\<rparr>) \<and>
    mutexes s' (rw_mutex_rd r) = Some d' \<and> \<not> locked d' \<and>
    mutexes s' (rw_mutex_rw r) = Some w' \<and>
    (if rw_readers r = 0 then locked w' \<and> mx_owner w' = pth_current s \<and> mx_count w' = 1 else w' = w)"
proof -
  let ?t = "pth_current s" and ?rd = "rw_mutex_rd r" and ?rw = "rw_mutex_rw r"
  let ?d = "d\<lparr>mx_state := mx_state d OR PTH_MUTEX_LOCKED, mx_owner := ?t, mx_count := 1\<rparr>"
  let ?w = "w\<lparr>mx_state := mx_state w OR PTH_MUTEX_LOCKED, mx_owner := ?t, mx_count := 1\<rparr>"
  let ?r1 = "r\<lparr>rw_readers := rw_readers r + 1\<rparr>"
  obtain s1 M1 where s1: "pth_mutex_acquire E ?rd tryonly ev s = Some (Ret True, s1)" "mutexes_ok s1 M1"
    "mutexes s1 = (mutexes s)(?rd \<mapsto> ?d)" "rwlocks s1 = rwlocks s" "tcbs s1 = tcbs s" "pth_current s1 = ?t"
    using pth_mutex_acquire_free [OF ok t rd] by metis
  let ?s1 = "s1\<lparr>rwlocks := (rwlocks s)(rwlock \<mapsto> ?r1)\<rparr>"
  have ok1: "mutexes_ok ?s1 M1"
    using s1(2) by simp
  obtain s2 M2 w' where s2: "(if rw_readers r = 0 then pth_mutex_acquire E ?rw tryonly ev ?s1 else Some (Ret True, ?s1)) = Some (Ret True, s2)"
    "mutexes_ok s2 M2" "mutexes s2 ?rd = Some ?d" "mutexes s2 ?rw = Some w'" "rwlocks s2 = rwlocks ?s1"
    "tcbs s2 = tcbs s" "pth_current s2 = ?t"
    "if rw_readers r = 0 then locked w' \<and> mx_owner w' = ?t \<and> mx_count w' = 1 else w' = w"
  proof (cases "rw_readers r = 0")
    case True
    have "pth_current ?s1 \<in> dom (tcbs ?s1)" "mutexes ?s1 ?rw = Some w"
      using t s1(3,5,6) ne rw(1) by (simp_all add: fun_upd_other [OF ne [symmetric]])
    from pth_mutex_acquire_free [OF ok1 this rw(2), of E tryonly ev] True free obtain s2 where
      "pth_mutex_acquire E ?rw tryonly ev ?s1 = Some (Ret True, s2)" "\<exists>M2. mutexes_ok s2 M2"
      "mutexes s2 = (mutexes s1)(?rw \<mapsto> ?w)" "rwlocks s2 = rwlocks ?s1" "tcbs s2 = tcbs s" "pth_current s2 = ?t"
      using s1(5,6) by auto
    then show ?thesis
      using that True s1(3) ne by auto
  next
    case False
    then show ?thesis
      using that [of ?s1 M1 w] ok1 s1 rw(1) ne by simp
  qed
  let ?s2 = "s2\<lparr>rwlocks := (rwlocks s)(rwlock \<mapsto> ?r1\<lparr>rw_mode := PTH_RWLOCK_RD\<rparr>)\<rparr>"
  have "mutexes_ok ?s2 M2" "pth_current ?s2 \<in> dom (tcbs ?s2)" "mutexes ?s2 ?rd = Some ?d"
    using s2 t by simp_all
  from pth_mutex_release_owned [OF this] rd(2) s2(7) obtain s3 M3 where s3:
    "pth_mutex_release ?rd ?s2 = Some (True, s3)" "mutexes_ok s3 M3"
    "mutexes s3 = (mutexes s2)(?rd \<mapsto> unlocked ?d)" "rwlocks s3 = rwlocks ?s2"
    by auto
  have "rw_readers r + 1 = 1 \<longleftrightarrow> rw_readers r = 0"
    by auto
  then have "pth_rwlock_acquire E rwlock PTH_RWLOCK_RD tryonly ev s = Some (Ret True, s3)"
    using r s1(1,4) s2(1,5) s3(1) by (simp add: pth_rwlock_acquire_def cells)
  moreover have "\<not> locked (unlocked ?d)"
    by (simp add: unlocked_def)
  ultimately show ?thesis
    using s3 s2(4,5,8) ne by auto
qed

text \<open>
  C25: a reader that is not the one that locked the exclusive mutex cannot end the last read
  phase: its \<^verbatim>\<open>pth_rwlock_release\<close> fails with \<^verbatim>\<open>EACCES\<close>, the reader count stays at one and the
  exclusive mutex stays locked by the reader that came first.
\<close>

theorem pth_rwlock_release_last_reader:
  assumes ok: "mutexes_ok s M" and t: "pth_current s \<in> dom (tcbs s)"
    and r: "rwlock \<noteq> NULL" "rwlocks s rwlock = Some r" "flag (rw_state r) PTH_RWLOCK_INITIALIZED"
      "rw_mode r = PTH_RWLOCK_RD" "rw_readers r = 1"
    and rd: "mutexes s (rw_mutex_rd r) = Some d" "flag (mx_state d) PTH_MUTEX_INITIALIZED" "\<not> locked d"
    and rw: "mutexes s (rw_mutex_rw r) = Some w" "flag (mx_state w) PTH_MUTEX_INITIALIZED"
      "locked w" "mx_owner w \<noteq> pth_current s"
  shows "\<exists>s'. pth_rwlock_release E rwlock s = Some (Ret False, s') \<and> errno s' = EACCES \<and>
    rwlocks s' rwlock = Some r \<and> mutexes s' (rw_mutex_rw r) = Some w"
proof -
  let ?t = "pth_current s" and ?rd = "rw_mutex_rd r" and ?rw = "rw_mutex_rw r"
  let ?d = "d\<lparr>mx_state := mx_state d OR PTH_MUTEX_LOCKED, mx_owner := ?t, mx_count := 1\<rparr>"
  have ne: "?rw \<noteq> ?rd" "?rw \<noteq> NULL"
    using rd rw mutexes_ok_node [OF ok rw(1)] by auto
  obtain s1 M1 where s1: "pth_mutex_acquire E ?rd False NULL s = Some (Ret True, s1)" "mutexes_ok s1 M1"
    "mutexes s1 = (mutexes s)(?rd \<mapsto> ?d)" "rwlocks s1 = rwlocks s" "tcbs s1 = tcbs s" "pth_current s1 = ?t"
    using pth_mutex_acquire_free [OF ok t rd] by metis
  let ?s2 = "s1\<lparr>errno := EACCES, rwlocks := (rwlocks s)(rwlock \<mapsto> r)\<rparr>"
  have "pth_mutex_release ?rw (s1\<lparr>rwlocks := h\<rparr>) = Some (False, s1\<lparr>errno := EACCES, rwlocks := h\<rparr>)" for h
    using s1(3,6) rw ne by (simp add: pth_mutex_release_def cells locked_def pth_error_def)
  moreover have "mutexes_ok ?s2 M1" "pth_current ?s2 \<in> dom (tcbs ?s2)" "mutexes ?s2 ?rd = Some ?d"
    using s1 t by simp_all
  from pth_mutex_release_owned [OF this] rd(2) s1(6) obtain s3 M3 where s3:
    "pth_mutex_release ?rd ?s2 = Some (True, s3)" "mutexes_ok s3 M3"
    "mutexes s3 = (mutexes s1)(?rd \<mapsto> unlocked ?d)" "rwlocks s3 = rwlocks ?s2"
    by auto
  have same: "r\<lparr>rw_readers := 1\<rparr> = r"
    using r(5) by simp
  from calculation s3 have "pth_rwlock_release E rwlock s = Some (Ret False, s3\<lparr>errno := EACCES\<rparr>)"
    using r s1(1,4) by (simp add: pth_rwlock_release_def cells shielded_release_def Let_def same)
  then show ?thesis
    using s3 s1(3) rw(1) ne by auto
qed


text \<open>Two threads and a read-write lock: thread \<open>3\<close> runs, \<open>rw_mutex_rw\<close> is owned by \<open>own\<close>.\<close>

definition rw_state_of :: "64 word \<Rightarrow> ptr \<Rightarrow> pth_state" where
  "rw_state_of n own = state0\<lparr>pth_current := 3, tcbs := [3 \<mapsto> tcb0, 4 \<mapsto> tcb0],
     rings := [MutexRing 3 \<mapsto> \<lparr>r_hook = NULL, r_nodes = 0\<rparr>,
               MutexRing 4 \<mapsto> if own = 4 then \<lparr>r_hook = 6, r_nodes = 1\<rparr> else \<lparr>r_hook = NULL, r_nodes = 0\<rparr>],
     nodes := [5 \<mapsto> \<lparr>rn_next = NULL, rn_prev = NULL\<rparr>, 6 \<mapsto> \<lparr>rn_next = 6, rn_prev = 6\<rparr>],
     mutexes := [5 \<mapsto> \<lparr>mx_state = 1, mx_owner = NULL, mx_count = 0\<rparr>,
                 6 \<mapsto> if own = 4 then \<lparr>mx_state = 3, mx_owner = 4, mx_count = 1\<rparr>
                     else \<lparr>mx_state = 1, mx_owner = NULL, mx_count = 0\<rparr>],
     rwlocks := [9 \<mapsto> \<lparr>rw_state = 1, rw_mode = PTH_RWLOCK_RD, rw_readers = n, rw_mutex_rd = 5, rw_mutex_rw = 6\<rparr>]\<rparr>"

lemma rw_state_of_ok: "mutexes_ok (rw_state_of n own) ((\<lambda>_. [])(4 := if own = 4 then [6] else []))"
  by (auto simp: mutexes_ok_def rw_state_of_def ring_rep_def dring_def locked_def flag_def
      PTH_MUTEX_LOCKED_def fld_def fun_upd_apply split: if_splits)

lemma rw_state_of_simps:
  "pth_current (rw_state_of n own) = 3" "3 \<in> dom (tcbs (rw_state_of n own))"
  "rwlocks (rw_state_of n own) 9 = Some \<lparr>rw_state = 1, rw_mode = PTH_RWLOCK_RD, rw_readers = n, rw_mutex_rd = 5, rw_mutex_rw = 6\<rparr>"
  "mutexes (rw_state_of n own) 5 = Some \<lparr>mx_state = 1, mx_owner = NULL, mx_count = 0\<rparr>"
  "mutexes (rw_state_of n own) 6 = Some (if own = 4 then \<lparr>mx_state = 3, mx_owner = 4, mx_count = 1\<rparr>
     else \<lparr>mx_state = 1, mx_owner = NULL, mx_count = 0\<rparr>)"
  by (simp_all add: rw_state_of_def)

lemma word_flags:
  "flag 1 PTH_MUTEX_INITIALIZED" "flag 3 PTH_MUTEX_INITIALIZED" "flag 1 PTH_RWLOCK_INITIALIZED"
  "\<not> flag 1 PTH_MUTEX_LOCKED" "flag 3 PTH_MUTEX_LOCKED"
  by (simp_all add: flag_def PTH_MUTEX_INITIALIZED_def PTH_MUTEX_LOCKED_def PTH_RWLOCK_INITIALIZED_def)

theorem pth_rwlock_acquire_reader_witness:
  "\<exists>s' w'. pth_rwlock_acquire env0 9 PTH_RWLOCK_RD True NULL (rw_state_of 0 0) = Some (Ret True, s') \<and>
    mutexes s' 6 = Some w' \<and> mx_owner w' = 3"
proof -
  let ?r = "\<lparr>rw_state = 1, rw_mode = PTH_RWLOCK_RD, rw_readers = 0 :: 64 word, rw_mutex_rd = 5, rw_mutex_rw = 6\<rparr>"
  let ?c = "\<lparr>mx_state = 1, mx_owner = NULL, mx_count = 0\<rparr>"
  show ?thesis
    using pth_rwlock_acquire_reader [OF rw_state_of_ok, of 0 0 9 ?r ?c ?c env0 True NULL]
    by (auto simp: rw_state_of_simps word_flags locked_def)
qed

theorem pth_rwlock_release_last_reader_witness:
  "\<exists>s'. pth_rwlock_release env0 9 (rw_state_of 1 4) = Some (Ret False, s') \<and> errno s' = EACCES"
proof -
  let ?r = "\<lparr>rw_state = 1, rw_mode = PTH_RWLOCK_RD, rw_readers = 1 :: 64 word, rw_mutex_rd = 5, rw_mutex_rw = 6\<rparr>"
  let ?c = "\<lparr>mx_state = 1, mx_owner = NULL, mx_count = 0\<rparr>" and ?w = "\<lparr>mx_state = 3, mx_owner = 4, mx_count = 1\<rparr>"
  show ?thesis
    using pth_rwlock_release_last_reader [OF rw_state_of_ok, of 1 4 9 ?r ?c ?w env0]
    by (auto simp: rw_state_of_simps word_flags locked_def)
qed

section \<open>Condition variables\<close>

text \<open>
  \<^verbatim>\<open>pth_cond_notify\<close> on an initialized condition variable does nothing when nobody waits; when
  somebody waits it marks the condition signaled and not yet handled, records whether one or all
  waiters are meant, and then yields to the scheduler.
\<close>

theorem pth_cond_notify_effect:
  assumes "cond \<noteq> NULL" "conds s cond = Some c" "flag (cn_state c) PTH_COND_INITIALIZED"
  shows "if cn_waiters c = 0 then pth_cond_notify E cond broadcast s = Some (True, s)
    else (\<exists>st. pth_cond_notify E cond broadcast s =
        map_option (Pair True) (sw E (s\<lparr>conds := (conds s)(cond \<mapsto> c\<lparr>cn_state := st\<rparr>)\<rparr>)) \<and>
      flag st PTH_COND_SIGNALED \<and> (flag st PTH_COND_BROADCAST \<longleftrightarrow> broadcast) \<and>
      \<not> flag st PTH_COND_HANDLED \<and> flag st PTH_COND_INITIALIZED)"
proof (cases "cn_waiters c = 0")
  case True
  with assms show ?thesis by (simp add: pth_cond_notify_def cells)
next
  case False
  let ?b = "if broadcast then cn_state c OR PTH_COND_SIGNALED OR PTH_COND_BROADCAST
    else (cn_state c OR PTH_COND_SIGNALED) AND NOT PTH_COND_BROADCAST"
  let ?st = "?b AND NOT PTH_COND_HANDLED"
  have "0 < cn_waiters c"
    using False by (simp add: word_neq_0_conv)
  then have "pth_cond_notify E cond broadcast s =
      map_option (Pair True) (sw E (s\<lparr>conds := (conds s)(cond \<mapsto> c\<lparr>cn_state := ?st\<rparr>)\<rparr>))"
    using assms by (cases "sw E (s\<lparr>conds := (conds s)(cond \<mapsto> c\<lparr>cn_state := ?st\<rparr>)\<rparr>)"; cases broadcast)
      (auto simp: pth_cond_notify_def cells pth_yield_def or.assoc)
  moreover have "flag ?st PTH_COND_SIGNALED" "flag ?st PTH_COND_BROADCAST \<longleftrightarrow> broadcast"
    "\<not> flag ?st PTH_COND_HANDLED" "flag ?st PTH_COND_INITIALIZED"
    using assms(3)
    by (auto simp: flag_def PTH_COND_SIGNALED_def PTH_COND_BROADCAST_def PTH_COND_HANDLED_def
        PTH_COND_INITIALIZED_def bit.conj_disj_distrib bit.conj_disj_distrib2 and.assoc or_eq_0_iff)
  ultimately show ?thesis
    using False by auto
qed

theorem pth_cond_notify_effect_witness:
  "\<exists>st. pth_cond_notify env0 7 True (state0\<lparr>conds := [7 \<mapsto> \<lparr>cn_state = 1, cn_waiters = 2\<rparr>]\<rparr>) =
      Some (True, state0\<lparr>conds := [7 \<mapsto> \<lparr>cn_state = st, cn_waiters = 2\<rparr>]\<rparr>) \<and> flag st PTH_COND_SIGNALED"
  using pth_cond_notify_effect [of 7 "state0\<lparr>conds := [7 \<mapsto> \<lparr>cn_state = 1, cn_waiters = 2\<rparr>]\<rparr>"
      "\<lparr>cn_state = 1, cn_waiters = 2\<rparr>" env0 True]
  by (auto simp: flag_def PTH_COND_INITIALIZED_def env0_def)

section \<open>Barriers\<close>

lemma barrier_wait_values:
  assumes "barrier_wait_loop E b cycle rv s = Some (Ret r, s')"
  shows "r \<in> {rv, 0, 1}"
proof -
  have "case x of (c, s') \<Rightarrow> \<forall>r. c = Ret r \<longrightarrow> r \<in> {rv, 0, 1}" if "barrier_wait_loop E b cycle rv s = Some x" for x
    using that
  proof (rule barrier_wait_loop.raw_induct [where
        P = "\<lambda>E b cycle rv s x. case x of (c, s') \<Rightarrow> \<forall>r. c = Ret r \<longrightarrow> r \<in> {rv, 0, 1}", rotated])
    fix loop :: "env \<Rightarrow> ptr \<Rightarrow> bool \<Rightarrow> int \<Rightarrow> pth_state \<Rightarrow> (int ctl \<times> pth_state) option" and E barrier cycle rv s x
    assume IH: "\<And>E barrier cycle rv s x. loop E barrier cycle rv s = Some x \<Longrightarrow>
        case x of (c, s') \<Rightarrow> \<forall>r. c = Ret r \<longrightarrow> r \<in> {rv, 0, 1}"
      and body: "Option.bind (br_get br_cycle barrier s) (\<lambda>now.
     Option.bind (br_get br_cond barrier s) (\<lambda>cn.
     Option.bind (br_get br_mutex barrier s) (\<lambda>mx.
       if cycle = now then
         Option.bind (pth_cond_await E cn mx NULL s) (\<lambda>(c, s).
           case c of
             Exit v \<Rightarrow> Some (Exit v, s)
           | Ret ok \<Rightarrow> if \<not> ok then Some (Ret 0, s) else loop E barrier cycle 1 s)
       else Some (Ret rv, s)))) = Some x"
    show "case x of (c, s') \<Rightarrow> \<forall>r. c = Ret r \<longrightarrow> r \<in> {rv, 0, 1}"
      using body by (auto split: Option.bind_splits ctl.splits if_splits prod.splits dest!: IH)
  qed
  with assms show ?thesis by fastforce
qed

text \<open>
  \<^verbatim>\<open>pth_barrier_reach\<close> never returns \<^verbatim>\<open>PTH_BARRIER_HEADLIGHT\<close>, the value documented for the first
  thread that reaches the barrier: the result is \<^verbatim>\<open>FALSE\<close>, \<^verbatim>\<open>TRUE\<close> or \<^verbatim>\<open>PTH_BARRIER_TAILLIGHT\<close>, however
  the threads are scheduled.
\<close>

theorem pth_barrier_reach_no_headlight:
  assumes "pth_barrier_reach E barrier s = Some (Ret rv, s')"
  shows "rv \<in> {0, 1, PTH_BARRIER_TAILLIGHT}"
proof -
  have loop: "r \<in> {0, 1}" if "barrier_wait_loop E barrier cycle v s1 = Some (Ret r, s2)"
    "br_get br_cycle barrier s1 = Some cycle" for cycle v s1 s2 r
    using that barrier_wait_values
    by (subst (asm) barrier_wait_loop.simps) (fastforce split: Option.bind_splits ctl.splits if_splits prod.splits)
  have step: "r \<in> {0, 1}" if "br_get br_cycle barrier s1 = Some cycle"
    "br_set (\<lambda>b. b\<lparr>br_count := br_count b - 1\<rparr>) barrier s1 = Some s2"
    "pth_cancel_state PTH_CANCEL_DISABLE NullInt s2 = Some s3"
    "barrier_wait_loop E barrier cycle v s3 = Some (Ret r, s4)" for cycle v s1 s2 s3 s4 r
  proof -
    have "barriers s3 = barriers s2"
      using that(3) by (auto simp: pth_cancel_state_def t_set_def PTH_CANCEL_DISABLE_def)
    moreover have "br_get br_cycle barrier s2 = br_get br_cycle barrier s1"
      using that(2) by (auto simp: br_get_def br_set_def setf_def fld_upd_keep split: if_splits)
    ultimately show ?thesis
      using loop [OF that(4)] that(1) by (simp add: br_get_def)
  qed
  show ?thesis
    using assms unfolding pth_barrier_reach_def
    by (auto simp: pth_error_def dest: step split: if_splits Option.bind_splits ctl.splits prod.splits)
qed

definition barrier_state :: pth_state where
  "barrier_state = one_mutex\<lparr>conds := [7 \<mapsto> \<lparr>cn_state = 1, cn_waiters = 0\<rparr>],
     barriers := [8 \<mapsto> \<lparr>br_state = 1, br_threshold = 1, br_count = 1, br_cycle = False, br_cond = 7, br_mutex = 5\<rparr>]\<rparr>"

theorem pth_barrier_reach_no_headlight_witness:
  "\<exists>rv s'. pth_barrier_reach env0 8 barrier_state = Some (Ret rv, s') \<and> rv \<in> {0, 1, PTH_BARRIER_TAILLIGHT}"
proof -
  have "\<exists>rv s'. pth_barrier_reach env0 8 barrier_state = Some (Ret rv, s')"
    by (simp add: pth_barrier_reach_def barrier_state_def pth_mutex_acquire_def mutex_lock_def one_mutex_def cells flag_def
        PTH_BARRIER_INITIALIZED_def PTH_COND_INITIALIZED_def PTH_MUTEX_INITIALIZED_def PTH_MUTEX_LOCKED_def
        pth_ring_append_def r_get_def rn_get_def rn_set_def r_set_def pth_cond_notify_def pth_mutex_release_def pth_ring_delete_def)
  then show ?thesis
    using pth_barrier_reach_no_headlight by blast
qed

end
