(* ===== verification/Pth_Attr.thy ===== *)
theory Pth_Attr
  imports Pth_Sync
begin

text \<open>
  Thread attributes (\<^verbatim>\<open>pth_attr.c\<close>). An attribute object is either unbound, with values of its own
  for a later \<^verbatim>\<open>pth_spawn\<close>, or bound to a thread, whose control block it then reads and writes. The
  variable argument of \<^verbatim>\<open>pth_attr_ctrl\<close> is a value of type \<open>attr_val\<close>: the new value for a set
  request, and for a get request the result is the value stored through the pointer argument.
\<close>

datatype attr_cmd = PTH_ATTR_GET | PTH_ATTR_SET

datatype attr_op =
    PTH_ATTR_PRIO | PTH_ATTR_NAME | PTH_ATTR_DISPATCHES | PTH_ATTR_JOINABLE | PTH_ATTR_CANCEL_STATE
  | PTH_ATTR_STACK_SIZE | PTH_ATTR_STACK_ADDR
  | PTH_ATTR_TIME_SPAWN | PTH_ATTR_TIME_LAST | PTH_ATTR_TIME_RAN
  | PTH_ATTR_START_FUNC | PTH_ATTR_START_ARG | PTH_ATTR_STATE | PTH_ATTR_EVENTS | PTH_ATTR_BOUND
  | PTH_ATTR_OTHER int

datatype attr_val =
  VInt int | VUint "32 word" | VString string | VPtr ptr | VTime pth_time_t | VState pth_state_t | VNone

text \<open>The C string in a buffer, and writing one into a name field.\<close>

definition cstring :: "string \<Rightarrow> string" where
  "cstring buf = takeWhile (\<lambda>c. c \<noteq> NUL) buf"

definition write_name :: "string \<Rightarrow> string \<Rightarrow> string option" where
  "write_name buf src = map_option snd (pth_util_cpystrn buf (src @ [NUL]) PTH_TCB_NAMELEN)"

definition pth_attr_of :: "ptr \<Rightarrow> ptr \<Rightarrow> pth_state \<Rightarrow> ptr \<times> pth_state" where
  "pth_attr_of mem t s =
     (if t = NULL then pth_error NULL EINVAL s
      else if mem = NULL then pth_error NULL ENOMEM s
      else (mem, s\<lparr>attrs := (attrs s)(mem \<mapsto> \<lparr>a_tid = t, a_prio = 0, a_dispatches = 0,
        a_name = replicate PTH_TCB_NAMELEN NUL, a_joinable = 0, a_cancelstate = 0, a_stacksize = 0, a_stackaddr = NULL\<rparr>)\<rparr>))"

definition pth_attr_init :: "ptr \<Rightarrow> pth_state \<Rightarrow> (bool \<times> pth_state) option" where
  "pth_attr_init a s =
     (if a = NULL then Some (pth_error False EINVAL s)
      else do {
        tid \<leftarrow> at_get a_tid a s;
        if tid \<noteq> NULL then Some (pth_error False EPERM s)
        else do {
          buf \<leftarrow> at_get a_name a s;
          name \<leftarrow> write_name buf ''unknown'';
          s \<leftarrow> at_set (\<lambda>r. r\<lparr>a_prio := PTH_PRIO_STD, a_name := name, a_dispatches := 0, a_joinable := 1,
                 a_cancelstate := PTH_CANCEL_DEFAULT, a_stacksize := 65536, a_stackaddr := NULL\<rparr>) a s;
          Some (True, s) } })"

definition pth_attr_new :: "ptr \<Rightarrow> pth_state \<Rightarrow> (ptr \<times> pth_state) option" where
  "pth_attr_new mem s =
     (if mem = NULL then Some (pth_error NULL ENOMEM s)
      else do {
        let s = s\<lparr>attrs := (attrs s)(mem \<mapsto> \<lparr>a_tid = NULL, a_prio = 0, a_dispatches = 0,
          a_name = replicate PTH_TCB_NAMELEN NUL, a_joinable = 0, a_cancelstate = 0, a_stacksize = 0, a_stackaddr = NULL\<rparr>)\<rparr>;
        (_, s) \<leftarrow> pth_attr_init mem s;
        Some (mem, s) })"

definition pth_attr_destroy :: "ptr \<Rightarrow> pth_state \<Rightarrow> bool \<times> pth_state" where
  "pth_attr_destroy a s =
     (if a = NULL then pth_error False EINVAL s else (True, s\<lparr>attrs := (attrs s)(a := None)\<rparr>))"

text \<open>The attributes with a value in both the attribute object and the control block.\<close>

definition attr_int :: "attr_cmd \<Rightarrow> ptr \<Rightarrow> attr_val \<Rightarrow> (pth_st \<Rightarrow> int) \<Rightarrow> (int \<Rightarrow> pth_st \<Rightarrow> pth_st) \<Rightarrow>
    (pth_attr \<Rightarrow> int) \<Rightarrow> (int \<Rightarrow> pth_attr \<Rightarrow> pth_attr) \<Rightarrow> pth_state \<Rightarrow> ((bool \<times> attr_val) \<times> pth_state) option" where
  "attr_int cmd a v tget tset aget aset s = do {
     tid \<leftarrow> at_get a_tid a s;
     case cmd of
       PTH_ATTR_SET \<Rightarrow> (case v of
         VInt n \<Rightarrow> do {
           s \<leftarrow> (if tid \<noteq> NULL then t_set (tset n) tid s else at_set (aset n) a s);
           Some ((True, VNone), s) }
       | _ \<Rightarrow> None)
     | PTH_ATTR_GET \<Rightarrow> do {
         n \<leftarrow> (if tid \<noteq> NULL then t_get tget tid s else at_get aget a s);
         Some ((True, VInt n), s) } }"

definition attr_ctrl_rw :: "attr_cmd \<Rightarrow> ptr \<Rightarrow> attr_op \<Rightarrow> attr_val \<Rightarrow> pth_state \<Rightarrow> ((bool \<times> attr_val) \<times> pth_state) option" where
  "attr_ctrl_rw cmd a op v s = (case op of
     PTH_ATTR_PRIO \<Rightarrow> attr_int cmd a v t_prio (\<lambda>n c. c\<lparr>t_prio := n\<rparr>) a_prio (\<lambda>n r. r\<lparr>a_prio := n\<rparr>) s
   | PTH_ATTR_DISPATCHES \<Rightarrow>
       attr_int cmd a v t_dispatches (\<lambda>n c. c\<lparr>t_dispatches := n\<rparr>) a_dispatches (\<lambda>n r. r\<lparr>a_dispatches := n\<rparr>) s
   | PTH_ATTR_JOINABLE \<Rightarrow>
       attr_int cmd a v t_joinable (\<lambda>n c. c\<lparr>t_joinable := n\<rparr>) a_joinable (\<lambda>n r. r\<lparr>a_joinable := n\<rparr>) s
   | PTH_ATTR_NAME \<Rightarrow> do {
       tid \<leftarrow> at_get a_tid a s;
       buf \<leftarrow> (if tid \<noteq> NULL then t_get t_name tid s else at_get a_name a s);
       case cmd of
         PTH_ATTR_SET \<Rightarrow> (case v of
           VString src \<Rightarrow> do {
             name \<leftarrow> write_name buf src;
             s \<leftarrow> (if tid \<noteq> NULL then t_set (\<lambda>c. c\<lparr>t_name := name\<rparr>) tid s else at_set (\<lambda>r. r\<lparr>a_name := name\<rparr>) a s);
             Some ((True, VNone), s) }
         | _ \<Rightarrow> None)
       | PTH_ATTR_GET \<Rightarrow> Some ((True, VString (cstring buf)), s) }
   | PTH_ATTR_CANCEL_STATE \<Rightarrow> do {
       tid \<leftarrow> at_get a_tid a s;
       case cmd of
         PTH_ATTR_SET \<Rightarrow> (case v of
           VUint n \<Rightarrow> do {
             s \<leftarrow> (if tid \<noteq> NULL then t_set (\<lambda>c. c\<lparr>t_cancelstate := n\<rparr>) tid s
                   else at_set (\<lambda>r. r\<lparr>a_cancelstate := n\<rparr>) a s);
             Some ((True, VNone), s) }
         | _ \<Rightarrow> None)
       | PTH_ATTR_GET \<Rightarrow> do {
           n \<leftarrow> (if tid \<noteq> NULL then t_get t_cancelstate tid s else at_get a_cancelstate a s);
           Some ((True, VUint n), s) } }
   | PTH_ATTR_STACK_SIZE \<Rightarrow> do {
       tid \<leftarrow> at_get a_tid a s;
       case cmd of
         PTH_ATTR_SET \<Rightarrow>
           if tid \<noteq> NULL then Some (pth_error (False, VNone) EPERM s)
           else (case v of
             VUint n \<Rightarrow> do { s \<leftarrow> at_set (\<lambda>r. r\<lparr>a_stacksize := n\<rparr>) a s; Some ((True, VNone), s) }
           | _ \<Rightarrow> None)
       | PTH_ATTR_GET \<Rightarrow> do {
           n \<leftarrow> (if tid \<noteq> NULL then t_get t_stacksize tid s else at_get a_stacksize a s);
           Some ((True, VUint n), s) } }
   | _ \<Rightarrow> do {
       tid \<leftarrow> at_get a_tid a s;
       case cmd of
         PTH_ATTR_SET \<Rightarrow>
           if tid \<noteq> NULL then Some (pth_error (False, VNone) EPERM s)
           else (case v of
             VPtr p \<Rightarrow> do { s \<leftarrow> at_set (\<lambda>r. r\<lparr>a_stackaddr := p\<rparr>) a s; Some ((True, VNone), s) }
           | _ \<Rightarrow> None)
       | PTH_ATTR_GET \<Rightarrow> do {
           p \<leftarrow> (if tid \<noteq> NULL then t_get t_stack tid s else at_get a_stackaddr a s);
           Some ((True, VPtr p), s) } })"

text \<open>The attributes that can only be read; \<open>need_tid\<close> says that an unbound object has no value.\<close>

definition attr_read :: "attr_cmd \<Rightarrow> ptr \<Rightarrow> (pth_st \<Rightarrow> attr_val) \<Rightarrow> attr_val option \<Rightarrow> pth_state
    \<Rightarrow> ((bool \<times> attr_val) \<times> pth_state) option" where
  "attr_read cmd a tget unbound s =
     (if cmd = PTH_ATTR_SET then Some (pth_error (False, VNone) EPERM s)
      else do {
        tid \<leftarrow> at_get a_tid a s;
        if tid \<noteq> NULL then do { v \<leftarrow> t_get tget tid s; Some ((True, v), s) }
        else Some (case unbound of None \<Rightarrow> pth_error (False, VNone) EACCES s | Some v \<Rightarrow> ((True, v), s)) })"

definition attr_ctrl_ro :: "attr_cmd \<Rightarrow> ptr \<Rightarrow> attr_op \<Rightarrow> pth_state \<Rightarrow> ((bool \<times> attr_val) \<times> pth_state) option" where
  "attr_ctrl_ro cmd a op s = (case op of
     PTH_ATTR_TIME_SPAWN \<Rightarrow> attr_read cmd a (VTime \<circ> t_spawned) (Some (VTime PTH_TIME_ZERO)) s
   | PTH_ATTR_TIME_LAST \<Rightarrow> attr_read cmd a (VTime \<circ> t_lastran) (Some (VTime PTH_TIME_ZERO)) s
   | PTH_ATTR_TIME_RAN \<Rightarrow> attr_read cmd a (VTime \<circ> t_running) (Some (VTime PTH_TIME_ZERO)) s
   | PTH_ATTR_START_FUNC \<Rightarrow> attr_read cmd a (VPtr \<circ> t_start_func) None s
   | PTH_ATTR_START_ARG \<Rightarrow> attr_read cmd a (VPtr \<circ> t_start_arg) None s
   | PTH_ATTR_STATE \<Rightarrow> attr_read cmd a (VState \<circ> t_state) None s
   | PTH_ATTR_EVENTS \<Rightarrow> attr_read cmd a (VPtr \<circ> t_events) None s
   | PTH_ATTR_BOUND \<Rightarrow>
       (if cmd = PTH_ATTR_SET then Some (pth_error (False, VNone) EPERM s)
        else do { tid \<leftarrow> at_get a_tid a s; Some ((True, VInt (if tid \<noteq> NULL then 1 else 0)), s) })
   | _ \<Rightarrow> Some (pth_error (False, VNone) EINVAL s))"

definition attr_is_rw :: "attr_op \<Rightarrow> bool" where
  "attr_is_rw op \<longleftrightarrow> op \<in> {PTH_ATTR_PRIO, PTH_ATTR_NAME, PTH_ATTR_DISPATCHES, PTH_ATTR_JOINABLE,
     PTH_ATTR_CANCEL_STATE, PTH_ATTR_STACK_SIZE, PTH_ATTR_STACK_ADDR}"

definition pth_attr_ctrl :: "attr_cmd \<Rightarrow> ptr \<Rightarrow> attr_op \<Rightarrow> attr_val \<Rightarrow> pth_state \<Rightarrow> ((bool \<times> attr_val) \<times> pth_state) option" where
  "pth_attr_ctrl cmd a op v s =
     (if a = NULL then Some (pth_error (False, VNone) EINVAL s)
      else if attr_is_rw op then attr_ctrl_rw cmd a op v s
      else attr_ctrl_ro cmd a op s)"

definition pth_attr_get :: "ptr \<Rightarrow> attr_op \<Rightarrow> pth_state \<Rightarrow> ((bool \<times> attr_val) \<times> pth_state) option" where
  "pth_attr_get a op s = pth_attr_ctrl PTH_ATTR_GET a op VNone s"

definition pth_attr_set :: "ptr \<Rightarrow> attr_op \<Rightarrow> attr_val \<Rightarrow> pth_state \<Rightarrow> (bool \<times> pth_state) option" where
  "pth_attr_set a op v s = map_option (\<lambda>((ok, _), s). (ok, s)) (pth_attr_ctrl PTH_ATTR_SET a op v s)"

section \<open>Names\<close>

lemma write_name_ok:
  assumes "length buf = PTH_TCB_NAMELEN" "NUL \<notin> set src"
  shows "\<exists>buf'. write_name buf src = Some buf' \<and> length buf' = PTH_TCB_NAMELEN \<and>
    cstring buf' = take (PTH_TCB_NAMELEN - 1) src"
proof -
  obtain buf' where buf': "pth_util_cpystrn buf (src @ NUL # []) PTH_TCB_NAMELEN =
      Some (min (length src) (PTH_TCB_NAMELEN - 1), buf')" "length buf' = length buf"
    "buf' = take (PTH_TCB_NAMELEN - 1) src @ NUL # drop (min (length src) (PTH_TCB_NAMELEN - 1) + 1) buf"
    using cpystrn_spec [of PTH_TCB_NAMELEN buf src "[]"] assms by (auto simp: PTH_TCB_NAMELEN_def)
  have "NUL \<notin> set (take (PTH_TCB_NAMELEN - 1) src)"
    using assms(2) by (meson in_set_takeD)
  then have "cstring buf' = take (PTH_TCB_NAMELEN - 1) src"
    unfolding cstring_def buf'(3) by (subst takeWhile_append2) auto
  with buf' assms(1) show ?thesis
    by (simp add: write_name_def)
qed

section \<open>What a get request sees\<close>

text \<open>\<open>attr_ok s a r c\<close>: the object \<open>a\<close> is \<open>r\<close>, bound to the thread with control block \<open>c\<close> if it is bound.\<close>

definition attr_ok :: "pth_state \<Rightarrow> ptr \<Rightarrow> pth_attr \<Rightarrow> pth_st \<Rightarrow> bool" where
  "attr_ok s a r c \<longleftrightarrow> a \<noteq> NULL \<and> attrs s a = Some r \<and> length (a_name r) = PTH_TCB_NAMELEN \<and>
     length (t_name c) = PTH_TCB_NAMELEN \<and> (a_tid r \<noteq> NULL \<longrightarrow> tcbs s (a_tid r) = Some c)"

fun attr_view :: "pth_attr \<Rightarrow> pth_st \<Rightarrow> attr_op \<Rightarrow> bool \<times> attr_val" where
  "attr_view r c PTH_ATTR_PRIO = (True, VInt (if a_tid r \<noteq> NULL then t_prio c else a_prio r))"
| "attr_view r c PTH_ATTR_NAME = (True, VString (cstring (if a_tid r \<noteq> NULL then t_name c else a_name r)))"
| "attr_view r c PTH_ATTR_DISPATCHES = (True, VInt (if a_tid r \<noteq> NULL then t_dispatches c else a_dispatches r))"
| "attr_view r c PTH_ATTR_JOINABLE = (True, VInt (if a_tid r \<noteq> NULL then t_joinable c else a_joinable r))"
| "attr_view r c PTH_ATTR_CANCEL_STATE = (True, VUint (if a_tid r \<noteq> NULL then t_cancelstate c else a_cancelstate r))"
| "attr_view r c PTH_ATTR_STACK_SIZE = (True, VUint (if a_tid r \<noteq> NULL then t_stacksize c else a_stacksize r))"
| "attr_view r c PTH_ATTR_STACK_ADDR = (True, VPtr (if a_tid r \<noteq> NULL then t_stack c else a_stackaddr r))"
| "attr_view r c PTH_ATTR_TIME_SPAWN = (True, VTime (if a_tid r \<noteq> NULL then t_spawned c else PTH_TIME_ZERO))"
| "attr_view r c PTH_ATTR_TIME_LAST = (True, VTime (if a_tid r \<noteq> NULL then t_lastran c else PTH_TIME_ZERO))"
| "attr_view r c PTH_ATTR_TIME_RAN = (True, VTime (if a_tid r \<noteq> NULL then t_running c else PTH_TIME_ZERO))"
| "attr_view r c PTH_ATTR_START_FUNC = (if a_tid r \<noteq> NULL then (True, VPtr (t_start_func c)) else (False, VNone))"
| "attr_view r c PTH_ATTR_START_ARG = (if a_tid r \<noteq> NULL then (True, VPtr (t_start_arg c)) else (False, VNone))"
| "attr_view r c PTH_ATTR_STATE = (if a_tid r \<noteq> NULL then (True, VState (t_state c)) else (False, VNone))"
| "attr_view r c PTH_ATTR_EVENTS = (if a_tid r \<noteq> NULL then (True, VPtr (t_events c)) else (False, VNone))"
| "attr_view r c PTH_ATTR_BOUND = (True, VInt (if a_tid r \<noteq> NULL then 1 else 0))"
| "attr_view r c (PTH_ATTR_OTHER n) = (False, VNone)"

lemma attr_get_view:
  assumes "attr_ok s a r c"
  shows "\<exists>s'. pth_attr_get a op s = Some (attr_view r c op, s') \<and> (fst (attr_view r c op) \<longrightarrow> s' = s)"
proof -
  have h: "a \<noteq> NULL" "attrs s a = Some r" and t: "a_tid r \<noteq> NULL \<Longrightarrow> tcbs s (a_tid r) = Some c"
    using assms by (simp_all add: attr_ok_def)
  show ?thesis
    using h t
    by (cases op; cases "a_tid r = NULL")
      (simp_all add: pth_attr_get_def pth_attr_ctrl_def attr_is_rw_def attr_ctrl_rw_def attr_ctrl_ro_def
        attr_int_def attr_read_def cells pth_error_def)
qed

text \<open>Which values fit an attribute, and what is stored of them.\<close>

fun attr_fits :: "attr_op \<Rightarrow> attr_val \<Rightarrow> bool" where
  "attr_fits PTH_ATTR_PRIO (VInt n) = True"
| "attr_fits PTH_ATTR_DISPATCHES (VInt n) = True"
| "attr_fits PTH_ATTR_JOINABLE (VInt n) = True"
| "attr_fits PTH_ATTR_NAME (VString src) = (NUL \<notin> set src)"
| "attr_fits PTH_ATTR_CANCEL_STATE (VUint n) = True"
| "attr_fits PTH_ATTR_STACK_SIZE (VUint n) = True"
| "attr_fits PTH_ATTR_STACK_ADDR (VPtr p) = True"
| "attr_fits _ _ = False"

fun attr_stored :: "attr_val \<Rightarrow> attr_val" where
  "attr_stored (VString src) = VString (take (PTH_TCB_NAMELEN - 1) src)"
| "attr_stored v = v"

lemma attr_set_view:
  assumes ok: "attr_ok s a r c" and fits: "attr_fits op v"
    and free: "op \<in> {PTH_ATTR_STACK_SIZE, PTH_ATTR_STACK_ADDR} \<longrightarrow> a_tid r = NULL"
  shows "\<exists>s' r' c'. pth_attr_set a op v s = Some (True, s') \<and> attr_ok s' a r' c' \<and>
    attr_view r' c' op = (True, attr_stored v) \<and> (\<forall>op'. op' \<noteq> op \<longrightarrow> attr_view r' c' op' = attr_view r c op')"
proof -
  have h: "a \<noteq> NULL" "attrs s a = Some r" and t: "a_tid r \<noteq> NULL \<Longrightarrow> tcbs s (a_tid r) = Some c"
    and len: "length (a_name r) = PTH_TCB_NAMELEN" "length (t_name c) = PTH_TCB_NAMELEN"
    using ok by (simp_all add: attr_ok_def)
  have bound: "\<exists>s'' r'' c''. Some (True, s\<lparr>tcbs := (tcbs s)(a_tid r \<mapsto> c')\<rparr>) = Some (True, s'') \<and> attr_ok s'' a r'' c'' \<and>
      attr_view r'' c'' op = (True, attr_stored v) \<and> (\<forall>op'. op' \<noteq> op \<longrightarrow> attr_view r'' c'' op' = attr_view r c op')"
    if "a_tid r \<noteq> NULL" "length (t_name c') = PTH_TCB_NAMELEN" "attr_view r c' op = (True, attr_stored v)"
      "\<forall>op'. op' \<noteq> op \<longrightarrow> attr_view r c' op' = attr_view r c op'" for c'
    using that h len by (intro exI [of _ "s\<lparr>tcbs := (tcbs s)(a_tid r \<mapsto> c')\<rparr>"] exI [of _ r] exI [of _ c']) (simp add: attr_ok_def)
  have unbound: "\<exists>s'' r'' c''. Some (True, s\<lparr>attrs := (attrs s)(a \<mapsto> r')\<rparr>) = Some (True, s'') \<and> attr_ok s'' a r'' c'' \<and>
      attr_view r'' c'' op = (True, attr_stored v) \<and> (\<forall>op'. op' \<noteq> op \<longrightarrow> attr_view r'' c'' op' = attr_view r c op')"
    if "a_tid r' = NULL" "length (a_name r') = PTH_TCB_NAMELEN" "attr_view r' c op = (True, attr_stored v)"
      "\<forall>op'. op' \<noteq> op \<longrightarrow> attr_view r' c op' = attr_view r c op'" for r'
    using that h len by (intro exI [of _ "s\<lparr>attrs := (attrs s)(a \<mapsto> r')\<rparr>"] exI [of _ r'] exI [of _ c]) (simp add: attr_ok_def)
  note set_simps = pth_attr_set_def pth_attr_ctrl_def attr_is_rw_def attr_ctrl_rw_def attr_int_def cells
  have others: "(\<forall>op'. op' \<noteq> op \<longrightarrow> P op') \<longleftrightarrow> (\<forall>op'. op' = op \<or> P op')" for P
    by auto
  show ?thesis
  proof (cases "op = PTH_ATTR_NAME")
    case True
    then obtain src where v: "v = VString src" "NUL \<notin> set src"
      using fits by (cases v) auto
    show ?thesis
    proof (cases "a_tid r = NULL")
      case un: True
      obtain buf where buf: "write_name (a_name r) src = Some buf" "length buf = PTH_TCB_NAMELEN"
        "cstring buf = take (PTH_TCB_NAMELEN - 1) src"
        using write_name_ok [OF len(1) v(2)] by blast
      have "pth_attr_set a op v s = Some (True, s\<lparr>attrs := (attrs s)(a \<mapsto> r\<lparr>a_name := buf\<rparr>)\<rparr>)"
        using True v(1) un h buf by (simp add: set_simps)
      moreover have "attr_view (r\<lparr>a_name := buf\<rparr>) c op' = attr_view r c op'" if "op' \<noteq> op" for op'
        using that True by (cases op') auto
      ultimately show ?thesis
        using unbound [of "r\<lparr>a_name := buf\<rparr>"] un buf v True by simp
    next
      case False
      obtain buf where buf: "write_name (t_name c) src = Some buf" "length buf = PTH_TCB_NAMELEN"
        "cstring buf = take (PTH_TCB_NAMELEN - 1) src"
        using write_name_ok [OF len(2) v(2)] by blast
      have "pth_attr_set a op v s = Some (True, s\<lparr>tcbs := (tcbs s)(a_tid r \<mapsto> c\<lparr>t_name := buf\<rparr>)\<rparr>)"
        using True v(1) False h t buf by (simp add: set_simps)
      moreover have "attr_view r (c\<lparr>t_name := buf\<rparr>) op' = attr_view r c op'" if "op' \<noteq> op" for op'
        using that True by (cases op') auto
      ultimately show ?thesis
        using bound [of "c\<lparr>t_name := buf\<rparr>"] False buf v True by simp
    qed
  next
    case False
    define r' where "r' = (case (op, v) of
        (PTH_ATTR_PRIO, VInt n) \<Rightarrow> r\<lparr>a_prio := n\<rparr> | (PTH_ATTR_DISPATCHES, VInt n) \<Rightarrow> r\<lparr>a_dispatches := n\<rparr>
      | (PTH_ATTR_JOINABLE, VInt n) \<Rightarrow> r\<lparr>a_joinable := n\<rparr> | (PTH_ATTR_CANCEL_STATE, VUint n) \<Rightarrow> r\<lparr>a_cancelstate := n\<rparr>
      | (PTH_ATTR_STACK_SIZE, VUint n) \<Rightarrow> r\<lparr>a_stacksize := n\<rparr> | (PTH_ATTR_STACK_ADDR, VPtr p) \<Rightarrow> r\<lparr>a_stackaddr := p\<rparr>
      | _ \<Rightarrow> r)"
    define c' where "c' = (case (op, v) of
        (PTH_ATTR_PRIO, VInt n) \<Rightarrow> c\<lparr>t_prio := n\<rparr> | (PTH_ATTR_DISPATCHES, VInt n) \<Rightarrow> c\<lparr>t_dispatches := n\<rparr>
      | (PTH_ATTR_JOINABLE, VInt n) \<Rightarrow> c\<lparr>t_joinable := n\<rparr> | (PTH_ATTR_CANCEL_STATE, VUint n) \<Rightarrow> c\<lparr>t_cancelstate := n\<rparr>
      | _ \<Rightarrow> c)"
    show ?thesis
    proof (cases "a_tid r = NULL")
      case un: True
      have "pth_attr_set a op v s = Some (True, s\<lparr>attrs := (attrs s)(a \<mapsto> r')\<rparr>)"
        using False fits un h by (cases op; cases v) (simp_all add: set_simps r'_def)
      moreover have "attr_view r' c op = (True, attr_stored v)" "a_tid r' = NULL" "length (a_name r') = PTH_TCB_NAMELEN"
        using False fits un len by (cases op; cases v; simp add: r'_def)+
      moreover have "attr_view r' c op' = attr_view r c op'" if "op' \<noteq> op" for op'
        using that fits False by (cases op; cases v; cases op'; simp add: r'_def)
      ultimately show ?thesis
        using unbound [of r'] by simp
    next
      case bd: False
      have "pth_attr_set a op v s = Some (True, s\<lparr>tcbs := (tcbs s)(a_tid r \<mapsto> c')\<rparr>)"
        using False fits bd h t free by (cases op; cases v) (simp_all add: set_simps c'_def)
      moreover have "attr_view r c' op = (True, attr_stored v)" "length (t_name c') = PTH_TCB_NAMELEN"
        using False fits bd len free by (cases op; cases v; simp add: c'_def)+
      moreover have "attr_view r c' op' = attr_view r c op'" if "op' \<noteq> op" for op'
        using that fits False by (cases op; cases v; cases op'; simp add: c'_def)
      ultimately show ?thesis
        using bound [of c'] bd by simp
    qed
  qed
qed

section \<open>Properties\<close>

text \<open>
  C29: an attribute that is set is read back, whether the object is bound to a thread or not, and no
  other attribute changes; a name is cut to fit its buffer. The stack attributes of a bound object
  are the exception: setting one fails with \<^verbatim>\<open>EPERM\<close> and changes only \<^verbatim>\<open>errno\<close>.
\<close>

theorem pth_attr_set_get:
  assumes ok: "attr_ok s a r c" and fits: "attr_fits op v"
  shows "if a_tid r \<noteq> NULL \<and> op \<in> {PTH_ATTR_STACK_SIZE, PTH_ATTR_STACK_ADDR}
    then pth_attr_set a op v s = Some (False, s\<lparr>errno := EPERM\<rparr>)
    else \<exists>s'. pth_attr_set a op v s = Some (True, s') \<and> pth_attr_get a op s' = Some ((True, attr_stored v), s') \<and>
      (\<forall>op'. op' \<noteq> op \<longrightarrow> map_option fst (pth_attr_get a op' s') = map_option fst (pth_attr_get a op' s))"
proof (cases "a_tid r \<noteq> NULL \<and> op \<in> {PTH_ATTR_STACK_SIZE, PTH_ATTR_STACK_ADDR}")
  case True
  then have "pth_attr_set a op v s = Some (False, s\<lparr>errno := EPERM\<rparr>)"
    using ok by (auto simp: attr_ok_def pth_attr_set_def pth_attr_ctrl_def attr_is_rw_def attr_ctrl_rw_def cells pth_error_def)
  with True show ?thesis by simp
next
  case False
  obtain s' r' c' where s': "pth_attr_set a op v s = Some (True, s')" "attr_ok s' a r' c'"
    "attr_view r' c' op = (True, attr_stored v)" "\<forall>op'. op' \<noteq> op \<longrightarrow> attr_view r' c' op' = attr_view r c op'"
    using attr_set_view [OF ok fits] False by auto
  have "map_option fst (pth_attr_get a op' s') = map_option fst (pth_attr_get a op' s)" if "op' \<noteq> op" for op'
    using attr_get_view [OF ok, of op'] attr_get_view [OF s'(2), of op'] s'(4) that by auto
  then show ?thesis
    using False s' attr_get_view [OF s'(2), of op] by auto
qed

theorem pth_attr_set_get_witness:
  "\<exists>s'. pth_attr_set 3 PTH_ATTR_NAME (VString ''worker'') (snd (pth_attr_of 3 2 (state0\<lparr>tcbs := [2 \<mapsto> tcb0]\<rparr>))) = Some (True, s') \<and>
     pth_attr_get 3 PTH_ATTR_NAME s' = Some ((True, VString ''worker''), s')"
proof -
  let ?s = "snd (pth_attr_of 3 2 (state0\<lparr>tcbs := [2 \<mapsto> tcb0]\<rparr>))"
  let ?r = "\<lparr>a_tid = 2, a_prio = 0, a_dispatches = 0, a_name = replicate PTH_TCB_NAMELEN NUL, a_joinable = 0,
    a_cancelstate = 0, a_stacksize = 0, a_stackaddr = NULL\<rparr>"
  have "attr_ok ?s 3 ?r tcb0"
    by (simp add: attr_ok_def pth_attr_of_def tcb0_def)
  from pth_attr_set_get [OF this, of PTH_ATTR_NAME "VString ''worker''"] show ?thesis
    by (auto simp: PTH_TCB_NAMELEN_def)
qed

text \<open>
  \<^verbatim>\<open>pth_attr_ctrl\<close> never writes an attribute that is not settable: a set request on a read-only
  attribute fails with \<^verbatim>\<open>EPERM\<close> and on an unknown one with \<^verbatim>\<open>EINVAL\<close>; and the attributes that only a
  thread has cannot be read from an unbound object (\<^verbatim>\<open>EACCES\<close>). In each case \<^verbatim>\<open>errno\<close> is the only
  change.
\<close>

theorem pth_attr_ctrl_rejects:
  assumes "attr_ok s a r c" "\<not> attr_is_rw op"
  shows "pth_attr_set a op v s =
      Some (False, s\<lparr>errno := (case op of PTH_ATTR_OTHER n \<Rightarrow> EINVAL | _ \<Rightarrow> EPERM)\<rparr>) \<and>
    (a_tid r = NULL \<longrightarrow> op \<in> {PTH_ATTR_START_FUNC, PTH_ATTR_START_ARG, PTH_ATTR_STATE, PTH_ATTR_EVENTS} \<longrightarrow>
      pth_attr_get a op s = Some ((False, VNone), s\<lparr>errno := EACCES\<rparr>))"
proof -
  have h: "a \<noteq> NULL" "attrs s a = Some r"
    using assms(1) by (simp_all add: attr_ok_def)
  have "pth_attr_set a op v s =
      Some (False, s\<lparr>errno := (case op of PTH_ATTR_OTHER n \<Rightarrow> EINVAL | _ \<Rightarrow> EPERM)\<rparr>)"
    using h assms(2)
    by (cases op) (simp_all add: pth_attr_set_def pth_attr_ctrl_def attr_ctrl_ro_def attr_read_def pth_error_def attr_is_rw_def)
  moreover have "pth_attr_get a op s = Some ((False, VNone), s\<lparr>errno := EACCES\<rparr>)"
    if "a_tid r = NULL" "op \<in> {PTH_ATTR_START_FUNC, PTH_ATTR_START_ARG, PTH_ATTR_STATE, PTH_ATTR_EVENTS}"
    using h that
    by (auto simp: pth_attr_get_def pth_attr_ctrl_def attr_ctrl_ro_def attr_read_def pth_error_def attr_is_rw_def cells)
  ultimately show ?thesis by blast
qed

theorem pth_attr_ctrl_rejects_witness:
  "let s = state0\<lparr>attrs := [3 \<mapsto> \<lparr>a_tid = NULL, a_prio = 0, a_dispatches = 0,
      a_name = replicate PTH_TCB_NAMELEN NUL, a_joinable = 0, a_cancelstate = 0, a_stacksize = 0, a_stackaddr = NULL\<rparr>]\<rparr>
   in pth_attr_set 3 PTH_ATTR_STATE (VState PTH_STATE_NEW) s = Some (False, s\<lparr>errno := EPERM\<rparr>) \<and>
      pth_attr_get 3 PTH_ATTR_STATE s = Some ((False, VNone), s\<lparr>errno := EACCES\<rparr>)"
proof -
  let ?r = "\<lparr>a_tid = NULL, a_prio = 0, a_dispatches = 0, a_name = replicate PTH_TCB_NAMELEN NUL, a_joinable = 0,
    a_cancelstate = 0, a_stacksize = 0, a_stackaddr = NULL\<rparr>"
  have "attr_ok (state0\<lparr>attrs := [3 \<mapsto> ?r]\<rparr>) 3 ?r tcb0" "\<not> attr_is_rw PTH_ATTR_STATE"
    by (simp_all add: attr_ok_def attr_is_rw_def tcb0_def)
  from pth_attr_ctrl_rejects [OF this] show ?thesis
    by (simp add: Let_def)
qed

end
