(* ===== verification/Pth_String.thy ===== *)
theory Pth_String
  imports Pth_Util
begin

text \<open>
  The formatted output of \<^verbatim>\<open>pth_string.c\<close>. A buffer is the list of its bytes (\<open>None\<close> for a \<^verbatim>\<open>NULL\<close> buffer), a
  format is its bytes with the terminating zero, and an access outside either has no result. An
  argument list is a list of tagged values; reading a missing argument or one of another type, an
  \<^verbatim>\<open>int\<close> out of range and the other undefined operations of C have no result either. The length
  counters are unbounded: they count characters the loops have passed one by one. A \<^verbatim>\<open>long double\<close> is a
  rational number and \<open>rnd\<close> the rounding of the machine; infinities and not-a-number are left out.
\<close>

unbundle bit_operations_syntax

definition SIZE_MAX :: nat where "SIZE_MAX = 2 ^ 64 - 1"
definition INT_MAX :: int where "INT_MAX = 2 ^ 31 - 1"

definition c_int :: "int \<Rightarrow> int option" where
  "c_int x = (if - INT_MAX - 1 \<le> x \<and> x \<le> INT_MAX then Some x else None)"

definition c_long :: "int \<Rightarrow> int option" where
  "c_long x = (if - (2 ^ 63) \<le> x \<and> x < 2 ^ 63 then Some x else None)"

datatype dp_state = DP_S_DEFAULT | DP_S_FLAGS | DP_S_MIN | DP_S_DOT | DP_S_MAX | DP_S_MOD | DP_S_CONV | DP_S_DONE

definition DP_F_MINUS :: "32 word" where "DP_F_MINUS = 1"
definition DP_F_PLUS :: "32 word" where "DP_F_PLUS = 2"
definition DP_F_SPACE :: "32 word" where "DP_F_SPACE = 4"
definition DP_F_NUM :: "32 word" where "DP_F_NUM = 8"
definition DP_F_ZERO :: "32 word" where "DP_F_ZERO = 16"
definition DP_F_UP :: "32 word" where "DP_F_UP = 32"
definition DP_F_UNSIGNED :: "32 word" where "DP_F_UNSIGNED = 64"

datatype dp_cflags = DP_C_NONE | DP_C_SHORT | DP_C_LONG | DP_C_LDOUBLE | DP_C_LLONG

section \<open>Writing characters\<close>

text \<open>A buffer with the number of characters produced so far.\<close>

type_synonym out = "string option \<times> nat"

definition dopr_outch :: "nat \<Rightarrow> char \<Rightarrow> out \<Rightarrow> out option" where
  "dopr_outch maxlen c o1 = (case o1 of (buffer, currlen) \<Rightarrow>
     (case buffer of
        None \<Rightarrow> Some (None, currlen + 1)
      | Some b \<Rightarrow>
          if currlen < maxlen then
            (if currlen < length b then Some (Some (b[currlen := c]), currlen + 1) else None)
          else Some (buffer, currlen + 1)))"

text \<open>The loop \<^verbatim>\<open>while (n > 0) { dopr_outch(..., c); --n; }\<close>, and the one that empties an array from its end.\<close>

primrec out_rep :: "nat \<Rightarrow> char \<Rightarrow> nat \<Rightarrow> out \<Rightarrow> out option" where
  "out_rep maxlen c 0 o1 = Some o1"
| "out_rep maxlen c (Suc n) o1 = Option.bind (dopr_outch maxlen c o1) (out_rep maxlen c n)"

primrec out_rev :: "nat \<Rightarrow> string \<Rightarrow> nat \<Rightarrow> out \<Rightarrow> out option" where
  "out_rev maxlen convert 0 o1 = Some o1"
| "out_rev maxlen convert (Suc place) o1 =
     Option.bind (dopr_outch maxlen (convert ! place) o1) (out_rev maxlen convert place)"

section \<open>Strings\<close>

text \<open>The two kinds of loops of \<^verbatim>\<open>fmtstr\<close>; \<open>cnt\<close> counts the characters up to the precision \<open>mx\<close>.\<close>

primrec str_pad :: "nat \<Rightarrow> int \<Rightarrow> nat \<Rightarrow> int \<Rightarrow> out \<Rightarrow> (int \<times> out) option" where
  "str_pad maxlen mx 0 cnt o1 = Some (cnt, o1)"
| "str_pad maxlen mx (Suc n) cnt o1 =
     (if cnt < mx then Option.bind (dopr_outch maxlen CHR '' '' o1) (str_pad maxlen mx n (cnt + 1))
      else Some (cnt, o1))"

primrec str_copy :: "nat \<Rightarrow> int \<Rightarrow> string \<Rightarrow> int \<Rightarrow> out \<Rightarrow> (int \<times> out) option" where
  "str_copy maxlen mx [] cnt o1 = Some (cnt, o1)"
| "str_copy maxlen mx (c # cs) cnt o1 =
     (if cnt < mx then Option.bind (dopr_outch maxlen c o1) (str_copy maxlen mx cs (cnt + 1))
      else Some (cnt, o1))"

text \<open>The string argument is \<^verbatim>\<open>NULL\<close> or a string without its terminating zero.\<close>

definition fmtstr :: "nat \<Rightarrow> string option \<Rightarrow> 32 word \<Rightarrow> int \<Rightarrow> int \<Rightarrow> out \<Rightarrow> out option" where
  "fmtstr maxlen arg flags mn mx o1 = do {
     let val = (case arg of None \<Rightarrow> ''<NULL>'' | Some v \<Rightarrow> v);
     strln \<leftarrow> c_int (int (length val));
     padlen \<leftarrow> c_int (mn - strln);
     let padlen = (if padlen < 0 then 0 else padlen);
     let padlen = (if flag flags DP_F_MINUS then - padlen else padlen);
     (cnt, o1) \<leftarrow> str_pad maxlen mx (nat padlen) 0 o1;
     (cnt, o1) \<leftarrow> str_copy maxlen mx val cnt o1;
     (cnt, o1) \<leftarrow> str_pad maxlen mx (nat (- padlen)) cnt o1;
     Some o1 }"

section \<open>Integers\<close>

text \<open>The digits of a number, the least significant first, in an array of 20 bytes.\<close>

definition digit_char :: "bool \<Rightarrow> nat \<Rightarrow> char" where
  "digit_char caps d = (if caps then ''0123456789ABCDEF'' else ''0123456789abcdef'') ! d"

function conv_loop :: "bool \<Rightarrow> nat \<Rightarrow> nat \<Rightarrow> string \<Rightarrow> string" where
  "conv_loop caps base u convert =
     (let convert = convert @ [digit_char caps (u mod base)]; u = u div base
      in if u \<noteq> 0 \<and> length convert < 20 then conv_loop caps base u convert else convert)"
  by pat_completeness auto

termination by (relation "measure (\<lambda>(_, _, _, convert). 20 - length convert)") auto

declare conv_loop.simps [simp del]

text \<open>\<^verbatim>\<open>if (place == 20) place--\<close>: the array also has to hold the terminating zero.\<close>

definition conv_place :: "string \<Rightarrow> nat" where
  "conv_place convert = (if length convert = 20 then length convert - 1 else length convert)"

definition opt_outch :: "nat \<Rightarrow> char option \<Rightarrow> out \<Rightarrow> out option" where
  "opt_outch maxlen signvalue o1 = (case signvalue of None \<Rightarrow> Some o1 | Some c \<Rightarrow> dopr_outch maxlen c o1)"

definition sign_len :: "char option \<Rightarrow> int" where
  "sign_len signvalue = (case signvalue of None \<Rightarrow> 0 | Some _ \<Rightarrow> 1)"

text \<open>The sign and the magnitude; the negation of the least \<^verbatim>\<open>long long\<close> is undefined.\<close>

definition fmt_sign :: "64 word \<Rightarrow> 32 word \<Rightarrow> (char option \<times> nat) option" where
  "fmt_sign val flags =
     (if flag flags DP_F_UNSIGNED then Some (None, unat val)
      else if sint val < 0 then
        (if sint val = - (2 ^ 63) then None else Some (Some CHR ''-'', unat (- val)))
      else if flag flags DP_F_PLUS then Some (Some CHR ''+'', unat val)
      else if flag flags DP_F_SPACE then Some (Some CHR '' '', unat val)
      else Some (None, unat val))"

definition fmtint :: "nat \<Rightarrow> 64 word \<Rightarrow> nat \<Rightarrow> int \<Rightarrow> int \<Rightarrow> 32 word \<Rightarrow> out \<Rightarrow> out option" where
  "fmtint maxlen val base mn mx flags o1 = do {
     let mx = (if mx < 0 then 0 else mx);
     (signvalue, uvalue) \<leftarrow> fmt_sign val flags;
     let convert = conv_loop (flag flags DP_F_UP) base uvalue [];
     let place = conv_place convert;
     let zpadlen = mx - int place;
     spadlen \<leftarrow> c_int (mn - max mx (int place));
     spadlen \<leftarrow> c_int (spadlen - sign_len signvalue);
     let zpadlen = (if zpadlen < 0 then 0 else zpadlen);
     let spadlen = (if spadlen < 0 then 0 else spadlen);
     let (zpadlen, spadlen) = (if flag flags DP_F_ZERO then (max zpadlen spadlen, 0) else (zpadlen, spadlen));
     let spadlen = (if flag flags DP_F_MINUS then - spadlen else spadlen);
     o1 \<leftarrow> out_rep maxlen CHR '' '' (nat spadlen) o1;
     o1 \<leftarrow> opt_outch maxlen signvalue o1;
     o1 \<leftarrow> out_rep maxlen CHR ''0'' (nat zpadlen) o1;
     o1 \<leftarrow> out_rev maxlen convert place o1;
     out_rep maxlen CHR '' '' (nat (- spadlen)) o1 }"

section \<open>Floating point numbers\<close>

definition math_abs :: "rat \<Rightarrow> rat" where
  "math_abs v = (if v < 0 then - v else v)"

primrec math_pow10 :: "(rat \<Rightarrow> rat) \<Rightarrow> nat \<Rightarrow> rat" where
  "math_pow10 rnd 0 = 1"
| "math_pow10 rnd (Suc n) = rnd (math_pow10 rnd n * 10)"

text \<open>The conversion to \<^verbatim>\<open>long\<close> cuts off towards zero.\<close>

definition to_long :: "rat \<Rightarrow> int option" where
  "to_long v = c_long (if v < 0 then - \<lfloor>- v\<rfloor> else \<lfloor>v\<rfloor>)"

definition math_round :: "(rat \<Rightarrow> rat) \<Rightarrow> rat \<Rightarrow> int option" where
  "math_round rnd v = do {
     intpart \<leftarrow> to_long v;
     let v = rnd (v - rnd (of_int intpart));
     if v \<ge> 1 / 2 then c_long (intpart + 1) else Some intpart }"

definition fp_parts :: "(rat \<Rightarrow> rat) \<Rightarrow> rat \<Rightarrow> int \<Rightarrow> (int \<times> int) option" where
  "fp_parts rnd ufvalue mx = do {
     intpart \<leftarrow> to_long ufvalue;
     fracpart \<leftarrow> math_round rnd (rnd (math_pow10 rnd (nat mx) * rnd (ufvalue - rnd (of_int intpart))));
     if rnd (of_int fracpart) \<ge> math_pow10 rnd (nat mx) then do {
       intpart \<leftarrow> c_long (intpart + 1);
       fracpart \<leftarrow> to_long (rnd (rnd (of_int fracpart) - math_pow10 rnd (nat mx)));
       Some (intpart, fracpart) }
     else Some (intpart, fracpart) }"

definition fmtfp :: "(rat \<Rightarrow> rat) \<Rightarrow> nat \<Rightarrow> rat \<Rightarrow> int \<Rightarrow> int \<Rightarrow> 32 word \<Rightarrow> out \<Rightarrow> out option" where
  "fmtfp rnd maxlen fvalue mn mx flags o1 = do {
     let mx = (if mx < 0 then 6 else mx);
     let ufvalue = math_abs fvalue;
     let signvalue = (if fvalue < 0 then Some CHR ''-''
                      else if flag flags DP_F_PLUS then Some CHR ''+''
                      else if flag flags DP_F_SPACE then Some CHR '' '' else None);
     let mx = (if mx > 9 then 9 else mx);
     (intpart, fracpart) \<leftarrow> fp_parts rnd ufvalue mx;
     let iconvert = conv_loop False 10 (nat intpart) [];
     let iplace = conv_place iconvert;
     let fconvert = conv_loop False 10 (nat fracpart) [];
     let fplace = conv_place fconvert;
     padlen \<leftarrow> c_int (mn - int iplace);
     padlen \<leftarrow> c_int (padlen - mx);
     padlen \<leftarrow> c_int (padlen - 1);
     padlen \<leftarrow> c_int (padlen - sign_len signvalue);
     let zpadlen = (if mx - int fplace < 0 then 0 else mx - int fplace);
     let padlen = (if padlen < 0 then 0 else padlen);
     let padlen = (if flag flags DP_F_MINUS then - padlen else padlen);
     (signvalue, padlen, o1) \<leftarrow>
       (if flag flags DP_F_ZERO \<and> padlen > 0 then do {
          o1' \<leftarrow> opt_outch maxlen signvalue o1;
          let padlen = padlen - sign_len signvalue;
          o1' \<leftarrow> out_rep maxlen CHR ''0'' (nat padlen) o1';
          Some (None, 0, o1') }
        else Some (signvalue, padlen, o1));
     o1 \<leftarrow> out_rep maxlen CHR '' '' (nat padlen) o1;
     o1 \<leftarrow> opt_outch maxlen signvalue o1;
     o1 \<leftarrow> out_rev maxlen iconvert iplace o1;
     o1 \<leftarrow> (if mx > 0 then do { o1 \<leftarrow> dopr_outch maxlen CHR ''.'' o1; out_rev maxlen fconvert fplace o1 }
           else Some o1);
     o1 \<leftarrow> out_rep maxlen CHR ''0'' (nat zpadlen) o1;
     out_rep maxlen CHR '' '' (nat (- padlen)) o1 }"

section \<open>The interpreter of formats\<close>

datatype va =
    VaInt "32 word"
  | VaLong "64 word"
  | VaDouble rat
  | VaLdouble rat
  | VaStr "string option"
  | VaPtr ptr

text \<open>The local variables of \<^verbatim>\<open>dopr\<close>; \<open>dp_stores\<close> collects what \<^verbatim>\<open>%n\<close> stores through its pointers.\<close>

record dp =
  dp_ch :: char
  dp_format :: string
  dp_args :: "va list"
  dp_state :: dp_state
  dp_flags :: "32 word"
  dp_cflags :: dp_cflags
  dp_min :: int
  dp_max :: int
  dp_out :: out
  dp_stores :: "(ptr \<times> int) list"

text \<open>\<^verbatim>\<open>ch = *format++\<close>.\<close>

definition next_ch :: "dp \<Rightarrow> dp option" where
  "next_ch d = (case dp_format d of [] \<Rightarrow> None | c # cs \<Rightarrow> Some (d\<lparr>dp_ch := c, dp_format := cs\<rparr>))"

definition va_int :: "dp \<Rightarrow> (32 word \<times> dp) option" where
  "va_int d = (case dp_args d of VaInt w # as \<Rightarrow> Some (w, d\<lparr>dp_args := as\<rparr>) | _ \<Rightarrow> None)"

definition va_long :: "dp \<Rightarrow> (64 word \<times> dp) option" where
  "va_long d = (case dp_args d of VaLong w # as \<Rightarrow> Some (w, d\<lparr>dp_args := as\<rparr>) | _ \<Rightarrow> None)"

definition va_ptr :: "dp \<Rightarrow> (ptr \<times> dp) option" where
  "va_ptr d = (case dp_args d of VaPtr p # as \<Rightarrow> Some (p, d\<lparr>dp_args := as\<rparr>) | _ \<Rightarrow> None)"

definition va_str :: "dp \<Rightarrow> (string option \<times> dp) option" where
  "va_str d = (case dp_args d of VaStr v # as \<Rightarrow> Some (v, d\<lparr>dp_args := as\<rparr>) | _ \<Rightarrow> None)"

definition va_fp :: "dp \<Rightarrow> (rat \<times> dp) option" where
  "va_fp d = (case dp_args d of
     VaDouble x # as \<Rightarrow> if dp_cflags d = DP_C_LDOUBLE then None else Some (x, d\<lparr>dp_args := as\<rparr>)
   | VaLdouble x # as \<Rightarrow> if dp_cflags d = DP_C_LDOUBLE then Some (x, d\<lparr>dp_args := as\<rparr>) else None
   | _ \<Rightarrow> None)"

definition set_out :: "dp \<Rightarrow> out option \<Rightarrow> dp option" where
  "set_out d o1 = map_option (\<lambda>o1. d\<lparr>dp_out := o1\<rparr>) o1"

definition is_digit :: "char \<Rightarrow> bool" where
  "is_digit c \<longleftrightarrow> 48 \<le> (of_char c :: nat) \<and> (of_char c :: nat) \<le> 57"

definition char_to_int :: "char \<Rightarrow> int" where
  "char_to_int c = of_char c - 48"

definition flag_of :: "char \<Rightarrow> 32 word option" where
  "flag_of c = (if c = CHR ''-'' then Some DP_F_MINUS else if c = CHR ''+'' then Some DP_F_PLUS
     else if c = CHR '' '' then Some DP_F_SPACE else if c = CHR ''#'' then Some DP_F_NUM
     else if c = CHR ''0'' then Some DP_F_ZERO else None)"

text \<open>The argument of \<^verbatim>\<open>%d\<close> and \<^verbatim>\<open>%i\<close>, and that of the unsigned conversions.\<close>

definition conv_signed :: "dp \<Rightarrow> (64 word \<times> dp) option" where
  "conv_signed d = (case dp_cflags d of
     DP_C_SHORT \<Rightarrow> map_option (\<lambda>(w, d). (scast (ucast w :: 16 word), d)) (va_int d)
   | DP_C_LONG \<Rightarrow> va_long d
   | DP_C_LLONG \<Rightarrow> va_long d
   | _ \<Rightarrow> map_option (\<lambda>(w, d). (scast w, d)) (va_int d))"

definition conv_unsigned :: "dp \<Rightarrow> (64 word \<times> dp) option" where
  "conv_unsigned d = (case dp_cflags d of
     DP_C_SHORT \<Rightarrow> map_option (\<lambda>(w, d). (ucast (ucast w :: 16 word), d)) (va_int d)
   | DP_C_LONG \<Rightarrow> va_long d
   | DP_C_LLONG \<Rightarrow> va_long d
   | _ \<Rightarrow> map_option (\<lambda>(w, d). (ucast w, d)) (va_int d))"

text \<open>The number \<^verbatim>\<open>%n\<close> stores, narrowed to the type of its argument.\<close>

definition conv_stored :: "dp \<Rightarrow> int" where
  "conv_stored d = (let n = int (snd (dp_out d)) in case dp_cflags d of
     DP_C_SHORT \<Rightarrow> sint (word_of_int n :: 16 word)
   | DP_C_LONG \<Rightarrow> sint (word_of_int n :: 64 word)
   | DP_C_LLONG \<Rightarrow> sint (word_of_int n :: 64 word)
   | _ \<Rightarrow> sint (word_of_int n :: 32 word))"

definition dopr_conv :: "(rat \<Rightarrow> rat) \<Rightarrow> nat \<Rightarrow> dp \<Rightarrow> dp option" where
  "dopr_conv rnd maxlen d = (let ch = dp_ch d in
     if ch = CHR ''d'' \<or> ch = CHR ''i'' then do {
       (val, d) \<leftarrow> conv_signed d;
       set_out d (fmtint maxlen val 10 (dp_min d) (dp_max d) (dp_flags d) (dp_out d)) }
     else if ch = CHR ''X'' \<or> ch = CHR ''x'' \<or> ch = CHR ''o'' \<or> ch = CHR ''u'' then do {
       let d = (if ch = CHR ''X'' then d\<lparr>dp_flags := dp_flags d OR DP_F_UP\<rparr> else d);
       let d = d\<lparr>dp_flags := dp_flags d OR DP_F_UNSIGNED\<rparr>;
       (val, d) \<leftarrow> conv_unsigned d;
       set_out d (fmtint maxlen val (if ch = CHR ''o'' then 8 else if ch = CHR ''u'' then 10 else 16)
         (dp_min d) (dp_max d) (dp_flags d) (dp_out d)) }
     else if ch = CHR ''f'' then do {
       (x, d) \<leftarrow> va_fp d;
       set_out d (fmtfp rnd maxlen x (dp_min d) (dp_max d) (dp_flags d) (dp_out d)) }
     else if ch = CHR ''E'' \<or> ch = CHR ''G'' then map_option (\<lambda>(_, d). d\<lparr>dp_flags := dp_flags d OR DP_F_UP\<rparr>) (va_fp d)
     else if ch = CHR ''e'' \<or> ch = CHR ''g'' then map_option snd (va_fp d)
     else if ch = CHR ''c'' then do {
       (w, d) \<leftarrow> va_int d;
       set_out d (dopr_outch maxlen (char_of (unat w)) (dp_out d)) }
     else if ch = CHR ''s'' then do {
       (v, d) \<leftarrow> va_str d;
       let d = (if dp_max d < 0 then d\<lparr>dp_max := INT_MAX\<rparr> else d);
       set_out d (fmtstr maxlen v (dp_flags d) (dp_min d) (dp_max d) (dp_out d)) }
     else if ch = CHR ''p'' then do {
       (p, d) \<leftarrow> va_ptr d;
       set_out d (fmtint maxlen (of_nat p) 16 (dp_min d) (dp_max d) (dp_flags d) (dp_out d)) }
     else if ch = CHR ''n'' then do {
       (p, d) \<leftarrow> va_ptr d;
       Some (d\<lparr>dp_stores := dp_stores d @ [(p, conv_stored d)]\<rparr>) }
     else if ch = CHR ''%'' then set_out d (dopr_outch maxlen ch (dp_out d))
     else if ch = CHR ''w'' then next_ch d
     else Some d)"

text \<open>The length modifiers.\<close>

definition dopr_mod :: "dp \<Rightarrow> dp option" where
  "dopr_mod d = (let ch = dp_ch d in
     if ch = CHR ''h'' then next_ch (d\<lparr>dp_cflags := DP_C_SHORT\<rparr>)
     else if ch = CHR ''l'' then
       (case dp_format d of
          [] \<Rightarrow> None
        | c # cs \<Rightarrow>
            if c = CHR ''l'' then next_ch (d\<lparr>dp_cflags := DP_C_LLONG, dp_format := cs\<rparr>)
            else next_ch (d\<lparr>dp_cflags := DP_C_LONG\<rparr>))
     else if ch = CHR ''q'' then next_ch (d\<lparr>dp_cflags := DP_C_LLONG\<rparr>)
     else if ch = CHR ''L'' then next_ch (d\<lparr>dp_cflags := DP_C_LDOUBLE\<rparr>)
     else Some d)"

text \<open>One turn of the loop: the switch over the state.\<close>

definition dopr_step :: "(rat \<Rightarrow> rat) \<Rightarrow> nat \<Rightarrow> dp \<Rightarrow> dp option" where
  "dopr_step rnd maxlen d = (let ch = dp_ch d in case dp_state d of
     DP_S_DEFAULT \<Rightarrow>
       if ch = CHR ''%'' then next_ch (d\<lparr>dp_state := DP_S_FLAGS\<rparr>)
       else do { d \<leftarrow> set_out d (dopr_outch maxlen ch (dp_out d)); next_ch d }
   | DP_S_FLAGS \<Rightarrow>
       (case flag_of ch of
          Some f \<Rightarrow> next_ch (d\<lparr>dp_flags := dp_flags d OR f\<rparr>)
        | None \<Rightarrow> Some (d\<lparr>dp_state := DP_S_MIN\<rparr>))
   | DP_S_MIN \<Rightarrow>
       if is_digit ch then do {
         p \<leftarrow> c_int (10 * dp_min d);
         mn \<leftarrow> c_int (p + char_to_int ch);
         next_ch (d\<lparr>dp_min := mn\<rparr>) }
       else if ch = CHR ''*'' then do { (w, d) \<leftarrow> va_int d; next_ch (d\<lparr>dp_min := sint w, dp_state := DP_S_DOT\<rparr>) }
       else Some (d\<lparr>dp_state := DP_S_DOT\<rparr>)
   | DP_S_DOT \<Rightarrow>
       if ch = CHR ''.'' then next_ch (d\<lparr>dp_state := DP_S_MAX\<rparr>) else Some (d\<lparr>dp_state := DP_S_MOD\<rparr>)
   | DP_S_MAX \<Rightarrow>
       if is_digit ch then do {
         p \<leftarrow> c_int (10 * (if dp_max d < 0 then 0 else dp_max d));
         mx \<leftarrow> c_int (p + char_to_int ch);
         next_ch (d\<lparr>dp_max := mx\<rparr>) }
       else if ch = CHR ''*'' then do { (w, d) \<leftarrow> va_int d; next_ch (d\<lparr>dp_max := sint w, dp_state := DP_S_MOD\<rparr>) }
       else Some (d\<lparr>dp_state := DP_S_MOD\<rparr>)
   | DP_S_MOD \<Rightarrow> map_option (\<lambda>d. d\<lparr>dp_state := DP_S_CONV\<rparr>) (dopr_mod d)
   | DP_S_CONV \<Rightarrow> do {
       d \<leftarrow> dopr_conv rnd maxlen d;
       d \<leftarrow> next_ch d;
       Some (d\<lparr>dp_state := DP_S_DEFAULT, dp_flags := 0, dp_cflags := DP_C_NONE, dp_min := 0, dp_max := -1\<rparr>) }
   | DP_S_DONE \<Rightarrow> Some d)"

text \<open>Every turn consumes the format or moves the state forward, so the loop ends on every format.\<close>

primrec state_rank :: "dp_state \<Rightarrow> nat" where
  "state_rank DP_S_DEFAULT = 7"
| "state_rank DP_S_FLAGS = 6"
| "state_rank DP_S_MIN = 5"
| "state_rank DP_S_DOT = 4"
| "state_rank DP_S_MAX = 3"
| "state_rank DP_S_MOD = 2"
| "state_rank DP_S_CONV = 1"
| "state_rank DP_S_DONE = 0"

definition dp_measure :: "dp \<Rightarrow> nat" where
  "dp_measure d = 8 * length (dp_format d) + state_rank (dp_state d)"

lemma state_rank_pos: "st \<noteq> DP_S_DONE \<Longrightarrow> 0 < state_rank st"
  by (cases st) simp_all

lemma next_ch_Some:
  "next_ch d = Some d' \<longleftrightarrow> (\<exists>c cs. dp_format d = c # cs \<and> d' = d\<lparr>dp_ch := c, dp_format := cs\<rparr>)"
  by (auto simp: next_ch_def split: list.splits)

lemma set_out_Some: "set_out d o1 = Some d' \<longleftrightarrow> (\<exists>o2. o1 = Some o2 \<and> d' = d\<lparr>dp_out := o2\<rparr>)"
  by (auto simp: set_out_def)

lemma va_Some:
  "va_int d = Some (w, d') \<longleftrightarrow> (\<exists>as. dp_args d = VaInt w # as \<and> d' = d\<lparr>dp_args := as\<rparr>)"
  "va_long d = Some (l, d') \<longleftrightarrow> (\<exists>as. dp_args d = VaLong l # as \<and> d' = d\<lparr>dp_args := as\<rparr>)"
  "va_ptr d = Some (p, d') \<longleftrightarrow> (\<exists>as. dp_args d = VaPtr p # as \<and> d' = d\<lparr>dp_args := as\<rparr>)"
  "va_str d = Some (v, d') \<longleftrightarrow> (\<exists>as. dp_args d = VaStr v # as \<and> d' = d\<lparr>dp_args := as\<rparr>)"
  by (auto simp: va_int_def va_long_def va_ptr_def va_str_def split: list.splits va.splits)

text \<open>A conversion leaves state and format alone, except that \<^verbatim>\<open>%w\<close> skips a character.\<close>

lemma va_fields:
  "va_fp d = Some (x, d') \<Longrightarrow> dp_format d' = dp_format d \<and> dp_state d' = dp_state d"
  "conv_signed d = Some (l, d') \<Longrightarrow> dp_format d' = dp_format d \<and> dp_state d' = dp_state d"
  "conv_unsigned d = Some (l, d') \<Longrightarrow> dp_format d' = dp_format d \<and> dp_state d' = dp_state d"
  by (auto simp: va_fp_def conv_signed_def conv_unsigned_def va_Some split: list.splits va.splits if_splits dp_cflags.splits)

lemma dopr_conv_fields:
  "dopr_conv rnd maxlen d = Some d' \<Longrightarrow> length (dp_format d') \<le> length (dp_format d) \<and> dp_state d' = dp_state d"
  by (auto simp: dopr_conv_def Let_def set_out_Some va_Some next_ch_Some split: if_splits elim!: bind_SomeE dest!: va_fields)

lemma dopr_step_measure:
  assumes "dopr_step rnd maxlen d = Some d'" "dp_state d \<noteq> DP_S_DONE"
  shows "dp_measure d' < dp_measure d"
proof (cases "dp_state d")
  case DP_S_MOD
  then obtain d1 where "dopr_mod d = Some d1" "d' = d1\<lparr>dp_state := DP_S_CONV\<rparr>"
    using assms(1) by (auto simp: dopr_step_def)
  moreover have "length (dp_format d1) \<le> length (dp_format d)" if "dopr_mod d = Some d1" for d1
    using that by (auto simp: dopr_mod_def next_ch_Some Let_def split: if_splits list.splits)
  ultimately show ?thesis
    using DP_S_MOD by (fastforce simp: dp_measure_def)
next
  case DP_S_CONV
  then obtain d1 c cs where d1: "dopr_conv rnd maxlen d = Some d1" "dp_format d1 = c # cs" "dp_format d' = cs"
    "dp_state d' = DP_S_DEFAULT"
    using assms(1) by (auto simp: dopr_step_def next_ch_Some elim!: bind_SomeE)
  then show ?thesis
    using dopr_conv_fields [OF d1(1)] DP_S_CONV by (simp add: dp_measure_def)
qed (use assms in \<open>auto simp: dopr_step_def dp_measure_def next_ch_Some set_out_Some va_Some Let_def
    split: if_splits option.splits elim!: bind_SomeE\<close>)

function dopr_loop :: "(rat \<Rightarrow> rat) \<Rightarrow> nat \<Rightarrow> dp \<Rightarrow> dp option" where
  "dopr_loop rnd maxlen d =
     (if dp_state d = DP_S_DONE then Some d
      else case dopr_step rnd maxlen (if dp_ch d = NUL then d\<lparr>dp_state := DP_S_DONE\<rparr> else d) of
        None \<Rightarrow> None
      | Some d \<Rightarrow> dopr_loop rnd maxlen d)"
  by pat_completeness auto

termination
proof (relation "measure (\<lambda>(_, _, d). dp_measure d)")
  fix rnd maxlen and d d' :: dp
  assume d: "dp_state d \<noteq> DP_S_DONE"
    "dopr_step rnd maxlen (if dp_ch d = NUL then d\<lparr>dp_state := DP_S_DONE\<rparr> else d) = Some d'"
  show "((rnd, maxlen, d'), rnd, maxlen, d) \<in> measure (\<lambda>(_, _, d). dp_measure d)"
  proof (cases "dp_ch d = NUL")
    case True
    with d show ?thesis
      using state_rank_pos [OF d(1)] by (auto simp: dopr_step_def dp_measure_def)
  next
    case False
    with d show ?thesis
      using dopr_step_measure [of rnd maxlen d d'] by simp
  qed
qed simp

declare dopr_loop.simps [simp del]

text \<open>\<^verbatim>\<open>maxlen - 1\<close> on \<^verbatim>\<open>size_t\<close>.\<close>

definition size_pred :: "nat \<Rightarrow> nat" where
  "size_pred n = (if n = 0 then SIZE_MAX else n - 1)"

text \<open>The result of \<^verbatim>\<open>dopr\<close> is the length, the buffer, what was stored, and the arguments left.\<close>

definition dopr :: "(rat \<Rightarrow> rat) \<Rightarrow> string option \<Rightarrow> nat \<Rightarrow> string \<Rightarrow> va list
    \<Rightarrow> (nat \<times> string option \<times> (ptr \<times> int) list \<times> va list) option" where
  "dopr rnd buffer maxlen format args = do {
     d \<leftarrow> next_ch \<lparr>dp_ch = NUL, dp_format = format, dp_args = args, dp_state = DP_S_DEFAULT, dp_flags = 0,
       dp_cflags = DP_C_NONE, dp_min = 0, dp_max = -1, dp_out = (buffer, 0), dp_stores = []\<rparr>;
     d \<leftarrow> dopr_loop rnd maxlen d;
     let (buffer, currlen) = dp_out d;
     let currlen = (if currlen \<ge> size_pred maxlen then size_pred maxlen else currlen);
     buffer \<leftarrow> (case buffer of
         None \<Rightarrow> Some None
       | Some b \<Rightarrow> if currlen < length b then Some (Some (b[currlen := NUL])) else None);
     Some (currlen, buffer, dp_stores d, dp_args d) }"

definition pth_vsnprintf :: "(rat \<Rightarrow> rat) \<Rightarrow> string option \<Rightarrow> nat \<Rightarrow> string \<Rightarrow> va list
    \<Rightarrow> (int \<times> string option \<times> (ptr \<times> int) list \<times> va list) option" where
  "pth_vsnprintf rnd str cnt fmt args = do {
     str \<leftarrow> (case str of None \<Rightarrow> Some None | Some b \<Rightarrow> if b = [] then None else Some (Some (b[0 := NUL])));
     (retlen, r) \<leftarrow> dopr rnd str cnt fmt args;
     Some (to_c_int (int retlen), r) }"

definition pth_snprintf :: "(rat \<Rightarrow> rat) \<Rightarrow> string option \<Rightarrow> nat \<Rightarrow> string \<Rightarrow> va list
    \<Rightarrow> (int \<times> string option \<times> (ptr \<times> int) list) option" where
  "pth_snprintf rnd str cnt fmt args = do {
     (rv, buf, stores, _) \<leftarrow> pth_vsnprintf rnd str cnt fmt args;
     Some (rv, buf, stores) }"

text \<open>
  \<open>block n\<close> is the memory \<^verbatim>\<open>malloc(n)\<close> returns. Both passes read from the same \<^verbatim>\<open>va_list\<close>, which on this
  platform is an array: the second pass starts where the first one ended.
\<close>

definition pth_vasprintf :: "(rat \<Rightarrow> rat) \<Rightarrow> (nat \<Rightarrow> string option) \<Rightarrow> string \<Rightarrow> va list
    \<Rightarrow> (string option \<times> va list) option" where
  "pth_vasprintf rnd block fmt ap = do {
     (n, _, _, ap) \<leftarrow> pth_vsnprintf rnd None SIZE_MAX fmt ap;
     size \<leftarrow> c_int (n + 1);
     let size = nat (size mod 2 ^ 64);
     (case block size of
        None \<Rightarrow> Some (None, ap)
      | Some rv \<Rightarrow> do {
          (_, str, _, ap) \<leftarrow> pth_vsnprintf rnd (Some rv) size fmt ap;
          Some (str, ap) }) }"

definition pth_asprintf :: "(rat \<Rightarrow> rat) \<Rightarrow> (nat \<Rightarrow> string option) \<Rightarrow> string \<Rightarrow> va list \<Rightarrow> string option option" where
  "pth_asprintf rnd block fmt args = map_option fst (pth_vasprintf rnd block fmt args)"

end
