(* ===== verification/Pth_Format.thy ===== *)
theory Pth_Format
  imports Pth_String
begin

text \<open>
  Correctness of the formatted output of \<^verbatim>\<open>pth_string.c\<close>: every directive produces a text that depends on
  neither the buffer nor its size, a buffer holds as much of that text as fits and a terminating
  zero, nothing is written outside it, and the digits of an integer denote it.
\<close>

section \<open>Texts\<close>

text \<open>Writing a whole text.\<close>

primrec out_chars :: "nat \<Rightarrow> string \<Rightarrow> out \<Rightarrow> out option" where
  "out_chars maxlen [] o1 = Some o1"
| "out_chars maxlen (c # cs) o1 = Option.bind (dopr_outch maxlen c o1) (out_chars maxlen cs)"

lemma out_chars_append [simp]:
  "out_chars maxlen (xs @ ys) o1 = Option.bind (out_chars maxlen xs o1) (out_chars maxlen ys)"
proof (induction xs arbitrary: o1)
  case Nil
  then show ?case by simp
next
  case (Cons x xs)
  then show ?case by (cases "dopr_outch maxlen x o1") simp_all
qed

lemma out_chars_Nil: "out_chars maxlen [] = Some"
  by (simp add: fun_eq_iff)

lemma out_chars_null [simp]: "out_chars maxlen t (None, n) = Some (None, n + length t)"
  by (induction t arbitrary: n) (simp_all add: dopr_outch_def)

lemma dopr_outch_chars: "dopr_outch maxlen c o1 = out_chars maxlen [c] o1"
  by (cases "dopr_outch maxlen c o1") simp_all

lemma out_chars_buffer:
  "maxlen \<le> length b \<Longrightarrow> out_chars maxlen t (Some b, n) =
     Some (Some (take n b @ take (maxlen - n) t @ drop (n + length (take (maxlen - n) t)) b), n + length t)"
proof (induction t arbitrary: b n)
  case Nil
  then show ?case by simp
next
  case (Cons c t)
  show ?case
  proof (cases "n < maxlen")
    case True
    then have n: "n < length b" "maxlen - n = Suc (maxlen - Suc n)"
      using Cons.prems by auto
    have "out_chars maxlen (c # t) (Some b, n) = out_chars maxlen t (Some (b[n := c]), Suc n)"
      using True n(1) by (simp add: dopr_outch_def)
    also have "\<dots> = Some (Some (take (Suc n) (b[n := c]) @ take (maxlen - Suc n) t @
        drop (Suc n + length (take (maxlen - Suc n) t)) (b[n := c])), Suc n + length t)"
      using Cons.IH [of "b[n := c]" "Suc n"] Cons.prems by simp
    also have "take (Suc n) (b[n := c]) = take n b @ [c]"
      using n(1) by (simp add: take_Suc_conv_app_nth)
    finally show ?thesis
      by (simp add: n(2))
  next
    case False
    then show ?thesis
      using Cons.IH [OF Cons.prems, of "Suc n"] by (simp add: dopr_outch_def)
  qed
qed

lemma out_rep_chars: "out_rep maxlen c n o1 = out_chars maxlen (replicate n c) o1"
  by (induction n arbitrary: o1) (simp_all add: fun_eq_iff [symmetric] cong: bind_option_cong)

lemma out_rev_chars: "p \<le> length cs \<Longrightarrow> out_rev maxlen cs p o1 = out_chars maxlen (rev (take p cs)) o1"
  by (induction p arbitrary: o1) (simp_all add: take_Suc_conv_app_nth cong: bind_option_cong)

lemma str_pad_chars:
  "str_pad maxlen mx n cnt o1 =
     map_option (Pair (cnt + int (min n (nat (mx - cnt))))) (out_chars maxlen (replicate (min n (nat (mx - cnt))) CHR '' '') o1)"
proof (induction n arbitrary: cnt o1)
  case 0
  then show ?case by simp
next
  case (Suc n)
  show ?case
  proof (cases "cnt < mx")
    case True
    then have "min (Suc n) (nat (mx - cnt)) = Suc (min n (nat (mx - (cnt + 1))))"
      by linarith
    then show ?thesis
      using True by (cases "dopr_outch maxlen CHR '' '' o1") (simp_all add: Suc add.assoc)
  next
    case False
    then show ?thesis by simp
  qed
qed

lemma str_copy_chars:
  "str_copy maxlen mx cs cnt o1 =
     map_option (Pair (cnt + int (min (length cs) (nat (mx - cnt))))) (out_chars maxlen (take (nat (mx - cnt)) cs) o1)"
proof (induction cs arbitrary: cnt o1)
  case Nil
  then show ?case by simp
next
  case (Cons c cs)
  show ?case
  proof (cases "cnt < mx")
    case True
    then have "nat (mx - cnt) = Suc (nat (mx - (cnt + 1)))"
      by linarith
    then show ?thesis
      using True by (cases "dopr_outch maxlen c o1") (simp_all add: Cons add.assoc)
  next
    case False
    then show ?thesis by simp
  qed
qed

section \<open>The text of a string conversion\<close>

definition fmtstr_text :: "string option \<Rightarrow> 32 word \<Rightarrow> int \<Rightarrow> int \<Rightarrow> string option" where
  "fmtstr_text arg flags mn mx = do {
     let val = (case arg of None \<Rightarrow> ''<NULL>'' | Some v \<Rightarrow> v);
     strln \<leftarrow> c_int (int (length val));
     padlen \<leftarrow> c_int (mn - strln);
     let pad = replicate (nat padlen) CHR '' '';
     Some (take (nat mx) (if flag flags DP_F_MINUS then val @ pad else pad @ val)) }"

lemma fmtstr_chars:
  "fmtstr maxlen arg flags mn mx o1 = Option.bind (fmtstr_text arg flags mn mx) (\<lambda>t. out_chars maxlen t o1)"
proof -
  define val where "val = (case arg of None \<Rightarrow> ''<NULL>'' | Some v \<Rightarrow> v)"
  have pads: "nat (mx - int (min n (nat mx))) = nat mx - n" "nat (mx - int (min (nat mx) n)) = nat mx - n" for n
    by linarith+
  show ?thesis
    unfolding fmtstr_def fmtstr_text_def val_def [symmetric] Let_def
    by (cases "c_int (int (length val))"; simp; cases "c_int (mn - the (c_int (int (length val))))"; simp;
        cases "flag flags DP_F_MINUS"; simp add: str_pad_chars str_copy_chars option.map_comp bind_map_option comp_def pads
          out_chars_Nil min.commute)
qed

section \<open>The text of an integer conversion\<close>

definition sign_text :: "char option \<Rightarrow> string" where
  "sign_text signvalue = (case signvalue of None \<Rightarrow> [] | Some c \<Rightarrow> [c])"

text \<open>The digits a conversion prints, the most significant first.\<close>

definition conv_text :: "bool \<Rightarrow> nat \<Rightarrow> nat \<Rightarrow> string" where
  "conv_text caps base u = rev (take (conv_place (conv_loop caps base u [])) (conv_loop caps base u []))"

definition fmtint_text :: "64 word \<Rightarrow> nat \<Rightarrow> int \<Rightarrow> int \<Rightarrow> 32 word \<Rightarrow> string option" where
  "fmtint_text val base mn mx flags = do {
     (signvalue, uvalue) \<leftarrow> fmt_sign val flags;
     let digits = conv_text (flag flags DP_F_UP) base uvalue;
     let width = max (max mx 0) (int (length digits));
     spadlen \<leftarrow> c_int (mn - width);
     spadlen \<leftarrow> c_int (spadlen - sign_len signvalue);
     let zeros = max (nat mx - length digits) (if flag flags DP_F_ZERO then nat spadlen else 0);
     let pad = replicate (if flag flags DP_F_ZERO then 0 else nat spadlen) CHR '' '';
     let num = sign_text signvalue @ replicate zeros CHR ''0'' @ digits;
     Some (if flag flags DP_F_MINUS then num @ pad else pad @ num) }"

lemma conv_place_le: "conv_place xs \<le> length xs"
  by (simp add: conv_place_def)

lemma length_conv_text: "length (conv_text caps base u) = conv_place (conv_loop caps base u [])"
  by (simp add: conv_text_def conv_place_le min_absorb2)

lemma opt_outch_chars: "opt_outch maxlen signvalue o1 = out_chars maxlen (sign_text signvalue) o1"
  by (simp add: opt_outch_def sign_text_def out_chars_Nil split: option.splits)

lemmas text_chars = out_rep_chars opt_outch_chars out_rev_chars [OF conv_place_le] out_chars_Nil

lemma neg0: "(if x < 0 then 0 else x) = max x (0::int)"
  by simp

text \<open>The last lines of \<^verbatim>\<open>fmtint\<close>: padding, sign, zeros and digits in one text.\<close>

lemma fmtint_tail:
  assumes "p \<le> length cv"
  shows "Option.bind (out_rep maxlen CHR '' '' (nat sp) o1) (\<lambda>o1. Option.bind (opt_outch maxlen sg o1) (\<lambda>o1.
      Option.bind (out_rep maxlen CHR ''0'' (nat zp) o1) (\<lambda>o1. Option.bind (out_rev maxlen cv p o1) (\<lambda>o1.
      out_rep maxlen CHR '' '' (nat (- sp)) o1)))) =
    out_chars maxlen (replicate (nat sp) CHR '' '' @ sign_text sg @ replicate (nat zp) CHR ''0'' @ rev (take p cv) @
      replicate (nat (- sp)) CHR '' '') o1"
  by (simp add: out_rep_chars opt_outch_chars out_rev_chars [OF assms] bind_assoc cong: bind_option_cong)

lemma fmtint_chars:
  "fmtint maxlen val base mn mx flags o1 = Option.bind (fmtint_text val base mn mx flags) (\<lambda>t. out_chars maxlen t o1)"
proof -
  have "(case (if z then (max zp sp, 0) else (zp, sp)) of (zp, sp) \<Rightarrow>
      out_chars maxlen (replicate (nat (if m then - sp else sp)) CHR '' '' @ sg @ replicate (nat zp) CHR ''0'' @ ds @
        replicate (nat (- (if m then - sp else sp))) CHR '' '') o1) =
    out_chars maxlen (if m then (sg @ replicate (max (nat zp) (if z then nat sp else 0)) CHR ''0'' @ ds) @
        replicate (if z then 0 else nat sp) CHR '' ''
      else replicate (if z then 0 else nat sp) CHR '' '' @ sg @ replicate (max (nat zp) (if z then nat sp else 0)) CHR ''0'' @ ds) o1"
    if "sp \<ge> 0" "zp \<ge> 0" for z m sg ds and zp sp :: int
    using that by (cases z; cases m; auto simp: max_def simp del: out_chars_append)
  note layout = this
  have "nat (max (max mx 0 - int n) 0) = nat mx - n" "nat (max sp 0) = nat sp" for n sp
    by linarith+
  with layout show ?thesis
    unfolding fmtint_def fmtint_text_def Let_def neg0 fmtint_tail [OF conv_place_le]
    by (simp only: bind_assoc length_conv_text case_prod_beta' bind.bind_lunit max.cobounded2 conv_text_def [symmetric])
qed

section \<open>The text of a floating point conversion\<close>

text \<open>The fraction digits are followed, not preceded, by the zeros that fill the precision.\<close>

definition fmtfp_text :: "(rat \<Rightarrow> rat) \<Rightarrow> rat \<Rightarrow> int \<Rightarrow> int \<Rightarrow> 32 word \<Rightarrow> string option" where
  "fmtfp_text rnd fvalue mn mx flags = do {
     let mx = min (if mx < 0 then 6 else mx) 9;
     let signvalue = (if fvalue < 0 then Some CHR ''-'' else if flag flags DP_F_PLUS then Some CHR ''+''
                      else if flag flags DP_F_SPACE then Some CHR '' '' else None);
     (intpart, fracpart) \<leftarrow> fp_parts rnd (math_abs fvalue) mx;
     let ids = conv_text False 10 (nat intpart);
     let fds = conv_text False 10 (nat fracpart);
     padlen \<leftarrow> c_int (mn - int (length ids));
     padlen \<leftarrow> c_int (padlen - mx);
     padlen \<leftarrow> c_int (padlen - 1);
     padlen \<leftarrow> c_int (padlen - sign_len signvalue);
     let num = ids @ (if mx > 0 then CHR ''.'' # fds else []) @ replicate (nat mx - length fds) CHR ''0'';
     let left = flag flags DP_F_MINUS \<or> padlen \<le> 0;
     Some (if left then sign_text signvalue @ num @ replicate (nat padlen) CHR '' ''
           else if flag flags DP_F_ZERO then
             sign_text signvalue @ replicate (nat (padlen - sign_len signvalue)) CHR ''0'' @ num
           else replicate (nat padlen) CHR '' '' @ sign_text signvalue @ num) }"

lemma fmtfp_tail:
  assumes "p \<le> length iv" "q \<le> length fv"
  shows "Option.bind
      (if z \<and> pad > 0 then Option.bind (opt_outch maxlen sg o1) (\<lambda>o1'.
          Option.bind (out_rep maxlen CHR ''0'' (nat (pad - sign_len sg)) o1') (\<lambda>o1'. Some (None, 0, o1')))
       else Some (sg, pad, o1))
      (\<lambda>(sg, pad, o1). Option.bind (out_rep maxlen CHR '' '' (nat pad) o1) (\<lambda>o1.
        Option.bind (opt_outch maxlen sg o1) (\<lambda>o1. Option.bind (out_rev maxlen iv p o1) (\<lambda>o1.
        Option.bind (if dot then Option.bind (dopr_outch maxlen CHR ''.'' o1) (out_rev maxlen fv q) else Some o1) (\<lambda>o1.
        Option.bind (out_rep maxlen CHR ''0'' zp o1) (out_rep maxlen CHR '' '' (nat (- pad)))))))) =
    out_chars maxlen ((if z \<and> pad > 0 then sign_text sg @ replicate (nat (pad - sign_len sg)) CHR ''0''
        else replicate (nat pad) CHR '' '' @ sign_text sg) @ rev (take p iv) @
      (if dot then CHR ''.'' # rev (take q fv) else []) @ replicate zp CHR ''0'' @ replicate (nat (- pad)) CHR '' '') o1"
  by (cases z; cases "pad > 0"; cases dot) (simp_all add: out_rep_chars [abs_def] opt_outch_chars out_rev_chars [OF assms(1)] out_rev_chars [OF assms(2), abs_def] bind_assoc
      sign_text_def cong: bind_option_cong)

lemma fmtfp_chars:
  "fmtfp rnd maxlen fvalue mn mx flags o1 = Option.bind (fmtfp_text rnd fvalue mn mx flags) (\<lambda>t. out_chars maxlen t o1)"
proof -
  have mx: "(if m > 9 then 9 else m) = min m 9" for m :: int
    by simp
  have zs: "nat (max (m - int n) 0) = nat m - n" for m n
    by linarith
  have layout: "out_chars maxlen ((if z \<and> (if l then - max pad 0 else max pad 0) > 0
        then sg @ replicate (nat ((if l then - max pad 0 else max pad 0) - k)) CHR ''0''
        else replicate (nat (if l then - max pad 0 else max pad 0)) CHR '' '' @ sg) @ ids @ fds @ zeros @
        replicate (nat (- (if l then - max pad 0 else max pad 0))) CHR '' '') o1 =
      out_chars maxlen (if l \<or> pad \<le> 0 then sg @ (ids @ fds @ zeros) @ replicate (nat pad) CHR '' ''
        else if z then sg @ replicate (nat (pad - k)) CHR ''0'' @ ids @ fds @ zeros
        else replicate (nat pad) CHR '' '' @ sg @ ids @ fds @ zeros) o1" for z l sg ids fds zeros and pad k :: int
    by (cases l; cases z; cases "pad \<le> 0") (simp_all add: max_def del: out_chars_append)
  show ?thesis
    unfolding fmtfp_def fmtfp_text_def Let_def neg0 mx
    by (simp only: fmtfp_tail [OF conv_place_le conv_place_le] zs)
      (simp only: bind_assoc length_conv_text case_prod_beta' bind.bind_lunit conv_text_def [symmetric] layout)
qed

section \<open>Steps that only append a text\<close>

text \<open>
  A step \<open>f\<close> of the interpreter, given the size of the buffer, emits: without a buffer it produces some
  text, and with any buffer it is the same step with the same text written to that buffer.
\<close>

definition emits_at :: "(nat \<Rightarrow> dp \<Rightarrow> dp option) \<Rightarrow> dp \<Rightarrow> nat \<Rightarrow> bool" where
  "emits_at f d n \<longleftrightarrow> (\<forall>m0 d1. f m0 (d\<lparr>dp_out := (None, n)\<rparr>) = Some d1 \<longrightarrow>
     (\<exists>t. dp_out d1 = (None, n + length t) \<and>
       (\<forall>maxlen b. f maxlen (d\<lparr>dp_out := (b, n)\<rparr>) = map_option (\<lambda>o1. d1\<lparr>dp_out := o1\<rparr>) (out_chars maxlen t (b, n)))))"

definition emits :: "(nat \<Rightarrow> dp \<Rightarrow> dp option) \<Rightarrow> bool" where
  "emits f \<longleftrightarrow> (\<forall>d n. emits_at f d n)"

lemma emits_atD:
  assumes "emits_at f d n" "f m0 (d\<lparr>dp_out := (None, n)\<rparr>) = Some d1"
  obtains t where "dp_out d1 = (None, n + length t)"
    "\<And>maxlen b. f maxlen (d\<lparr>dp_out := (b, n)\<rparr>) = map_option (\<lambda>o1. d1\<lparr>dp_out := o1\<rparr>) (out_chars maxlen t (b, n))"
  using assms unfolding emits_at_def by blast

lemma emitsI:
  assumes "\<And>m d b n. f m (d\<lparr>dp_out := (b, n)\<rparr>) =
    Option.bind (g n d) (\<lambda>(t, d'). map_option (\<lambda>o1. d'\<lparr>dp_out := o1\<rparr>) (out_chars m t (b, n)))"
  shows "emits f"
  unfolding emits_def emits_at_def
proof (intro allI impI)
  fix d n m0 d1
  assume "f m0 (d\<lparr>dp_out := (None, n)\<rparr>) = Some d1"
  then obtain t d' where g: "g n d = Some (t, d')" "d1 = d'\<lparr>dp_out := (None, n + length t)\<rparr>"
    by (auto simp: assms elim!: bind_SomeE)
  have "dp_out d1 = (None, n + length t)" using g(2) by simp
  moreover have "f maxlen (d\<lparr>dp_out := (b, n)\<rparr>) = map_option (\<lambda>o1. d1\<lparr>dp_out := o1\<rparr>) (out_chars maxlen t (b, n))"
    for maxlen b by (simp add: assms g option.map_comp comp_def)
  ultimately show "\<exists>t. dp_out d1 = (None, n + length t) \<and> (\<forall>maxlen b. f maxlen (d\<lparr>dp_out := (b, n)\<rparr>) =
      map_option (\<lambda>o1. d1\<lparr>dp_out := o1\<rparr>) (out_chars maxlen t (b, n)))" by blast
qed

lemma out_chars_snd: "out_chars maxlen t (b, n) = Some o1 \<Longrightarrow> snd o1 = n + length t"
  by (induction t arbitrary: b n) (auto simp: dopr_outch_def split: option.splits if_splits)

lemma emits_at_bind:
  assumes f: "emits_at f d n"
    and g: "\<And>m0 d1 n1. f m0 (d\<lparr>dp_out := (None, n)\<rparr>) = Some d1 \<Longrightarrow> emits_at g d1 n1"
  shows "emits_at (\<lambda>m d. Option.bind (f m d) (g m)) d n"
  unfolding emits_at_def
proof (intro allI impI)
  fix m0 d2
  assume "Option.bind (f m0 (d\<lparr>dp_out := (None, n)\<rparr>)) (g m0) = Some d2"
  then obtain d1 where d1: "f m0 (d\<lparr>dp_out := (None, n)\<rparr>) = Some d1" "g m0 d1 = Some d2"
    by (auto elim!: bind_SomeE)
  obtain t where t: "dp_out d1 = (None, n + length t)"
    "\<And>m b. f m (d\<lparr>dp_out := (b, n)\<rparr>) = map_option (\<lambda>o1. d1\<lparr>dp_out := o1\<rparr>) (out_chars m t (b, n))"
    using emits_atD [OF f d1(1)] by blast
  have "d1\<lparr>dp_out := (None, n + length t)\<rparr> = d1"
    using t(1) by simp
  then have "g m0 (d1\<lparr>dp_out := (None, n + length t)\<rparr>) = Some d2"
    using d1(2) by simp
  then obtain u where u: "dp_out d2 = (None, n + length t + length u)"
    "\<And>m b. g m (d1\<lparr>dp_out := (b, n + length t)\<rparr>) = map_option (\<lambda>o1. d2\<lparr>dp_out := o1\<rparr>) (out_chars m u (b, n + length t))"
    using emits_atD [OF g [OF d1(1)]] by blast
  have "Option.bind (f m (d\<lparr>dp_out := (b, n)\<rparr>)) (g m) = map_option (\<lambda>o1. d2\<lparr>dp_out := o1\<rparr>) (out_chars m (t @ u) (b, n))" for m b
  proof (cases "out_chars m t (b, n)")
    case (Some o1)
    then obtain b' where "o1 = (b', n + length t)"
      using out_chars_snd [OF Some] by (cases o1) simp
    with Some show ?thesis
      by (simp add: t(2) u(2))
  qed (simp add: t(2))
  moreover have "dp_out d2 = (None, n + length (t @ u))" using u(1) by simp
  ultimately show "\<exists>t. dp_out d2 = (None, n + length t) \<and> (\<forall>m b. Option.bind (f m (d\<lparr>dp_out := (b, n)\<rparr>)) (g m) =
      map_option (\<lambda>o1. d2\<lparr>dp_out := o1\<rparr>) (out_chars m t (b, n)))" by blast
qed

lemma emits_bind: "emits f \<Longrightarrow> emits g \<Longrightarrow> emits (\<lambda>m d. Option.bind (f m d) (g m))"
  unfolding emits_def by (blast intro: emits_at_bind)

lemma emits_if:
  assumes "emits f" "emits g" "\<And>d x. c (d\<lparr>dp_out := x\<rparr>) = c d"
  shows "emits (\<lambda>m d. if c d then f m d else g m d)"
  using assms by (auto simp: emits_def emits_at_def)

text \<open>A step that does not look at the buffer.\<close>

lemma emits_silent:
  assumes "\<And>d x. f (d\<lparr>dp_out := x\<rparr>) = map_option (\<lambda>d. d\<lparr>dp_out := x\<rparr>) (f d)"
  shows "emits (\<lambda>_. f)"
  by (rule emitsI [where g = "\<lambda>_ d. map_option (Pair []) (f d)"])
    (auto simp: assms bind_map_option comp_def map_conv_bind_option split: option.splits)

lemma emits_arg:
  assumes rda: "\<And>d x. rda (d\<lparr>dp_out := x\<rparr>) = map_option (\<lambda>(v, d). (v, d\<lparr>dp_out := x\<rparr>)) (rda d)"
    and tx: "\<And>v d x. tx v (d\<lparr>dp_out := x\<rparr>) = tx v d"
  shows "emits (\<lambda>m d. Option.bind (rda d) (\<lambda>(v, d). set_out d (Option.bind (tx v d) (\<lambda>t. out_chars m t (dp_out d)))))"
  by (rule emitsI [where g = "\<lambda>_ d. Option.bind (rda d) (\<lambda>(v, d). map_option (\<lambda>t. (t, d)) (tx v d))"])
    (auto simp: rda tx set_out_def bind_map_option comp_def split: option.splits split: bind_splits)

section \<open>The interpreter emits\<close>

text \<open>An update of the output commutes with the others.\<close>

lemma out_swap:
  "d\<lparr>dp_out := x, dp_flags := f\<rparr> = d\<lparr>dp_flags := f, dp_out := x\<rparr>"
  "d\<lparr>dp_out := x, dp_cflags := cf\<rparr> = d\<lparr>dp_cflags := cf, dp_out := x\<rparr>"
  "d\<lparr>dp_out := x, dp_min := k\<rparr> = d\<lparr>dp_min := k, dp_out := x\<rparr>"
  "d\<lparr>dp_out := x, dp_max := k\<rparr> = d\<lparr>dp_max := k, dp_out := x\<rparr>"
  "d\<lparr>dp_out := x, dp_ch := c\<rparr> = d\<lparr>dp_ch := c, dp_out := x\<rparr>"
  "d\<lparr>dp_out := x, dp_format := cs\<rparr> = d\<lparr>dp_format := cs, dp_out := x\<rparr>"
  "d\<lparr>dp_out := x, dp_args := as\<rparr> = d\<lparr>dp_args := as, dp_out := x\<rparr>"
  "d\<lparr>dp_out := x, dp_state := st\<rparr> = d\<lparr>dp_state := st, dp_out := x\<rparr>"
  by simp_all

lemma next_ch_out: "next_ch (d\<lparr>dp_out := x\<rparr>) = map_option (\<lambda>d. d\<lparr>dp_out := x\<rparr>) (next_ch d)"
  by (simp add: next_ch_def split: list.splits)

lemma va_out:
  "va_int (d\<lparr>dp_out := x\<rparr>) = map_option (\<lambda>(v, d). (v, d\<lparr>dp_out := x\<rparr>)) (va_int d)"
  "va_long (d\<lparr>dp_out := x\<rparr>) = map_option (\<lambda>(v, d). (v, d\<lparr>dp_out := x\<rparr>)) (va_long d)"
  "va_ptr (d\<lparr>dp_out := x\<rparr>) = map_option (\<lambda>(v, d). (v, d\<lparr>dp_out := x\<rparr>)) (va_ptr d)"
  "va_str (d\<lparr>dp_out := x\<rparr>) = map_option (\<lambda>(v, d). (v, d\<lparr>dp_out := x\<rparr>)) (va_str d)"
  "va_fp (d\<lparr>dp_out := x\<rparr>) = map_option (\<lambda>(v, d). (v, d\<lparr>dp_out := x\<rparr>)) (va_fp d)"
  by (simp_all add: va_int_def va_long_def va_ptr_def va_str_def va_fp_def split: list.splits va.splits)

lemma conv_out:
  "conv_signed (d\<lparr>dp_out := x\<rparr>) = map_option (\<lambda>(v, d). (v, d\<lparr>dp_out := x\<rparr>)) (conv_signed d)"
  "conv_unsigned (d\<lparr>dp_out := x\<rparr>) = map_option (\<lambda>(v, d). (v, d\<lparr>dp_out := x\<rparr>)) (conv_unsigned d)"
  by (auto simp: conv_signed_def conv_unsigned_def va_out option.map_comp comp_def split_def split: dp_cflags.splits)

lemmas out_commute = next_ch_out va_out conv_out

lemma emits_char: "(\<And>d x. c (d\<lparr>dp_out := x\<rparr>) = c d) \<Longrightarrow> emits (\<lambda>m d. set_out d (dopr_outch m (c d) (dp_out d)))"
  using emits_arg [of "\<lambda>d. Some ((), d)" "\<lambda>_ d. Some [c d]"] by (simp add: out_chars_Nil)

lemma emits_store: "emits (\<lambda>_ d. Option.bind (va_ptr d) (\<lambda>(p, d). Some (d\<lparr>dp_stores := dp_stores d @ [(p, conv_stored d)]\<rparr>)))"
  by (rule emitsI [where g = "\<lambda>n d. Option.bind (va_ptr d) (\<lambda>(p, d).
        Some ([], d\<lparr>dp_stores := dp_stores d @ [(p, conv_stored (d\<lparr>dp_out := (None, n)\<rparr>))]\<rparr>))"])
    (auto simp: va_out conv_stored_def bind_map_option comp_def split: dp_cflags.splits bind_splits)

lemma emits_conv: "emits (dopr_conv rnd)"
proof -
  have signed: "emits (\<lambda>m d. Option.bind (conv_signed d) (\<lambda>(v, d).
      set_out d (fmtint m v 10 (dp_min d) (dp_max d) (dp_flags d) (dp_out d))))"
    unfolding fmtint_chars by (rule emits_arg) (simp_all add: conv_out)
  have unsigned: "emits (\<lambda>m d. Option.bind (conv_unsigned (h d)) (\<lambda>(v, d').
      set_out d' (fmtint m v (base (dp_ch d)) (dp_min d') (dp_max d') (dp_flags d') (dp_out d'))))"
    if "\<And>d x. h (d\<lparr>dp_out := x\<rparr>) = (h d)\<lparr>dp_out := x\<rparr>" for base h
  proof -
    let ?rda = "\<lambda>d. map_option (\<lambda>(v, d'). ((base (dp_ch d), v), d')) (conv_unsigned (h d))"
    have "emits (\<lambda>m d. Option.bind (?rda d) (\<lambda>(v, d'). set_out d'
        (fmtint m (snd v) (fst v) (dp_min d') (dp_max d') (dp_flags d') (dp_out d'))))"
      unfolding fmtint_chars
    proof (rule emits_arg)
      show "?rda (d\<lparr>dp_out := x\<rparr>) = map_option (\<lambda>(v, d). (v, d\<lparr>dp_out := x\<rparr>)) (?rda d)" for d x
        by (cases "conv_unsigned (h d)") (auto simp: that conv_out)
    qed simp
    then show ?thesis
      by (simp add: bind_map_option comp_def split_def)
  qed
  have fp: "emits (\<lambda>m d. Option.bind (va_fp d) (\<lambda>(v, d).
      set_out d (fmtfp rnd m v (dp_min d) (dp_max d) (dp_flags d) (dp_out d))))"
    unfolding fmtfp_chars by (rule emits_arg) (simp_all add: va_out)
  have char: "emits (\<lambda>m d. Option.bind (va_int d) (\<lambda>(w, d). set_out d (dopr_outch m (char_of (unat w)) (dp_out d))))"
    using emits_arg [of va_int "\<lambda>w _. Some [char_of (unat w)]"] by (simp add: va_out out_chars_Nil)
  have str: "emits (\<lambda>m d. Option.bind (va_str d) (\<lambda>(v, d). let d = (if dp_max d < 0 then d\<lparr>dp_max := INT_MAX\<rparr> else d) in
      set_out d (fmtstr m v (dp_flags d) (dp_min d) (dp_max d) (dp_out d))))"
  proof -
    let ?h = "\<lambda>d. if dp_max d < 0 then d\<lparr>dp_max := INT_MAX\<rparr> else d"
    have "emits (\<lambda>m d. Option.bind (map_option (\<lambda>(v, d). (v, ?h d)) (va_str d)) (\<lambda>(v, d).
        set_out d (fmtstr m v (dp_flags d) (dp_min d) (dp_max d) (dp_out d))))"
      unfolding fmtstr_chars
    proof (rule emits_arg)
      show "map_option (\<lambda>(v, d). (v, ?h d)) (va_str (d\<lparr>dp_out := x\<rparr>)) =
          map_option (\<lambda>(v, d). (v, d\<lparr>dp_out := x\<rparr>)) (map_option (\<lambda>(v, d). (v, ?h d)) (va_str d))" for d x
        by (cases "va_str d") (auto simp: va_out)
    qed simp
    then show ?thesis
      by (simp add: bind_map_option comp_def split_def Let_def)
  qed
  have ptr: "emits (\<lambda>m d. Option.bind (va_ptr d) (\<lambda>(p, d).
      set_out d (fmtint m (of_nat p) 16 (dp_min d) (dp_max d) (dp_flags d) (dp_out d))))"
    unfolding fmtint_chars by (rule emits_arg) (simp_all add: va_out)
  show ?thesis
    unfolding dopr_conv_def [abs_def] Let_def
    by (intro emits_if signed fp char str [unfolded Let_def] ptr emits_store emits_silent emits_char unsigned)
      (auto simp: out_commute option.map_comp comp_def split_def out_swap)
qed

lemma emits_mod: "emits (\<lambda>_ d. map_option (\<lambda>d. d\<lparr>dp_state := DP_S_CONV\<rparr>) (dopr_mod d))"
  by (rule emits_silent) (auto simp: dopr_mod_def Let_def next_ch_def split: list.splits)

lemma emits_step: "emits (dopr_step rnd)"
proof -
  have split: "dopr_step rnd = (\<lambda>m d.
      if dp_state d = DP_S_DEFAULT then
        (if dp_ch d = CHR ''%'' then next_ch (d\<lparr>dp_state := DP_S_FLAGS\<rparr>)
         else Option.bind (set_out d (dopr_outch m (dp_ch d) (dp_out d))) next_ch)
      else if dp_state d = DP_S_MOD then map_option (\<lambda>d. d\<lparr>dp_state := DP_S_CONV\<rparr>) (dopr_mod d)
      else if dp_state d = DP_S_CONV then Option.bind (dopr_conv rnd m d) (\<lambda>d. map_option (\<lambda>d.
        d\<lparr>dp_state := DP_S_DEFAULT, dp_flags := 0, dp_cflags := DP_C_NONE, dp_min := 0, dp_max := -1\<rparr>) (next_ch d))
      else if dp_state d \<in> {DP_S_DEFAULT, DP_S_MOD, DP_S_CONV} then Some d else dopr_step rnd 0 d)"
    by (rule ext)+ (auto simp: dopr_step_def Let_def map_conv_bind_option comp_def split: dp_state.splits)
  have quiet: "emits (\<lambda>_ d. if dp_state d \<in> {DP_S_DEFAULT, DP_S_MOD, DP_S_CONV} then Some d else dopr_step rnd 0 d)"
  proof (rule emits_silent)
    have bind: "map_option f (Option.bind m g) = Option.bind m (\<lambda>x. map_option f (g x))"
      for f :: "dp \<Rightarrow> dp" and m :: "'b option" and g
      by (cases m) simp_all
    show "(if dp_state (d\<lparr>dp_out := x\<rparr>) \<in> {DP_S_DEFAULT, DP_S_MOD, DP_S_CONV} then Some (d\<lparr>dp_out := x\<rparr>)
        else dopr_step rnd 0 (d\<lparr>dp_out := x\<rparr>)) = map_option (\<lambda>d. d\<lparr>dp_out := x\<rparr>)
        (if dp_state d \<in> {DP_S_DEFAULT, DP_S_MOD, DP_S_CONV} then Some d else dopr_step rnd 0 d)" for d x
      by (cases "dp_state d"; cases "flag_of (dp_ch d)"; cases "va_int d")
        (auto simp: dopr_step_def Let_def out_swap next_ch_out va_out bind)
  qed
  show ?thesis
    by (subst split, rule emits_if [OF _ emits_if [OF emits_mod emits_if [OF _ quiet]]])
      ((intro emits_if emits_bind emits_conv emits_silent emits_char;
        simp add: next_ch_out option.map_comp comp_def out_swap)+, simp_all)
qed

lemma emits_loop: "emits (dopr_loop rnd)"
  unfolding emits_def
proof (intro allI)
  fix d n
  show "emits_at (dopr_loop rnd) d n"
  proof (induction "dp_measure d" arbitrary: d n rule: less_induct)
    case (less d n)
    show ?case
    proof (cases "dp_state d = DP_S_DONE")
      case True
      then show ?thesis
        unfolding emits_at_def by (auto simp: dopr_loop.simps intro!: exI [of _ "[]"])
    next
      case False
      define e where "e = (if dp_ch d = NUL then d\<lparr>dp_state := DP_S_DONE\<rparr> else d)"
      have loop: "dopr_loop rnd m (d\<lparr>dp_out := x\<rparr>) = Option.bind (dopr_step rnd m (e\<lparr>dp_out := x\<rparr>)) (dopr_loop rnd m)" for m x
        using False by (subst dopr_loop.simps) (auto simp: e_def out_swap split: option.splits)
      have "dp_measure d1 < dp_measure d" if "dopr_step rnd m0 (e\<lparr>dp_out := (None, n)\<rparr>) = Some d1" for m0 d1
        using dopr_step_measure [OF that] that False state_rank_pos [OF False]
        by (auto simp: e_def dp_measure_def dopr_step_def split: if_splits)
      then have "emits_at (\<lambda>m d. Option.bind (dopr_step rnd m d) (dopr_loop rnd m)) e n"
        using emits_step less.hyps by (intro emits_at_bind) (auto simp: emits_def)
      then show ?thesis
        by (simp add: emits_at_def loop)
    qed
  qed
qed

section \<open>The buffer holds the beginning of the text\<close>

lemma dopr_text:
  assumes "dopr rnd None SIZE_MAX fmt args = Some (n, r)"
  shows "\<exists>text stores rest. n = min (length text) (SIZE_MAX - 1) \<and> r = (None, stores, rest) \<and>
    (\<forall>b cnt. 0 < cnt \<longrightarrow> cnt \<le> length b \<longrightarrow> dopr rnd (Some b) cnt fmt args =
      Some (min (length text) (cnt - 1), Some (take (cnt - 1) text @ NUL # drop (Suc (min (length text) (cnt - 1))) b), stores, rest))"
proof -
  define d0 where "d0 = \<lparr>dp_ch = NUL, dp_format = fmt, dp_args = args, dp_state = DP_S_DEFAULT, dp_flags = 0,
       dp_cflags = DP_C_NONE, dp_min = 0, dp_max = -1, dp_out = (None, 0), dp_stores = []\<rparr>"
  have start: "\<lparr>dp_ch = NUL, dp_format = fmt, dp_args = args, dp_state = DP_S_DEFAULT, dp_flags = 0,
       dp_cflags = DP_C_NONE, dp_min = 0, dp_max = -1, dp_out = x, dp_stores = []\<rparr> = d0\<lparr>dp_out := x\<rparr>" for x
    by (simp add: d0_def)
  obtain d1 d2 where d: "next_ch d0 = Some d1" "dopr_loop rnd SIZE_MAX (d1\<lparr>dp_out := (None, 0)\<rparr>) = Some d2"
    using assms unfolding dopr_def start by (auto simp: next_ch_out elim!: bind_SomeE)
  obtain t where t: "dp_out d2 = (None, length t)"
    "\<And>m b. dopr_loop rnd m (d1\<lparr>dp_out := (b, 0)\<rparr>) = map_option (\<lambda>o1. d2\<lparr>dp_out := o1\<rparr>) (out_chars m t (b, 0))"
    using emits_atD [OF emits_loop [unfolded emits_def, rule_format] d(2)] by auto
  have max: "SIZE_MAX \<noteq> 0" by (simp add: SIZE_MAX_def)
  have "n = min (length t) (SIZE_MAX - 1)" "r = (None, dp_stores d2, dp_args d2)"
    using assms d t(1) max unfolding dopr_def start by (auto simp: next_ch_out size_pred_def min_def split: if_splits)
  moreover have "dopr rnd (Some b) cnt fmt args = Some (min (length t) (cnt - 1),
      Some (take (cnt - 1) t @ NUL # drop (Suc (min (length t) (cnt - 1))) b), dp_stores d2, dp_args d2)"
    if cnt: "0 < cnt" "cnt \<le> length b" for b cnt
  proof -
    let ?k = "min (length t) (cnt - 1)" and ?b = "take cnt t @ drop (length (take cnt t)) b"
    have "out_chars cnt t (Some b, 0) = Some (Some ?b, length t)"
      using out_chars_buffer [OF cnt(2), of t 0] by simp
    moreover have "(if length t \<ge> size_pred cnt then size_pred cnt else length t) = ?k"
      using cnt(1) by (simp add: size_pred_def min_def)
    moreover have "?b[?k := NUL] = take (cnt - 1) t @ NUL # drop (Suc ?k) b"
      using cnt by (intro nth_equalityI) (auto simp: nth_append nth_list_update min_def nth_Cons' split: if_splits)
    moreover have "?k < length ?b" using cnt by auto
    ultimately show ?thesis
      using d(1) t(2) unfolding dopr_def start by (simp add: next_ch_out Let_def)
  qed
  ultimately show ?thesis by blast
qed

section \<open>The digits of a number\<close>

definition digit_val :: "char \<Rightarrow> nat" where
  "digit_val c = (let k = of_char c in if k \<ge> 97 then k - 87 else if k \<ge> 65 then k - 55 else k - 48)"

text \<open>The number a sequence of digits denotes, the most significant digit first.\<close>

definition num_value :: "nat \<Rightarrow> string \<Rightarrow> nat" where
  "num_value base cs = foldl (\<lambda>v c. v * base + digit_val c) 0 cs"

lemma digit_val_char: "d < 16 \<Longrightarrow> digit_val (digit_char caps d) = d"
  by (cases caps) (auto simp: digit_val_def digit_char_def less_Suc_eq numeral_eq_Suc nth_Cons' Let_def)

lemma num_value_snoc [simp]: "num_value base (cs @ [c]) = num_value base cs * base + digit_val c"
  by (simp add: num_value_def)

lemma conv_loop_digits:
  assumes "2 \<le> base" "base \<le> 16" "length acc < 20"
  shows "\<exists>ds. conv_loop caps base u acc = acc @ ds \<and> 0 < length ds \<and> length ds \<le> 20 - length acc \<and>
    (\<forall>k \<le> length ds. num_value base (rev (take k ds)) = u mod base ^ k) \<and>
    (length ds < 20 - length acc \<longrightarrow> u < base ^ length ds) \<and> (1 < length ds \<longrightarrow> base ^ (length ds - 1) \<le> u)"
  using assms
proof (induction caps base u acc rule: conv_loop.induct)
  case (1 caps base u acc)
  let ?c = "digit_char caps (u mod base)"
  have b: "0 < base" "u mod base < 16"
    using 1(2,3) by (auto intro: less_le_trans [OF mod_less_divisor])
  have digit: "digit_val ?c = u mod base"
    using b(2) by (rule digit_val_char)
  show ?case
  proof (cases "u div base \<noteq> 0 \<and> length (acc @ [?c]) < 20")
    case True
    then obtain ds where ds: "conv_loop caps base (u div base) (acc @ [?c]) = (acc @ [?c]) @ ds" "0 < length ds"
      "length ds \<le> 20 - length (acc @ [?c])" "\<And>k. k \<le> length ds \<Longrightarrow> num_value base (rev (take k ds)) = u div base mod base ^ k"
      "length ds < 20 - length (acc @ [?c]) \<longrightarrow> u div base < base ^ length ds"
      "1 < length ds \<longrightarrow> base ^ (length ds - 1) \<le> u div base"
      using 1(1) [OF refl refl True 1(2,3)] by auto
    have "num_value base (rev (take k (?c # ds))) = u mod base ^ k" if "k \<le> Suc (length ds)" for k
      using that ds(4) digit by (cases k) (simp_all add: mod_mult2_eq num_value_def [of _ "[]"] mult.commute)
    moreover have "u < base ^ Suc (length ds)" if "u div base < base ^ length ds"
      using that b(1) by (simp add: less_mult_imp_div_less mult.commute div_less_iff_less_mult)
    moreover have "base ^ length ds \<le> u"
    proof -
      have "base ^ (length ds - 1) \<le> u div base"
        using ds(2,6) True by (cases "length ds = 1") (auto simp: Suc_lessI)
      then have "base ^ (length ds - 1) * base \<le> u"
        using b(1) by (simp add: less_eq_div_iff_mult_less_eq)
      then show ?thesis
        using ds(2) by (cases "length ds") (simp_all add: mult.commute)
    qed
    ultimately show ?thesis
      using True ds(1-3,5) by (subst conv_loop.simps) (auto simp: Let_def intro!: exI [of _ "?c # ds"])
  next
    case False
    have "num_value base (rev (take k [?c])) = u mod base ^ k" if "k \<le> 1" for k
      using that digit by (cases k) (simp_all add: num_value_def)
    moreover have "u < base" if "u div base = 0"
      using that b(1) by (simp add: div_eq_0_iff)
    ultimately show ?thesis
      using False 1(4) by (subst conv_loop.simps) (auto simp: Let_def intro!: exI [of _ "[?c]"])
  qed
qed

lemma conv_loop_set:
  "2 \<le> base \<Longrightarrow> base \<le> 16 \<Longrightarrow> set (conv_loop caps base u acc) \<subseteq> set acc \<union> digit_char caps ` {..<16}"
proof (induction caps base u acc rule: conv_loop.induct)
  case (1 caps base u acc)
  have "u mod base < 16"
    using 1(2,3) by (auto intro: less_le_trans [OF mod_less_divisor])
  then have c: "digit_char caps (u mod base) \<in> digit_char caps ` {..<16}"
    by simp
  show ?case
  proof (cases "u div base \<noteq> 0 \<and> length (acc @ [digit_char caps (u mod base)]) < 20")
    case True
    then show ?thesis
      using 1(1) [OF refl refl True 1(2,3)] c by (subst conv_loop.simps) (auto simp: Let_def)
  next
    case False
    then show ?thesis
      using c by (subst conv_loop.simps) (auto simp: Let_def)
  qed
qed

lemma conv_text_value:
  assumes "2 \<le> base" "base \<le> 16"
  shows "num_value base (conv_text caps base u) = u mod base ^ 19" "0 < length (conv_text caps base u)"
    "length (conv_text caps base u) \<le> 19"
    "1 < length (conv_text caps base u) \<Longrightarrow> base ^ (length (conv_text caps base u) - 1) \<le> u"
proof -
  obtain ds where ds: "conv_loop caps base u [] = ds" "0 < length ds" "length ds \<le> 20"
    "\<And>k. k \<le> length ds \<Longrightarrow> num_value base (rev (take k ds)) = u mod base ^ k"
    "length ds < 20 \<longrightarrow> u < base ^ length ds" "1 < length ds \<longrightarrow> base ^ (length ds - 1) \<le> u"
    using conv_loop_digits [OF assms, of "[]" caps u] by auto
  show "num_value base (conv_text caps base u) = u mod base ^ 19"
  proof (cases "length ds = 20")
    case True
    then show ?thesis
      using ds(4) [of 19] by (simp add: conv_text_def ds(1) conv_place_def)
  next
    case False
    then have "u < base ^ length ds" "length ds \<le> 19"
      using ds(3,5) by auto
    moreover have "base ^ length ds \<le> base ^ 19"
      using calculation(2) assms(1) by (intro power_increasing) auto
    ultimately show ?thesis
      using False ds(4) [of "length ds"] by (simp add: conv_text_def ds(1) conv_place_def)
  qed
  show "0 < length (conv_text caps base u)" "length (conv_text caps base u) \<le> 19"
    using ds(2,3) by (auto simp: length_conv_text ds(1) conv_place_def)
  show "base ^ (length (conv_text caps base u) - 1) \<le> u" if "1 < length (conv_text caps base u)"
  proof -
    have "base ^ (length (conv_text caps base u) - 1) \<le> base ^ (length ds - 1)"
      using assms(1) by (intro power_increasing) (auto simp: length_conv_text ds(1) conv_place_def)
    moreover have "1 < length ds"
      using that by (auto simp: length_conv_text ds(1) conv_place_def split: if_splits)
    ultimately show ?thesis
      using ds(6) by auto
  qed
qed

section \<open>Properties\<close>

text \<open>
  C21: \<^verbatim>\<open>pth_vsnprintf\<close> is safe and its text does not depend on the buffer. For a format and arguments it can
  interpret at all, there is one text such that every buffer of at least \<open>cnt > 0\<close> bytes ends up with the
  first \<open>cnt - 1\<close> characters of it and a terminating zero, its other bytes untouched; the result is
  the length written, not that of the full text.
\<close>

theorem pth_vsnprintf_bounded:
  assumes "pth_vsnprintf rnd None SIZE_MAX fmt args = Some (n, r)"
  shows "\<exists>txt0 stores rest. n = to_c_int (int (min (length txt0) (SIZE_MAX - 1))) \<and> r = (None, stores, rest) \<and>
    (\<forall>b cnt. 0 < cnt \<longrightarrow> cnt \<le> length b \<longrightarrow> pth_vsnprintf rnd (Some b) cnt fmt args =
      Some (to_c_int (int (min (length txt0) (cnt - 1))),
        Some (take (cnt - 1) txt0 @ NUL # drop (Suc (min (length txt0) (cnt - 1))) b), stores, rest))"
proof -
  obtain k where k: "dopr rnd None SIZE_MAX fmt args = Some (k, r)" "n = to_c_int (int k)"
    using assms by (auto simp: pth_vsnprintf_def elim!: bind_SomeE)
  obtain txt0 stores rest where t: "k = min (length txt0) (SIZE_MAX - 1)" "r = (None, stores, rest)"
    "\<And>b cnt. 0 < cnt \<Longrightarrow> cnt \<le> length b \<Longrightarrow> dopr rnd (Some b) cnt fmt args =
      Some (min (length txt0) (cnt - 1), Some (take (cnt - 1) txt0 @ NUL # drop (Suc (min (length txt0) (cnt - 1))) b), stores, rest)"
    using dopr_text [OF k(1)] by blast
  have "pth_vsnprintf rnd (Some b) cnt fmt args = Some (to_c_int (int (min (length txt0) (cnt - 1))),
      Some (take (cnt - 1) txt0 @ NUL # drop (Suc (min (length txt0) (cnt - 1))) b), stores, rest)"
    if "0 < cnt" "cnt \<le> length b" for b cnt
    using that t(3) [of cnt "b[0 := NUL]"] by (auto simp: pth_vsnprintf_def)
  then show ?thesis
    using k(2) t(1,2) by blast
qed

lemmas dopr_eval = dopr_def dopr_loop.simps dopr_step_def next_ch_def set_out_def dopr_outch_def flag_of_def
  is_digit_def dopr_mod_def dopr_conv_def Let_def

theorem pth_vsnprintf_bounded_witness:
  "\<exists>text. pth_vsnprintf id (Some ''????????'') 3 (''ab%cd'' @ [NUL]) [VaInt 88] =
     Some (to_c_int (int (min (length text) 2)), Some (take 2 text @ NUL # drop (Suc (min (length text) 2)) ''????????''), [], [])"
proof -
  have "pth_vsnprintf id None SIZE_MAX (''ab%cd'' @ [NUL]) [VaInt 88] = Some (4, None, [], [])"
    by (simp add: pth_vsnprintf_def dopr_eval va_int_def size_pred_def SIZE_MAX_def to_c_int_def)
  from pth_vsnprintf_bounded [OF this] show ?thesis
    by auto
qed



text \<open>The integer a decimal numeral with an optional minus sign denotes.\<close>

definition read_long :: "string \<Rightarrow> int" where
  "read_long cs = (case cs of
     c # ds \<Rightarrow> if c = CHR ''-'' then - int (num_value 10 ds) else int (num_value 10 cs)
   | [] \<Rightarrow> 0)"

lemma fmt_sign_abs:
  assumes "sint w \<noteq> - (2 ^ 63)"
  shows "fmt_sign w 0 = Some (if sint w < 0 then Some CHR ''-'' else None, nat \<bar>sint w\<bar>)"
proof -
  have unat: "unat (word_of_int x :: 64 word) = nat x" if "0 \<le> x" "x < 2 ^ 64" for x
    using that by (simp add: unat_eq_nat_uint uint_word_of_int)
  have "unat w = nat (sint w)" if "0 \<le> sint w"
    using unat [OF that] sint_lt [of w] by simp
  moreover have "unat (- w) = nat (- sint w)" if "sint w < 0"
    using unat [of "- sint w"] that sint_ge [of w] by simp
  ultimately show ?thesis
    using assms by (simp add: fmt_sign_def flag_def)
qed

lemma fmtint_long_text:
  assumes "sint w \<noteq> - (2 ^ 63)"
  shows "\<exists>t. fmtint_text w 10 0 (-1) 0 = Some t \<and> length t \<le> 20 \<and> read_long t = sint (w :: 64 word)"
proof -
  let ?sg = "if sint w < 0 then Some CHR ''-'' else None"
  define u where "u = nat \<bar>sint w\<bar>"
  let ?ds = "conv_text False 10 u"
  note ds = conv_text_value [of 10 False u]
  have "u < 10 ^ 19"
    using sint_lt [of w] sint_ge [of w] by (simp add: u_def)
  then have val: "int (num_value 10 ?ds) = \<bar>sint w\<bar>"
    using ds(1) by (simp add: u_def)
  have "fmtint_text w 10 0 (-1) 0 = Some (sign_text ?sg @ ?ds)"
    using ds(2,3) by (auto simp: fmtint_text_def fmt_sign_abs [OF assms, folded u_def] flag_def Let_def c_int_def INT_MAX_def sign_len_def)
  moreover have "digit_char False d \<noteq> CHR ''-''" if "d < 16" for d
    using that by (auto simp: digit_char_def less_Suc_eq numeral_eq_Suc nth_Cons')
  then have "hd ?ds \<noteq> CHR ''-''"
    using conv_loop_set [of 10 False u "[]"] hd_in_set [of ?ds] ds(2) by (auto simp: conv_text_def dest!: in_set_takeD)
  then have "read_long (sign_text ?sg @ ?ds) = sint w"
    using val ds(2) by (cases ?ds) (auto simp: read_long_def sign_text_def)
  moreover have "length (sign_text ?sg @ ?ds) \<le> 20"
    using ds(3) by (simp add: sign_text_def)
  ultimately show ?thesis by blast
qed

lemma vsnprintf_long:
  assumes "fmtint_text w 10 0 (-1) 0 = Some t" "length t < cnt" "cnt \<le> length b"
  shows "pth_vsnprintf rnd (Some b) cnt (''%ld'' @ [NUL]) [VaLong w] =
    Some (to_c_int (int (length t)), Some (t @ NUL # drop (Suc (length t)) b), [], [])"
proof -
  let ?b = "b[0 := NUL]"
  have b: "b \<noteq> []" "\<not> size_pred cnt < length t"
    using assms by (auto simp: size_pred_def)
  have out: "fmtint cnt w 10 0 (-1) 0 (Some ?b, 0) = Some (Some (t @ drop (length t) ?b), length t)"
    using out_chars_buffer [of cnt ?b t 0] assms by (simp add: fmtint_chars)
  have "size_pred cnt \<le> length t \<longleftrightarrow> cnt = Suc (length t)"
    using assms(2) by (auto simp: size_pred_def)
  moreover have "(t @ drop (length t) ?b)[length t := NUL] = t @ NUL # drop (Suc (length t)) b"
    using assms(2,3) by (simp add: list_update_append1 list_update_append Cons_nth_drop_Suc [symmetric])
  ultimately show ?thesis
    using b assms(2,3) by (auto simp: pth_vsnprintf_def dopr_eval conv_signed_def va_long_def out size_pred_def)
qed

text \<open>
  C23: what \<^verbatim>\<open>pth_snprintf\<close> prints for \<^verbatim>\<open>%ld\<close> reads back as the number, for every \<^verbatim>\<open>long\<close> but the least one
  (whose negation overflows) and every buffer of at least 21 bytes.
\<close>

theorem pth_snprintf_long_roundtrip:
  assumes "sint w \<noteq> - (2 ^ 63)" "20 < cnt" "cnt \<le> length b"
  shows "\<exists>t. pth_snprintf rnd (Some b) cnt (''%ld'' @ [NUL]) [VaLong w] =
      Some (int (length t), Some (t @ NUL # drop (Suc (length t)) b), []) \<and> read_long t = sint w"
proof -
  obtain t where t: "fmtint_text w 10 0 (-1) 0 = Some t" "length t \<le> 20" "read_long t = sint w"
    using fmtint_long_text [OF assms(1)] by blast
  have "to_c_int (int (length t)) = int (length t)"
    using t(2) by (intro to_c_int_id) auto
  then show ?thesis
    using vsnprintf_long [OF t(1), of cnt b rnd] t(2,3) assms(2,3) by (auto simp: pth_snprintf_def)
qed

theorem pth_snprintf_long_roundtrip_witness:
  "\<exists>t. pth_snprintf id (Some (replicate 30 NUL)) 30 (''%ld'' @ [NUL]) [VaLong (- 42)] =
     Some (int (length t), Some (t @ NUL # drop (Suc (length t)) (replicate 30 NUL)), []) \<and> read_long t = - 42"
  using pth_snprintf_long_roundtrip [of "- 42" 30 "replicate 30 NUL" id] by simp

text \<open>
  \<^verbatim>\<open>%f\<close> misplaces the zeros of the fraction. On a machine that computes exactly, the number with the integer
  part \<open>i\<close> and \<open>f\<close> millionths is printed as the digits of \<open>i\<close>, a point, the digits of \<open>f\<close>, and only then
  the zeros that fill six places: the fraction reads as \<open>f\<close> times the missing power of ten.
\<close>

theorem fmtfp_misplaces_zeros:
  assumes "0 \<le> i" "i < 10 ^ 18" "0 \<le> f" "f < 10 ^ 6"
  shows "\<exists>ds. (\<forall>maxlen o1. fmtfp id maxlen (of_int i + of_int f / 10 ^ 6) 0 (-1) 0 o1 =
      out_chars maxlen (conv_text False 10 (nat i) @ CHR ''.'' # ds @ replicate (6 - length ds) CHR ''0'') o1) \<and>
    num_value 10 ds = nat f \<and> (1 < length ds \<longrightarrow> 10 ^ (length ds - 1) \<le> nat f)"
proof -
  let ?x = "of_int i + of_int f / 10 ^ 6 :: rat" and ?ids = "conv_text False 10 (nat i)" and ?fds = "conv_text False 10 (nat f)"
  have pos: "0 \<le> ?x" "math_abs ?x = ?x"
    using assms by (simp_all add: math_abs_def)
  have "\<lfloor>?x\<rfloor> = i"
    using assms by (intro floor_unique) (simp_all add: field_simps flip: of_int_less_numeral_iff)
  then have i: "to_long ?x = Some i"
    using pos assms by (simp add: to_long_def c_long_def)
  have pow: "math_pow10 id 6 = 10 ^ 6"
    by (simp add: numeral_eq_Suc)
  have f: "math_round id (10 ^ 6 * (?x - of_int i)) = Some f"
    using assms by (simp add: math_round_def to_long_def c_long_def)
  have parts: "fp_parts id ?x 6 = Some (i, f)"
    using assms i f pow by (simp add: fp_parts_def)
  note ids = conv_text_value [of 10 False "nat i"] and fds = conv_text_value [of 10 False "nat f"]
  have "fmtfp_text id ?x 0 (-1) 0 = Some (?ids @ CHR ''.'' # ?fds @ replicate (6 - length ?fds) CHR ''0'')"
    using pos parts ids(3) by (simp add: fmtfp_text_def Let_def flag_def c_int_def INT_MAX_def sign_len_def sign_text_def not_less)
  moreover have "num_value 10 ?fds = nat f"
    using fds(1) assms by simp
  ultimately show ?thesis
    using fds(4) by (intro exI [of _ ?fds]) (auto simp: fmtfp_chars simp del: out_chars_append)
qed

theorem fmtfp_misplaces_zeros_witness:
  "\<exists>ds. fmtfp id 40 (105 / 100) 0 (-1) 0 (None, 0) = Some (None, 2 + length ds + (6 - length ds)) \<and> num_value 10 ds = 50000"
proof -
  obtain ds where "\<And>maxlen o1. fmtfp id maxlen (of_int 1 + of_int 50000 / 10 ^ 6) 0 (-1) 0 o1 =
      out_chars maxlen (conv_text False 10 (nat 1) @ CHR ''.'' # ds @ replicate (6 - length ds) CHR ''0'') o1"
    "num_value 10 ds = nat 50000"
    using fmtfp_misplaces_zeros [of 1 50000] by auto
  moreover have "conv_text False 10 1 = ''1''"
    by (simp add: conv_text_def conv_loop.simps conv_place_def digit_char_def)
  ultimately show ?thesis
    by (intro exI [of _ ds]) (simp del: out_chars_append out_chars.simps)
qed

section \<open>The names of spawned threads\<close>

lemma fmtint_text_total:
  assumes "fmt_sign val flags = Some (sg, u)" "2 \<le> base" "base \<le> 16" "0 \<le> mn" "mn \<le> INT_MAX" "mx \<le> 2 ^ 30"
  shows "\<exists>t. fmtint_text val base mn mx flags = Some t"
proof -
  define w where "w = max (max mx 0) (int (length (conv_text (flag flags DP_F_UP) base u)))"
  have "0 \<le> w" "w \<le> 2 ^ 30"
    using conv_text_value(3) [OF assms(2,3), of "flag flags DP_F_UP" u] assms(6) by (auto simp: w_def)
  moreover have "0 \<le> sign_len sg" "sign_len sg \<le> 1"
    by (auto simp: sign_len_def split: option.splits)
  ultimately show ?thesis
    using assms(1,4,5) by (simp add: fmtint_text_def Let_def c_int_def INT_MAX_def flip: w_def)
qed

text \<open>The format of the names \<^verbatim>\<open>pth_spawn\<close> gives to its threads.\<close>

lemma dopr_child:
  assumes "length nm \<le> nat INT_MAX"
  shows "\<exists>n. dopr rnd None SIZE_MAX (''%s.child@%d=0x%lx'' @ [NUL]) [VaStr (Some nm), VaInt w, VaLong l] = Some (n, None, [], [])"
proof -
  obtain t1 where "fmtstr_text (Some nm) 0 0 INT_MAX = Some t1"
    using assms by (auto simp: fmtstr_text_def Let_def c_int_def INT_MAX_def nat_le_iff)
  moreover have "sint (scast w :: 64 word) = sint w"
    using sint_lt [of w] sint_ge [of w] unfolding scast_eq
    by (simp only: signed_of_int) (simp add: signed_take_bit_int_eq_self)
  then have "fmt_sign (scast w) 0 \<noteq> None"
    using sint_ge [of w] by (simp add: fmt_sign_def flag_def)
  then obtain t2 where "fmtint_text (scast w) 10 0 (-1) 0 = Some t2"
    using fmtint_text_total [of "scast w" 0 _ _ 10 0 "-1"] by (auto simp: INT_MAX_def)
  moreover obtain t3 where "fmtint_text l 16 0 (-1) DP_F_UNSIGNED = Some t3"
    using fmtint_text_total [of l DP_F_UNSIGNED None "unat l" 16 0 "-1"]
    by (auto simp: INT_MAX_def fmt_sign_def flag_def DP_F_UNSIGNED_def)
  ultimately show ?thesis
    by (simp add: dopr_eval va_int_def va_long_def va_str_def conv_signed_def conv_unsigned_def fmtstr_chars fmtint_chars)
qed

lemma dopr_user: "\<exists>n. dopr rnd None SIZE_MAX (''user/%x'' @ [NUL]) [VaInt w] = Some (n, None, [], [])"
proof -
  obtain t where "fmtint_text (ucast w) 16 0 (-1) DP_F_UNSIGNED = Some t"
    using fmtint_text_total [of "ucast w" DP_F_UNSIGNED None "unat (ucast w :: 64 word)" 16 0 "-1"]
    by (auto simp: INT_MAX_def fmt_sign_def flag_def DP_F_UNSIGNED_def)
  then show ?thesis
    by (simp add: dopr_eval va_int_def conv_unsigned_def fmtint_chars)
qed

lemma pth_snprintf_fits:
  assumes "dopr rnd None SIZE_MAX fmt args = Some (n, None, stores, rest)" "0 < cnt" "cnt \<le> length b"
  shows "\<exists>k b'. pth_snprintf rnd (Some b) cnt fmt args = Some (k, Some b', stores) \<and> length b' = length b \<and> NUL \<in> set b'"
proof -
  let ?b = "b[0 := NUL]"
  obtain t where "dopr rnd (Some ?b) cnt fmt args = Some (min (length t) (cnt - 1),
      Some (take (cnt - 1) t @ NUL # drop (Suc (min (length t) (cnt - 1))) ?b), stores, rest)"
    using dopr_text [OF assms(1)] assms(2,3) by (auto simp: length_list_update)
  moreover have "length (take (cnt - 1) t @ NUL # drop (Suc (min (length t) (cnt - 1))) ?b) = length b"
    using assms(2,3) by (auto simp: min_def)
  ultimately show ?thesis
    using assms(2,3) by (auto simp: pth_snprintf_def pth_vsnprintf_def)
qed

end
