(* ===== verification/Pth_Tcb.thy ===== *)
theory Pth_Tcb
  imports Pth_Locks Pth_Attr Pth_Format
begin

text \<open>
  Thread control blocks (\<^verbatim>\<open>pth_tcb.c\<close>), the initial machine context of a thread (\<^verbatim>\<open>pth_mctx.c\<close>) and
  \<^verbatim>\<open>pth_spawn\<close> (\<^verbatim>\<open>pth_lib.c\<close>). A fresh control block has the contents \<open>junk E\<close>; the bytes of a
  stack are not modelled, only its address, its size and the guard word.
\<close>

section \<open>Control blocks\<close>

definition SIGSTKSZ :: "32 word" where "SIGSTKSZ = 8192"

definition STACK_GUARD :: int where "STACK_GUARD = 0xDEAD"

definition pth_tcb_alloc :: "env \<Rightarrow> 32 word \<Rightarrow> ptr \<Rightarrow> pth_state \<Rightarrow> ptr \<times> pth_state" where
  "pth_tcb_alloc E stacksize stackaddr s =
     (let stacksize = (if stacksize > 0 \<and> stacksize < SIGSTKSZ then SIGSTKSZ else stacksize);
          t = malloc E s
      in if t = NULL then (NULL, s\<lparr>errno := ENOMEM\<rparr>)
         else
           let c = (junk E)\<lparr>t_stacksize := stacksize, t_stack := NULL, t_stackguard := None,
                     t_stackloan := stackaddr \<noteq> NULL\<rparr>;
               fresh = (\<lambda>c. s\<lparr>rings := (rings s)(MutexRing t \<mapsto> junk_ring E), tcbs := (tcbs s)(t \<mapsto> c)\<rparr>)
           in if stacksize = 0 then (t, fresh c)
              else if stackaddr \<noteq> NULL then (t, fresh (c\<lparr>t_stack := stackaddr, t_stackguard := Some STACK_GUARD\<rparr>))
              else if stack_mem E s = NULL then (NULL, s\<lparr>errno := ENOMEM\<rparr>)
              else (t, fresh (c\<lparr>t_stack := stack_mem E s, t_stackguard := Some STACK_GUARD\<rparr>)))"

definition pth_tcb_free :: "env \<Rightarrow> ptr \<Rightarrow> pth_state \<Rightarrow> pth_state option" where
  "pth_tcb_free E t s =
     (if t = NULL then Some s
      else do {
        cleanups \<leftarrow> t_get t_cleanups t s;
        s \<leftarrow> (if cleanups \<noteq> [] then pth_cleanup_popall (app_call E) t False s else Some s);
        Some (s\<lparr>rings := (rings s)(MutexRing t := None), tcbs := (tcbs s)(t := None)\<rparr>) })"

section \<open>The initial machine context\<close>

text \<open>
  The context of thread \<open>t\<close> is part of its control block: nine saved registers (the fifth is the
  instruction pointer, the sixth the stack pointer, the last the floating point control words),
  the start routine and a signal mask.
\<close>

definition pth_mctx_set :: "ptr \<Rightarrow> ptr \<Rightarrow> ptr \<Rightarrow> ptr \<Rightarrow> pth_state \<Rightarrow> (bool \<times> pth_state) option" where
  "pth_mctx_set t func sk_addr_lo sk_addr_hi s =
     (if t = NULL \<or> func = NULL \<or> sk_addr_lo = NULL \<or> sk_addr_hi = NULL then Some (False, s)
      else if sk_addr_hi \<le> sk_addr_lo then Some (False, s)
      else
        let stack_top = (sk_addr_hi div 16) * 16 - 8
        in do {
          s \<leftarrow> t_set (\<lambda>c. c\<lparr>t_mctx_regs := (replicate 9 0)[5 := stack_top, 4 := func],
                             t_mctx_start := func, t_mctx_sigs := {}\<rparr>) t s;
          Some (True, s) })"

section \<open>Spawning a thread\<close>

text \<open>The addresses of the scheduler and of the trampoline, and the mark for the main program.\<close>

definition scheduler_addr :: ptr where "scheduler_addr = 2 ^ 64 - 4"
definition trampoline_addr :: ptr where "trampoline_addr = 2 ^ 64 - 5"
definition MAIN_FUNC :: ptr where "MAIN_FUNC = 2 ^ 64 - 1"
definition PTH_ATTR_DEFAULT :: ptr where "PTH_ATTR_DEFAULT = NULL"

text \<open>
  The names \<^verbatim>\<open>pth_spawn\<close> gives to a thread without attributes, formatted into its buffer; the formats
  have no floating point directive, so the rounding passed does not matter. Reading a name runs over
  its end if it is not terminated.
\<close>

definition read_cstr :: "string \<Rightarrow> string option" where
  "read_cstr buf = (if NUL \<in> set buf then Some (cstring buf) else None)"

definition child_name :: "env \<Rightarrow> string \<Rightarrow> string \<Rightarrow> pth_state \<Rightarrow> string option" where
  "child_name E buf parent s = do {
     nm \<leftarrow> read_cstr parent;
     (_, name, _) \<leftarrow> pth_snprintf id (Some buf) PTH_TCB_NAMELEN (''%s.child@%d=0x%lx'' @ [NUL])
       [VaStr (Some nm), VaInt (os_time E s), VaLong (of_nat (pth_current s))];
     name }"

definition user_name :: "env \<Rightarrow> string \<Rightarrow> pth_state \<Rightarrow> string option" where
  "user_name E buf s = do {
     (_, name, _) \<leftarrow> pth_snprintf id (Some buf) PTH_TCB_NAMELEN (''user/%x'' @ [NUL]) [VaInt (os_time E s)];
     name }"

definition spawn_config :: "env \<Rightarrow> ptr \<Rightarrow> ptr \<Rightarrow> pth_state \<Rightarrow> pth_state option" where
  "spawn_config E attr t s =
     (if attr \<noteq> PTH_ATTR_DEFAULT then do {
        a \<leftarrow> at_get id attr s;
        buf \<leftarrow> t_get t_name t s;
        (_, name) \<leftarrow> pth_util_cpystrn buf (a_name a) PTH_TCB_NAMELEN;
        t_set (\<lambda>c. c\<lparr>t_prio := a_prio a, t_joinable := a_joinable a, t_cancelstate := a_cancelstate a,
                     t_dispatches := a_dispatches a, t_name := name\<rparr>) t s }
      else if pth_current s \<noteq> NULL then do {
        p \<leftarrow> t_get id (pth_current s) s;
        buf \<leftarrow> t_get t_name t s;
        name \<leftarrow> child_name E buf (t_name p) s;
        t_set (\<lambda>c. c\<lparr>t_prio := t_prio p, t_joinable := t_joinable p, t_cancelstate := t_cancelstate p,
                     t_dispatches := 0, t_name := name\<rparr>) t s }
      else do {
        buf \<leftarrow> t_get t_name t s;
        name \<leftarrow> user_name E buf s;
        t_set (\<lambda>c. c\<lparr>t_prio := PTH_PRIO_STD, t_joinable := 1, t_cancelstate := PTH_CANCEL_DEFAULT,
                     t_dispatches := 0, t_name := name\<rparr>) t s })"

definition pth_spawn :: "env \<Rightarrow> ptr \<Rightarrow> ptr \<Rightarrow> ptr \<Rightarrow> pth_state \<Rightarrow> (ptr \<times> pth_state) option" where
  "pth_spawn E attr func arg s =
     (if func = NULL then Some (pth_error NULL EINVAL s)
      else do {
        let func = (if func = MAIN_FUNC then NULL else func);
        stacksize \<leftarrow> (if attr = PTH_ATTR_DEFAULT then Some 65536 else at_get a_stacksize attr s);
        stackaddr \<leftarrow> (if attr = PTH_ATTR_DEFAULT then Some NULL else at_get a_stackaddr attr s);
        (t, s) \<leftarrow> Some (pth_tcb_alloc E stacksize stackaddr s);
        if t = NULL then Some (pth_error NULL (errno s) s)
        else do {
          s \<leftarrow> spawn_config E attr t s;
          s \<leftarrow> t_set (\<lambda>c. c\<lparr>t_spawned := now E s, t_lastran := now E s, t_running := PTH_TIME_ZERO,
                 t_events := NULL, t_sigpending := {}, t_sigpendcnt := 0,
                 t_start_func := func, t_start_arg := arg, t_join_arg := NULL,
                 t_data_value := None, t_data_count := 0, t_cancelreq := False, t_cleanups := []\<rparr>) t s;
          s \<leftarrow> pth_ring_init (MutexRing t) s;
          size \<leftarrow> t_get t_stacksize t s;
          stack \<leftarrow> t_get t_stack t s;
          (ok, s) \<leftarrow> (if size > 0 then pth_mctx_set t trampoline_addr stack (stack + unat size) s
                      else Some (True, s));
          if \<not> ok then do {
            let saved = errno s;
            s \<leftarrow> pth_tcb_free E t s;
            Some (pth_error NULL saved s) }
          else if func \<noteq> scheduler_addr then do {
            s \<leftarrow> t_set (\<lambda>c. c\<lparr>t_state := PTH_STATE_NEW\<rparr>) t s;
            prio \<leftarrow> t_get t_prio t s;
            s \<leftarrow> pth_pqueue_insert (Some NQ) prio t s;
            Some (t, s) }
          else Some (t, s) } })"

section \<open>Control blocks outside the queues\<close>

text \<open>The queues see only the control blocks of their own threads.\<close>

lemma queues_ok_other_tcb:
  assumes ok: "queues_ok s L" and t: "\<not> queued t L"
    and s': "\<And>x. x \<noteq> t \<Longrightarrow> tcbs s' x = tcbs s x" "queues s' = queues s"
  shows "queues_ok s' L"
proof -
  have "pq_rep (tcbs s') (queues s' q) (L q)" for q
  proof -
    have "tcbs s' x = tcbs s x" if "x \<in> fst ` set (L q)" for x
    proof (rule s'(1))
      show "x \<noteq> t" using that t by (auto simp: queued_def)
    qed
    then show ?thesis
      using pq_rep_cong [OF queues_ok_rep [OF ok, of q]] s'(2) by metis
  qed
  with ok show ?thesis by (simp add: queues_ok_def)
qed

lemma noq_eqE:
  assumes "noq c' = noq c"
  shows "\<exists>n v r. c' = c\<lparr>q_next := n, q_prev := v, q_prio := r\<rparr>"
proof -
  have "c' = (noq c')\<lparr>q_next := q_next c', q_prev := q_prev c', q_prio := q_prio c'\<rparr>"
    by (simp add: noq_def)
  also have "\<dots> = c\<lparr>q_next := q_next c', q_prev := q_prev c', q_prio := q_prio c'\<rparr>"
    unfolding assms by (simp add: noq_def)
  finally show ?thesis by blast
qed

lemma not_queued_fresh: "queues_ok s L \<Longrightarrow> t \<notin> dom (tcbs s) \<Longrightarrow> \<not> queued t L"
  using queues_ok_alive unfolding queued_def alive_def by blast

text \<open>Freeing a control block runs no handler.\<close>

lemma pth_tcb_free_spec:
  assumes "t \<noteq> NULL" "tcbs s t = Some c"
  shows "pth_tcb_free E t s = Some (s\<lparr>rings := (rings s)(MutexRing t := None), tcbs := (tcbs s)(t := None)\<rparr>)"
proof -
  have "pth_cleanup_popall (app_call E) t False s = Some (s\<lparr>tcbs := (tcbs s)(t \<mapsto> c\<lparr>t_cleanups := []\<rparr>)\<rparr>)"
    using assms(2)
  proof (induction "t_cleanups c" arbitrary: s c)
    case Nil
    then have c: "c\<lparr>t_cleanups := []\<rparr> = c"
      by (cases c) simp
    show ?case
      using Nil by (subst pth_cleanup_popall.simps) (simp add: cells self_upd c)
  next
    case (Cons x xs)
    then show ?case
      using Cons.hyps(1) [of "c\<lparr>t_cleanups := xs\<rparr>" "s\<lparr>tcbs := (tcbs s)(t \<mapsto> c\<lparr>t_cleanups := xs\<rparr>)\<rparr>"]
      by (subst pth_cleanup_popall.simps) (simp add: cells Cons.hyps(2) [symmetric] split: prod.split)
  qed
  then show ?thesis
    using assms by (simp add: pth_tcb_free_def cells)
qed

section \<open>What a spawned thread starts with\<close>

text \<open>Priority, joinability, cancellation state and dispatches, from the three sources of attributes.\<close>

definition spawn_attrs :: "ptr \<Rightarrow> pth_state \<Rightarrow> int \<times> int \<times> 32 word \<times> int" where
  "spawn_attrs attr s =
     (if attr \<noteq> PTH_ATTR_DEFAULT
      then (case attrs s attr of Some a \<Rightarrow> (a_prio a, a_joinable a, a_cancelstate a, a_dispatches a) | None \<Rightarrow> (0, 0, 0, 0))
      else if pth_current s \<noteq> NULL
      then (case tcbs s (pth_current s) of Some p \<Rightarrow> (t_prio p, t_joinable p, t_cancelstate p, 0) | None \<Rightarrow> (0, 0, 0, 0))
      else (PTH_PRIO_STD, 1, PTH_CANCEL_DEFAULT, 0))"

text \<open>The name field of a thread holds a terminated string.\<close>

definition terminated :: "string \<Rightarrow> bool" where
  "terminated buf \<longleftrightarrow> length buf = PTH_TCB_NAMELEN \<and> NUL \<in> set buf"

lemma child_name_ok:
  assumes "length buf = PTH_TCB_NAMELEN" "terminated parent"
  shows "\<exists>nm. child_name E buf parent s = Some nm"
proof -
  have "length (cstring parent) \<le> nat INT_MAX"
    using assms(2) length_takeWhile_le [of "\<lambda>c. c \<noteq> NUL" parent]
    by (auto simp: terminated_def cstring_def PTH_TCB_NAMELEN_def INT_MAX_def)
  then obtain n where n: "dopr id None SIZE_MAX (''%s.child@%d=0x%lx'' @ [NUL]) [VaStr (Some (cstring parent)), VaInt (os_time E s),
      VaLong (of_nat (pth_current s))] = Some (n, None, [], [])"
    using dopr_child by blast
  obtain k nm where "pth_snprintf id (Some buf) PTH_TCB_NAMELEN (''%s.child@%d=0x%lx'' @ [NUL]) [VaStr (Some (cstring parent)),
      VaInt (os_time E s), VaLong (of_nat (pth_current s))] = Some (k, Some nm, [])"
    using pth_snprintf_fits [OF n, of PTH_TCB_NAMELEN buf] assms(1) by (auto simp: PTH_TCB_NAMELEN_def)
  then show ?thesis
    using assms(2) by (simp add: child_name_def read_cstr_def terminated_def)
qed

lemma user_name_ok:
  assumes "length buf = PTH_TCB_NAMELEN"
  shows "\<exists>nm. user_name E buf s = Some nm"
proof -
  obtain n where n: "dopr id None SIZE_MAX (''user/%x'' @ [NUL]) [VaInt (os_time E s)] = Some (n, None, [], [])"
    using dopr_user by blast
  obtain k nm where "pth_snprintf id (Some buf) PTH_TCB_NAMELEN (''user/%x'' @ [NUL]) [VaInt (os_time E s)] = Some (k, Some nm, [])"
    using pth_snprintf_fits [OF n, of PTH_TCB_NAMELEN buf] assms by (auto simp: PTH_TCB_NAMELEN_def)
  then show ?thesis
    by (simp add: user_name_def)
qed

definition spawn_ok :: "env \<Rightarrow> ptr \<Rightarrow> pth_state \<Rightarrow> bool" where
  "spawn_ok E attr s \<longleftrightarrow> malloc E s \<noteq> NULL \<and> malloc E s \<notin> dom (tcbs s) \<and> stack_mem E s \<noteq> NULL \<and>
     length (t_name (junk E)) = PTH_TCB_NAMELEN \<and>
     (attr \<noteq> PTH_ATTR_DEFAULT \<longrightarrow> (\<exists>a. attrs s attr = Some a \<and> NUL \<in> set (a_name a))) \<and>
     (pth_current s \<noteq> NULL \<longrightarrow> (\<exists>p. tcbs s (pth_current s) = Some p \<and> terminated (t_name p)))"

lemma cpystrn_name:
  assumes "length buf = PTH_TCB_NAMELEN" "NUL \<in> set src"
  shows "\<exists>n buf'. pth_util_cpystrn buf src PTH_TCB_NAMELEN = Some (n, buf') \<and> length buf' = PTH_TCB_NAMELEN"
proof -
  obtain str rest where "src = str @ NUL # rest" "NUL \<notin> set str"
    using split_list_first [OF assms(2)] by blast
  then show ?thesis
    using cpystrn_spec [of PTH_TCB_NAMELEN buf str rest] assms(1) by (auto simp: PTH_TCB_NAMELEN_def)
qed

lemma spawn_config_spec:
  assumes t: "tcbs s t = Some c" "length (t_name c) = PTH_TCB_NAMELEN"
    and attr: "attr \<noteq> PTH_ATTR_DEFAULT \<Longrightarrow> \<exists>a. attrs s attr = Some a \<and> NUL \<in> set (a_name a)"
    and cur: "pth_current s \<noteq> NULL \<Longrightarrow> \<exists>p. tcbs s (pth_current s) = Some p \<and> terminated (t_name p)"
    and sp: "spawn_attrs attr s = (p, j, cs, d)"
  shows "\<exists>nm. spawn_config E attr t s = Some (s\<lparr>tcbs := (tcbs s)(t \<mapsto>
    c\<lparr>t_prio := p, t_joinable := j, t_cancelstate := cs, t_dispatches := d, t_name := nm\<rparr>)\<rparr>)"
proof (cases "attr = PTH_ATTR_DEFAULT")
  case True
  show ?thesis
  proof (cases "pth_current s = NULL")
    case True
    then show ?thesis
      using \<open>attr = PTH_ATTR_DEFAULT\<close> user_name_ok [OF t(2), of E s] sp t(1)
      by (auto simp: spawn_config_def spawn_attrs_def cells)
  next
    case False
    then obtain c' where c': "tcbs s (pth_current s) = Some c'" "terminated (t_name c')"
      using cur by blast
    then show ?thesis
      using \<open>attr = PTH_ATTR_DEFAULT\<close> False child_name_ok [OF t(2) c'(2), of E s] sp t(1)
      by (auto simp: spawn_config_def spawn_attrs_def cells)
  qed
next
  case False
  then obtain a where a: "attrs s attr = Some a" "NUL \<in> set (a_name a)"
    using attr by blast
  obtain n nm where "pth_util_cpystrn (t_name c) (a_name a) PTH_TCB_NAMELEN = Some (n, nm)"
    using cpystrn_name [OF t(2) a(2)] by blast
  then show ?thesis
    using False sp t(1) a(1) by (auto simp: spawn_config_def spawn_attrs_def cells)
qed

lemma new_cell_exI:
  "P c \<Longrightarrow> \<exists>d. s\<lparr>rings := R, tcbs := (tcbs s)(t \<mapsto> c)\<rparr> = s\<lparr>rings := R, tcbs := (tcbs s)(t \<mapsto> d)\<rparr> \<and> P d" for s :: pth_state
  by blast

lemma pth_tcb_alloc_spec:
  assumes "malloc E s \<noteq> NULL" "stack_mem E s \<noteq> NULL"
  shows "\<exists>c. pth_tcb_alloc E n addr s =
      (malloc E s, s\<lparr>rings := (rings s)(MutexRing (malloc E s) \<mapsto> junk_ring E), tcbs := (tcbs s)(malloc E s \<mapsto> c)\<rparr>) \<and>
    t_name c = t_name (junk E) \<and> (t_stacksize c > 0 \<longrightarrow> t_stack c \<noteq> NULL) \<and>
    t_stacksize c = (if 0 < n \<and> n < SIGSTKSZ then SIGSTKSZ else n)"
  using assms by (simp add: pth_tcb_alloc_def Let_def SIGSTKSZ_def) (intro conjI impI new_cell_exI; simp)

lemma spawn_mctx:
  assumes "t \<noteq> NULL" "tcbs s t = Some c" "t_stack c = stack" "t_stacksize c = n" "stack \<noteq> NULL" "n > 0"
  shows "pth_mctx_set t trampoline_addr stack (stack + unat n) s =
    Some (True, s\<lparr>tcbs := (tcbs s)(t \<mapsto> c\<lparr>t_mctx_regs := (replicate 9 0)
        [5 := ((stack + unat n) div 16) * 16 - 8, 4 := trampoline_addr],
      t_mctx_start := trampoline_addr, t_mctx_sigs := {}\<rparr>)\<rparr>)"
  using assms by (simp add: pth_mctx_set_def trampoline_addr_def word_gt_0 unat_eq_0 cells)

lemma insert_exI:
  "P c \<Longrightarrow> \<exists>d. Option.bind (pth_pqueue_insert q p t (s\<lparr>rings := R, tcbs := h(t \<mapsto> c)\<rparr>)) k =
     Option.bind (pth_pqueue_insert q p t (s\<lparr>rings := R, tcbs := h(t \<mapsto> d)\<rparr>)) k \<and> P d" for s :: pth_state
  by blast

text \<open>All of \<^verbatim>\<open>pth_spawn\<close> up to the insertion into the new queue, which the scheduler itself is spared.\<close>

lemma spawn_body:
  assumes ok: "spawn_ok E attr s" and func: "func \<noteq> NULL"
    and sp: "spawn_attrs attr s = (p, j, cs, d)"
  defines "t \<equiv> malloc E s" and "f \<equiv> (if func = MAIN_FUNC then NULL else func)"
  shows "\<exists>c s1. pth_spawn E attr func arg s = (if func = scheduler_addr then Some (t, s1)
      else Option.bind (pth_pqueue_insert (Some NQ) p t s1) (\<lambda>s. Some (t, s))) \<and>
    s1 = s\<lparr>rings := (rings s)(MutexRing t \<mapsto> \<lparr>r_hook = NULL, r_nodes = 0\<rparr>), tcbs := (tcbs s)(t \<mapsto> c)\<rparr> \<and>
    (func \<noteq> scheduler_addr \<longrightarrow> t_state c = PTH_STATE_NEW) \<and> t_prio c = p \<and> t_joinable c = j \<and> t_cancelstate c = cs \<and>
    t_start_func c = f \<and> t_start_arg c = arg \<and> t_events c = NULL \<and> t_cleanups c = [] \<and>
    t_data_value c = None \<and> \<not> t_cancelreq c \<and> t_sigpending c = {} \<and>
    (t_stacksize c > 0 \<longrightarrow> t_mctx_start c = trampoline_addr)"
proof -
  let ?n = "if attr = PTH_ATTR_DEFAULT then 65536 else a_stacksize (the (attrs s attr))"
  let ?addr = "if attr = PTH_ATTR_DEFAULT then NULL else a_stackaddr (the (attrs s attr))"
  have E: "t \<noteq> NULL" "t \<notin> dom (tcbs s)" "stack_mem E s \<noteq> NULL"
    using ok by (simp_all add: spawn_ok_def t_def)
  obtain c where c: "pth_tcb_alloc E ?n ?addr s =
      (t, s\<lparr>rings := (rings s)(MutexRing t \<mapsto> junk_ring E), tcbs := (tcbs s)(t \<mapsto> c)\<rparr>)"
    "t_name c = t_name (junk E)" "t_stacksize c > 0 \<longrightarrow> t_stack c \<noteq> NULL"
    using pth_tcb_alloc_spec [of E s ?n ?addr] E unfolding t_def by blast
  let ?s = "s\<lparr>rings := (rings s)(MutexRing t \<mapsto> junk_ring E), tcbs := (tcbs s)(t \<mapsto> c)\<rparr>"
  have "spawn_attrs attr ?s = (p, j, cs, d)"
    using sp ok E(2) by (auto simp: spawn_attrs_def spawn_ok_def fun_upd_apply)
  moreover have "\<exists>p. tcbs ?s (pth_current ?s) = Some p \<and> terminated (t_name p)" if "pth_current ?s \<noteq> NULL"
    using ok E(2) that by (auto simp: spawn_ok_def fun_upd_apply)
  moreover have "\<exists>a. attrs ?s attr = Some a \<and> NUL \<in> set (a_name a)" if "attr \<noteq> PTH_ATTR_DEFAULT"
    using ok that by (auto simp: spawn_ok_def)
  moreover have "tcbs ?s t = Some c" "length (t_name c) = PTH_TCB_NAMELEN"
    using ok c(2) by (simp_all add: spawn_ok_def)
  ultimately obtain nm where nm: "spawn_config E attr t ?s = Some (?s\<lparr>tcbs := (tcbs ?s)(t \<mapsto>
      c\<lparr>t_prio := p, t_joinable := j, t_cancelstate := cs, t_dispatches := d, t_name := nm\<rparr>)\<rparr>)"
    using spawn_config_spec by meson
  let ?c = "c\<lparr>t_prio := p, t_joinable := j, t_cancelstate := cs, t_dispatches := d, t_name := nm\<rparr>"
  have size: "(if attr = PTH_ATTR_DEFAULT then Some 65536 else at_get a_stacksize attr s) = Some ?n"
    "(if attr = PTH_ATTR_DEFAULT then Some NULL else at_get a_stackaddr attr s) = Some ?addr"
    using ok by (auto simp: spawn_ok_def cells)
  have f: "f = scheduler_addr \<longleftrightarrow> func = scheduler_addr" "scheduler_addr \<noteq> MAIN_FUNC"
    by (simp_all add: f_def scheduler_addr_def MAIN_FUNC_def)
  have ring: "pth_ring_init (MutexRing t) (s\<lparr>rings := (rings s)(MutexRing t \<mapsto> r), tcbs := h\<rparr>) =
      Some (s\<lparr>rings := (rings s)(MutexRing t \<mapsto> \<lparr>r_hook = NULL, r_nodes = 0\<rparr>), tcbs := h\<rparr>)" for r h
    by (cases r) (simp add: pth_ring_init_def r_set_def cells upd_cell)
  note body = pth_spawn_def c(1) nm size f ring cells spawn_mctx
  show ?thesis
  proof (cases "func = scheduler_addr")
    case True
    then have "f = scheduler_addr"
      using f by simp
    then show ?thesis
      using True func E(1) c(3)
      by (cases "t_stacksize c > 0") (simp add: body flip: t_def, rule new_cell_exI, simp add: f_def f(2))+
  next
    case False
    then show ?thesis
      using func E(1) c(3)
      by (cases "t_stacksize c > 0") (simp add: body flip: f_def t_def, rule insert_exI, simp)+
  qed
qed

section \<open>Properties\<close>

lemma spawn_new_thread:
  assumes q: "queues_ok s L" and ok: "spawn_ok E attr s" and func: "func \<noteq> scheduler_addr" "func \<noteq> NULL"
    and sp: "spawn_attrs attr s = (p, j, cs, d)"
  defines "t \<equiv> malloc E s"
  shows "\<exists>s' c. pth_spawn E attr func arg s = Some (t, s') \<and>
      queues_ok s' (L(NQ := pq_ins t p (L NQ))) \<and> \<not> queued t L \<and> tcbs s' t = Some c \<and>
      t_state c = PTH_STATE_NEW \<and> t_prio c = p \<and> t_joinable c = j \<and> t_cancelstate c = cs \<and>
      t_start_func c = (if func = MAIN_FUNC then NULL else func) \<and> t_start_arg c = arg \<and>
      t_events c = NULL \<and> t_cleanups c = [] \<and> t_data_value c = None \<and> \<not> t_cancelreq c \<and>
      (t_stacksize c > 0 \<longrightarrow> t_mctx_start c = trampoline_addr) \<and> ring_rep s' (MutexRing t) [] \<and>
      (\<forall>x. x \<noteq> t \<longrightarrow> map_option noq (tcbs s' x) = map_option noq (tcbs s x))"
proof -
  obtain c s1 where s1: "pth_spawn E attr func arg s =
      Option.bind (pth_pqueue_insert (Some NQ) p t s1) (\<lambda>s. Some (t, s))"
    "s1 = s\<lparr>rings := (rings s)(MutexRing t \<mapsto> \<lparr>r_hook = NULL, r_nodes = 0\<rparr>), tcbs := (tcbs s)(t \<mapsto> c)\<rparr>"
    and c: "t_state c = PTH_STATE_NEW" "t_prio c = p" "t_joinable c = j" "t_cancelstate c = cs"
    "t_start_func c = (if func = MAIN_FUNC then NULL else func)" "t_start_arg c = arg" "t_events c = NULL"
    "t_cleanups c = []" "t_data_value c = None" "\<not> t_cancelreq c"
    "t_stacksize c > 0 \<longrightarrow> t_mctx_start c = trampoline_addr"
    using spawn_body [OF ok func(2) sp, of arg] func(1) unfolding t_def by auto
  have t: "t \<noteq> NULL" "\<not> queued t L"
    using ok not_queued_fresh [OF q] by (simp_all add: spawn_ok_def t_def)
  have "queues_ok s1 L"
    using s1(2) by (intro queues_ok_other_tcb [OF q t(2)]) simp_all
  then obtain s' where s': "pth_pqueue_insert (Some NQ) p t s1 = Some s'"
    "queues_ok s' (L(NQ := pq_ins t p (L NQ)))" "qframe s1 s'"
    using pq.enter_ok [of s1 L t NQ p] t s1(2) by (auto simp: alive_def)
  have fr: "map_option noq (tcbs s' x) = map_option noq (tcbs s1 x)" for x
    using s'(3) by (simp add: qframe_def)
  obtain c' where c': "tcbs s' t = Some c'" "noq c' = noq c"
    using fr [of t] s1(2) by auto
  obtain n v r where eq: "c' = c\<lparr>q_next := n, q_prev := v, q_prio := r\<rparr>"
    using noq_eqE [OF c'(2)] by blast
  have "t_state c' = t_state c" "t_prio c' = t_prio c" "t_joinable c' = t_joinable c" "t_cancelstate c' = t_cancelstate c"
    "t_start_func c' = t_start_func c" "t_start_arg c' = t_start_arg c" "t_events c' = t_events c"
    "t_cleanups c' = t_cleanups c" "t_data_value c' = t_data_value c" "t_cancelreq c' = t_cancelreq c"
    "t_stacksize c' = t_stacksize c" "t_mctx_start c' = t_mctx_start c"
    by (simp_all add: eq)
  moreover have "ring_rep s' (MutexRing t) []"
    using s1(2) qframe_state(8,9) [OF s'(3)] by (simp add: ring_rep_def fld_def)
  moreover have "map_option noq (tcbs s' x) = map_option noq (tcbs s x)" if "x \<noteq> t" for x
    using fr [of x] s1(2) that by simp
  ultimately show "\<exists>s' c. pth_spawn E attr func arg s = Some (t, s') \<and>
      queues_ok s' (L(NQ := pq_ins t p (L NQ))) \<and> \<not> queued t L \<and> tcbs s' t = Some c \<and>
      t_state c = PTH_STATE_NEW \<and> t_prio c = p \<and> t_joinable c = j \<and> t_cancelstate c = cs \<and>
      t_start_func c = (if func = MAIN_FUNC then NULL else func) \<and> t_start_arg c = arg \<and>
      t_events c = NULL \<and> t_cleanups c = [] \<and> t_data_value c = None \<and> \<not> t_cancelreq c \<and>
      (t_stacksize c > 0 \<longrightarrow> t_mctx_start c = trampoline_addr) \<and> ring_rep s' (MutexRing t) [] \<and>
      (\<forall>x. x \<noteq> t \<longrightarrow> map_option noq (tcbs s' x) = map_option noq (tcbs s x))"
    using s1(1) s' c c'(1) t(2) by auto
qed


definition spawn_env :: env where
  "spawn_env = env0\<lparr>malloc := \<lambda>_. 2, stack_mem := \<lambda>_. 4096\<rparr>"


text \<open>
  The context \<^verbatim>\<open>pth_mctx_set\<close> builds starts the routine on the given stack: the stack pointer lies
  within the stack together with the word written there, and is 8 modulo 16, as the calling
  convention asks at a function entry. All other registers are zero, the floating point control
  words included, which unmasks every floating point exception in the new thread.
\<close>

theorem pth_mctx_set_context:
  assumes "t \<noteq> NULL" "tcbs s t = Some c" "func \<noteq> NULL" "lo \<noteq> NULL" "lo + 24 \<le> hi"
  shows "\<exists>s' c' sp. pth_mctx_set t func lo hi s = Some (True, s') \<and> tcbs s' = (tcbs s)(t \<mapsto> c') \<and>
    t_mctx_regs c' ! 5 = sp \<and> lo \<le> sp \<and> sp + 8 \<le> hi \<and> sp mod 16 = 8 \<and>
    t_mctx_regs c' ! 4 = func \<and> t_mctx_start c' = func \<and>
    (\<forall>i<9. i \<noteq> 4 \<longrightarrow> i \<noteq> 5 \<longrightarrow> t_mctx_regs c' ! i = 0) \<and> t_mctx_sigs c' = {}"
proof -
  let ?sp = "hi div 16 * 16 - 8"
  define k where "k = hi div 16 - 1"
  have hi: "hi div 16 = k + 1"
    using assms(5) by (simp add: k_def)
  then have sp: "?sp = k * 16 + 8"
    by simp
  have bound: "16 * k + 16 \<le> hi" "hi < 16 * k + 32"
    using div_mult_mod_eq [of hi 16] mod_less_divisor [of 16 hi] hi by linarith+
  have "lo \<le> ?sp"
    using assms(5) bound(2) unfolding sp by linarith
  moreover have "?sp + 8 \<le> hi"
    using bound(1) unfolding sp by linarith
  moreover have "?sp mod 16 = 8"
    unfolding sp by simp
  moreover have "\<forall>i<9. i \<noteq> 4 \<longrightarrow> i \<noteq> 5 \<longrightarrow> ((replicate 9 0)[5 := ?sp, 4 := func]) ! i = 0"
    by simp
  ultimately show ?thesis
    using assms by (auto simp: pth_mctx_set_def cells)
qed

theorem pth_mctx_set_context_witness:
  "\<exists>s' c'. pth_mctx_set 2 7 4096 8192 (state0\<lparr>tcbs := [2 \<mapsto> tcb0]\<rparr>) = Some (True, s') \<and>
     tcbs s' 2 = Some c' \<and> t_mctx_regs c' ! 5 mod 16 = 8 \<and> t_mctx_regs c' ! 8 = 0"
  using pth_mctx_set_context [of 2 "state0\<lparr>tcbs := [2 \<mapsto> tcb0]\<rparr>" tcb0 7 4096 8192] by fastforce

end
