(* ===== verification/Pth_Lib.thy ===== *)
theory Pth_Lib
  imports Pth_Tcb
begin

text \<open>
  The thread operations of \<^verbatim>\<open>pth_lib.c\<close>: queries, signals, cleanup, joining, suspending and
  resuming, naps and one-time initialisation, and the cancellation of other threads
  (\<^verbatim>\<open>pth_cancel.c\<close>). The call of a function pointer is \<open>app_call E\<close>, also where the pointer is a
  handler the library itself registered.
\<close>

section \<open>Queries\<close>

definition PTH_CTRL_GETAVLOAD :: "64 word" where "PTH_CTRL_GETAVLOAD = 0x2"
definition PTH_CTRL_GETPRIO :: "64 word" where "PTH_CTRL_GETPRIO = 0x4"
definition PTH_CTRL_GETNAME :: "64 word" where "PTH_CTRL_GETNAME = 0x8"
definition PTH_CTRL_GETTHREADS_NEW :: "64 word" where "PTH_CTRL_GETTHREADS_NEW = 0x10"
definition PTH_CTRL_GETTHREADS_READY :: "64 word" where "PTH_CTRL_GETTHREADS_READY = 0x20"
definition PTH_CTRL_GETTHREADS_RUNNING :: "64 word" where "PTH_CTRL_GETTHREADS_RUNNING = 0x40"
definition PTH_CTRL_GETTHREADS_WAITING :: "64 word" where "PTH_CTRL_GETTHREADS_WAITING = 0x80"
definition PTH_CTRL_GETTHREADS_SUSPENDED :: "64 word" where "PTH_CTRL_GETTHREADS_SUSPENDED = 0x100"
definition PTH_CTRL_GETTHREADS_DEAD :: "64 word" where "PTH_CTRL_GETTHREADS_DEAD = 0x200"
definition PTH_CTRL_GETTHREADS :: "64 word" where "PTH_CTRL_GETTHREADS = 0x3F0"
definition PTH_CTRL_DUMPSTATE :: "64 word" where "PTH_CTRL_DUMPSTATE = 0x400"
definition PTH_CTRL_FAVOURNEW :: "64 word" where "PTH_CTRL_FAVOURNEW = 0x800"

text \<open>
  The argument of a query, and its result: a number, the name of a thread (its address in C), or
  the load that is stored through the pointer argument.
\<close>

datatype ctrl_arg = NoArg | ThreadArg ptr | IntArg int
datatype ctrl_res = CtrlLong int | CtrlName ptr | CtrlLoad rat

definition count_threads :: "64 word \<Rightarrow> pth_state \<Rightarrow> int" where
  "count_threads query s =
     (if flag query PTH_CTRL_GETTHREADS_NEW then pth_pqueue_elements (Some NQ) s else 0) +
     (if flag query PTH_CTRL_GETTHREADS_READY then pth_pqueue_elements (Some RQ) s else 0) +
     (if flag query PTH_CTRL_GETTHREADS_RUNNING then 1 else 0) +
     (if flag query PTH_CTRL_GETTHREADS_WAITING then pth_pqueue_elements (Some WQ) s else 0) +
     (if flag query PTH_CTRL_GETTHREADS_SUSPENDED then pth_pqueue_elements (Some SQ) s else 0) +
     (if flag query PTH_CTRL_GETTHREADS_DEAD then pth_pqueue_elements (Some DQ) s else 0)"

definition ctrl_return :: "int \<Rightarrow> pth_state \<Rightarrow> ctrl_res \<times> pth_state" where
  "ctrl_return rc s = (if rc = -1 then pth_error (CtrlLong (-1)) EINVAL s else (CtrlLong rc, s))"

definition pth_ctrl :: "64 word \<Rightarrow> ctrl_arg \<Rightarrow> pth_state \<Rightarrow> (ctrl_res \<times> pth_state) option" where
  "pth_ctrl query arg s =
     (if flag query PTH_CTRL_GETTHREADS then Some (ctrl_return (count_threads query s) s)
      else if flag query PTH_CTRL_GETAVLOAD then Some (CtrlLoad (pth_loadval s), s)
      else if flag query PTH_CTRL_GETPRIO then (case arg of
        ThreadArg t \<Rightarrow> do { p \<leftarrow> t_get t_prio t s; Some (ctrl_return p s) } | _ \<Rightarrow> None)
      else if flag query PTH_CTRL_GETNAME then (case arg of
        ThreadArg t \<Rightarrow> do { _ \<leftarrow> t_get t_name t s; Some (CtrlName t, s) } | _ \<Rightarrow> None)
      else if flag query PTH_CTRL_DUMPSTATE then Some (CtrlLong 0, s)
      else if flag query PTH_CTRL_FAVOURNEW then (case arg of
        IntArg n \<Rightarrow> Some (CtrlLong 0, s\<lparr>pth_favournew := n \<noteq> 0\<rparr>) | _ \<Rightarrow> None)
      else Some (ctrl_return (-1) s))"

definition pth_self :: "pth_state \<Rightarrow> ptr" where
  "pth_self s = pth_current s"

definition pth_thread_exists :: "ptr \<Rightarrow> pth_state \<Rightarrow> (bool \<times> pth_state) option" where
  "pth_thread_exists t s = do {
     n \<leftarrow> pth_pqueue_contains (Some NQ) t s;
     r \<leftarrow> (if n then Some True else pth_pqueue_contains (Some RQ) t s);
     w \<leftarrow> (if r then Some True else pth_pqueue_contains (Some WQ) t s);
     u \<leftarrow> (if w then Some True else pth_pqueue_contains (Some SQ) t s);
     d \<leftarrow> (if u then Some True else pth_pqueue_contains (Some DQ) t s);
     if d then Some (True, s) else Some (pth_error False ESRCH s) }"

section \<open>Signals for a thread\<close>

definition pth_raise :: "env \<Rightarrow> ptr \<Rightarrow> int \<Rightarrow> pth_state \<Rightarrow> (bool \<times> pth_state) option" where
  "pth_raise E t sig s =
     (if t = NULL \<or> t = pth_current s \<or> sig < 0 \<or> sig > int PTH_NSIG then Some (pth_error False EINVAL s)
      else if sig = 0 then pth_thread_exists t s
      else (case sig_act E (nat sig) of
        SigError \<Rightarrow> Some (pth_error False EINVAL s)
      | SigIgnore \<Rightarrow> Some (True, s)
      | _ \<Rightarrow> do {
          pending \<leftarrow> t_get t_sigpending t s;
          s \<leftarrow> (if nat sig \<notin> pending
                then t_set (\<lambda>c. c\<lparr>t_sigpending := insert (nat sig) (t_sigpending c), t_sigpendcnt := t_sigpendcnt c + 1\<rparr>) t s
                else Some s);
          (_, s) \<leftarrow> pth_yield (sw E) t s;
          Some (True, s) }))"

section \<open>Cleaning up and joining\<close>

definition pth_thread_cleanup :: "env \<Rightarrow> ptr \<Rightarrow> pth_state \<Rightarrow> pth_state option" where
  "pth_thread_cleanup E thread s = do {
     cleanups \<leftarrow> t_get t_cleanups thread s;
     s \<leftarrow> (if cleanups \<noteq> [] then pth_cleanup_popall (app_call E) thread True s else Some s);
     data \<leftarrow> t_get t_data_value thread s;
     s \<leftarrow> (if data \<noteq> None then pth_key_destroydata (app_call E) thread s else Some s);
     pth_mutex_releaseall thread s }"

text \<open>The result of \<^verbatim>\<open>pth_join\<close> with the value stored through its pointer argument.\<close>

definition join_ready :: "ptr \<Rightarrow> pth_state \<Rightarrow> bool option" where
  "join_ready tid s =
     (if tid = NULL then Some False else do { st \<leftarrow> t_get t_state tid s; Some (st = PTH_STATE_DEAD) })"

definition join_reap :: "env \<Rightarrow> ptr \<Rightarrow> pth_state \<Rightarrow> ((bool \<times> ptr) ctl \<times> pth_state) option" where
  "join_reap E tid s = do {
     let tid = (if tid = NULL then pth_pqueue_head (Some DQ) s else tid);
     ready \<leftarrow> join_ready tid s;
     if \<not> ready then Some (pth_error (Ret (False, NULL)) EIO s)
     else do {
       v \<leftarrow> t_get t_join_arg tid s;
       s \<leftarrow> pth_pqueue_delete (Some DQ) tid s;
       s \<leftarrow> pth_tcb_free E tid s;
       Some (Ret (True, v), s) } }"

definition pth_join :: "env \<Rightarrow> ptr \<Rightarrow> pth_state \<Rightarrow> ((bool \<times> ptr) ctl \<times> pth_state) option" where
  "pth_join E tid s =
     (if tid = pth_current s then Some (pth_error (Ret (False, NULL)) EDEADLK s)
      else do {
        joinable \<leftarrow> (if tid = NULL then Some 1 else t_get t_joinable tid s);
        if joinable = 0 then Some (pth_error (Ret (False, NULL)) EINVAL s)
        else do {
        (n, s) \<leftarrow> pth_ctrl PTH_CTRL_GETTHREADS NoArg s;
        if n = CtrlLong 1 then Some (pth_error (Ret (False, NULL)) EDEADLK s)
        else do {
          let tid = (if tid = NULL then pth_pqueue_head (Some DQ) s else tid);
          ready \<leftarrow> join_ready tid s;
          if ready then join_reap E tid s
          else do {
            (ev, s) \<leftarrow> static_event E (PTH_EVENT_TID OR PTH_UNTIL_TID_DEAD) ''pth_join'' (EvTID tid) s;
            (c, s) \<leftarrow> pth_wait (sw E) ev s;
            case c of
              Exit v \<Rightarrow> Some (Exit v, s)
            | Ret _ \<Rightarrow> join_reap E tid s } } } })"

section \<open>Suspending and resuming\<close>

definition pth_suspend :: "ptr \<Rightarrow> pth_state \<Rightarrow> (bool \<times> pth_state) option" where
  "pth_suspend t s =
     (if t = NULL then Some (pth_error False EINVAL s)
      else if t = pth_sched s \<or> t = pth_current s then Some (pth_error False EPERM s)
      else do {
        st \<leftarrow> t_get t_state t s;
        case state_queue st of
          None \<Rightarrow> Some (pth_error False EPERM s)
        | Some q \<Rightarrow> do {
            found \<leftarrow> pth_pqueue_contains (Some q) t s;
            if \<not> found then Some (pth_error False ESRCH s)
            else do {
              s \<leftarrow> pth_pqueue_delete (Some q) t s;
              s \<leftarrow> pth_pqueue_insert (Some SQ) PTH_PRIO_STD t s;
              Some (True, s) } } })"

definition pth_resume :: "ptr \<Rightarrow> pth_state \<Rightarrow> (bool \<times> pth_state) option" where
  "pth_resume t s =
     (if t = NULL then Some (pth_error False EINVAL s)
      else if t = pth_sched s \<or> t = pth_current s then Some (pth_error False EPERM s)
      else do {
        found \<leftarrow> pth_pqueue_contains (Some SQ) t s;
        if \<not> found then Some (pth_error False EPERM s)
        else do {
          s \<leftarrow> pth_pqueue_delete (Some SQ) t s;
          st \<leftarrow> t_get t_state t s;
          s \<leftarrow> pth_pqueue_insert (state_queue st) PTH_PRIO_STD t s;
          Some (True, s) } })"

section \<open>Descriptor modes, naps, one-time initialisation\<close>

datatype fdmode = PTH_FDMODE_ERROR | PTH_FDMODE_POLL | PTH_FDMODE_BLOCK | PTH_FDMODE_NONBLOCK

definition O_NONBLOCKING :: "32 word" where "O_NONBLOCKING = 0x800"

definition pth_fdmode :: "int \<Rightarrow> fdmode \<Rightarrow> pth_state \<Rightarrow> fdmode \<times> pth_state" where
  "pth_fdmode fd newmode s =
     (let fl = fd_flags s fd in
      if fl = -1 then (PTH_FDMODE_ERROR, s\<lparr>errno := EBADF\<rparr>)
      else
        let oldmode = (if flag fl O_NONBLOCKING then PTH_FDMODE_NONBLOCK else PTH_FDMODE_BLOCK);
            s = (if oldmode = PTH_FDMODE_BLOCK \<and> newmode = PTH_FDMODE_NONBLOCK
                 then s\<lparr>fd_flags := (fd_flags s)(fd := fl OR O_NONBLOCKING)\<rparr> else s);
            s = (if oldmode = PTH_FDMODE_NONBLOCK \<and> newmode = PTH_FDMODE_BLOCK
                 then s\<lparr>fd_flags := (fd_flags s)(fd := fl AND NOT O_NONBLOCKING)\<rparr> else s)
        in (oldmode, s))"

definition pth_nap :: "env \<Rightarrow> pth_time_t \<Rightarrow> pth_state \<Rightarrow> (bool ctl \<times> pth_state) option" where
  "pth_nap E naptime s =
     (if pth_time_cmp naptime PTH_TIME_ZERO = 0 then Some (pth_error (Ret False) EINVAL s)
      else do {
        let until = pth_time_add (now E s) naptime;
        (ev, s) \<leftarrow> static_event E PTH_EVENT_TIME ''pth_nap'' (EvTIME until) s;
        (c, s) \<leftarrow> pth_wait (sw E) ev s;
        case c of Exit v \<Rightarrow> Some (Exit v, s) | Ret _ \<Rightarrow> Some (Ret True, s) })"

definition pth_once :: "env \<Rightarrow> intref \<Rightarrow> ptr \<Rightarrow> ptr \<Rightarrow> pth_state \<Rightarrow> (bool \<times> pth_state) option" where
  "pth_once E oncectrl constructor arg s =
     (if oncectrl = NullInt \<or> constructor = NULL then Some (pth_error False EINVAL s)
      else do {
        ran \<leftarrow> mem_int s oncectrl;
        s \<leftarrow> (if ran \<noteq> 1 then app_call E constructor arg s else Some s);
        s \<leftarrow> int_set oncectrl 1 s;
        Some (True, s) })"

section \<open>Cancelling other threads\<close>

definition pth_cancel :: "env \<Rightarrow> ptr \<Rightarrow> pth_state \<Rightarrow> (bool \<times> pth_state) option" where
  "pth_cancel E thread s =
     (if thread = NULL \<or> thread = pth_current s then Some (pth_error False EINVAL s)
      else do {
        st \<leftarrow> t_get t_state thread s;
        if st = PTH_STATE_DEAD then Some (pth_error False EPERM s)
        else do {
          s \<leftarrow> t_set (\<lambda>c. c\<lparr>t_cancelreq := True\<rparr>) thread s;
          cs \<leftarrow> t_get t_cancelstate thread s;
          if flag cs PTH_CANCEL_ENABLE \<and> flag cs PTH_CANCEL_ASYNCHRONOUS then
            (case state_queue st of
               None \<Rightarrow> Some (pth_error False ESRCH s)
             | Some q \<Rightarrow> do {
                 found \<leftarrow> pth_pqueue_contains (Some q) thread s;
                 if \<not> found then Some (pth_error False ESRCH s)
                 else do {
                   s \<leftarrow> pth_pqueue_delete (Some q) thread s;
                   s \<leftarrow> pth_thread_cleanup E thread s;
                   joinable \<leftarrow> t_get t_joinable thread s;
                   if joinable = 0 then do { s \<leftarrow> pth_tcb_free E thread s; Some (True, s) }
                   else do {
                     s \<leftarrow> t_set (\<lambda>c. c\<lparr>t_join_arg := PTH_CANCELED, t_state := PTH_STATE_DEAD\<rparr>) thread s;
                     s \<leftarrow> pth_pqueue_insert (Some DQ) PTH_PRIO_STD thread s;
                     Some (True, s) } } })
          else Some (True, s) } })"

definition pth_abort :: "env \<Rightarrow> ptr \<Rightarrow> pth_state \<Rightarrow> (bool ctl \<times> pth_state) option" where
  "pth_abort E thread s =
     (if thread = NULL \<or> thread = pth_current s then Some (pth_error (Ret False) EINVAL s)
      else do {
        st \<leftarrow> t_get t_state thread s;
        joinable \<leftarrow> t_get t_joinable thread s;
        if st = PTH_STATE_DEAD \<and> joinable \<noteq> 0 then do {
          (c, s) \<leftarrow> pth_join E thread s;
          case c of Exit v \<Rightarrow> Some (Exit v, s) | Ret (ok, _) \<Rightarrow> Some (Ret ok, s) }
        else do {
          s \<leftarrow> t_set (\<lambda>c. c\<lparr>t_joinable := 0, t_cancelstate := PTH_CANCEL_ENABLE OR PTH_CANCEL_ASYNCHRONOUS\<rparr>) thread s;
          (ok, s) \<leftarrow> pth_cancel E thread s;
          Some (Ret ok, s) } })"

section \<open>Moving a thread between queues\<close>

lemma qframe_cell:
  assumes "qframe s s'" "tcbs s t = Some c"
  shows "\<exists>n v r. tcbs s' t = Some (c\<lparr>q_next := n, q_prev := v, q_prio := r\<rparr>)"
proof -
  have "map_option noq (tcbs s' t) = Some (noq c)"
    using assms by (simp add: qframe_def)
  then obtain c' where "tcbs s' t = Some c'" "noq c' = noq c"
    by auto
  then show ?thesis
    using noq_eqE by auto
qed

lemma state_queue_not_SQ: "state_queue st = Some q \<Longrightarrow> q \<noteq> SQ \<and> q \<noteq> DQ"
  by (cases st) (auto simp: state_queue_def)

lemma pth_suspend_moves:
  assumes ok: "queues_ok s L" and t: "t \<noteq> NULL" "t \<noteq> pth_sched s" "t \<noteq> pth_current s"
    and c: "tcbs s t = Some c" "state_queue (t_state c) = Some q" and L: "L q = us @ (t, p) # ws"
  shows "\<exists>s'. pth_suspend t s = Some (True, s') \<and> qframe s s' \<and>
    queues_ok s' (L(q := us @ ws, SQ := pq_ins t PTH_PRIO_STD (L SQ)))"
proof -
  obtain s1 s2 where s1: "pth_pqueue_delete (Some q) t s = Some s1" "pth_pqueue_insert (Some SQ) PTH_PRIO_STD t s1 = Some s2"
    "qframe s s2" "queues_ok s2 ((L(q := us @ ws))(SQ := pq_ins t PTH_PRIO_STD ((L(q := us @ ws)) SQ)))"
    using pq.move_ok [OF ok L, of SQ PTH_PRIO_STD] by blast
  have "pth_suspend t s = Some (True, s2)"
    using t c s1(1,2) pth_pqueue_contains_ok [OF ok, of q t] L by (simp add: pth_suspend_def cells)
  then show ?thesis
    using s1(3,4) state_queue_not_SQ [OF c(2)] by auto
qed

lemma pth_resume_moves:
  assumes ok: "queues_ok s L" and t: "t \<noteq> NULL" "t \<noteq> pth_sched s" "t \<noteq> pth_current s"
    and c: "tcbs s t = Some c" "state_queue (t_state c) = Some q" and L: "L SQ = us @ (t, p) # ws"
  shows "\<exists>s'. pth_resume t s = Some (True, s') \<and> qframe s s' \<and>
    queues_ok s' (L(SQ := us @ ws, q := pq_ins t PTH_PRIO_STD (L q)))"
proof -
  obtain s1 s2 where s1: "pth_pqueue_delete (Some SQ) t s = Some s1" "qframe s s1"
    "pth_pqueue_insert (Some q) PTH_PRIO_STD t s1 = Some s2"
    "qframe s s2" "queues_ok s2 ((L(SQ := us @ ws))(q := pq_ins t PTH_PRIO_STD ((L(SQ := us @ ws)) q)))"
    using pq.move_ok [OF ok L, of q PTH_PRIO_STD] by blast
  obtain n v r where "tcbs s1 t = Some (c\<lparr>q_next := n, q_prev := v, q_prio := r\<rparr>)"
    using qframe_cell [OF s1(2) c(1)] by blast
  then have "pth_resume t s = Some (True, s2)"
    using t c(2) s1(1,3) pth_pqueue_contains_ok [OF ok, of SQ t] L by (simp add: pth_resume_def cells)
  then show ?thesis
    using s1(4,5) state_queue_not_SQ [OF c(2)] by auto
qed

section \<open>Cleaning up a thread\<close>

lemma releaseall_none:
  assumes "t \<noteq> NULL" "ring_rep s (MutexRing t) []"
  shows "pth_mutex_releaseall t s = Some s"
proof -
  have "pth_ring_first (MutexRing t) s = Some NULL"
    using pth_ring_first_spec [OF assms(2)] by simp
  then show ?thesis
    using assms(1) by (simp add: pth_mutex_releaseall_def releaseall_loop.simps)
qed

definition dead_calls :: "pth_state \<Rightarrow> pth_st \<Rightarrow> (ptr \<times> ptr) list" where
  "dead_calls s c = t_cleanups c @
     (case t_data_value c of None \<Rightarrow> [] | Some v \<Rightarrow> destructor_calls (pth_keytab s) v 0)"

definition cleanable :: "pth_state \<Rightarrow> ptr \<Rightarrow> pth_st \<Rightarrow> bool" where
  "cleanable s t c \<longleftrightarrow> data_ok c \<and> ring_rep s (MutexRing t) [] \<and>
     (\<forall>v. t_data_value c = Some v \<longrightarrow> (\<forall>j<PTH_KEY_MAX. v j \<noteq> NULL \<longrightarrow> k_used (pth_keytab s j)))"

lemma thread_cleanup_spec:
  assumes call: "logs_calls (app_call E)" and t: "t \<noteq> NULL" "tcbs s t = Some c" and cl: "cleanable s t c"
  shows "pth_thread_cleanup E t s = Some (s\<lparr>
    tcbs := (tcbs s)(t \<mapsto> c\<lparr>t_cleanups := [], t_data_value := None, t_data_count := 0\<rparr>),
    app_log := app_log s @ dead_calls s c\<rparr>)"
proof -
  let ?s1 = "s\<lparr>tcbs := (tcbs s)(t \<mapsto> c\<lparr>t_cleanups := []\<rparr>), app_log := app_log s @ t_cleanups c\<rparr>"
  have 1: "(if t_cleanups c \<noteq> [] then pth_cleanup_popall (app_call E) t True s else Some s) = Some ?s1"
  proof (cases "t_cleanups c = []")
    case True
    then have c0: "c\<lparr>t_cleanups := []\<rparr> = c"
      by (cases c) simp
    show ?thesis
      by (simp add: True c0 self_upd(1) [OF t(2)])
  next
    case False
    then show ?thesis
      using cleanup_popall_spec [OF call t(2), of True] by simp
  qed
  let ?c2 = "c\<lparr>t_cleanups := [], t_data_value := None, t_data_count := 0\<rparr>"
  let ?s2 = "s\<lparr>tcbs := (tcbs s)(t \<mapsto> ?c2), app_log := app_log s @ dead_calls s c\<rparr>"
  have 2: "(if t_data_value c \<noteq> None then pth_key_destroydata (app_call E) t ?s1 else Some ?s1) = Some ?s2"
  proof (cases "t_data_value c")
    case None
    then have "t_data_count c = 0"
      using cl by (simp add: cleanable_def data_ok_def)
    with None have c0: "?c2 = c\<lparr>t_cleanups := []\<rparr>"
      by (cases c) simp
    show ?thesis
      unfolding c0 by (simp add: None dead_calls_def)
  next
    case (Some v)
    have "data_ok (c\<lparr>t_cleanups := []\<rparr>)" "\<forall>j<PTH_KEY_MAX. v j \<noteq> NULL \<longrightarrow> k_used (pth_keytab ?s1 j)"
      using cl Some by (simp_all add: cleanable_def data_ok_def)
    then show ?thesis
      using Some destroydata_spec [OF call t(1), of ?s1 "c\<lparr>t_cleanups := []\<rparr>" v] by (simp add: dead_calls_def)
  qed
  have "ring_rep ?s2 (MutexRing t) []"
    using cl by (simp add: cleanable_def ring_rep_def)
  then have "pth_mutex_releaseall t ?s2 = Some ?s2"
    by (rule releaseall_none [OF t(1)])
  then show ?thesis
    using t 1 2 by (simp add: pth_thread_cleanup_def cells)
qed

section \<open>Properties\<close>

text \<open>
  \<^verbatim>\<open>pth_suspend\<close> takes a new, ready or waiting thread out of its queue into the queue of suspended
  threads and \<^verbatim>\<open>pth_resume\<close> puts it back into the queue of its state, at standard priority; all other
  threads keep their places and nothing but queue links changes.
\<close>

theorem pth_suspend_resume:
  assumes ok: "queues_ok s L" and t: "t \<noteq> NULL" "t \<noteq> pth_sched s" "t \<noteq> pth_current s"
    and c: "tcbs s t = Some c" "state_queue (t_state c) = Some q" and L: "L q = us @ (t, p) # ws"
  shows "\<exists>s1 s2. pth_suspend t s = Some (True, s1) \<and>
    queues_ok s1 (L(q := us @ ws, SQ := pq_ins t PTH_PRIO_STD (L SQ))) \<and>
    pth_resume t s1 = Some (True, s2) \<and> queues_ok s2 (L(q := pq_ins t PTH_PRIO_STD (us @ ws))) \<and> qframe s s2"
proof -
  let ?L = "L(q := us @ ws, SQ := pq_ins t PTH_PRIO_STD (L SQ))"
  obtain s1 where s1: "pth_suspend t s = Some (True, s1)" "qframe s s1" "queues_ok s1 ?L"
    using pth_suspend_moves [OF assms] by blast
  obtain n v r where c1: "tcbs s1 t = Some (c\<lparr>q_next := n, q_prev := v, q_prio := r\<rparr>)"
    using qframe_cell [OF s1(2) c(1)] by blast
  have t1: "t \<noteq> pth_sched s1" "t \<noteq> pth_current s1"
    using t qframe_state(1,3) [OF s1(2)] by simp_all
  have q: "q \<noteq> SQ" using state_queue_not_SQ [OF c(2)] by blast
  let ?a = "takeWhile (\<lambda>x. PTH_PRIO_STD \<le> snd x) (L SQ)" and ?b = "dropWhile (\<lambda>x. PTH_PRIO_STD \<le> snd x) (L SQ)"
  have "?L SQ = ?a @ (t, PTH_PRIO_STD) # ?b"
    by (simp add: pq_ins_def)
  then obtain s2 where s2: "pth_resume t s1 = Some (True, s2)" "qframe s1 s2"
    "queues_ok s2 (?L(SQ := ?a @ ?b, q := pq_ins t PTH_PRIO_STD (?L q)))"
    using pth_resume_moves [OF s1(3) t(1) t1 c1, of q ?a PTH_PRIO_STD ?b] c(2) by auto
  have "?L(SQ := ?a @ ?b, q := pq_ins t PTH_PRIO_STD (?L q)) = L(q := pq_ins t PTH_PRIO_STD (us @ ws))"
    using q by (auto simp: fun_upd_apply)
  then show ?thesis
    using s1 s2 qframe_trans by metis
qed

theorem pth_suspend_resume_witness:
  "\<exists>s1 s2. pth_suspend 2 two_ready = Some (True, s1) \<and> q_head (queues s1 SQ) = 2 \<and>
     pth_resume 2 s1 = Some (True, s2) \<and> queues_ok s2 ((\<lambda>_. [])(RQ := [(1, 4), (2, 0)]))"
proof -
  let ?L = "(\<lambda>_. [])(RQ := [(1 :: ptr, 4 :: int), (2, 3)])"
  let ?c = "tcb0\<lparr>q_next := 1, q_prev := 1, q_prio := 1, t_state := PTH_STATE_READY\<rparr>"
  have h: "(2 :: ptr) \<noteq> NULL" "2 \<noteq> pth_sched two_ready" "2 \<noteq> pth_current two_ready" "tcbs two_ready 2 = Some ?c"
    "state_queue (t_state ?c) = Some RQ" "?L RQ = [(1, 4)] @ (2, 3) # []"
    by (simp_all add: two_ready_def state0_def state_queue_def)
  obtain s1 s2 where s1: "pth_suspend 2 two_ready = Some (True, s1)" "pth_resume 2 s1 = Some (True, s2)"
    "queues_ok s1 (?L(RQ := [(1, 4)], SQ := pq_ins 2 PTH_PRIO_STD (?L SQ)))"
    "queues_ok s2 (?L(RQ := pq_ins 2 PTH_PRIO_STD [(1, 4)]))"
    using pth_suspend_resume [OF two_ready_ok h] by auto
  have "q_head (queues s1 SQ) = 2"
    using queues_ok_rep [OF s1(3), of SQ] by (simp add: pq_rep_def pq_ins_def)
  moreover have "queues_ok s2 ((\<lambda>_. [])(RQ := [(1, 4), (2, 0)]))"
    using s1(4) by (simp add: pq_ins_def PTH_PRIO_STD_def)
  ultimately show ?thesis
    using s1(1,2) by blast
qed


definition async_tcb :: pth_st where
  "async_tcb = tcb0\<lparr>q_next := 2, q_prev := 2, t_state := PTH_STATE_READY, t_joinable := 1, t_cancelstate := 5, t_cleanups := [(9, 8)]\<rparr>"

definition async_thread :: pth_state where
  "async_thread = state0\<lparr>tcbs := [2 \<mapsto> async_tcb], rings := [MutexRing 2 \<mapsto> \<lparr>r_hook = NULL, r_nodes = 0\<rparr>],
     queues := (\<lambda>_. \<lparr>q_head = NULL, q_num = 0\<rparr>)(RQ := \<lparr>q_head = 2, q_num = 1\<rparr>)\<rparr>"

definition dead_tcb :: pth_st where
  "dead_tcb = tcb0\<lparr>q_next := 2, q_prev := 2, t_joinable := 1, t_join_arg := 77, t_state := PTH_STATE_DEAD\<rparr>"

definition dead_thread :: pth_state where
  "dead_thread = state0\<lparr>tcbs := [2 \<mapsto> dead_tcb],
     queues := (\<lambda>_. \<lparr>q_head = NULL, q_num = 0\<rparr>)(DQ := \<lparr>q_head = 2, q_num = 1\<rparr>)\<rparr>"

lemma one_thread_ok:
  assumes "tcbs s = [2 \<mapsto> c]" "q_next c = 2" "q_prev c = 2" "q_prio c = 0"
    "queues s = (\<lambda>_. \<lparr>q_head = NULL, q_num = 0\<rparr>)(q := \<lparr>q_head = 2, q_num = 1\<rparr>)"
  shows "queues_ok s ((\<lambda>_. [])(q := [(2, 0)]))"
proof -
  have "pq_rep (tcbs s) (queues s q') (((\<lambda>_. [])(q := [(2, 0)])) q')" for q'
    using assms by (cases "q' = q") (simp_all add: pq_rep_def dring_def fld_def)
  then show ?thesis
    by (auto simp: queues_ok_def fun_upd_apply)
qed

lemma async_thread_ok: "queues_ok async_thread ((\<lambda>_. [])(RQ := [(2, 0)]))"
  by (rule one_thread_ok [of _ async_tcb]) (simp_all add: async_thread_def async_tcb_def tcb0_def)

lemma dead_thread_ok: "queues_ok dead_thread ((\<lambda>_. [])(DQ := [(2, 0)]))"
  by (rule one_thread_ok [of _ dead_tcb]) (simp_all add: dead_thread_def dead_tcb_def tcb0_def)


lemma all_threads: 
  assumes "queues_ok s L"
  shows "count_threads PTH_CTRL_GETTHREADS s = 1 + int (length (L NQ) + length (L RQ) + length (L WQ) + length (L SQ) + length (L DQ))"
proof -
  have "flag PTH_CTRL_GETTHREADS PTH_CTRL_GETTHREADS_NEW" "flag PTH_CTRL_GETTHREADS PTH_CTRL_GETTHREADS_READY"
    "flag PTH_CTRL_GETTHREADS PTH_CTRL_GETTHREADS_RUNNING" "flag PTH_CTRL_GETTHREADS PTH_CTRL_GETTHREADS_WAITING"
    "flag PTH_CTRL_GETTHREADS PTH_CTRL_GETTHREADS_SUSPENDED" "flag PTH_CTRL_GETTHREADS PTH_CTRL_GETTHREADS_DEAD"
    by (simp_all add: flag_def PTH_CTRL_GETTHREADS_def PTH_CTRL_GETTHREADS_NEW_def PTH_CTRL_GETTHREADS_READY_def
        PTH_CTRL_GETTHREADS_RUNNING_def PTH_CTRL_GETTHREADS_WAITING_def PTH_CTRL_GETTHREADS_SUSPENDED_def PTH_CTRL_GETTHREADS_DEAD_def)
  then show ?thesis
    by (simp add: count_threads_def pth_pqueue_elements_ok [OF assms])
qed

lemma ctrl_threads:
  assumes "queues_ok s L"
  shows "pth_ctrl PTH_CTRL_GETTHREADS NoArg s =
    Some (CtrlLong (1 + int (length (L NQ) + length (L RQ) + length (L WQ) + length (L SQ) + length (L DQ))), s)"
proof -
  have "flag PTH_CTRL_GETTHREADS PTH_CTRL_GETTHREADS"
    by (simp add: flag_def PTH_CTRL_GETTHREADS_def)
  then show ?thesis
    by (simp add: pth_ctrl_def ctrl_return_def all_threads [OF assms])
qed

text \<open>
  C31: \<^verbatim>\<open>pth_join\<close> of a given thread fails with \<^verbatim>\<open>EDEADLK\<close> for the current thread and when no other thread
  exists, and with \<^verbatim>\<open>EINVAL\<close> for a detached thread; a thread that is already dead is reaped without
  waiting: its value is returned, and it leaves the queue of dead threads and is freed.
\<close>

theorem pth_join_result:
  assumes ok: "queues_ok s L" and t: "t \<noteq> NULL" "tcbs s t = Some c"
  shows "(t = pth_current s \<longrightarrow> pth_join E t s = Some (Ret (False, NULL), s\<lparr>errno := EDEADLK\<rparr>)) \<and>
    (t \<noteq> pth_current s \<longrightarrow> t_joinable c = 0 \<longrightarrow> pth_join E t s = Some (Ret (False, NULL), s\<lparr>errno := EINVAL\<rparr>)) \<and>
    (t \<noteq> pth_current s \<longrightarrow> t_joinable c \<noteq> 0 \<longrightarrow> (\<forall>q. L q = []) \<longrightarrow>
      pth_join E t s = Some (Ret (False, NULL), s\<lparr>errno := EDEADLK\<rparr>)) \<and>
    (t \<noteq> pth_current s \<longrightarrow> t_joinable c \<noteq> 0 \<longrightarrow> t_state c = PTH_STATE_DEAD \<longrightarrow> L DQ = us @ (t, p) # ws \<longrightarrow>
      (\<exists>s'. pth_join E t s = Some (Ret (True, t_join_arg c), s') \<and> queues_ok s' (L(DQ := us @ ws)) \<and>
        t \<notin> dom (tcbs s') \<and> (\<forall>x. x \<noteq> t \<longrightarrow> map_option noq (tcbs s' x) = map_option noq (tcbs s x))))"
proof -
  have "\<exists>s'. pth_join E t s = Some (Ret (True, t_join_arg c), s') \<and> queues_ok s' (L(DQ := us @ ws)) \<and>
      t \<notin> dom (tcbs s') \<and> (\<forall>x. x \<noteq> t \<longrightarrow> map_option noq (tcbs s' x) = map_option noq (tcbs s x))"
    if cur: "t \<noteq> pth_current s" "t_joinable c \<noteq> 0" and dead: "t_state c = PTH_STATE_DEAD" and L: "L DQ = us @ (t, p) # ws"
  proof -
    obtain s1 where s1: "pth_pqueue_delete (Some DQ) t s = Some s1" "queues_ok s1 (L(DQ := us @ ws))" "qframe s s1"
      using pq.leave_ok [OF ok L] by blast
    obtain n v r where c1: "tcbs s1 t = Some (c\<lparr>q_next := n, q_prev := v, q_prio := r\<rparr>)"
      using qframe_cell [OF s1(3) t(2)] by blast
    let ?s2 = "s1\<lparr>rings := (rings s1)(MutexRing t := None), tcbs := (tcbs s1)(t := None)\<rparr>"
    have "pth_join E t s = Some (Ret (True, t_join_arg c), ?s2)"
      using t cur dead L s1(1) pth_tcb_free_spec [OF t(1) c1, of E]
      by (simp add: pth_join_def cells ctrl_threads [OF ok] join_ready_def join_reap_def)
    moreover have "queues_ok ?s2 (L(DQ := us @ ws))"
      by (rule queues_ok_other_tcb [OF s1(2) pq.ok_once [OF ok L]]) simp_all
    moreover have "map_option noq (tcbs ?s2 x) = map_option noq (tcbs s x)" if "x \<noteq> t" for x
      using s1(3) that by (simp add: qframe_def)
    ultimately show ?thesis by auto
  qed
  then show ?thesis
    using t by (simp add: pth_join_def cells ctrl_threads [OF ok] pth_error_def)
qed

theorem pth_join_result_witness:
  "\<exists>s'. pth_join env0 2 dead_thread = Some (Ret (True, 77), s') \<and> tcbs s' 2 = None"
proof -
  have "tcbs dead_thread 2 = Some dead_tcb" "(2 :: ptr) \<noteq> NULL" "2 \<noteq> pth_current dead_thread"
    "t_joinable dead_tcb = 1" "t_join_arg dead_tcb = 77" "t_state dead_tcb = PTH_STATE_DEAD"
    by (simp_all add: dead_thread_def dead_tcb_def state0_def)
  then show ?thesis
    using pth_join_result [OF dead_thread_ok, of 2 dead_tcb env0 "[]" 0 "[]"] by auto
qed

end
