(* ===== verification/Pth_Eventmgr.thy ===== *)
theory Pth_Eventmgr
  imports Pth_Lib
begin

text \<open>
  The event manager of the scheduler (\<^verbatim>\<open>pth_sched_eventmanager\<close> and its signal handler,
  \<^verbatim>\<open>pth_sched.c\<close>): a first pass over the waiting threads tests the events that need no system
  call and collects descriptors, signals and the next timer; a call of \<^verbatim>\<open>select\<close> polls or sleeps; a
  second pass settles the remaining events and moves every thread with an occurred event or a
  cancellation request to the ready queue. \<^verbatim>\<open>select\<close> is the parameter \<open>os_select E\<close>, which may also
  run the signal handler and so change the set of raised signals; the descriptor sets the scheduler
  keeps are values, and the masks and handlers it installs around the call are restored after it.
\<close>

section \<open>The first pass\<close>

text \<open>The local variables of the event manager.\<close>

record em =
  em_fds :: fd_sets
  em_fdmax :: int
  em_timer_thread :: ptr
  em_timer_ev :: ptr
  em_timer_value :: pth_time_t
  em_any :: bool

definition em0 :: em where
  "em0 = \<lparr>em_fds = ({}, {}, {}), em_fdmax = -1, em_timer_thread = NULL, em_timer_ev = NULL,
     em_timer_value = PTH_TIME_ZERO, em_any = False\<rparr>"

definition goal_fd :: "32 word \<Rightarrow> bool \<times> bool \<times> bool" where
  "goal_fd g = (flag g (ucast PTH_UNTIL_FD_READABLE), flag g (ucast PTH_UNTIL_FD_WRITEABLE),
     flag g (ucast PTH_UNTIL_FD_EXCEPTION))"

definition fd_add :: "32 word \<Rightarrow> int \<Rightarrow> fd_sets \<Rightarrow> fd_sets" where
  "fd_add g fd fds = (case (goal_fd g, fds) of ((r, w, e), (rfds, wfds, efds)) \<Rightarrow>
     (if r then insert fd rfds else rfds, if w then insert fd wfds else wfds, if e then insert fd efds else efds))"

definition fd_ready :: "32 word \<Rightarrow> int \<Rightarrow> fd_sets \<Rightarrow> bool" where
  "fd_ready g fd fds = (case (goal_fd g, fds) of ((r, w, e), (rfds, wfds, efds)) \<Rightarrow>
     r \<and> fd \<in> rfds \<or> w \<and> fd \<in> wfds \<or> e \<and> fd \<in> efds)"

definition sigaction_ok :: "env \<Rightarrow> nat \<Rightarrow> bool" where
  "sigaction_ok E sig \<longleftrightarrow> sig_act E sig \<noteq> SigError"

text \<open>One signal of a signal set event, in the first pass.\<close>

definition check_sig :: "env \<Rightarrow> ptr \<Rightarrow> sigset \<Rightarrow> intref \<Rightarrow> nat \<Rightarrow> bool \<Rightarrow> pth_state \<Rightarrow> (bool \<times> pth_state) option" where
  "check_sig E t sigs sigp sig occ s =
     (if sig \<notin> sigs then Some (occ, s)
      else do {
        pending \<leftarrow> t_get t_sigpending t s;
        (occ, s) \<leftarrow> (if sig \<in> pending then do {
            s \<leftarrow> (if sigp = NullInt then None else int_set sigp (int sig) s);
            s \<leftarrow> t_set (\<lambda>c. c\<lparr>t_sigpending := t_sigpending c - {sig}, t_sigpendcnt := t_sigpendcnt c - 1\<rparr>) t s;
            Some (True, s) } else Some (occ, s));
        if sig \<in> pth_sigpending s then do {
          s \<leftarrow> (if sigp \<noteq> NullInt then int_set sigp (int sig) s else Some s);
          let s = snd (pth_util_sigdelete (sigaction_ok E sig) sig s);
          Some (True, s\<lparr>pth_sigpending := pth_sigpending s - {sig}\<rparr>) }
        else Some (occ, s\<lparr>pth_sigblock := pth_sigblock s - {sig}, pth_sigcatch := insert sig (pth_sigcatch s)\<rparr>) })"

primrec check_sigs :: "env \<Rightarrow> ptr \<Rightarrow> sigset \<Rightarrow> intref \<Rightarrow> nat list \<Rightarrow> bool \<Rightarrow> pth_state \<Rightarrow> (bool \<times> pth_state) option" where
  "check_sigs E t sigs sigp [] occ s = Some (occ, s)"
| "check_sigs E t sigs sigp (sig # rest) occ s = do {
     (occ, s) \<leftarrow> check_sig E t sigs sigp sig occ s;
     check_sigs E t sigs sigp rest occ s }"

text \<open>Remember the timer that elapses next.\<close>

definition next_timer :: "ptr \<Rightarrow> ptr \<Rightarrow> pth_time_t \<Rightarrow> em \<Rightarrow> em" where
  "next_timer t ev tv m =
     (if em_timer_thread m = NULL \<and> em_timer_ev m = NULL \<or> pth_time_cmp tv (em_timer_value m) < 0
      then m\<lparr>em_timer_thread := t, em_timer_ev := ev, em_timer_value := tv\<rparr> else m)"

text \<open>A test function: that of \<^verbatim>\<open>pth_exit\<close>, or one of the application.\<close>

definition exit_cb_addr :: ptr where "exit_cb_addr = 2 ^ 64 - 6"

definition pth_exit_cb :: "pth_state \<Rightarrow> bool" where
  "pth_exit_cb s \<longleftrightarrow> pth_pqueue_elements (Some NQ) s + pth_pqueue_elements (Some RQ) s +
     pth_pqueue_elements (Some WQ) s + pth_pqueue_elements (Some SQ) s = 1"

definition test_func :: "env \<Rightarrow> ptr \<Rightarrow> ptr \<Rightarrow> pth_state \<Rightarrow> (bool \<times> pth_state) option" where
  "test_func E func arg s = (if func = exit_cb_addr then Some (pth_exit_cb s, s) else app_test E func arg s)"

definition check_args :: "env \<Rightarrow> pth_time_t \<Rightarrow> ptr \<Rightarrow> ptr \<Rightarrow> pth_event_st \<Rightarrow> em \<Rightarrow> pth_state \<Rightarrow> ((bool \<times> em) \<times> pth_state) option" where
  "check_args E tnow t ev e m s = (case ev_arg e of
     EvFD fd \<Rightarrow> Some ((False, m\<lparr>em_fds := fd_add (ev_goal e) fd (em_fds m), em_fdmax := max (em_fdmax m) fd\<rparr>), s)
   | EvSELECT n nfd rfds wfds efds \<Rightarrow> do {
       fds \<leftarrow> pth_util_fds_merge (mem_fdset s) nfd (rfds, wfds, efds) (em_fds m);
       Some ((False, m\<lparr>em_fds := fds, em_fdmax := max (em_fdmax m) (nfd - 1)\<rparr>), s) }
   | EvSIGS sigs sigp \<Rightarrow> do {
       ss \<leftarrow> mem_sigset s sigs;
       (occ, s) \<leftarrow> check_sigs E t ss sigp [1..<PTH_NSIG] False s;
       Some ((occ, m), s) }
   | EvTIME tv \<Rightarrow>
       if pth_time_cmp tv tnow < 0 then Some ((True, m), s) else Some ((False, next_timer t ev tv m), s)
   | EvMSG mp \<Rightarrow> do { n \<leftarrow> pth_ring_elements (MpQueue mp) s; Some ((n > 0, m), s) }
   | EvMUTEX mutex \<Rightarrow> do { st \<leftarrow> mx_get mx_state mutex s; Some ((\<not> flag st PTH_MUTEX_LOCKED, m), s) }
   | EvCOND cond \<Rightarrow> do {
       st \<leftarrow> cn_get cn_state cond s;
       if \<not> flag st PTH_COND_SIGNALED then Some ((False, m), s)
       else if flag st PTH_COND_BROADCAST then Some ((True, m), s)
       else if flag st PTH_COND_HANDLED then Some ((False, m), s)
       else do {
         s \<leftarrow> cn_set (\<lambda>c. c\<lparr>cn_state := cn_state c OR PTH_COND_HANDLED\<rparr>) cond s;
         Some ((True, m), s) } }
   | EvTID tid \<Rightarrow>
       if tid = NULL then Some ((pth_pqueue_elements (Some DQ) s > 0, m), s)
       else do { st \<leftarrow> t_get t_state tid s; Some ((state_num st = ev_goal e, m), s) }
   | EvFUNC func arg tv \<Rightarrow> do {
       (occ, s) \<leftarrow> test_func E func arg s;
       if occ then Some ((True, m), s)
       else Some ((False, next_timer t ev (pth_time_add tnow tv) m), s) })"

definition check_event :: "env \<Rightarrow> pth_time_t \<Rightarrow> ptr \<Rightarrow> ptr \<Rightarrow> em \<Rightarrow> pth_state \<Rightarrow> (em \<times> pth_state) option" where
  "check_event E tnow t ev m s = do {
     e \<leftarrow> evs s ev;
     if ev_status e = PTH_STATUS_PENDING then do {
       ((occ, m), s) \<leftarrow> check_args E tnow t ev e m s;
       if occ then do {
         s \<leftarrow> e_set (\<lambda>e. e\<lparr>ev_status := PTH_STATUS_OCCURRED\<rparr>) ev s;
         Some (m\<lparr>em_any := True\<rparr>, s) }
       else Some (m, s) }
     else Some (m, s) }"

partial_function (option) check_ring :: "env \<Rightarrow> pth_time_t \<Rightarrow> ptr \<Rightarrow> ptr \<Rightarrow> ptr \<Rightarrow> em \<Rightarrow> pth_state \<Rightarrow> (em \<times> pth_state) option" where
  "check_ring E tnow t evh ev m s =
     Option.bind (check_event E tnow t ev m s) (\<lambda>(m, s).
     Option.bind (e_get ev_next ev s) (\<lambda>ev.
       if ev \<noteq> evh then check_ring E tnow t evh ev m s else Some (m, s)))"

definition check_thread :: "env \<Rightarrow> pth_time_t \<Rightarrow> ptr \<Rightarrow> em \<Rightarrow> pth_state \<Rightarrow> (em \<times> pth_state) option" where
  "check_thread E tnow t m s = do {
     mask \<leftarrow> t_get t_mctx_sigs t s;
     let s = s\<lparr>pth_sigblock := pth_sigblock s - {sig \<in> {1..<PTH_NSIG}. sig \<notin> mask}\<rparr>;
     cancel \<leftarrow> t_get t_cancelreq t s;
     let m = (if cancel then m\<lparr>em_any := True\<rparr> else m);
     evh \<leftarrow> t_get t_events t s;
     if evh = NULL then Some (m, s) else check_ring E tnow t evh evh m s }"

partial_function (option) check_threads :: "env \<Rightarrow> pth_time_t \<Rightarrow> ptr \<Rightarrow> em \<Rightarrow> pth_state \<Rightarrow> (em \<times> pth_state) option" where
  "check_threads E tnow t m s =
     (if t = NULL then Some (m, s)
      else Option.bind (check_thread E tnow t m s) (\<lambda>(m, s).
           Option.bind (pth_pqueue_walk (Some WQ) t PTH_WALK_NEXT s) (\<lambda>t. check_threads E tnow t m s)))"

section \<open>Polling\<close>

text \<open>\<^verbatim>\<open>select\<close> is called again as long as a signal interrupts it.\<close>

partial_function (option) select_retry :: "env \<Rightarrow> int \<Rightarrow> fd_sets \<Rightarrow> pth_time_t option \<Rightarrow> pth_state \<Rightarrow> (int \<times> fd_sets \<times> pth_state) option" where
  "select_retry E n fds delay s =
     (case os_select E n fds delay s of (rc, fds, s) \<Rightarrow>
       if rc < 0 \<and> errno s = EINTR then select_retry E n fds delay s else Some (rc, fds, s))"

definition poll_delay :: "bool \<Rightarrow> pth_time_t \<Rightarrow> em \<Rightarrow> pth_time_t option" where
  "poll_delay dopoll tnow m =
     (if dopoll then Some PTH_TIME_ZERO
      else if em_timer_ev m \<noteq> NULL then Some (pth_time_sub (em_timer_value m) tnow) else None)"

text \<open>The result: whether to repeat, the return code and the descriptor sets for the second pass.\<close>

definition em_poll :: "env \<Rightarrow> pth_time_t \<Rightarrow> bool \<Rightarrow> em \<Rightarrow> pth_state \<Rightarrow> ((bool \<times> int \<times> fd_sets) \<times> pth_state) option" where
  "em_poll E tnow dopoll m s = do {
     let s = s\<lparr>sigpipe_data := []\<rparr>;
     let pipe0 = fst (pth_sigpipe s);
     let fds = (insert pipe0 (fst (em_fds m)), snd (em_fds m));
     let fdmax = max (em_fdmax m) pipe0;
     (rc, fds, s) \<leftarrow> (if \<not> (dopoll \<and> fdmax = -1) then select_retry E (fdmax + 1) fds (poll_delay dopoll tnow m) s
                       else Some (-1, fds, s));
     (again, s) \<leftarrow> (if \<not> dopoll \<and> rc = 0 \<and> em_timer_ev m \<noteq> NULL then do {
         a \<leftarrow> e_get ev_arg (em_timer_ev m) s;
         if ev_type a = PTH_EVENT_FUNC then Some (True, s)
         else do { s \<leftarrow> e_set (\<lambda>e. e\<lparr>ev_status := PTH_STATUS_OCCURRED\<rparr>) (em_timer_ev m) s; Some (False, s) } }
       else Some (False, s));
     let (rc, fds) = (if \<not> dopoll \<and> rc > 0 \<and> pipe0 \<in> fst fds then (rc - 1, (fst fds - {pipe0}, snd fds)) else (rc, fds));
     let fds = (if rc \<le> 0 then ({}, {}, {}) else fds);
     Some ((again, rc, fds), s) }"

section \<open>The second pass\<close>

definition late_fd :: "env \<Rightarrow> int \<Rightarrow> ptr \<Rightarrow> 32 word \<Rightarrow> int \<Rightarrow> fd_sets \<Rightarrow> pth_state \<Rightarrow> (fd_sets \<times> pth_state) option" where
  "late_fd E rc ev goal fd fds s =
     (if fd_ready goal fd fds then do {
        s \<leftarrow> e_set (\<lambda>e. e\<lparr>ev_status := PTH_STATUS_OCCURRED\<rparr>) ev s; Some (fds, s) }
      else if rc < 0 then do {
        (rc2, fds, s) \<leftarrow> select_retry E (fd + 1) (fd_add goal fd fds) (Some PTH_TIME_ZERO) s;
        if rc2 > 0 then (case fds of (r, w, x) \<Rightarrow> Some ((r - {fd}, w - {fd}, x - {fd}), s))
        else if rc2 < 0 then do {
          s \<leftarrow> e_set (\<lambda>e. e\<lparr>ev_status := PTH_STATUS_FAILED\<rparr>) ev s; Some (({}, {}, {}), s) }
        else Some (fds, s) }
      else Some (fds, s))"

definition copy_set :: "ptr \<Rightarrow> pth_state \<Rightarrow> fd_set option" where
  "copy_set p s = (if p = NULL then Some {} else mem_fdset s p)"

definition late_select :: "env \<Rightarrow> int \<Rightarrow> ptr \<Rightarrow> intref \<Rightarrow> int \<Rightarrow> ptr \<times> ptr \<times> ptr \<Rightarrow> fd_sets \<Rightarrow> pth_state \<Rightarrow> pth_state option" where
  "late_select E rc ev n nfd ps fds s = do {
     hit \<leftarrow> pth_util_fds_test (mem_fdset s) nfd ps fds;
     if hit then do {
       (k, mem) \<leftarrow> pth_util_fds_select nfd ps fds (mem_fdset s);
       let s = s\<lparr>mem_fdset := mem\<rparr>;
       s \<leftarrow> (if n \<noteq> NullInt then int_set n k s else Some s);
       e_set (\<lambda>e. e\<lparr>ev_status := PTH_STATUS_OCCURRED\<rparr>) ev s }
     else if rc < 0 then (case ps of (rp, wp, ep) \<Rightarrow> do {
       r \<leftarrow> copy_set rp s; w \<leftarrow> copy_set wp s; x \<leftarrow> copy_set ep s;
       (rc2, _, s) \<leftarrow> select_retry E (nfd + 1) (r, w, x) (Some PTH_TIME_ZERO) s;
       if rc2 < 0 then e_set (\<lambda>e. e\<lparr>ev_status := PTH_STATUS_FAILED\<rparr>) ev s else Some s })
     else Some s }"

primrec late_sigs :: "ptr \<Rightarrow> sigset \<Rightarrow> intref \<Rightarrow> nat list \<Rightarrow> pth_state \<Rightarrow> pth_state option" where
  "late_sigs ev sigs sigp [] s = Some s"
| "late_sigs ev sigs sigp (sig # rest) s =
     (if sig \<in> sigs \<and> sig \<in> pth_sigraised s then do {
        s \<leftarrow> (if sigp \<noteq> NullInt then int_set sigp (int sig) s else Some s);
        let s = s\<lparr>pth_sigraised := pth_sigraised s - {sig}\<rparr>;
        s \<leftarrow> e_set (\<lambda>e. e\<lparr>ev_status := PTH_STATUS_OCCURRED\<rparr>) ev s;
        late_sigs ev sigs sigp rest s }
      else late_sigs ev sigs sigp rest s)"

text \<open>The result says whether the event is no longer pending.\<close>

definition late_event :: "env \<Rightarrow> int \<Rightarrow> ptr \<Rightarrow> fd_sets \<Rightarrow> pth_state \<Rightarrow> ((bool \<times> fd_sets) \<times> pth_state) option" where
  "late_event E rc ev fds s = do {
     e \<leftarrow> evs s ev;
     (fds, s) \<leftarrow> (if ev_status e = PTH_STATUS_PENDING then (case ev_arg e of
         EvFD fd \<Rightarrow> late_fd E rc ev (ev_goal e) fd fds s
       | EvSELECT n nfd rp wp ep \<Rightarrow> do { s \<leftarrow> late_select E rc ev n nfd (rp, wp, ep) fds s; Some (fds, s) }
       | EvSIGS sigs sigp \<Rightarrow> do { ss \<leftarrow> mem_sigset s sigs; s \<leftarrow> late_sigs ev ss sigp [1..<PTH_NSIG] s; Some (fds, s) }
       | _ \<Rightarrow> Some (fds, s))
       else (case ev_arg e of
         EvCOND cond \<Rightarrow> do {
           st \<leftarrow> cn_get cn_state cond s;
           s \<leftarrow> (if flag st PTH_COND_SIGNALED then cn_set (\<lambda>c. c\<lparr>cn_state := cn_state c AND NOT PTH_COND_SIGNALED
                   AND NOT PTH_COND_BROADCAST AND NOT PTH_COND_HANDLED\<rparr>) cond s else Some s);
           Some (fds, s) }
       | _ \<Rightarrow> Some (fds, s)));
     st \<leftarrow> e_get ev_status ev s;
     Some ((st \<noteq> PTH_STATUS_PENDING, fds), s) }"

partial_function (option) late_ring :: "env \<Rightarrow> int \<Rightarrow> ptr \<Rightarrow> ptr \<Rightarrow> bool \<Rightarrow> fd_sets \<Rightarrow> pth_state \<Rightarrow> ((bool \<times> fd_sets) \<times> pth_state) option" where
  "late_ring E rc evh ev any fds s =
     Option.bind (late_event E rc ev fds s) (\<lambda>((occ, fds), s).
     Option.bind (e_get ev_next ev s) (\<lambda>ev.
       if ev \<noteq> evh then late_ring E rc evh ev (any \<or> occ) fds s else Some ((any \<or> occ, fds), s)))"

definition late_thread :: "env \<Rightarrow> int \<Rightarrow> ptr \<Rightarrow> fd_sets \<Rightarrow> pth_state \<Rightarrow> ((bool \<times> fd_sets) \<times> pth_state) option" where
  "late_thread E rc t fds s = do {
     evh \<leftarrow> t_get t_events t s;
     ((any, fds), s) \<leftarrow> (if evh = NULL then Some ((False, fds), s) else late_ring E rc evh evh False fds s);
     cancel \<leftarrow> t_get t_cancelreq t s;
     Some ((any \<or> cancel, fds), s) }"

definition wake_thread :: "ptr \<Rightarrow> pth_state \<Rightarrow> pth_state option" where
  "wake_thread t s = do {
     s \<leftarrow> pth_pqueue_delete (Some WQ) t s;
     s \<leftarrow> t_set (\<lambda>c. c\<lparr>t_state := PTH_STATE_READY\<rparr>) t s;
     prio \<leftarrow> t_get t_prio t s;
     pth_pqueue_insert (Some RQ) (prio + 1) t s }"

partial_function (option) late_threads :: "env \<Rightarrow> int \<Rightarrow> ptr \<Rightarrow> fd_sets \<Rightarrow> pth_state \<Rightarrow> pth_state option" where
  "late_threads E rc t fds s =
     (if t = NULL then Some s
      else Option.bind (late_thread E rc t fds s) (\<lambda>((any, fds), s).
           Option.bind (pth_pqueue_walk (Some WQ) t PTH_WALK_NEXT s) (\<lambda>t'.
           Option.bind (if any then wake_thread t s else Some s) (\<lambda>s.
             late_threads E rc t' fds s))))"

section \<open>The event manager\<close>

definition sigset_full :: sigset where "sigset_full = {1..64}"

text \<open>The result is the time to which the snapshot of the scheduler has been advanced.\<close>

partial_function (option) pth_sched_eventmanager :: "env \<Rightarrow> pth_time_t \<Rightarrow> bool \<Rightarrow> pth_state \<Rightarrow> (pth_time_t \<times> pth_state) option" where
  "pth_sched_eventmanager E now0 dopoll s =
     Option.bind (check_threads E now0 (pth_pqueue_head (Some WQ) s) em0
        (s\<lparr>pth_sigpending := os_sigpending s, pth_sigblock := sigset_full, pth_sigcatch := {}, pth_sigraised := {}\<rparr>)) (\<lambda>(m, s).
     Option.bind (em_poll E now0 (dopoll \<or> em_any m) m s) (\<lambda>((again, rc, fds), s).
     Option.bind (late_threads E rc (pth_pqueue_head (Some WQ) s) fds s) (\<lambda>s.
       if again then pth_sched_eventmanager E (now E s) (dopoll \<or> em_any m) s else Some (now0, s))))"

definition pth_sched_eventmanager_sighandler :: "nat \<Rightarrow> pth_state \<Rightarrow> pth_state" where
  "pth_sched_eventmanager_sighandler sig s =
     s\<lparr>pth_sigraised := insert sig (pth_sigraised s), sigpipe_data := sigpipe_data s @ [sig]\<rparr>"

section \<open>What the event manager leaves alone\<close>

text \<open>
  \<open>em_step A s s'\<close>: the queues and the control blocks are unchanged up to the pending signals of a
  thread, and of the events only the status changes, only within \<open>A\<close>, and never back to pending.
\<close>

definition nosig :: "pth_st \<Rightarrow> pth_st" where
  "nosig c = c\<lparr>t_sigpending := {}, t_sigpendcnt := 0\<rparr>"

definition nostat :: "pth_event_st \<Rightarrow> pth_event_st" where
  "nostat e = e\<lparr>ev_status := PTH_STATUS_PENDING\<rparr>"

definition ev_step :: "ptr set \<Rightarrow> (ptr \<rightharpoonup> pth_event_st) \<Rightarrow> (ptr \<rightharpoonup> pth_event_st) \<Rightarrow> bool" where
  "ev_step A h h' \<longleftrightarrow> (\<forall>x. map_option nostat (h' x) = map_option nostat (h x)) \<and>
     (\<forall>x. x \<notin> A \<longrightarrow> h' x = h x) \<and> (\<forall>x. nonpending h x \<longrightarrow> nonpending h' x)"

definition em_step :: "ptr set \<Rightarrow> pth_state \<Rightarrow> pth_state \<Rightarrow> bool" where
  "em_step A s s' \<longleftrightarrow> queues s' = queues s \<and> pth_current s' = pth_current s \<and> pth_main s' = pth_main s \<and>
     pth_sched s' = pth_sched s \<and> pth_favournew s' = pth_favournew s \<and>
     (\<forall>x. map_option nosig (tcbs s' x) = map_option nosig (tcbs s x)) \<and> ev_step A (evs s) (evs s')"

lemma ev_step_refl [simp]: "ev_step A h h"
  by (simp add: ev_step_def)

lemma ev_step_trans: "ev_step A h h' \<Longrightarrow> ev_step B h' h'' \<Longrightarrow> A \<union> B \<subseteq> C \<Longrightarrow> ev_step C h h''"
  unfolding ev_step_def by (metis UnCI subsetD)

lemma ev_step_mono: "ev_step A h h' \<Longrightarrow> A \<subseteq> B \<Longrightarrow> ev_step B h h'"
  unfolding ev_step_def by blast

lemma ev_step_fld:
  assumes "ev_step A h h'" "\<And>e. f (nostat e) = f e"
  shows "fld h' f = fld h f"
proof
  fix x
  have "map_option f (map_option nostat (h' x)) = map_option f (map_option nostat (h x))"
    using assms(1) by (simp add: ev_step_def)
  then show "fld h' f x = fld h f x"
    using assms(2) by (simp add: fld_def option.map_comp comp_def)
qed

lemma ev_step_ring: "ev_step A h h' \<Longrightarrow> ev_ring h' es = ev_ring h es"
  by (simp add: ev_ring_def ev_step_fld nostat_def)

lemma em_step_refl [simp]: "em_step A s s"
  by (simp add: em_step_def)

lemma em_step_trans: "em_step A s s' \<Longrightarrow> em_step B s' s'' \<Longrightarrow> A \<union> B \<subseteq> C \<Longrightarrow> em_step C s s''"
  unfolding em_step_def using ev_step_trans [of A "evs s" "evs s'" B "evs s''" C] by simp

lemma em_step_mono: "em_step A s s' \<Longrightarrow> A \<subseteq> B \<Longrightarrow> em_step B s s'"
  unfolding em_step_def using ev_step_mono by blast

lemma em_step_then: "em_step A s s' \<Longrightarrow> em_step A s' s'' \<Longrightarrow> em_step A s s''"
  using em_step_trans by blast

lemma em_step_fld:
  assumes "em_step A s s'" "\<And>c. f (nosig c) = f c"
  shows "fld (tcbs s') f = fld (tcbs s) f"
proof
  fix x
  have "map_option f (map_option nosig (tcbs s' x)) = map_option f (map_option nosig (tcbs s x))"
    using assms(1) by (simp add: em_step_def)
  then show "fld (tcbs s') f x = fld (tcbs s) f x"
    using assms(2) by (simp add: fld_def option.map_comp comp_def)
qed

lemma em_step_queues:
  assumes "em_step A s s'"
  shows "queues_ok s' L = queues_ok s L"
proof -
  have "fld (tcbs s') f = fld (tcbs s) f" if "f \<in> {q_next, q_prev}" for f
    using em_step_fld [OF assms, of f] that by (auto simp: nosig_def)
  moreover have "fld (tcbs s') q_prio = fld (tcbs s) q_prio"
    using em_step_fld [OF assms, of q_prio] by (simp add: nosig_def)
  moreover have "queues s' = queues s"
    using assms by (simp add: em_step_def)
  ultimately show ?thesis
    by (simp add: queues_ok_def pq_rep_def)
qed

text \<open>Stores that are such steps.\<close>

lemma em_step_status:
  assumes "e_set (\<lambda>e. e\<lparr>ev_status := st\<rparr>) ev s = Some s'" "ev \<in> A" "st \<noteq> PTH_STATUS_PENDING"
  shows "em_step A s s' \<and> nonpending (evs s') ev"
  using assms
  by (auto simp: e_set_def setf_def em_step_def ev_step_def upd_def nostat_def nonpending_def fld_def option.map_comp comp_def split: if_splits)

lemma em_step_stores [simp]:
  "em_step A s (s'\<lparr>mem_fdset := a\<rparr>) = em_step A s s'" "em_step A s (s'\<lparr>pth_sigpending := b\<rparr>) = em_step A s s'"
  "em_step A s (s'\<lparr>pth_sigblock := b\<rparr>) = em_step A s s'" "em_step A s (s'\<lparr>pth_sigcatch := b\<rparr>) = em_step A s s'"
  "em_step A s (s'\<lparr>pth_sigraised := b\<rparr>) = em_step A s s'" "em_step A s (s'\<lparr>sigpipe_data := d\<rparr>) = em_step A s s'"
  "em_step A s (snd (pth_util_sigdelete ok sig s')) = em_step A s s'"
  by (simp_all add: em_step_def pth_util_sigdelete_def)

lemma em_step_from [simp]:
  "em_step A (s\<lparr>pth_sigpending := b\<rparr>) s' = em_step A s s'" "em_step A (s\<lparr>pth_sigblock := b\<rparr>) s' = em_step A s s'"
  "em_step A (s\<lparr>pth_sigcatch := b\<rparr>) s' = em_step A s s'" "em_step A (s\<lparr>pth_sigraised := b\<rparr>) s' = em_step A s s'"
  "em_step A (s\<lparr>sigpipe_data := d\<rparr>) s' = em_step A s s'" "em_step A (s\<lparr>mem_fdset := a\<rparr>) s' = em_step A s s'"
  by (simp_all add: em_step_def)

lemma em_step_sets:
  "int_set r v x = Some s' \<Longrightarrow> em_step A s s' = em_step A s x"
  "cn_set g p x = Some s' \<Longrightarrow> em_step A s s' = em_step A s x"
  "t_set f t x = Some s' \<Longrightarrow> (\<And>c. nosig (f c) = nosig c) \<Longrightarrow> em_step A s s' = em_step A s x"
proof -
  assume t: "t_set f t x = Some s'" and f: "\<And>c. nosig (f c) = nosig c"
  have "map_option nosig (upd (tcbs x) t f y) = map_option nosig (tcbs x y)" for y
    by (simp add: upd_def option.map_comp comp_def f)
  moreover have "s' = x\<lparr>tcbs := upd (tcbs x) t f\<rparr>"
    using t by (auto simp: t_set_def setf_def split: if_splits)
  ultimately show "em_step A s s' = em_step A s x"
    by (simp add: em_step_def)
qed (auto simp: int_set_def cn_set_def em_step_def)

lemma em_step_int: "int_set r v s = Some s' \<Longrightarrow> em_step A s s'"
  by (simp add: em_step_sets)

text \<open>
  What the code relies on of the test functions of the application and of \<^verbatim>\<open>select\<close>: they run
  within the scheduler and touch neither threads nor events.
\<close>

definition quiet :: "env \<Rightarrow> bool" where
  "quiet E \<longleftrightarrow> (\<forall>n fds d s. em_step {} s (snd (snd (os_select E n fds d s)))) \<and>
     (\<forall>f a s b s'. app_test E f a s = Some (b, s') \<longrightarrow> em_step {} s s')"

lemma quiet_select: "quiet E \<Longrightarrow> os_select E n fds d s = (rc, fds', s') \<Longrightarrow> em_step A s s'"
  unfolding quiet_def using em_step_mono by (metis empty_subsetI snd_conv)

lemma quiet_test: "quiet E \<Longrightarrow> test_func E f a s = Some (b, s') \<Longrightarrow> em_step A s s'"
  unfolding quiet_def test_func_def using em_step_mono
  by (metis (no_types, lifting) Pair_inject em_step_refl empty_subsetI option.inject)

lemma select_retry_step:
  assumes "select_retry E n fds d s = Some r" "quiet E"
  shows "em_step A s (snd (snd r))"
  using assms
proof (induction rule: select_retry.raw_induct [rotated, consumes 1, case_names step])
  case (step rec E n fds d s r)
  obtain rc1 fds1 s1 where sel: "os_select E n fds d s = (rc1, fds1, s1)"
    by (cases "os_select E n fds d s")
  then have "em_step A s s1"
    using step(3) quiet_select by blast
  moreover have "em_step A s1 (snd (snd r)) \<or> r = (rc1, fds1, s1)"
    using step sel by (auto split: if_splits)
  ultimately show ?case
    using em_step_then by auto
qed

section \<open>The first pass only marks events\<close>

lemma check_sig_step:
  assumes "check_sig E t sigs sigp sig occ s = Some (occ', s')"
  shows "em_step A s s'"
  using assms unfolding check_sig_def
  by (auto simp: Let_def nosig_def em_step_sets split: if_splits elim!: bind_SomeE)

lemma check_sigs_step:
  "check_sigs E t sigs sigp sl occ s = Some (occ', s') \<Longrightarrow> em_step A s s'"
  by (induction sl arbitrary: occ s) (auto elim!: bind_SomeE dest!: check_sig_step [where A = A] intro: em_step_then)

lemma check_args_step:
  assumes "check_args E tnow t ev e m s = Some ((occ, m'), s')" "quiet E"
  shows "em_step A s s'"
  using assms unfolding check_args_def
  by (auto simp: Let_def em_step_sets split: if_splits ev_args.splits elim!: bind_SomeE
      intro: check_sigs_step quiet_test)

lemma check_event_step:
  assumes "check_event E tnow t ev m s = Some (m', s')" "quiet E"
  shows "em_step UNIV s s'"
  using assms unfolding check_event_def
  by (auto split: if_splits elim!: bind_SomeE dest!: check_args_step [where A = UNIV] em_step_status [where A = UNIV])
    (meson em_step_then)

lemma check_ring_step:
  assumes "check_ring E tnow t evh ev m s = Some r" "quiet E"
  shows "em_step UNIV s (snd r)"
  using assms
proof (induction rule: check_ring.raw_induct [rotated, consumes 1, case_names step])
  case (step rec E tnow t evh ev m s r)
  obtain m1 s1 where 2: "check_event E tnow t ev m s = Some (m1, s1)"
    using step(2) by (auto elim!: bind_SomeE)
  then have "em_step UNIV s s1"
    using step(3) check_event_step by blast
  moreover have "em_step UNIV s1 (snd r)"
    using step 2 by (cases r) (auto split: if_splits elim!: bind_SomeE)
  ultimately show ?case
    by (rule em_step_then)
qed

lemma check_thread_step:
  assumes "check_thread E tnow t m s = Some (m', s')" "quiet E"
  shows "em_step UNIV s s'"
  using assms unfolding check_thread_def Let_def
  by (auto split: if_splits elim!: bind_SomeE dest!: check_ring_step)

lemma check_threads_step:
  assumes "queues_ok s L" "L WQ = us @ ws" "quiet E"
    and "check_threads E tnow (list_hook (map fst ws)) m s = Some (m', s')"
  shows "em_step UNIV s s'"
  using assms
proof (induction ws arbitrary: us m s)
  case Nil
  then show ?case
    by (simp add: check_threads.simps)
next
  case (Cons w ws)
  obtain t p where w: "w = (t, p)" by (cases w)
  have "t \<noteq> NULL"
    using queues_ok_alive [OF Cons.prems(1), of t WQ] Cons.prems(2) w by (simp add: alive_def)
  then obtain m1 s1 where 1: "check_thread E tnow t m s = Some (m1, s1)"
    "Option.bind (pth_pqueue_walk (Some WQ) t PTH_WALK_NEXT s1) (\<lambda>t. check_threads E tnow t m1 s1) = Some (m', s')"
    using Cons.prems(4) w by (subst (asm) check_threads.simps) (auto elim!: bind_SomeE)
  have step: "em_step UNIV s s1"
    using check_thread_step [OF 1(1) Cons.prems(3)] .
  then have ok: "queues_ok s1 L"
    using em_step_queues Cons.prems(1) by blast
  have "pth_pqueue_walk (Some WQ) t PTH_WALK_NEXT s1 = Some (list_hook (map fst ws))"
    using pth_pqueue_walk_next_spec [of s1 WQ us t p ws] queues_ok_rep [OF ok, of WQ] Cons.prems(2) w by simp
  then have "em_step UNIV s1 s'"
    using 1(2) Cons.IH [OF ok, of "us @ [w]"] Cons.prems(2,3) by simp
  with step show ?case
    by (rule em_step_then)
qed

lemma em_poll_step:
  assumes "em_poll E tnow dopoll m s = Some (r, s')" "quiet E"
  shows "em_step UNIV s s'"
proof -
  let ?s0 = "s\<lparr>sigpipe_data := []\<rparr>"
  have sel: "em_step UNIV ?s0 s1" if "select_retry E n fds d ?s0 = Some (rc, fds', s1)" for n fds d rc fds' s1
    using select_retry_step [OF that assms(2)] by simp
  have "em_step UNIV ?s0 s'"
    using assms(1) unfolding em_poll_def Let_def
    by (auto split: if_splits elim!: bind_SomeE dest!: sel em_step_status [where A = UNIV])
      (meson em_step_then)+
  then show ?thesis
    by simp
qed

section \<open>The second pass settles one ring\<close>

lemma late_fd_step:
  assumes "late_fd E rc ev goal fd fds s = Some (fds', s')" "quiet E"
  shows "em_step {ev} s s'"
  using assms unfolding late_fd_def
  by (auto split: if_splits prod.splits elim!: bind_SomeE dest!: select_retry_step [where A = "{ev}"] em_step_status [where A = "{ev}"]
      intro: em_step_then)

lemma late_select_step:
  assumes "late_select E rc ev n nfd ps fds s = Some s'" "quiet E"
  shows "em_step {ev} s s'"
  using assms unfolding late_select_def Let_def
  by (auto split: if_splits prod.splits elim!: bind_SomeE dest!: select_retry_step [where A = "{ev}"] em_step_status [where A = "{ev}"]
      em_step_int [where A = "{ev}"]) (meson em_step_then)+

lemma late_sigs_step:
  "late_sigs ev sigs sigp sl s = Some s' \<Longrightarrow> em_step {ev} s s'"
proof (induction sl arbitrary: s)
  case (Cons sig sl)
  then show ?case
    by (auto simp: Let_def split: if_splits elim!: bind_SomeE dest!: em_step_status [where A = "{ev}"] em_step_int [where A = "{ev}"])
      (meson em_step_then)+
qed simp

lemma late_event_step:
  assumes "late_event E rc ev fds s = Some ((occ, fds'), s')" "quiet E"
  shows "em_step {ev} s s' \<and> occ = nonpending (evs s') ev"
proof
  show "em_step {ev} s s'"
    using assms unfolding late_event_def
    by (auto split: if_splits ev_args.splits elim!: bind_SomeE dest!: late_fd_step late_select_step late_sigs_step
        simp: em_step_sets)
  show "occ = nonpending (evs s') ev"
    using assms(1) unfolding late_event_def by (auto elim!: bind_SomeE simp: e_get_def nonpending_def)
qed

lemma nonpending_step: "em_step A s s' \<Longrightarrow> nonpending (evs s) e \<Longrightarrow> nonpending (evs s') e"
  by (auto simp: em_step_def ev_step_def)

lemma pending_step: "em_step A s s' \<Longrightarrow> e \<notin> A \<Longrightarrow> nonpending (evs s') e = nonpending (evs s) e"
  by (auto simp: em_step_def ev_step_def nonpending_def fld_def)

lemma late_ring_first:
  assumes "late_ring E rc r x any fds s = Some ((any', fds'), s')" "fld (evs s) ev_next x = Some y" "quiet E"
  obtains occ fds1 s1 where "em_step {x} s s1" "occ = nonpending (evs s1) x" "fld (evs s1) ev_next = fld (evs s) ev_next"
    "(if y \<noteq> r then late_ring E rc r y (any \<or> occ) fds1 s1 else Some ((any \<or> occ, fds1), s1)) = Some ((any', fds'), s')"
proof -
  obtain occ fds1 s1 where 1: "late_event E rc x fds s = Some ((occ, fds1), s1)"
    "Option.bind (e_get ev_next x s1) (\<lambda>ev. if ev \<noteq> r then late_ring E rc r ev (any \<or> occ) fds1 s1
       else Some ((any \<or> occ, fds1), s1)) = Some ((any', fds'), s')"
    using assms(1) by (subst (asm) late_ring.simps) (auto elim!: bind_SomeE)
  have s1: "em_step {x} s s1" "occ = nonpending (evs s1) x"
    using late_event_step [OF 1(1) assms(3)] by auto
  have nx: "fld (evs s1) ev_next = fld (evs s) ev_next"
    using s1(1) ev_step_fld [of "{x}" "evs s" "evs s1" ev_next] by (simp add: em_step_def nostat_def)
  show ?thesis
    using that [OF s1 nx] 1(2) assms(2) by (simp add: e_get_def nx)
qed

lemma late_ring_step:
  assumes "dseg (fld (evs s) ev_next) pv q (x # xs) r" "distinct (x # xs)" "r \<notin> set xs" "quiet E"
    and "late_ring E rc r x any fds s = Some ((any', fds'), s')"
  shows "em_step (set (x # xs)) s s' \<and> any' = (any \<or> (\<exists>e\<in>set (x # xs). nonpending (evs s') e))"
  using assms
proof (induction xs arbitrary: x s q any fds)
  case Nil
  show ?case
    by (rule late_ring_first [OF Nil(5) _ Nil(4), of r]) (use Nil(1) in auto)
next
  case (Cons y ys)
  obtain occ fds1 s1 where s1: "em_step {x} s s1" "occ = nonpending (evs s1) x"
    and nx: "fld (evs s1) ev_next = fld (evs s) ev_next"
    and "(if y \<noteq> r then late_ring E rc r y (any \<or> occ) fds1 s1 else Some ((any \<or> occ, fds1), s1)) = Some ((any', fds'), s')"
    by (rule late_ring_first [OF Cons.prems(5) _ Cons.prems(4), of y]) (use Cons.prems(1) in auto)
  then have 2: "em_step (set (y # ys)) s1 s'" "any' = ((any \<or> occ) \<or> (\<exists>e\<in>set (y # ys). nonpending (evs s') e))"
    using Cons.IH [of s1 x y "any \<or> occ" fds1] Cons.prems(1,2,3,4) nx by auto
  have "nonpending (evs s') x = occ"
    using pending_step [OF 2(1), of x] Cons.prems(2) s1(2) by auto
  moreover have "em_step (set (x # y # ys)) s s'"
    by (rule em_step_trans [OF s1(1) 2(1)]) auto
  ultimately show ?case
    using 2(2) by auto
qed

section \<open>The second pass over the waiting threads\<close>

text \<open>The event ring of a waiting thread, and whether the thread is to be woken up.\<close>

definition wait_ring :: "pth_state \<Rightarrow> ptr \<Rightarrow> ptr list \<Rightarrow> bool" where
  "wait_ring s t es \<longleftrightarrow> fld (tcbs s) t_events t = Some (list_hook es) \<and> ev_ring (evs s) es"

definition woken :: "pth_state \<Rightarrow> ptr \<Rightarrow> ptr list \<Rightarrow> bool" where
  "woken s t es \<longleftrightarrow> (\<exists>e\<in>set es. nonpending (evs s) e) \<or> fld (tcbs s) t_cancelreq t = Some True"

lemma late_thread_step:
  assumes "late_thread E rc t fds s = Some ((any, fds'), s')" "wait_ring s t es" "quiet E"
  shows "em_step (set es) s s' \<and> any = woken s' t es"
proof (cases es)
  case Nil
  then show ?thesis
    using assms by (auto simp: late_thread_def wait_ring_def woken_def t_get_def elim!: bind_SomeE)
next
  case (Cons x xs)
  have ring: "ev_ring (evs s) (x # xs)" "x \<noteq> NULL"
    using assms(2) Cons ev_ring_mem by (auto simp: wait_ring_def)
  obtain any1 s1 where 1: "late_ring E rc x x False fds s = Some ((any1, fds'), s')" "any = (any1 \<or> fld (tcbs s') t_cancelreq t = Some True)"
    using assms(1,2) Cons ring(2) by (auto simp: late_thread_def wait_ring_def t_get_def elim!: bind_SomeE)
  show ?thesis
    using late_ring_step [OF ev_ring_dseg [OF ring(1)] _ _ assms(3) 1(1)] ev_ring_distinct [OF ring(1)] 1(2) Cons
    by (simp add: woken_def)
qed

text \<open>
  \<open>wake_step A W s s'\<close>: as \<open>em_step A\<close>, but threads may have changed their queues, and the threads in
  \<open>W\<close> have become ready.
\<close>

definition bare :: "pth_st \<Rightarrow> pth_st" where
  "bare c = noq (nosig c)"

definition ready :: "ptr set \<Rightarrow> ptr \<Rightarrow> pth_st \<Rightarrow> pth_st" where
  "ready W x c = (if x \<in> W then c\<lparr>t_state := PTH_STATE_READY\<rparr> else c)"

definition wake_step :: "ptr set \<Rightarrow> ptr set \<Rightarrow> pth_state \<Rightarrow> pth_state \<Rightarrow> bool" where
  "wake_step A W s s' \<longleftrightarrow> pth_current s' = pth_current s \<and> pth_main s' = pth_main s \<and>
     pth_sched s' = pth_sched s \<and> pth_favournew s' = pth_favournew s \<and>
     (\<forall>x. map_option bare (tcbs s' x) = map_option (ready W x) (map_option bare (tcbs s x))) \<and> ev_step A (evs s) (evs s')"

lemma ready_simps [simp]: "ready {} x = id" "x \<notin> W \<Longrightarrow> ready W x = id" "ready W x (ready V x c) = ready (V \<union> W) x c"
  by (auto simp: ready_def)

lemma wake_step_trans:
  assumes "wake_step A W s s'" "wake_step B V s' s''" "A \<union> B \<subseteq> C" "W \<union> V = X"
  shows "wake_step C X s s''"
proof -
  have "map_option bare (tcbs s'' x) = map_option (ready X x) (map_option bare (tcbs s x))" for x
  proof -
    have "map_option bare (tcbs s'' x) = map_option (ready V x) (map_option (ready W x) (map_option bare (tcbs s x)))"
      using assms(1,2) by (simp only: wake_step_def)
    then show ?thesis
      using assms(4) by (simp add: option.map_comp comp_def)
  qed
  then show ?thesis
    using assms(1-3) ev_step_trans [of A "evs s" "evs s'" B "evs s''" C] by (simp add: wake_step_def)
qed

lemma em_wake: "em_step A s s' \<Longrightarrow> wake_step A {} s s'"
  unfolding em_step_def wake_step_def bare_def by (metis (no_types, lifting) ready_simps(1) option.map_id option.map_comp comp_apply id_apply map_option_cong)

lemma qframe_wake:
  assumes "qframe s s'"
  shows "wake_step {} {} s s'"
proof -
  have "map_option bare (tcbs s' x) = map_option bare (tcbs s x)" for x
  proof -
    have "bare = nosig \<circ> noq"
      by (simp add: bare_def noq_def nosig_def fun_eq_iff)
    moreover have "map_option nosig (map_option noq (tcbs s' x)) = map_option nosig (map_option noq (tcbs s x))"
      using assms by (simp add: qframe_def)
    ultimately show ?thesis
      by (simp add: option.map_comp comp_def)
  qed
  then show ?thesis
    using qframe_state(1-4,7) [OF assms] by (simp add: wake_step_def option.map_id)
qed

lemma wake_step_fld:
  assumes "wake_step A W s s'" "\<And>c. f (bare c) = f c" "\<And>c. f (c\<lparr>t_state := PTH_STATE_READY\<rparr>) = f c"
  shows "fld (tcbs s') f = fld (tcbs s) f"
proof
  fix x
  have "map_option f (map_option bare (tcbs s' x)) = map_option f (map_option (ready W x) (map_option bare (tcbs s x)))"
    using assms(1) by (simp add: wake_step_def)
  moreover have "f (ready W x (bare c)) = f c" for c
    using assms(2,3) by (simp add: ready_def)
  ultimately show "fld (tcbs s') f x = fld (tcbs s) f x"
    using assms(2) by (simp add: fld_def option.map_comp comp_def)
qed

lemma wake_step_fields:
  assumes "wake_step A W s s'"
  shows "fld (tcbs s') t_prio = fld (tcbs s) t_prio" "fld (tcbs s') t_events = fld (tcbs s) t_events"
    "fld (tcbs s') t_cancelreq = fld (tcbs s) t_cancelreq" "fld (tcbs s') t_joinable = fld (tcbs s) t_joinable"
  by (rule wake_step_fld [OF assms]; simp add: bare_def nosig_def noq_def)+

lemma wake_step_state:
  assumes "wake_step A W s s'"
  shows "fld (tcbs s') t_state x = (if x \<in> W then map_option (\<lambda>_. PTH_STATE_READY) (tcbs s x) else fld (tcbs s) t_state x)"
proof -
  have "map_option t_state (map_option bare (tcbs s' x)) = map_option t_state (map_option (ready W x) (map_option bare (tcbs s x)))"
    using assms by (simp add: wake_step_def)
  moreover have "t_state (bare c) = t_state c" for c
    by (simp add: bare_def nosig_def)
  ultimately show ?thesis
    by (simp add: fld_def option.map_comp comp_def ready_def)
qed

lemma wake_step_ring: "wake_step A W s s' \<Longrightarrow> wait_ring s' t es = wait_ring s t es"
  using ev_step_ring [of A "evs s" "evs s'" es] wake_step_fields(2) [of A W s s'] by (simp add: wait_ring_def wake_step_def)

lemma wake_step_woken:
  assumes "wake_step A W s s'" "A \<inter> set es = {}"
  shows "woken s' t es = woken s t es"
proof -
  have "nonpending (evs s') e = nonpending (evs s) e" if "e \<in> set es" for e
    using assms that by (auto simp: wake_step_def ev_step_def nonpending_def fld_def)
  then show ?thesis
    by (simp add: woken_def wake_step_fields [OF assms(1)])
qed

lemma wake_thread_spec:
  assumes ok: "queues_ok s L" and L: "L WQ = us @ (t, p) # ws"
  shows "\<exists>s'. wake_thread t s = Some s' \<and> wake_step {} {t} s s' \<and>
    queues_ok s' (L(WQ := us @ ws, RQ := pq_ins t (the (fld (tcbs s) t_prio t) + 1) (L RQ)))"
proof -
  let ?f = "\<lambda>c. c\<lparr>t_state := PTH_STATE_READY\<rparr>" and ?L = "L(WQ := us @ ws)"
  obtain s1 where s1: "pth_pqueue_delete (Some WQ) t s = Some s1" "queues_ok s1 ?L" "qframe s s1"
    using pq.leave_ok [OF ok L] by blast
  have alive: "alive t s1"
    using queues_ok_alive [OF ok, of t WQ] L qframe_alive [OF s1(3)] by simp
  then obtain c where c: "tcbs s1 t = Some c"
    by (auto simp: alive_def)
  let ?s2 = "s1\<lparr>tcbs := (tcbs s1)(t \<mapsto> ?f c)\<rparr>"
  have ok2: "queues_ok ?s2 ?L"
    using queues_ok_upd_other [of ?f s1 t ?L] s1(2) upd_cell [of "tcbs s1" t c ?f] c by simp
  have prio: "fld (tcbs s1) t_prio t = fld (tcbs s) t_prio t"
    using qframe_fld [OF s1(3), of t_prio] by simp
  obtain s3 where s3: "pth_pqueue_insert (Some RQ) (t_prio c + 1) t ?s2 = Some s3"
    "queues_ok s3 (?L(RQ := pq_ins t (t_prio c + 1) (?L RQ)))" "qframe ?s2 s3"
    using pq.enter_ok [OF ok2, of t RQ "t_prio c + 1"] alive pq.ok_once [OF ok L] by (auto simp: alive_def)
  have "wake_thread t s = Some s3"
    using s1(1) s3(1) c by (simp add: wake_thread_def cells)
  moreover have "wake_step {} {t} s1 ?s2"
    using c by (auto simp: wake_step_def fun_upd_apply option.map_id) (simp add: ready_def bare_def noq_def nosig_def)
  then have "wake_step {} {t} s s3"
    using wake_step_trans [OF wake_step_trans [OF qframe_wake [OF s1(3)]] qframe_wake [OF s3(3)]] by auto
  moreover have "the (fld (tcbs s) t_prio t) = t_prio c"
    using prio fld_cell [of "tcbs s1" t c t_prio] c by (metis option.sel)
  ultimately show ?thesis
    using s3(2) by auto
qed

definition woken_threads :: "pth_state \<Rightarrow> (ptr \<Rightarrow> ptr list) \<Rightarrow> (ptr \<times> int) list \<Rightarrow> (ptr \<times> int) list" where
  "woken_threads s R ws = filter (\<lambda>(t, p). woken s t (R t)) ws"

definition unwoken_threads :: "pth_state \<Rightarrow> (ptr \<Rightarrow> ptr list) \<Rightarrow> (ptr \<times> int) list \<Rightarrow> (ptr \<times> int) list" where
  "unwoken_threads s R ws = filter (\<lambda>(t, p). \<not> woken s t (R t)) ws"

lemma woken_simps [simp]:
  "woken_threads s R [] = []" "unwoken_threads s R [] = []"
  "woken_threads s R ((t, p) # ws) = (if woken s t (R t) then (t, p) # woken_threads s R ws else woken_threads s R ws)"
  "unwoken_threads s R ((t, p) # ws) = (if woken s t (R t) then unwoken_threads s R ws else (t, p) # unwoken_threads s R ws)"
  by (simp_all add: woken_threads_def unwoken_threads_def)

definition make_ready :: "pth_state \<Rightarrow> (ptr \<times> int) list \<Rightarrow> (ptr \<times> int) list \<Rightarrow> (ptr \<times> int) list" where
  "make_ready s = fold (\<lambda>(t, p). pq_ins t (the (fld (tcbs s) t_prio t) + 1))"

text \<open>The events of different waiting threads are different.\<close>

definition rings_apart :: "(ptr \<Rightarrow> ptr list) \<Rightarrow> ptr set \<Rightarrow> bool" where
  "rings_apart R T \<longleftrightarrow> (\<forall>t\<in>T. \<forall>u\<in>T. t \<noteq> u \<longrightarrow> set (R t) \<inter> set (R u) = {})"

lemma rings_apart_mono: "rings_apart R T \<Longrightarrow> U \<subseteq> T \<Longrightarrow> rings_apart R U"
  unfolding rings_apart_def by blast

lemma late_threads_step:
  assumes "queues_ok s L" "L WQ = us @ ws" "quiet E"
    and "\<And>t. t \<in> fst ` set ws \<Longrightarrow> wait_ring s t (R t)" "rings_apart R (fst ` set ws)"
    and "late_threads E rc (list_hook (map fst ws)) fds s = Some s'"
  shows "queues_ok s' (L(WQ := us @ unwoken_threads s' R ws, RQ := make_ready s (woken_threads s' R ws) (L RQ))) \<and>
    wake_step (\<Union>t\<in>fst ` set ws. set (R t)) (fst ` set (woken_threads s' R ws)) s s'"
  using assms
proof (induction ws arbitrary: us L s fds)
  case Nil
  then have "s' = s"
    by (simp add: late_threads.simps)
  then show ?case
    using Nil em_wake [of "{}" s s] by (simp add: woken_threads_def unwoken_threads_def make_ready_def fun_upd_idem)
next
  case (Cons w ws)
  obtain t p where w: "w = (t, p)" by (cases w)
  note prems = Cons.prems [unfolded w]
  have ring: "wait_ring s t (R t)" and t: "t \<noteq> NULL"
    using prems(2,4) queues_ok_alive [OF prems(1), of t WQ] by (auto simp: alive_def)
  obtain any fds1 s1 t' s2 where 1: "late_thread E rc t fds s = Some ((any, fds1), s1)"
    "pth_pqueue_walk (Some WQ) t PTH_WALK_NEXT s1 = Some t'" "(if any then wake_thread t s1 else Some s1) = Some s2"
    "late_threads E rc t' fds1 s2 = Some s'"
    using prems(6) t late_threads.simps [of E rc t fds s] by (auto elim!: bind_SomeE)
  have s1: "em_step (set (R t)) s s1" and any: "any = woken s1 t (R t)"
    using late_thread_step [OF 1(1) ring prems(3)] by auto
  have ok1: "queues_ok s1 L"
    using em_step_queues [OF s1] prems(1) by simp
  have t': "t' = list_hook (map fst ws)"
    using pth_pqueue_walk_next_spec [of s1 WQ us t p ws] queues_ok_rep [OF ok1, of WQ] prems(2) 1(2) by simp
  let ?us = "if any then us else us @ [(t, p)]" and ?prio = "the (fld (tcbs s1) t_prio t) + 1"
  let ?L = "L(WQ := ?us @ ws, RQ := if any then pq_ins t ?prio (L RQ) else L RQ)"
  have s2: "wake_step {} (if any then {t} else {}) s1 s2" "queues_ok s2 ?L"
    using wake_thread_spec [OF ok1 prems(2)] ok1 1(3) prems(2) em_wake [of "{}" s1 s1] by (auto simp: fun_upd_idem split: if_splits)
  have s12: "wake_step (set (R t)) (if any then {t} else {}) s s2"
    by (rule wake_step_trans [OF em_wake [OF s1] s2(1)]) auto
  let ?A = "\<Union>u\<in>fst ` set ws. set (R u)" and ?W = "fst ` set (woken_threads s' R ws)"
  have IH: "queues_ok s' (?L(WQ := ?us @ unwoken_threads s' R ws, RQ := make_ready s2 (woken_threads s' R ws) (?L RQ)))"
    "wake_step ?A ?W s2 s'"
    using Cons.IH [OF s2(2) _ prems(3) _ _ 1(4) [unfolded t'], of ?us] prems(4,5) wake_step_ring [OF s12]
    by (auto simp: rings_apart_def)
  have "t \<notin> fst ` set ws"
    using pq_rep_distinct [OF queues_ok_rep [OF prems(1), of WQ]] prems(2) by auto
  then have "?A \<inter> set (R t) = {}"
    using prems(5) by (auto simp: rings_apart_def)
  then have woken: "woken s' t (R t) = any"
    using wake_step_woken [OF IH(2)] wake_step_woken [OF s2(1)] any by simp
  have prio: "fld (tcbs s2) t_prio = fld (tcbs s) t_prio" "fld (tcbs s1) t_prio = fld (tcbs s) t_prio"
    using wake_step_fields(1) [OF s12] wake_step_fields(1) [OF em_wake [OF s1]] by auto
  have "wake_step (\<Union>t\<in>fst ` set ((t, p) # ws). set (R t)) (fst ` set (woken_threads s' R ((t, p) # ws))) s s'"
    by (rule wake_step_trans [OF s12 IH(2)]) (auto simp: woken_threads_def woken)
  moreover have "?L(WQ := ?us @ unwoken_threads s' R ws, RQ := make_ready s2 (woken_threads s' R ws) (?L RQ)) =
      L(WQ := us @ unwoken_threads s' R ((t, p) # ws), RQ := make_ready s (woken_threads s' R ((t, p) # ws)) (L RQ))"
    by (auto simp: woken_threads_def unwoken_threads_def make_ready_def woken prio fun_upd_apply)
  ultimately show ?case
    using IH(1) w by simp
qed

section \<open>The whole event manager\<close>

lemma woken_mono: "wake_step A W s s' \<Longrightarrow> woken s t es \<Longrightarrow> woken s' t es"
  by (auto simp: woken_def wake_step_def ev_step_def wake_step_fields(3) [of A W s s'])

lemma make_ready_prio: "fld (tcbs s') t_prio = fld (tcbs s) t_prio \<Longrightarrow> make_ready s' = make_ready s"
  by (simp add: make_ready_def)

lemma woken_twice:
  assumes "wake_step A W s s'"
  shows "unwoken_threads s' R (unwoken_threads s R ws) = unwoken_threads s' R ws"
    "mset (woken_threads s' R ws) = mset (woken_threads s R ws) + mset (woken_threads s' R (unwoken_threads s R ws))"
  by (induction ws) (auto dest: woken_mono [OF assms])

text \<open>What a call achieves, with the list of the threads it has moved in the order of the moves.\<close>

definition em_result :: "pth_state \<Rightarrow> qlists \<Rightarrow> (ptr \<Rightarrow> ptr list) \<Rightarrow> (ptr \<times> int) list \<Rightarrow> pth_state \<Rightarrow> bool" where
  "em_result s L R vs s' \<longleftrightarrow> mset vs = mset (woken_threads s' R (L WQ)) \<and>
     queues_ok s' (L(WQ := unwoken_threads s' R (L WQ), RQ := make_ready s vs (L RQ))) \<and>
     wake_step UNIV (fst ` set vs) s s'"

lemma em_pass:
  assumes ok: "queues_ok s L" and E: "quiet E"
    and R: "\<And>t. t \<in> fst ` set (L WQ) \<Longrightarrow> wait_ring s t (R t)" "rings_apart R (fst ` set (L WQ))"
    and 1: "check_threads E now0 (pth_pqueue_head (Some WQ) s) em0
        (s\<lparr>pth_sigpending := os_sigpending s, pth_sigblock := sigset_full, pth_sigcatch := {}, pth_sigraised := {}\<rparr>) = Some (m, s1)"
    and 2: "em_poll E now0 dopoll m s1 = Some (r, s2)"
    and 3: "late_threads E rc (pth_pqueue_head (Some WQ) s2) fds s2 = Some s3"
  shows "em_result s L R (woken_threads s3 R (L WQ)) s3"
proof -
  let ?s = "s\<lparr>pth_sigpending := os_sigpending s, pth_sigblock := sigset_full, pth_sigcatch := {}, pth_sigraised := {}\<rparr>"
  have s: "em_step UNIV s ?s" by simp
  have head: "pth_pqueue_head (Some WQ) s' = list_hook (map fst (L WQ))" if "queues_ok s' L" for s' :: pth_state
    using pth_pqueue_head_spec [OF queues_ok_rep [OF that, of WQ]] .
  have "queues_ok ?s L"
    using em_step_queues [OF s] ok by simp
  then have "em_step UNIV ?s s1"
    using check_threads_step [of ?s L "[]" "L WQ" E now0 em0 m s1] 1 E head [OF ok] by simp
  then have s2: "em_step UNIV s s2"
    using em_poll_step [OF 2 E] em_step_then s by blast
  have ok2: "queues_ok s2 L"
    using em_step_queues [OF s2] ok by simp
  have "late_threads E rc (list_hook (map fst (L WQ))) fds s2 = Some s3"
    using 3 head [OF ok2] by simp
  then have s3: "queues_ok s3 (L(WQ := unwoken_threads s3 R (L WQ), RQ := make_ready s2 (woken_threads s3 R (L WQ)) (L RQ)))"
    "wake_step (\<Union>t\<in>fst ` set (L WQ). set (R t)) (fst ` set (woken_threads s3 R (L WQ))) s2 s3"
    using late_threads_step [OF ok2, of "[]" "L WQ" E R] E R wake_step_ring [OF em_wake [OF s2]] by auto
  moreover have "make_ready s2 = make_ready s"
    using make_ready_prio wake_step_fields(1) [OF em_wake [OF s2]] by blast
  moreover have "wake_step UNIV (fst ` set (woken_threads s3 R (L WQ))) s s3"
    by (rule wake_step_trans [OF em_wake [OF s2] s3(2)]) auto
  ultimately show ?thesis
    by (simp add: em_result_def)
qed

lemma em_result_twice:
  assumes 1: "em_result s L R vs s1"
    and 2: "em_result s1 (L(WQ := unwoken_threads s1 R (L WQ), RQ := make_ready s vs (L RQ))) R us s2"
  shows "em_result s L R (vs @ us) s2"
proof -
  let ?ws = "unwoken_threads s1 R (L WQ)"
  let ?L = "L(WQ := ?ws, RQ := make_ready s vs (L RQ))"
  have vs: "mset vs = mset (woken_threads s1 R (L WQ))" and s1: "wake_step UNIV (fst ` set vs) s s1"
    using 1 by (simp_all add: em_result_def)
  have us: "mset us = mset (woken_threads s2 R ?ws)" "wake_step UNIV (fst ` set us) s1 s2"
    and ok: "queues_ok s2 (L(WQ := unwoken_threads s2 R ?ws, RQ := make_ready s1 us (make_ready s vs (L RQ))))"
    using 2 by (simp_all add: em_result_def fun_upd_twist)
  have "make_ready s1 us (make_ready s vs (L RQ)) = make_ready s (vs @ us) (L RQ)"
    using make_ready_prio [OF wake_step_fields(1) [OF s1]] by (simp add: make_ready_def)
  then have "queues_ok s2 (L(WQ := unwoken_threads s2 R (L WQ), RQ := make_ready s (vs @ us) (L RQ)))"
    using ok woken_twice(1) [OF us(2)] by simp
  moreover have "mset (vs @ us) = mset (woken_threads s2 R (L WQ))"
    using vs us(1) woken_twice(2) [OF us(2), of R "L WQ"] by simp
  moreover have "wake_step UNIV (fst ` set (vs @ us)) s s2"
    by (rule wake_step_trans [OF s1 us(2)]) auto
  ultimately show ?thesis
    unfolding em_result_def by (intro conjI)
qed

lemma em_wakes:
  assumes "pth_sched_eventmanager E now0 dopoll s = Some r" "queues_ok s L" "quiet E"
    and "\<forall>t\<in>fst ` set (L WQ). wait_ring s t (R t)" "rings_apart R (fst ` set (L WQ))"
  shows "\<exists>vs. em_result s L R vs (snd r)"
  using assms
proof (induction arbitrary: L rule: pth_sched_eventmanager.raw_induct [rotated, consumes 1, case_names step])
  case (step rec E now0 dopoll s r)
  obtain m s1 again rc fds s2 s3 where
    1: "check_threads E now0 (pth_pqueue_head (Some WQ) s) em0
        (s\<lparr>pth_sigpending := os_sigpending s, pth_sigblock := sigset_full, pth_sigcatch := {}, pth_sigraised := {}\<rparr>) = Some (m, s1)"
    and 2: "em_poll E now0 (dopoll \<or> em_any m) m s1 = Some ((again, rc, fds), s2)"
    and 3: "late_threads E rc (pth_pqueue_head (Some WQ) s2) fds s2 = Some s3"
    and 4: "(if again then rec E (now E s3) (dopoll \<or> em_any m) s3 else Some (now0, s3)) = Some r"
    using step(2) by (auto elim!: bind_SomeE)
  let ?vs = "woken_threads s3 R (L WQ)"
  let ?L = "L(WQ := unwoken_threads s3 R (L WQ), RQ := make_ready s ?vs (L RQ))"
  have s3: "em_result s L R ?vs s3"
    using em_pass [OF step(3,4) _ step(6) 1 2 3] step(5) by blast
  then have ws3: "wake_step UNIV (fst ` set ?vs) s s3" and ok3: "queues_ok s3 ?L"
    unfolding em_result_def by (simp only:)+
  show ?case
  proof (cases again)
    case True
    have sub: "fst ` set (?L WQ) \<subseteq> fst ` set (L WQ)"
      by (auto simp: unwoken_threads_def)
    have ring: "wait_ring s3 t (R t)" if "t \<in> fst ` set (L WQ)" for t
      using wake_step_ring [OF ws3] step(5) that by blast
    have R: "\<forall>t\<in>fst ` set (?L WQ). wait_ring s3 t (R t)" "rings_apart R (fst ` set (?L WQ))"
      by (intro ballI ring, erule subsetD [OF sub]) (rule rings_apart_mono [OF step(6) sub])
    have "\<exists>us. em_result s3 ?L R us (snd r)"
      using step(1) [OF _ ok3 step(4) R] 4 True by simp
    then show ?thesis
      using em_result_twice [OF s3] by blast
  qed (use s3 4 in auto)
qed

section \<open>Properties\<close>

text \<open>
  C2: whenever the event manager returns, every waiting thread with an event that is no longer pending,
  or with a cancellation request, has been moved to the ready queue, in state ready and with its
  priority plus one; the other threads are still waiting, in their order and with their events
  pending. No thread is lost, duplicated or otherwise changed, and the queues are well-formed. This
  holds for any number of rounds that timers of function events cause.
\<close>

theorem pth_sched_eventmanager_wakes:
  assumes "pth_sched_eventmanager E now0 dopoll s = Some r" "queues_ok s L" "quiet E"
    and "\<forall>t\<in>fst ` set (L WQ). wait_ring s t (R t)" "rings_apart R (fst ` set (L WQ))"
  shows "\<exists>vs. em_result s L R vs (snd r)"
  by (rule em_wakes [OF assms])

text \<open>Two waiting threads at time 10: the timer of one has elapsed, that of the other has not.\<close>

definition two_waiting :: pth_state where
  "two_waiting = state0\<lparr>tcbs := [2 \<mapsto> tcb0\<lparr>q_next := 3, q_prev := 3, t_state := PTH_STATE_WAITING, t_events := 5\<rparr>,
     3 \<mapsto> tcb0\<lparr>q_next := 2, q_prev := 2, t_state := PTH_STATE_WAITING, t_events := 6\<rparr>],
     queues := (\<lambda>_. \<lparr>q_head = NULL, q_num = 0\<rparr>)(WQ := \<lparr>q_head = 2, q_num = 2\<rparr>),
     evs := [5 \<mapsto> (ev_self 5 PTH_STATUS_PENDING)\<lparr>ev_arg := EvTIME \<lparr>tv_sec = 5, tv_usec = 0\<rparr>\<rparr>,
             6 \<mapsto> (ev_self 6 PTH_STATUS_PENDING)\<lparr>ev_arg := EvTIME \<lparr>tv_sec = 20, tv_usec = 0\<rparr>\<rparr>]\<rparr>"

lemma two_waiting_ok: "queues_ok two_waiting ((\<lambda>_. [])(WQ := [(2, 0), (3, 0)]))"
proof -
  have "pq_rep (tcbs two_waiting) (queues two_waiting q) (((\<lambda>_. [])(WQ := [(2, 0), (3, 0)])) q)" for q
    by (cases "q = WQ") (simp_all add: pq_rep_def dring_def two_waiting_def fld_def tcb0_def)
  then show ?thesis
    by (auto simp: queues_ok_def fun_upd_apply)
qed

lemmas em_eval = pth_sched_eventmanager.simps check_threads.simps check_thread_def check_ring.simps check_event_def
  check_args_def em_poll_def poll_delay_def select_retry.simps late_threads.simps late_thread_def late_ring.simps late_event_def
  wake_thread_def next_timer_def em0_def pth_time_cmp_def to_c_int_def

lemma two_waiting_run:
  "\<exists>r. pth_sched_eventmanager env0 \<lparr>tv_sec = 10, tv_usec = 0\<rparr> False two_waiting = Some r \<and>
     fld (evs (snd r)) ev_status 5 = Some PTH_STATUS_OCCURRED \<and> fld (evs (snd r)) ev_status 6 = Some PTH_STATUS_PENDING \<and>
     fld (tcbs (snd r)) t_cancelreq 3 = Some False"
  by (simp add: em_eval two_waiting_def state0_def env0_def pth_pqueue_walk_def pth_pqueue_head_def pth_pqueue_delete_def
    pth_pqueue_insert_def pq_drop_head_def q_set_def t_set_def e_get_def t_get_def fld_def e_set_def setf_def ev_self_def fun_upd_apply upd_def tcb0_def)

theorem pth_sched_eventmanager_wakes_witness:
  "\<exists>r. pth_sched_eventmanager env0 \<lparr>tv_sec = 10, tv_usec = 0\<rparr> False two_waiting = Some r \<and>
     queues_ok (snd r) ((\<lambda>_. [])(WQ := [(3, 0)], RQ := [(2, 1)])) \<and> fld (tcbs (snd r)) t_state 2 = Some PTH_STATE_READY"
proof -
  let ?L = "(\<lambda>_. [])(WQ := [(2 :: ptr, 0 :: int), (3, 0)])" and ?R = "\<lambda>t :: ptr. if t = 2 then [5 :: ptr] else [6]"
  obtain r where r: "pth_sched_eventmanager env0 \<lparr>tv_sec = 10, tv_usec = 0\<rparr> False two_waiting = Some r"
    "fld (evs (snd r)) ev_status 5 = Some PTH_STATUS_OCCURRED" "fld (evs (snd r)) ev_status 6 = Some PTH_STATUS_PENDING"
    "fld (tcbs (snd r)) t_cancelreq 3 = Some False"
    using two_waiting_run by blast
  have "quiet env0"
    by (simp add: quiet_def env0_def)
  moreover have "\<forall>t\<in>fst ` set (?L WQ). wait_ring two_waiting t (?R t)"
    by (simp add: wait_ring_def two_waiting_def ev_ring_def dring_single fld_def ev_self_def)
  moreover have "rings_apart ?R (fst ` set (?L WQ))"
    by (simp add: rings_apart_def)
  ultimately obtain vs where vs: "em_result two_waiting ?L ?R vs (snd r)"
    using pth_sched_eventmanager_wakes [OF r(1) two_waiting_ok, of ?R] by blast
  have woken: "woken (snd r) 2 [5]" "\<not> woken (snd r) 3 [6]"
    using r(2-4) by (simp_all add: woken_def nonpending_def)
  then have vs1: "vs = [(2, 0)]"
    using vs by (simp add: em_result_def)
  have "make_ready two_waiting vs [] = [(2, 1)]"
    by (simp add: vs1 make_ready_def pq_ins_def two_waiting_def fld_def tcb0_def)
  then have "queues_ok (snd r) (?L(WQ := [(3, 0)], RQ := [(2, 1)]))" "wake_step UNIV {2} two_waiting (snd r)"
    using vs woken by (simp_all add: em_result_def vs1)
  moreover have "fld (tcbs (snd r)) t_state 2 = Some PTH_STATE_READY"
    using wake_step_state [OF calculation(2), of 2] by (simp add: two_waiting_def)
  ultimately show ?thesis
    using r(1) by auto
qed

end
