(* ===== verification/Pth_Sched.thy ===== *)
theory Pth_Sched
  imports Pth_Eventmgr
begin

text \<open>
  The thread scheduler (\<^verbatim>\<open>pth_sched.c\<close>): starting and dropping the queues, the average load, and the
  endless loop, which moves new threads to the ready queue, dispatches the first ready thread, files
  it when it comes back, ages the ready queue and lets the event manager wake the waiting threads.
  Entering a thread is a parameter \<open>run\<close>: it stands for everything the thread does until it switches
  back. Signals sent with \<^verbatim>\<open>kill\<close> stay pending, because the scheduler blocks all of them.
\<close>

section \<open>Starting and stopping\<close>

text \<open>The descriptors of a new pipe are open for reading and for writing.\<close>

definition pipe_flags :: "int \<Rightarrow> int \<Rightarrow> pth_state \<Rightarrow> pth_state" where
  "pipe_flags p0 p1 s = s\<lparr>fd_flags := (fd_flags s)(p0 := 0, p1 := 1)\<rparr>"

definition pth_scheduler_init :: "env \<Rightarrow> pth_state \<Rightarrow> bool \<times> pth_state" where
  "pth_scheduler_init E s = (case os_pipe E of
     Inl e \<Rightarrow> pth_error False e s
   | Inr (p0, p1) \<Rightarrow>
       let s = pipe_flags p0 p1 (s\<lparr>pth_sigpipe := (p0, p1)\<rparr>);
           (mode0, s) = pth_fdmode p0 PTH_FDMODE_NONBLOCK s in
       if mode0 = PTH_FDMODE_ERROR then pth_error False (errno s) s
       else let (mode1, s) = pth_fdmode p1 PTH_FDMODE_NONBLOCK s in
       if mode1 = PTH_FDMODE_ERROR then pth_error False (errno s) s
       else
         let s = s\<lparr>pth_sched := NULL, pth_current := NULL\<rparr>;
             s = pth_pqueue_init (Some NQ) s;
             s = pth_pqueue_init (Some RQ) s;
             s = pth_pqueue_init (Some WQ) s;
             s = pth_pqueue_init (Some SQ) s;
             s = pth_pqueue_init (Some DQ) s
         in (True, s\<lparr>pth_favournew := True, pth_loadval := 1, pth_loadticknext := now E s\<rparr>))"

partial_function (option) drop_threads :: "env \<Rightarrow> qid \<Rightarrow> pth_state \<Rightarrow> pth_state option" where
  "drop_threads E q s =
     Option.bind (pth_pqueue_delmax (Some q) s) (\<lambda>(t, s).
       if t \<noteq> NULL then Option.bind (pth_tcb_free E t s) (\<lambda>s. drop_threads E q s) else Some s)"

definition drop_queue :: "env \<Rightarrow> qid \<Rightarrow> pth_state \<Rightarrow> pth_state option" where
  "drop_queue E q s = do { s \<leftarrow> drop_threads E q s; Some (pth_pqueue_init (Some q) s) }"

definition pth_scheduler_drop :: "env \<Rightarrow> pth_state \<Rightarrow> pth_state option" where
  "pth_scheduler_drop E s = do {
     s \<leftarrow> drop_queue E NQ s;
     s \<leftarrow> drop_queue E RQ s;
     s \<leftarrow> drop_queue E WQ s;
     s \<leftarrow> drop_queue E SQ s;
     drop_queue E DQ s }"

text \<open>Closing the ends of the pipe is not visible in the state.\<close>

definition pth_scheduler_kill :: "env \<Rightarrow> pth_state \<Rightarrow> pth_state option" where
  "pth_scheduler_kill E s = do {
     s \<leftarrow> pth_scheduler_drop E s;
     Some (s\<lparr>fd_flags := (fd_flags s)(fst (pth_sigpipe s) := -1, snd (pth_sigpipe s) := -1)\<rparr>) }"

section \<open>The average load\<close>

definition pth_loadtickgap :: pth_time_t where
  "pth_loadtickgap = pth_time 1 0"

function load_loop :: "int \<Rightarrow> pth_time_t \<Rightarrow> pth_time_t \<Rightarrow> nat \<Rightarrow> rat \<Rightarrow> rat" where
  "load_loop numready ticknext ttmp loop_count loadval =
     (let loadval = of_int numready * (1 / 4) + loadval * (3 / 4);
          ttmp = pth_time_sub ttmp pth_loadtickgap;
          loop_count = loop_count + 1
      in if loop_count > 200 then loadval
         else if pth_time_cmp ttmp ticknext \<ge> 0 then load_loop numready ticknext ttmp loop_count loadval
         else loadval)"
  by pat_completeness auto

termination load_loop
  by (relation "measure (\<lambda>(_, _, _, loop_count, _). 200 - loop_count)") auto

declare load_loop.simps [simp del]

definition pth_scheduler_load :: "pth_time_t \<Rightarrow> pth_state \<Rightarrow> pth_state" where
  "pth_scheduler_load tnow s =
     (if pth_time_cmp tnow (pth_loadticknext s) \<ge> 0
      then s\<lparr>pth_loadval := load_loop (pth_pqueue_elements (Some RQ) s) (pth_loadticknext s) tnow 0 (pth_loadval s),
             pth_loadticknext := pth_time_add tnow pth_loadtickgap\<rparr>
      else s)"

section \<open>Dispatching\<close>

partial_function (option) migrate_new :: "pth_state \<Rightarrow> pth_state option" where
  "migrate_new s =
     Option.bind (pth_pqueue_tail (Some NQ) s) (\<lambda>t.
       if t \<noteq> NULL then
         Option.bind (pth_pqueue_delete (Some NQ) t s) (\<lambda>s.
         Option.bind (t_set (\<lambda>c. c\<lparr>t_state := PTH_STATE_READY\<rparr>) t s) (\<lambda>s.
         Option.bind (if pth_favournew s then pth_pqueue_favorite_prio RQ s else Some PTH_PRIO_STD) (\<lambda>p.
         Option.bind (pth_pqueue_insert (Some RQ) p t s) (\<lambda>s. migrate_new s))))
       else Some s)"

text \<open>
  The signals pending for the thread that are not pending for the process are sent to the process
  before the switch, and taken back after it unless they have been delivered.
\<close>

definition os_kill :: "nat \<Rightarrow> pth_state \<Rightarrow> pth_state" where
  "os_kill sig s = s\<lparr>os_sigpending := insert sig (os_sigpending s)\<rparr>"

primrec raise_sigs :: "sigset \<Rightarrow> nat list \<Rightarrow> pth_state \<Rightarrow> pth_state" where
  "raise_sigs pending [] s = s"
| "raise_sigs pending (sig # rest) s =
     raise_sigs pending rest (if sig \<in> pending \<and> sig \<notin> pth_sigpending s then os_kill sig s else s)"

definition raise_pending :: "ptr \<Rightarrow> pth_state \<Rightarrow> pth_state option" where
  "raise_pending t s = do {
     cnt \<leftarrow> t_get t_sigpendcnt t s;
     if cnt > 0 then do {
       pending \<leftarrow> t_get t_sigpending t s;
       Some (raise_sigs pending [1..<PTH_NSIG] (s\<lparr>pth_sigpending := os_sigpending s\<rparr>)) }
     else Some s }"

primrec take_back_sigs :: "env \<Rightarrow> ptr \<Rightarrow> sigset \<Rightarrow> nat list \<Rightarrow> pth_state \<Rightarrow> pth_state option" where
  "take_back_sigs E t stillpending [] s = Some s"
| "take_back_sigs E t stillpending (sig # rest) s = do {
     pending \<leftarrow> t_get t_sigpending t s;
     s \<leftarrow> (if sig \<in> pending then
             if sig \<notin> stillpending
             then t_set (\<lambda>c. c\<lparr>t_sigpending := t_sigpending c - {sig}, t_sigpendcnt := t_sigpendcnt c - 1\<rparr>) t s
             else if sig \<notin> pth_sigpending s then Some (snd (pth_util_sigdelete (sigaction_ok E sig) sig s))
             else Some s
           else Some s);
     take_back_sigs E t stillpending rest s }"

definition take_back :: "env \<Rightarrow> ptr \<Rightarrow> pth_state \<Rightarrow> pth_state option" where
  "take_back E t s = do {
     cnt \<leftarrow> t_get t_sigpendcnt t s;
     if cnt > 0 then take_back_sigs E t (os_sigpending s) [1..<PTH_NSIG] s else Some s }"

text \<open>The first part of an iteration, up to the switch; \<open>Aborted\<close> is a call of \<^verbatim>\<open>abort\<close>.\<close>

datatype 'a sched_out = Cont 'a | Aborted

definition sched_dispatch :: "env \<Rightarrow> pth_time_t \<Rightarrow> pth_state \<Rightarrow> pth_state sched_out option" where
  "sched_dispatch E snapshot s = do {
     s \<leftarrow> migrate_new s;
     let s = pth_scheduler_load snapshot s;
     (t, s) \<leftarrow> pth_pqueue_delmax (Some RQ) s;
     let s = s\<lparr>pth_current := t\<rparr>;
     if t = NULL then Some Aborted
     else do {
       s \<leftarrow> raise_pending t s;
       let lastran = now E s;
       s \<leftarrow> t_set (\<lambda>c. c\<lparr>t_lastran := lastran\<rparr>) t s;
       s \<leftarrow> t_set (\<lambda>c. c\<lparr>t_running := pth_time_add (t_running c) (pth_time_sub lastran snapshot)\<rparr>) (pth_sched s) s;
       s \<leftarrow> t_set (\<lambda>c. c\<lparr>t_dispatches := t_dispatches c + 1\<rparr>) t s;
       Some (Cont s) } }"

section \<open>Filing the thread that comes back\<close>

definition SIGSEGV :: nat where "SIGSEGV = 11"

text \<open>
  A thread whose stack guard has been overwritten is dead, with \<^verbatim>\<open>0xDEAD\<close> as its value; if the
  application does not handle \<^verbatim>\<open>SIGSEGV\<close>, the process ends instead.
\<close>

definition check_stack :: "env \<Rightarrow> ptr \<Rightarrow> pth_state \<Rightarrow> pth_state sched_out option" where
  "check_stack E t s = do {
     guard \<leftarrow> t_get t_stackguard t s;
     if guard \<noteq> None \<and> guard \<noteq> Some STACK_GUARD then
       if sig_act E SIGSEGV = SigDefault then Some Aborted
       else do {
         s \<leftarrow> t_set (\<lambda>c. c\<lparr>t_join_arg := 0xDEAD, t_state := PTH_STATE_DEAD\<rparr>) t s;
         Some (Cont (os_kill SIGSEGV s)) }
     else Some (Cont s) }"

definition file_thread :: "env \<Rightarrow> ptr \<Rightarrow> pth_state \<Rightarrow> pth_state option" where
  "file_thread E t s = do {
     st \<leftarrow> t_get t_state t s;
     if st = PTH_STATE_DEAD then do {
       joinable \<leftarrow> t_get t_joinable t s;
       s \<leftarrow> (if joinable = 0 then pth_tcb_free E t s else pth_pqueue_insert (Some DQ) PTH_PRIO_STD t s);
       Some (s\<lparr>pth_current := NULL\<rparr>) }
     else if st = PTH_STATE_WAITING then do {
       prio \<leftarrow> t_get t_prio t s;
       s \<leftarrow> pth_pqueue_insert (Some WQ) prio t s;
       Some (s\<lparr>pth_current := NULL\<rparr>) }
     else Some s }"

definition sched_return :: "env \<Rightarrow> pth_state \<Rightarrow> (pth_time_t \<times> pth_state) sched_out option" where
  "sched_return E s = do {
     let snapshot = now E s;
     let t = pth_current s;
     s \<leftarrow> t_set (\<lambda>c. c\<lparr>t_running := pth_time_add (t_running c) (pth_time_sub snapshot (t_lastran c))\<rparr>) t s;
     s \<leftarrow> take_back E t s;
     r \<leftarrow> check_stack E t s;
     case r of
       Aborted \<Rightarrow> Some Aborted
     | Cont s \<Rightarrow> do {
         s \<leftarrow> file_thread E t s;
         s \<leftarrow> pth_pqueue_increase (Some RQ) s;
         s \<leftarrow> (if pth_current s \<noteq> NULL then do {
                 prio \<leftarrow> t_get t_prio (pth_current s) s;
                 pth_pqueue_insert (Some RQ) prio (pth_current s) s }
               else Some s);
         let dopoll = (\<not> (pth_pqueue_elements (Some RQ) s = 0 \<and> pth_pqueue_elements (Some NQ) s = 0));
         (snapshot, s) \<leftarrow> pth_sched_eventmanager E snapshot dopoll s;
         Some (Cont (snapshot, s)) } }"

section \<open>The scheduler\<close>

definition sched_iter :: "env \<Rightarrow> switch \<Rightarrow> pth_time_t \<Rightarrow> pth_state \<Rightarrow> (pth_time_t \<times> pth_state) sched_out option" where
  "sched_iter E run snapshot s = do {
     r \<leftarrow> sched_dispatch E snapshot s;
     case r of
       Aborted \<Rightarrow> Some Aborted
     | Cont s \<Rightarrow> do {
         s \<leftarrow> run s;
         sched_return E s } }"

text \<open>The loop has no exit: the result is the time at which it was aborted, if it ever is.\<close>

partial_function (option) sched_loop :: "env \<Rightarrow> switch \<Rightarrow> pth_time_t \<Rightarrow> pth_state \<Rightarrow> pth_time_t option" where
  "sched_loop E run snapshot s =
     Option.bind (sched_iter E run snapshot s) (\<lambda>r. case r of
       Aborted \<Rightarrow> Some snapshot
     | Cont (snapshot', s') \<Rightarrow> sched_loop E run snapshot' s')"

definition pth_scheduler :: "env \<Rightarrow> switch \<Rightarrow> pth_state \<Rightarrow> pth_time_t option" where
  "pth_scheduler E run s = do {
     s \<leftarrow> t_set (\<lambda>c. c\<lparr>t_state := PTH_STATE_SCHEDULER\<rparr>) (pth_sched s) s;
     sched_loop E run (now E s) s }"

section \<open>Dropping all threads\<close>

text \<open>\<open>freed T s s'\<close>: the threads in \<open>T\<close> are gone, the others unchanged up to their queue links, no handler has run.\<close>

definition freed :: "ptr set \<Rightarrow> pth_state \<Rightarrow> pth_state \<Rightarrow> bool" where
  "freed T s s' \<longleftrightarrow> (\<forall>x. map_option noq (tcbs s' x) = (if x \<in> T then None else map_option noq (tcbs s x))) \<and>
     pth_current s' = pth_current s \<and> pth_sched s' = pth_sched s \<and> pth_main s' = pth_main s \<and>
     app_log s' = app_log s \<and> evs s' = evs s \<and> mutexes s' = mutexes s \<and>
     pth_atfork_list s' = pth_atfork_list s \<and> pth_atfork_idx s' = pth_atfork_idx s \<and> px s' = px s"

lemma freed_trans: "freed T s s' \<Longrightarrow> freed U s' s'' \<Longrightarrow> T \<union> U = V \<Longrightarrow> freed V s s''"
  unfolding freed_def by auto

lemma qframe_freed:
  assumes "qframe s s'"
  shows "freed {} s s'"
proof -
  have "s'\<lparr>tcbs := tcbs s, queues := queues s\<rparr> = s"
    using assms by (simp add: qframe_def)
  note eq = this [THEN arg_cong]
  show ?thesis
    using qframe_state [OF assms] eq [of pth_atfork_list] eq [of pth_atfork_idx] eq [of px] assms
    by (simp add: freed_def qframe_def)
qed

lemma freed_dom:
  assumes "freed T s s'"
  shows "dom (tcbs s') = dom (tcbs s) - T"
proof -
  have key: "map_option noq (tcbs s' x) = (if x \<in> T then None else map_option noq (tcbs s x))" for x
    using assms by (simp add: freed_def)
  have "x \<in> dom (tcbs s') \<longleftrightarrow> x \<in> dom (tcbs s) - T" for x
    using key [of x] by (cases "tcbs s' x"; cases "tcbs s x") (auto split: if_splits)
  then show ?thesis by blast
qed

lemma free_queued:
  assumes ok: "queues_ok s L" and t: "alive t s" "\<not> queued t L"
  shows "\<exists>s'. pth_tcb_free E t s = Some s' \<and> queues_ok s' L \<and> freed {t} s s'"
proof -
  obtain c where c: "tcbs s t = Some c" and "t \<noteq> NULL"
    using t(1) by (auto simp: alive_def)
  let ?s = "s\<lparr>rings := (rings s)(MutexRing t := None), tcbs := (tcbs s)(t := None)\<rparr>"
  have "pth_tcb_free E t s = Some ?s"
    using pth_tcb_free_spec [OF \<open>t \<noteq> NULL\<close> c] .
  moreover have "queues_ok ?s L"
    by (rule queues_ok_other_tcb [OF ok t(2)]) simp_all
  moreover have "freed {t} s ?s"
    by (simp add: freed_def fun_upd_apply)
  ultimately show ?thesis by blast
qed

lemma drop_threads_spec:
  assumes "queues_ok s L" "L q = xs"
  shows "\<exists>s'. drop_threads E q s = Some s' \<and> queues_ok s' (L(q := [])) \<and> freed (fst ` set xs) s s'"
  using assms
proof (induction xs arbitrary: s L)
  case Nil
  then have "drop_threads E q s = Some s"
    using pq.take_max_empty [OF Nil] by (simp add: drop_threads.simps)
  then show ?case
    using Nil qframe_freed [of s s] by (simp add: fun_upd_idem)
next
  case (Cons x xs)
  obtain t p where x: "x = (t, p)" by (cases x)
  obtain s1 where s1: "pth_pqueue_delmax (Some q) s = Some (t, s1)" "queues_ok s1 (L(q := xs))" "qframe s s1"
    using pq.take_max_ok [OF Cons.prems(1), of q t p xs] Cons.prems(2) x by auto
  have t: "alive t s1" "\<not> queued t (L(q := xs))"
    using queues_ok_alive [OF Cons.prems(1), of t q] Cons.prems(2) x qframe_alive [OF s1(3)]
      pq.ok_once [OF Cons.prems(1), of q "[]" t p xs] by auto
  obtain s2 where s2: "pth_tcb_free E t s1 = Some s2" "queues_ok s2 (L(q := xs))" "freed {t} s1 s2"
    using free_queued [OF s1(2) t] by blast
  obtain s3 where s3: "drop_threads E q s2 = Some s3" "queues_ok s3 (L(q := []))" "freed (fst ` set xs) s2 s3"
    using Cons.IH [OF s2(2)] by auto
  have "drop_threads E q s = Some s3"
    using s1(1) s2(1) s3(1) t(1) by (subst drop_threads.simps) (simp add: alive_def)
  moreover have "freed (fst ` set (x # xs)) s s3"
    by (rule freed_trans [OF freed_trans [OF qframe_freed [OF s1(3)] s2(3) refl] s3(3)]) (simp add: x)
  ultimately show ?case
    using s3(2) by blast
qed

lemma queue_init_idle:
  assumes "queues_ok s L" "L q = []"
  shows "pth_pqueue_init (Some q) s = s"
proof -
  have "queues s q = \<lparr>q_head = NULL, q_num = 0\<rparr>"
    using queues_ok_rep [OF assms(1), of q] assms(2) by simp
  then show ?thesis
    by (simp add: pth_pqueue_init_def q_set_def fun_upd_idem)
qed

lemma drop_queue_spec:
  assumes "queues_ok s L"
  shows "\<exists>s'. drop_queue E q s = Some s' \<and> queues_ok s' (L(q := [])) \<and> freed (fst ` set (L q)) s s'"
proof -
  obtain s' where s': "drop_threads E q s = Some s'" "queues_ok s' (L(q := []))" "freed (fst ` set (L q)) s s'"
    using drop_threads_spec [OF assms refl] by blast
  then show ?thesis
    using queue_init_idle [OF s'(2), of q] by (simp add: drop_queue_def)
qed

lemma drop_all_spec:
  assumes "queues_ok s L"
  shows "\<exists>s'. pth_scheduler_drop E s = Some s' \<and> queues_ok s' (\<lambda>_. []) \<and> freed {t. queued t L} s s'"
proof -
  obtain s1 where s1: "drop_queue E NQ s = Some s1" "queues_ok s1 (L(NQ := []))" "freed (fst ` set (L NQ)) s s1"
    using drop_queue_spec [OF assms] by blast
  obtain s2 where s2: "drop_queue E RQ s1 = Some s2" "queues_ok s2 (L(NQ := [], RQ := []))" "freed (fst ` set (L RQ)) s1 s2"
    using drop_queue_spec [OF s1(2), of E RQ] by auto
  obtain s3 where s3: "drop_queue E WQ s2 = Some s3" "queues_ok s3 (L(NQ := [], RQ := [], WQ := []))" "freed (fst ` set (L WQ)) s2 s3"
    using drop_queue_spec [OF s2(2), of E WQ] by auto
  obtain s4 where s4: "drop_queue E SQ s3 = Some s4" "queues_ok s4 (L(NQ := [], RQ := [], WQ := [], SQ := []))" "freed (fst ` set (L SQ)) s3 s4"
    using drop_queue_spec [OF s3(2), of E SQ] by auto
  obtain s5 where s5: "drop_queue E DQ s4 = Some s5" "queues_ok s5 (L(NQ := [], RQ := [], WQ := [], SQ := [], DQ := []))" "freed (fst ` set (L DQ)) s4 s5"
    using drop_queue_spec [OF s4(2), of E DQ] by auto
  have L: "L(NQ := [], RQ := [], WQ := [], SQ := [], DQ := []) = (\<lambda>_. [])"
  proof
    fix q show "(L(NQ := [], RQ := [], WQ := [], SQ := [], DQ := [])) q = []"
      by (cases q) (simp_all add: fun_upd_apply)
  qed
  have "{t. queued t L} = (\<Union>q\<in>UNIV. fst ` set (L q))"
    by (auto simp: queued_def)
  then have T: "fst ` set (L NQ) \<union> fst ` set (L RQ) \<union> fst ` set (L WQ) \<union> fst ` set (L SQ) \<union> fst ` set (L DQ) = {t. queued t L}"
    by (simp add: UNIV_qid Un_assoc)
  have "freed {t. queued t L} s s5"
    using freed_trans [OF freed_trans [OF freed_trans [OF freed_trans [OF s1(3) s2(3) refl] s3(3) refl] s4(3) refl] s5(3)] T by simp
  then show ?thesis
    using s1(1) s2(1) s3(1) s4(1) s5(1,2) L by (simp add: pth_scheduler_drop_def)
qed

section \<open>New threads become ready\<close>

text \<open>The ready queue after the new threads \<open>ns\<close>, last first, have been put into it.\<close>

definition favour_new :: "(ptr \<times> int) list \<Rightarrow> (ptr \<times> int) list \<Rightarrow> (ptr \<times> int) list" where
  "favour_new ns rs = foldr (\<lambda>(t, _) xs. (t, fav_prio xs) # xs) ns rs"

definition queue_new :: "(ptr \<times> int) list \<Rightarrow> (ptr \<times> int) list \<Rightarrow> (ptr \<times> int) list" where
  "queue_new ns rs = foldr (\<lambda>(t, _). pq_ins t PTH_PRIO_STD) ns rs"

lemma favour_new_order: "map fst (favour_new ns rs) = map fst ns @ map fst rs"
  by (induction ns) (auto simp: favour_new_def)

lemma set_ready_step:
  assumes ok: "queues_ok s L" and c: "tcbs s t = Some c"
  shows "queues_ok (s\<lparr>tcbs := (tcbs s)(t \<mapsto> c\<lparr>t_state := st\<rparr>)\<rparr>) L"
  using queues_ok_upd_other [of "\<lambda>c. c\<lparr>t_state := st\<rparr>" s t L] ok upd_cell [of "tcbs s" t c "\<lambda>c. c\<lparr>t_state := st\<rparr>"] c by simp

lemma ready_step:
  assumes "tcbs s t = Some c"
  shows "wake_step {} {t} s (s\<lparr>tcbs := (tcbs s)(t \<mapsto> c\<lparr>t_state := PTH_STATE_READY\<rparr>)\<rparr>)"
  using assms by (auto simp: wake_step_def fun_upd_apply option.map_id) (simp add: ready_def bare_def noq_def nosig_def)

lemma migrate_one:
  assumes ok: "queues_ok s L" and L: "L NQ = us @ [(t, p)]"
  shows "\<exists>s'. migrate_new s = migrate_new s' \<and> wake_step {} {t} s s' \<and>
    queues_ok s' (L(NQ := us, RQ := if pth_favournew s then (t, fav_prio (L RQ)) # L RQ else pq_ins t PTH_PRIO_STD (L RQ)))"
proof -
  let ?L = "L(NQ := us)" and ?p = "if pth_favournew s then fav_prio (L RQ) else PTH_PRIO_STD"
  obtain s1 where s1: "pth_pqueue_delete (Some NQ) t s = Some s1" "queues_ok s1 ?L" "qframe s s1"
    using pq.leave_ok [OF ok, of NQ us t p "[]"] L by auto
  have t: "alive t s1" "t \<noteq> NULL" "\<not> queued t ?L"
    using queues_ok_alive [OF ok, of t NQ] L qframe_alive [OF s1(3)] pq.ok_once [OF ok, of NQ us t p "[]"] by (auto simp: alive_def)
  then obtain c where c: "tcbs s1 t = Some c"
    by (auto simp: alive_def)
  let ?s2 = "s1\<lparr>tcbs := (tcbs s1)(t \<mapsto> c\<lparr>t_state := PTH_STATE_READY\<rparr>)\<rparr>"
  have ok2: "queues_ok ?s2 ?L"
    by (rule set_ready_step [OF s1(2) c])
  obtain s3 where s3: "pth_pqueue_insert (Some RQ) ?p t ?s2 = Some s3" "queues_ok s3 (?L(RQ := pq_ins t ?p (?L RQ)))" "qframe ?s2 s3"
    using pq.enter_ok [OF ok2, of t RQ ?p] t by (auto simp: alive_def)
  have "pth_favournew ?s2 = pth_favournew s"
    using qframe_state(7) [OF s1(3)] by simp
  moreover have "pth_pqueue_favorite_prio RQ ?s2 = Some (fav_prio (L RQ))"
    using pth_pqueue_favorite_prio_spec [OF queues_ok_rep [OF ok2, of RQ]] by simp
  ultimately have "migrate_new s = migrate_new s3"
    using pth_pqueue_tail_spec [OF queues_ok_rep [OF ok, of NQ]] L t(2) s1(1) s3(1) c
    by (subst migrate_new.simps) (auto simp: cells split: if_splits)
  moreover have "wake_step {} {t} s s3"
    using wake_step_trans [OF wake_step_trans [OF qframe_wake [OF s1(3)] ready_step [OF c]] qframe_wake [OF s3(3)]] by auto
  ultimately show ?thesis
    using s3(2) pq_ins_favorite by (auto split: if_splits)
qed

lemma migrate_new_spec:
  assumes "queues_ok s L" "L NQ = ns"
  shows "\<exists>s'. migrate_new s = Some s' \<and> wake_step {} (fst ` set ns) s s' \<and>
    queues_ok s' (L(NQ := [], RQ := if pth_favournew s then favour_new ns (L RQ) else queue_new ns (L RQ)))"
  using assms
proof (induction ns arbitrary: s L rule: rev_induct)
  case Nil
  then have "migrate_new s = Some s"
    using pth_pqueue_tail_spec [OF queues_ok_rep [OF Nil(1), of NQ]] by (simp add: migrate_new.simps)
  then show ?case
    using Nil em_wake [of "{}" s s] by (simp add: favour_new_def queue_new_def fun_upd_idem)
next
  case (snoc n ns)
  obtain t p where n: "n = (t, p)" by (cases n)
  let ?L = "L(NQ := ns, RQ := if pth_favournew s then (t, fav_prio (L RQ)) # L RQ else pq_ins t PTH_PRIO_STD (L RQ))"
  obtain s1 where s1: "migrate_new s = migrate_new s1" "wake_step {} {t} s s1" "queues_ok s1 ?L"
    using migrate_one [OF snoc.prems(1), of ns t p] snoc.prems(2) n by auto
  have fav: "pth_favournew s1 = pth_favournew s"
    using s1(2) by (simp add: wake_step_def)
  obtain s2 where s2: "migrate_new s1 = Some s2" "wake_step {} (fst ` set ns) s1 s2"
    "queues_ok s2 (?L(NQ := [], RQ := if pth_favournew s1 then favour_new ns (?L RQ) else queue_new ns (?L RQ)))"
    using snoc.IH [OF s1(3)] by auto
  have "?L(NQ := [], RQ := if pth_favournew s1 then favour_new ns (?L RQ) else queue_new ns (?L RQ)) =
    L(NQ := [], RQ := if pth_favournew s then favour_new (ns @ [n]) (L RQ) else queue_new (ns @ [n]) (L RQ))"
    by (simp add: fav favour_new_def queue_new_def n fun_upd_twist)
  moreover have "wake_step {} (fst ` set (ns @ [n])) s s2"
    by (rule wake_step_trans [OF s1(2) s2(2)]) (auto simp: n)
  ultimately show ?case
    using s1(1) s2(1,3) by auto
qed

section \<open>The load is an exponential average\<close>

text \<open>The number of full seconds from one time to a later one.\<close>

definition whole_ticks :: "pth_time_t \<Rightarrow> pth_time_t \<Rightarrow> int" where
  "whole_ticks a b = tv_sec b - tv_sec a - (if tv_usec b < tv_usec a then 1 else 0)"

definition near :: "pth_time_t \<Rightarrow> pth_time_t \<Rightarrow> bool" where
  "near a b \<longleftrightarrow> \<bar>tv_sec b - tv_sec a\<bar> < 2 ^ 31 - 1 \<and> 0 \<le> tv_usec a \<and> tv_usec a \<le> 1000000 \<and>
     0 \<le> tv_usec b \<and> tv_usec b \<le> 1000000"

lemma tick_cmp: "near a b \<Longrightarrow> pth_time_cmp b a \<ge> 0 \<longleftrightarrow> whole_ticks a b \<ge> 0"
  by (auto simp: near_def pth_time_cmp_def whole_ticks_def to_c_int_id Let_def)

lemma tick_sub:
  assumes "near a b"
  shows "whole_ticks a (pth_time_sub b pth_loadtickgap) = whole_ticks a b - 1"
    "whole_ticks a b \<ge> 0 \<Longrightarrow> near a (pth_time_sub b pth_loadtickgap)"
  using assms by (auto simp: pth_time_sub_def pth_loadtickgap_def pth_time_def whole_ticks_def near_def split: if_splits)

definition average :: "int \<Rightarrow> nat \<Rightarrow> rat \<Rightarrow> rat" where
  "average n k v = of_int n + (v - of_int n) * (3 / 4) ^ k"

lemma average_Suc: "average n k (of_int n * (1 / 4) + v * (3 / 4)) = average n (Suc k) v"
  by (simp add: average_def field_simps)

lemma load_loop_average:
  assumes "near next t" "whole_ticks next t \<ge> 0" "k \<le> 200"
  shows "load_loop n next t k v = average n (min (201 - k) (nat (whole_ticks next t) + 1)) v"
  using assms
proof (induction n "next" t k v rule: load_loop.induct)
  case (1 n "next" t k v)
  let ?t = "pth_time_sub t pth_loadtickgap" and ?v = "of_int n * (1 / 4) + v * (3 / 4)"
  have t: "near next ?t" "whole_ticks next ?t = whole_ticks next t - 1"
    using tick_sub 1(2,3) by auto
  show ?case
  proof (cases "k = 200 \<or> whole_ticks next t = 0")
    case True
    then have "load_loop n next t k v = ?v"
      using tick_cmp [OF t(1)] t(2) by (subst load_loop.simps) (auto simp: Let_def)
    moreover have "min (201 - k) (nat (whole_ticks next t) + 1) = 1"
      using True 1(4) by auto
    ultimately show ?thesis
      using average_Suc [of n 0 v] by (simp add: average_def)
  next
    case False
    then have "load_loop n next t k v = load_loop n next ?t (k + 1) ?v"
      using tick_cmp [OF t(1)] t(2) 1(3,4) by (subst load_loop.simps) (auto simp: Let_def)
    also have "\<dots> = average n (min (201 - (k + 1)) (nat (whole_ticks next ?t) + 1)) ?v"
      using False 1(1) [OF refl refl refl] tick_cmp [OF t(1)] t 1(3,4) by simp
    also have "\<dots> = average n (Suc (min (201 - (k + 1)) (nat (whole_ticks next ?t) + 1))) v"
      by (rule average_Suc)
    also have "Suc (min (201 - (k + 1)) (nat (whole_ticks next ?t) + 1)) = min (201 - k) (nat (whole_ticks next t) + 1)"
      using False 1(3,4) t(2) by auto
    finally show ?thesis .
  qed
qed

lemma average_between:
  assumes "0 \<le> v" "0 \<le> n"
  shows "0 \<le> average n k v" "average n k v \<le> max v (of_int n)"
proof -
  have p: "0 \<le> (3 / 4 :: rat) ^ k" "(3 / 4 :: rat) ^ k \<le> 1"
    by (simp_all add: power_le_one)
  have e: "average n k v = of_int n * (1 - (3 / 4) ^ k) + v * (3 / 4) ^ k"
    by (simp add: average_def algebra_simps)
  show "0 \<le> average n k v"
    unfolding e using assms p by (intro add_nonneg_nonneg mult_nonneg_nonneg) auto
  have "average n k v \<le> max v (of_int n) * (1 - (3 / 4) ^ k) + max v (of_int n) * (3 / 4) ^ k"
    unfolding e using p by (intro add_mono mult_right_mono) auto
  also have "\<dots> = max v (of_int n)"
    by (simp add: algebra_simps)
  finally show "average n k v \<le> max v (of_int n)" .
qed

section \<open>The invariant of the scheduler\<close>

text \<open>The states of the threads in a queue.\<close>

fun state_in :: "qid \<Rightarrow> pth_state_t \<Rightarrow> bool" where
  "state_in NQ st \<longleftrightarrow> st = PTH_STATE_NEW"
| "state_in RQ st \<longleftrightarrow> st = PTH_STATE_READY"
| "state_in WQ st \<longleftrightarrow> st = PTH_STATE_WAITING"
| "state_in SQ st \<longleftrightarrow> st = PTH_STATE_NEW \<or> st = PTH_STATE_READY \<or> st = PTH_STATE_WAITING"
| "state_in DQ st \<longleftrightarrow> st = PTH_STATE_DEAD"

text \<open>
  \<open>thread_inv L R s\<close>: the queues hold the lists \<open>L\<close> of threads, each in a state that fits its queue; the
  waiting threads have the well-formed event rings \<open>R\<close>; the scheduler itself is in no queue.
\<close>

definition thread_inv :: "qlists \<Rightarrow> (ptr \<Rightarrow> ptr list) \<Rightarrow> pth_state \<Rightarrow> bool" where
  "thread_inv L R s \<longleftrightarrow> queues_ok s L \<and>
     (\<forall>q. \<forall>t\<in>fst ` set (L q). \<exists>st. fld (tcbs s) t_state t = Some st \<and> state_in q st) \<and>
     (\<forall>t\<in>fst ` set (L WQ). wait_ring s t (R t)) \<and> rings_apart R (fst ` set (L WQ)) \<and>
     alive (pth_sched s) s \<and> \<not> queued (pth_sched s) L"

text \<open>The current thread, on its way from or to the scheduler, in one of the states \<open>S\<close>.\<close>

definition running_inv :: "pth_state_t set \<Rightarrow> qlists \<Rightarrow> (ptr \<Rightarrow> ptr list) \<Rightarrow> pth_state \<Rightarrow> bool" where
  "running_inv S L R s \<longleftrightarrow> thread_inv L R s \<and> alive (pth_current s) s \<and> \<not> queued (pth_current s) L \<and>
     pth_current s \<noteq> pth_sched s \<and> (\<exists>st\<in>S. fld (tcbs s) t_state (pth_current s) = Some st \<and>
       (st = PTH_STATE_WAITING \<longrightarrow> wait_ring s (pth_current s) (R (pth_current s)) \<and>
          rings_apart R (insert (pth_current s) (fst ` set (L WQ)))))"

text \<open>A change of bookkeeping only.\<close>

definition tkey :: "pth_st \<Rightarrow> pth_state_t \<times> ptr \<times> int \<times> int \<times> int option" where
  "tkey c = (t_state c, t_events c, t_joinable c, t_prio c, t_stackguard c)"

definition same_threads :: "pth_state \<Rightarrow> pth_state \<Rightarrow> bool" where
  "same_threads s s' \<longleftrightarrow> evs s' = evs s \<and> pth_sched s' = pth_sched s \<and> fld (tcbs s') tkey = fld (tcbs s) tkey"

lemma same_threads_refl [simp]: "same_threads s s"
  by (simp add: same_threads_def)

lemma same_threads_trans: "same_threads s s' \<Longrightarrow> same_threads s' s'' \<Longrightarrow> same_threads s s''"
  by (simp add: same_threads_def)

lemma fld_comp: "fld h (f \<circ> g) = (\<lambda>x. map_option f (fld h g x))"
  by (simp add: fld_def fun_eq_iff option.map_comp)

lemma same_threads_fld:
  assumes "same_threads s s'"
  shows "fld (tcbs s') t_state = fld (tcbs s) t_state" "fld (tcbs s') t_events = fld (tcbs s) t_events"
    "fld (tcbs s') t_joinable = fld (tcbs s) t_joinable" "fld (tcbs s') t_prio = fld (tcbs s) t_prio"
    "dom (tcbs s') = dom (tcbs s)" "alive t s' = alive t s" "wait_ring s' t es = wait_ring s t es"
    "fld (tcbs s') t_stackguard = fld (tcbs s) t_stackguard"
proof -
  have key: "fld (tcbs s') (f \<circ> tkey) = fld (tcbs s) (f \<circ> tkey)" for f :: "pth_state_t \<times> ptr \<times> int \<times> int \<times> int option \<Rightarrow> 'b"
    using assms by (simp add: same_threads_def fld_comp)
  have f: "fst \<circ> tkey = t_state" "(fst \<circ> snd) \<circ> tkey = t_events" "(fst \<circ> snd \<circ> snd) \<circ> tkey = t_joinable"
    "(fst \<circ> snd \<circ> snd \<circ> snd) \<circ> tkey = t_prio" "(snd \<circ> snd \<circ> snd \<circ> snd) \<circ> tkey = t_stackguard"
    by (simp_all add: fun_eq_iff tkey_def)
  show "fld (tcbs s') t_stackguard = fld (tcbs s) t_stackguard"
    using key [of "snd \<circ> snd \<circ> snd \<circ> snd"] by (simp only: f)
  show 1: "fld (tcbs s') t_state = fld (tcbs s) t_state" "fld (tcbs s') t_events = fld (tcbs s) t_events"
    "fld (tcbs s') t_joinable = fld (tcbs s) t_joinable" "fld (tcbs s') t_prio = fld (tcbs s) t_prio"
    using key [of fst] key [of "fst \<circ> snd"] key [of "fst \<circ> snd \<circ> snd"] key [of "fst \<circ> snd \<circ> snd \<circ> snd"] by (simp_all only: f)
  show dom: "dom (tcbs s') = dom (tcbs s)"
    using 1(1) dom_fld by metis
  show "alive t s' = alive t s" "wait_ring s' t es = wait_ring s t es"
    using assms by (simp_all add: alive_def dom wait_ring_def 1(2) same_threads_def)
qed

lemma thread_invD:
  assumes "thread_inv L R s"
  shows "queues_ok s L" "t \<in> fst ` set (L q) \<Longrightarrow> \<exists>st. fld (tcbs s) t_state t = Some st \<and> state_in q st"
    "t \<in> fst ` set (L q) \<Longrightarrow> t \<noteq> pth_sched s" "t \<in> fst ` set (L WQ) \<Longrightarrow> wait_ring s t (R t)"
    "rings_apart R (fst ` set (L WQ))" "alive (pth_sched s) s"
  using assms unfolding thread_inv_def queued_def by blast+

lemma thread_invI:
  assumes "queues_ok s L" "\<And>q t. t \<in> fst ` set (L q) \<Longrightarrow> \<exists>st. fld (tcbs s) t_state t = Some st \<and> state_in q st"
    "\<And>t. t \<in> fst ` set (L WQ) \<Longrightarrow> wait_ring s t (R t)" "rings_apart R (fst ` set (L WQ))" "alive (pth_sched s) s"
    "\<And>q t. t \<in> fst ` set (L q) \<Longrightarrow> t \<noteq> pth_sched s"
  shows "thread_inv L R s"
  using assms unfolding thread_inv_def queued_def by blast

lemma thread_inv_add:
  assumes inv: "thread_inv L R s" and s': "same_threads s s'" "queues_ok s' L'"
    and L': "\<And>q'. fst ` set (L' q') \<subseteq> (if q' = q then insert t (fst ` set (L q)) else fst ` set (L q'))"
    and t: "t \<noteq> pth_sched s" "fld (tcbs s) t_state t = Some st" "state_in q st"
      "q = WQ \<Longrightarrow> wait_ring s t (R t) \<and> rings_apart R (insert t (fst ` set (L WQ)))"
  shows "thread_inv L' R s'"
proof -
  have mem: "x = t \<and> q' = q \<or> x \<in> fst ` set (L q')" if "x \<in> fst ` set (L' q')" for x q'
    using L' [of q'] that by (auto split: if_splits)
  have sched: "pth_sched s' = pth_sched s"
    using s'(1) by (simp add: same_threads_def)
  show ?thesis
  proof (rule thread_invI [OF s'(2)])
    show "\<exists>st. fld (tcbs s') t_state x = Some st \<and> state_in q' st" if "x \<in> fst ` set (L' q')" for x q'
      using mem [OF that] t(2,3) thread_invD(2) [OF inv] same_threads_fld(1) [OF s'(1)] by auto
    show "wait_ring s' x (R x)" if "x \<in> fst ` set (L' WQ)" for x
      using mem [OF that] t(4) thread_invD(4) [OF inv] same_threads_fld(7) [OF s'(1)] by auto
    show "rings_apart R (fst ` set (L' WQ))"
    proof (cases "q = WQ")
      case True
      then show ?thesis
        using rings_apart_mono [of R "insert t (fst ` set (L WQ))" "fst ` set (L' WQ)"] L' [of WQ] t(4) by auto
    next
      case False
      then show ?thesis
        using rings_apart_mono [OF thread_invD(5) [OF inv], of "fst ` set (L' WQ)"] L' [of WQ] by auto
    qed
    show "x \<noteq> pth_sched s'" if "x \<in> fst ` set (L' q')" for x q'
      using mem [OF that] t(1) thread_invD(3) [OF inv] sched by auto
    show "alive (pth_sched s') s'"
      using thread_invD(6) [OF inv] same_threads_fld(6) [OF s'(1)] sched by simp
  qed
qed

lemma thread_inv_sub:
  assumes inv: "thread_inv L R s" and s': "same_threads s s'" "queues_ok s' L'"
    and L': "\<And>q. fst ` set (L' q) \<subseteq> fst ` set (L q)"
  shows "thread_inv L' R s'"
proof (rule thread_invI [OF s'(2)])
  note D = thread_invD [OF inv] and F = same_threads_fld [OF s'(1)]
  have sched: "pth_sched s' = pth_sched s"
    using s'(1) by (simp add: same_threads_def)
  show "\<exists>st. fld (tcbs s') t_state t = Some st \<and> state_in q st" "t \<noteq> pth_sched s'" if "t \<in> fst ` set (L' q)" for t q
    using D(2,3) [OF subsetD [OF L' that]] F(1) sched by auto
  show "wait_ring s' t (R t)" if "t \<in> fst ` set (L' WQ)" for t
    using D(4) [OF subsetD [OF L' that]] F(7) by simp
  show "rings_apart R (fst ` set (L' WQ))"
    by (rule rings_apart_mono [OF D(5) L'])
  show "alive (pth_sched s') s'"
    using D(6) F(6) sched by simp
qed

lemma thread_inv_same:
  assumes "thread_inv L R s" "same_threads s s'" "queues_ok s' L"
  shows "thread_inv L R s'"
  using thread_inv_sub [OF assms] by simp

lemma running_inv_same:
  assumes "running_inv S L R s" "same_threads s s'" "queues_ok s' L" "pth_current s' = pth_current s"
  shows "running_inv S L R s'"
  using assms thread_inv_same [of L R s s'] same_threads_fld [OF assms(2)]
  by (simp add: running_inv_def same_threads_def)

lemma t_set_same:
  assumes "t \<in> dom (tcbs s)" "\<And>c. tkey (f c) = tkey c" "\<And>c. q_next (f c) = q_next c" "\<And>c. q_prev (f c) = q_prev c"
    "\<And>c. q_prio (f c) = q_prio c"
  shows "\<exists>s'. t_set f t s = Some s' \<and> same_threads s s' \<and> (\<forall>L. queues_ok s' L = queues_ok s L) \<and>
    pth_current s' = pth_current s \<and> tcbs s' = upd (tcbs s) t f"
  using assms by (simp add: t_set_def same_threads_def fld_upd_keep queues_ok_upd_other)

lemma qframe_same:
  assumes "qframe s s'"
  shows "same_threads s s'"
proof -
  have "fld (tcbs s') tkey = fld (tcbs s) tkey"
    by (rule qframe_fld [OF assms]) (simp add: tkey_def noq_def)
  then show ?thesis
    using qframe_state(3,4) [OF assms] by (simp add: same_threads_def)
qed

section \<open>An iteration keeps the invariant\<close>

text \<open>The ready queue the next thread is taken from.\<close>

definition ready_list :: "pth_state \<Rightarrow> qlists \<Rightarrow> (ptr \<times> int) list" where
  "ready_list s L = (if pth_favournew s then favour_new (L NQ) (L RQ) else queue_new (L NQ) (L RQ))"

lemma ready_list_set: "fst ` set (ready_list s L) = fst ` set (L NQ) \<union> fst ` set (L RQ)"
proof -
  have "set (map fst (favour_new ns rs)) = fst ` set ns \<union> fst ` set rs" for ns rs
    unfolding favour_new_order by simp
  moreover have "fst ` set (queue_new ns rs) = fst ` set ns \<union> fst ` set rs" for ns rs
    by (induction ns) (simp_all add: queue_new_def case_prod_beta)
  ultimately show ?thesis
    by (simp add: ready_list_def)
qed

lemma queued_cases:
  "queued t L \<longleftrightarrow> t \<in> fst ` set (L NQ) \<or> t \<in> fst ` set (L RQ) \<or> t \<in> fst ` set (L WQ) \<or>
     t \<in> fst ` set (L SQ) \<or> t \<in> fst ` set (L DQ)"
  unfolding queued_def by (metis qid.exhaust)

lemma migrate_inv:
  assumes inv: "thread_inv L R s"
  shows "\<exists>s'. migrate_new s = Some s' \<and> thread_inv (L(NQ := [], RQ := ready_list s L)) R s' \<and> wake_step {} (fst ` set (L NQ)) s s'"
proof -
  have ok: "queues_ok s L"
    using inv by (simp add: thread_inv_def)
  let ?L = "L(NQ := [], RQ := ready_list s L)"
  obtain s' where s': "migrate_new s = Some s'" "wake_step {} (fst ` set (L NQ)) s s'" "queues_ok s' ?L"
    using migrate_new_spec [OF ok refl] by (auto simp: ready_list_def)
  have alive: "alive t s' = alive t s" for t
    using wake_step_fields(1) [OF s'(2)] dom_fld unfolding alive_def by metis
  have st: "\<exists>st. fld (tcbs s') t_state t = Some st \<and> state_in q st" if "t \<in> fst ` set (?L q)" for t q
  proof (cases "t \<in> fst ` set (L NQ)")
    case True
    then have "q = RQ"
      using that queues_ok_elsewhere [OF ok True, of q] by (cases "q = NQ"; cases "q = RQ") auto
    then show ?thesis
      using wake_step_state [OF s'(2), of t] True queues_ok_alive [OF ok True] by (auto simp: alive_def)
  next
    case False
    then have "t \<in> fst ` set (L q)"
      using that ready_list_set by (cases "q = NQ"; cases "q = RQ") auto
    then show ?thesis
      using wake_step_state [OF s'(2), of t] False inv by (auto simp: thread_inv_def)
  qed
  have "queued t ?L = queued t L" for t
    using ready_list_set [of s L] by (simp add: queued_cases)
  then have "thread_inv ?L R s'"
    using inv s'(2,3) st alive wake_step_ring [OF s'(2)] by (simp add: thread_inv_def wake_step_def)
  then show ?thesis
    using s' by blast
qed

lemma raise_sigs_fields:
  "tcbs (raise_sigs p sl s) = tcbs s" "queues (raise_sigs p sl s) = queues s" "evs (raise_sigs p sl s) = evs s"
  "pth_sched (raise_sigs p sl s) = pth_sched s" "pth_current (raise_sigs p sl s) = pth_current s"
  by (induction sl arbitrary: s) (simp_all add: os_kill_def)

lemma raise_pending_same:
  assumes "t \<in> dom (tcbs s)"
  shows "\<exists>s'. raise_pending t s = Some s' \<and> same_threads s s' \<and> (\<forall>L. queues_ok s' L = queues_ok s L) \<and>
    pth_current s' = pth_current s \<and> tcbs s' = tcbs s"
proof -
  obtain c where "tcbs s t = Some c"
    using assms by blast
  then show ?thesis
    by (simp add: raise_pending_def cells same_threads_def raise_sigs_fields queues_ok_def)
qed

lemma dispatch_inv:
  assumes inv: "thread_inv L R s"
  shows "if ready_list s L = [] then sched_dispatch E snapshot s = Some Aborted
    else \<exists>s'. sched_dispatch E snapshot s = Some (Cont s') \<and> pth_current s' = fst (hd (ready_list s L)) \<and>
      running_inv {PTH_STATE_READY} (L(NQ := [], RQ := tl (ready_list s L))) R s' \<and>
      fld (tcbs s') t_joinable = fld (tcbs s) t_joinable"
proof -
  let ?L = "L(NQ := [], RQ := ready_list s L)"
  obtain s0 where s0: "migrate_new s = Some s0" "thread_inv ?L R s0" "wake_step {} (fst ` set (L NQ)) s s0"
    using migrate_inv [OF inv] by blast
  let ?s1 = "pth_scheduler_load snapshot s0"
  have s1: "thread_inv ?L R ?s1"
    using s0(2) by (auto simp: thread_inv_def pth_scheduler_load_def alive_def wait_ring_def intro: queues_ok_cong [THEN iffD2])
  then have ok1: "queues_ok ?s1 ?L"
    by (simp add: thread_inv_def)
  show ?thesis
  proof (cases "ready_list s L")
    case Nil
    then show ?thesis
      using pq.take_max_empty [OF ok1, of RQ] s0(1) by (simp add: sched_dispatch_def Let_def)
  next
    case (Cons x rest)
    obtain t p where x: "x = (t, p)" by (cases x)
    let ?L2 = "L(NQ := [], RQ := rest)"
    obtain s2 where s2: "pth_pqueue_delmax (Some RQ) ?s1 = Some (t, s2)" "queues_ok s2 ?L2" "qframe ?s1 s2"
      using pq.take_max_ok [OF ok1, of RQ t p rest] Cons x by auto
    have t: "alive t ?s1" "\<not> queued t ?L2" "fld (tcbs ?s1) t_state t = Some PTH_STATE_READY" "t \<noteq> pth_sched ?s1"
      using queues_ok_alive [OF ok1, of t RQ] pq.ok_once [OF ok1, of RQ "[]" t p rest] Cons x
        thread_invD(2,3) [OF s1, of t RQ] by auto
    let ?s3 = "s2\<lparr>pth_current := t\<rparr>"
    have same: "same_threads ?s1 ?s3"
      using qframe_same [OF s2(3)] by (simp add: same_threads_def)
    have ok3: "queues_ok ?s3 ?L2"
      using s2(2) by (simp add: queues_ok_def)
    have "thread_inv ?L2 R ?s3"
    proof (rule thread_inv_sub [OF s1 same ok3])
      show "fst ` set (?L2 q) \<subseteq> fst ` set (?L q)" for q
        by (auto simp: Cons fun_upd_apply)
    qed
    then have inv3: "running_inv {PTH_STATE_READY} ?L2 R ?s3"
      using t same_threads_fld [OF same] qframe_state(3) [OF s2(3)] by (simp add: running_inv_def)
    then have dom: "t \<in> dom (tcbs ?s3)" "pth_sched ?s3 \<in> dom (tcbs ?s3)"
      by (auto simp: running_inv_def thread_inv_def alive_def)
    obtain s4 where s4: "raise_pending t ?s3 = Some s4" "same_threads ?s3 s4" "\<forall>L. queues_ok s4 L = queues_ok ?s3 L"
      "pth_current s4 = t" "tcbs s4 = tcbs ?s3"
      using raise_pending_same [OF dom(1)] by auto
    let ?f = "\<lambda>c. c\<lparr>t_lastran := now E s4\<rparr>" and ?h = "\<lambda>c. c\<lparr>t_dispatches := t_dispatches c + 1\<rparr>"
    let ?g = "\<lambda>c. c\<lparr>t_running := pth_time_add (t_running c) (pth_time_sub (now E s4) snapshot)\<rparr>"
    obtain s5 where s5: "t_set ?f t s4 = Some s5" "same_threads s4 s5" "\<forall>L. queues_ok s5 L = queues_ok s4 L" "pth_current s5 = t"
      using t_set_same [of t s4 ?f] dom(1) s4(4,5) by (auto simp: tkey_def)
    have "pth_sched s5 = pth_sched ?s3"
      using s4(2) s5(2) by (simp add: same_threads_def)
    then have sched5: "pth_sched s5 \<in> dom (tcbs s5)" "t \<in> dom (tcbs s5)"
      using dom s4(5) same_threads_fld(5) [OF s5(2)] by (simp_all only:)
    obtain s6 where s6: "t_set ?g (pth_sched s5) s5 = Some s6" "same_threads s5 s6" "\<forall>L. queues_ok s6 L = queues_ok s5 L" "pth_current s6 = t"
      using t_set_same [of "pth_sched s5" s5 ?g] sched5(1) s5(4) by (auto simp: tkey_def)
    obtain s7 where s7: "t_set ?h t s6 = Some s7" "same_threads s6 s7" "\<forall>L. queues_ok s7 L = queues_ok s6 L" "pth_current s7 = t"
      using t_set_same [of t s6 ?h] sched5(2) same_threads_fld(5) [OF s6(2)] s6(4) by (auto simp: tkey_def)
    have same7: "same_threads ?s3 s7"
      by (rule same_threads_trans [OF same_threads_trans [OF same_threads_trans [OF s4(2) s5(2)] s6(2)] s7(2)])
    have "queues_ok s7 ?L2"
      using s4(3) s5(3) s6(3) s7(3) ok3 by blast
    then have "running_inv {PTH_STATE_READY} ?L2 R s7"
      using running_inv_same [OF inv3 same7] s7(4) by simp
    moreover have "tcbs ?s1 = tcbs s0"
      by (simp add: pth_scheduler_load_def)
    then have "fld (tcbs s7) t_joinable = fld (tcbs s) t_joinable"
      using same_threads_fld(3) [OF same7] same_threads_fld(3) [OF same] wake_step_fields(4) [OF s0(3)] by simp
    moreover have "sched_dispatch E snapshot s = Some (Cont s7)"
      using s0(1) s2(1) t(1) s4(1) s5(1) s6(1) s7(1) by (simp add: sched_dispatch_def Let_def alive_def)
    ultimately show ?thesis
      using Cons x s7(4) by simp
  qed
qed

lemma take_back_sigs_same:
  "t \<in> dom (tcbs s) \<Longrightarrow> \<exists>s'. take_back_sigs E t still sl s = Some s' \<and> same_threads s s' \<and>
     (\<forall>L. queues_ok s' L = queues_ok s L) \<and> pth_current s' = pth_current s"
proof (induction sl arbitrary: s)
  case (Cons sig sl)
  let ?f = "\<lambda>c. c\<lparr>t_sigpending := t_sigpending c - {sig}, t_sigpendcnt := t_sigpendcnt c - 1\<rparr>"
  obtain c where c: "tcbs s t = Some c"
    using Cons.prems by blast
  obtain s1 where s1: "t_set ?f t s = Some s1" "same_threads s s1" "\<forall>L. queues_ok s1 L = queues_ok s L" "pth_current s1 = pth_current s"
    using t_set_same [OF Cons.prems, of ?f] by (auto simp: tkey_def)
  let ?s2 = "snd (pth_util_sigdelete (sigaction_ok E sig) sig s)"
  have s2: "same_threads s ?s2" "\<forall>L. queues_ok ?s2 L = queues_ok s L" "pth_current ?s2 = pth_current s"
    by (simp_all add: pth_util_sigdelete_def same_threads_def queues_ok_def)
  have step: "\<exists>s'. take_back_sigs E t still sl u = Some s' \<and> same_threads s s' \<and> (\<forall>L. queues_ok s' L = queues_ok s L) \<and>
      pth_current s' = pth_current s"
    if "same_threads s u" "\<forall>L. queues_ok u L = queues_ok s L" "pth_current u = pth_current s" for u
    using Cons.IH [of u] Cons.prems same_threads_fld(5) [OF that(1)] same_threads_trans [OF that(1)] that(2,3) by fastforce
  show ?case
    using c s1(1) step [OF s1(2-4)] step [OF s2] step [of s] by (auto simp: cells)
qed simp

lemma take_back_same:
  assumes "t \<in> dom (tcbs s)"
  shows "\<exists>s'. take_back E t s = Some s' \<and> same_threads s s' \<and> (\<forall>L. queues_ok s' L = queues_ok s L) \<and> pth_current s' = pth_current s"
proof -
  obtain c where "tcbs s t = Some c"
    using assms by blast
  then show ?thesis
    using take_back_sigs_same [OF assms] by (auto simp: take_back_def cells)
qed

text \<open>The states a thread may come back in.\<close>

abbreviation back_states :: "pth_state_t set" where
  "back_states \<equiv> {PTH_STATE_READY, PTH_STATE_WAITING, PTH_STATE_DEAD}"

lemma running_invD:
  assumes "running_inv S L R s"
  shows "thread_inv L R s" "alive (pth_current s) s" "\<not> queued (pth_current s) L" "pth_current s \<noteq> pth_sched s"
    "\<exists>st\<in>S. fld (tcbs s) t_state (pth_current s) = Some st"
    "fld (tcbs s) t_state (pth_current s) = Some PTH_STATE_WAITING \<Longrightarrow>
      wait_ring s (pth_current s) (R (pth_current s)) \<and> rings_apart R (insert (pth_current s) (fst ` set (L WQ)))"
  using assms unfolding running_inv_def by auto

lemma thread_inv_other:
  assumes inv: "thread_inv L R s" and ok: "queues_ok s' L" and t: "\<not> queued t L" "t \<noteq> pth_sched s"
    and s': "\<And>x. x \<noteq> t \<Longrightarrow> map_option tkey (tcbs s' x) = map_option tkey (tcbs s x)" "evs s' = evs s" "pth_sched s' = pth_sched s"
  shows "thread_inv L R s'"
proof -
  note D = thread_invD [OF inv]
  have key: "map_option (f \<circ> tkey) (tcbs s' x) = map_option (f \<circ> tkey) (tcbs s x)" if "x \<noteq> t" for x and f :: "pth_state_t \<times> ptr \<times> int \<times> int \<times> int option \<Rightarrow> 'b"
    using arg_cong [OF s'(1) [OF that], of "map_option f"] by (simp add: option.map_comp)
  have f: "fst \<circ> tkey = t_state" "(fst \<circ> snd) \<circ> tkey = t_events"
    by (simp_all add: fun_eq_iff tkey_def)
  have fld: "fld (tcbs s') t_state x = fld (tcbs s) t_state x" "fld (tcbs s') t_events x = fld (tcbs s) t_events x" if "x \<noteq> t" for x
    using key [OF that, of fst] key [OF that, of "fst \<circ> snd"] unfolding f fld_def by simp_all
  have ne: "x \<noteq> t" if "x \<in> fst ` set (L q)" for x q
    using that t(1) by (auto simp: queued_def)
  show ?thesis
  proof (rule thread_invI [OF ok])
    show "alive (pth_sched s') s'"
      using D(6) fld(1) [of "pth_sched s"] t(2) s'(3) by (auto simp: alive_def fld_def)
    show "\<exists>st. fld (tcbs s') t_state x = Some st \<and> state_in q st" if "x \<in> fst ` set (L q)" for x q
      using D(2) [OF that] fld(1) [OF ne [OF that]] by simp
    show "wait_ring s' x (R x)" if "x \<in> fst ` set (L WQ)" for x
      using D(4) [OF that] fld(2) [OF ne [OF that]] s'(2) by (simp add: wait_ring_def)
  qed (use D(3,5) s'(3) in auto)
qed

text \<open>A thread is dead when it says so or when its stack has overflowed.\<close>

definition dead_thread_now :: "pth_state \<Rightarrow> ptr \<Rightarrow> bool" where
  "dead_thread_now s t \<longleftrightarrow> fld (tcbs s) t_state t = Some PTH_STATE_DEAD \<or>
     (\<exists>g. fld (tcbs s) t_stackguard t = Some (Some g) \<and> g \<noteq> STACK_GUARD)"

lemma check_stack_inv:
  assumes inv: "running_inv back_states L R s" and r: "check_stack E (pth_current s) s = Some (Cont s')"
  shows "running_inv back_states L R s' \<and> pth_current s' = pth_current s \<and>
    (fld (tcbs s') t_state (pth_current s) = Some PTH_STATE_DEAD \<longleftrightarrow> dead_thread_now s (pth_current s)) \<and>
    fld (tcbs s') t_joinable (pth_current s) = fld (tcbs s) t_joinable (pth_current s)"
proof -
  note D = running_invD [OF inv]
  let ?t = "pth_current s" and ?f = "\<lambda>c. c\<lparr>t_join_arg := 0xDEAD, t_state := PTH_STATE_DEAD\<rparr>"
  obtain c where c: "tcbs s ?t = Some c"
    using D(2) by (auto simp: alive_def)
  let ?broken = "t_stackguard c \<noteq> None \<and> t_stackguard c \<noteq> Some STACK_GUARD"
  have dead: "dead_thread_now s ?t \<longleftrightarrow> t_state c = PTH_STATE_DEAD \<or> ?broken"
    using c by (auto simp: dead_thread_now_def fld_def)
  have "\<not> ?broken \<and> s' = s \<or> ?broken \<and> s' = os_kill SIGSEGV (s\<lparr>tcbs := (tcbs s)(?t \<mapsto> ?f c)\<rparr>)"
    using r c by (auto simp: check_stack_def cells split: if_splits)
  then show ?thesis
  proof (elim disjE conjE)
    assume broken: "t_stackguard c \<noteq> None" "t_stackguard c \<noteq> Some STACK_GUARD" and s': "s' = os_kill SIGSEGV (s\<lparr>tcbs := (tcbs s)(?t \<mapsto> ?f c)\<rparr>)"
    have ok: "queues_ok s' L"
      by (rule queues_ok_other_tcb [OF thread_invD(1) [OF D(1)] D(3)]) (simp_all add: s' os_kill_def)
    have "thread_inv L R s'"
      by (rule thread_inv_other [OF D(1) ok D(3,4)]) (simp_all add: s' os_kill_def)
    then show ?thesis
      using D(2-4) broken dead c by (simp add: running_inv_def s' os_kill_def alive_def fld_def)
  qed (use inv dead c in \<open>auto simp: fld_def\<close>)
qed

text \<open>What is left of the current thread after it has been filed.\<close>

definition gone :: "pth_state \<Rightarrow> ptr \<Rightarrow> bool" where
  "gone s t \<longleftrightarrow> fld (tcbs s) t_state t = Some PTH_STATE_DEAD \<and> fld (tcbs s) t_joinable t = Some 0"

definition filed :: "qlists \<Rightarrow> qlists \<Rightarrow> (ptr \<Rightarrow> ptr list) \<Rightarrow> pth_state \<Rightarrow> pth_state \<Rightarrow> bool" where
  "filed L L' R s s' \<longleftrightarrow> thread_inv L' R s' \<and>
     {t. queued t L'} = {t. queued t L} \<union> (if gone s (pth_current s) then {} else {pth_current s})"

lemma insert_current:
  assumes inv: "running_inv S L R s" and st: "fld (tcbs s) t_state (pth_current s) = Some st" "state_in q st"
  shows "\<exists>s'. pth_pqueue_insert (Some q) p (pth_current s) s = Some s' \<and> qframe s s' \<and>
    thread_inv (L(q := pq_ins (pth_current s) p (L q))) R s' \<and>
    {t. queued t (L(q := pq_ins (pth_current s) p (L q)))} = {t. queued t L} \<union> {pth_current s}"
proof -
  note D = running_invD [OF inv]
  let ?t = "pth_current s" and ?L = "L(q := pq_ins (pth_current s) p (L q))"
  obtain s' where s': "pth_pqueue_insert (Some q) p ?t s = Some s'" "queues_ok s' ?L" "qframe s s'"
    using pq.enter_ok [OF thread_invD(1) [OF D(1)] D(2,3), of q p] by blast
  have "thread_inv ?L R s'"
  proof (rule thread_inv_add [OF D(1) qframe_same [OF s'(3)] s'(2) _ D(4) st])
    show "fst ` set (?L q') \<subseteq> (if q' = q then insert ?t (fst ` set (L q)) else fst ` set (L q'))" for q'
      by (auto simp: fun_upd_apply)
    show "wait_ring s ?t (R ?t) \<and> rings_apart R (insert ?t (fst ` set (L WQ)))" if "q = WQ"
      using D(6) st that by simp
  qed
  moreover have "{t. queued t ?L} = {t. queued t L} \<union> {?t}"
    by (auto simp: queued_def fun_upd_apply split: if_splits)
  ultimately show ?thesis
    using s'(1,3) by blast
qed

lemma file_thread_inv:
  assumes inv: "running_inv back_states L R s"
  shows "\<exists>s'. file_thread E (pth_current s) s = Some s' \<and>
    (fld (tcbs s) t_state (pth_current s) = Some PTH_STATE_READY \<and> s' = s \<or>
     pth_current s' = NULL \<and> (\<exists>L'. filed L L' R s s'))"
proof -
  note D = running_invD [OF inv]
  let ?t = "pth_current s"
  obtain c where c: "tcbs s ?t = Some c" "?t \<noteq> NULL"
    using D(2) by (auto simp: alive_def)
  have st: "fld (tcbs s) t_state ?t = Some (t_state c)" "fld (tcbs s) t_joinable ?t = Some (t_joinable c)" "t_state c \<in> back_states"
    using c(1) D(5) by (auto simp: fld_def)
  have current: "thread_inv L' R (s1\<lparr>pth_current := NULL\<rparr>)" if "thread_inv L' R s1" for s1 L'
    by (rule thread_inv_same [OF that]) (use thread_invD(1) [OF that] in \<open>simp_all add: same_threads_def queues_ok_def\<close>)
  consider "t_state c = PTH_STATE_READY" | "t_state c = PTH_STATE_WAITING" | "t_state c = PTH_STATE_DEAD" "t_joinable c \<noteq> 0"
    | "t_state c = PTH_STATE_DEAD" "t_joinable c = 0"
    using st(3) by blast
  then show ?thesis
  proof cases
    case 1
    then show ?thesis
      using c st by (simp add: file_thread_def cells)
  next
    case 2
    then obtain s1 where s1: "pth_pqueue_insert (Some WQ) (t_prio c) ?t s = Some s1"
      "thread_inv (L(WQ := pq_ins ?t (t_prio c) (L WQ))) R s1"
      "{t. queued t (L(WQ := pq_ins ?t (t_prio c) (L WQ)))} = {t. queued t L} \<union> {?t}"
      using insert_current [OF inv st(1), of WQ "t_prio c"] by auto
    have "file_thread E ?t s = Some (s1\<lparr>pth_current := NULL\<rparr>)"
      using 2 c s1(1) by (simp add: file_thread_def cells)
    moreover have "filed L (L(WQ := pq_ins ?t (t_prio c) (L WQ))) R s (s1\<lparr>pth_current := NULL\<rparr>)"
      using current [OF s1(2)] s1(3) 2 st(1) by (simp add: filed_def gone_def)
    ultimately show ?thesis by auto
  next
    case 3
    then obtain s1 where s1: "pth_pqueue_insert (Some DQ) PTH_PRIO_STD ?t s = Some s1"
      "thread_inv (L(DQ := pq_ins ?t PTH_PRIO_STD (L DQ))) R s1"
      "{t. queued t (L(DQ := pq_ins ?t PTH_PRIO_STD (L DQ)))} = {t. queued t L} \<union> {?t}"
      using insert_current [OF inv st(1), of DQ PTH_PRIO_STD] by auto
    have "file_thread E ?t s = Some (s1\<lparr>pth_current := NULL\<rparr>)"
      using 3 c s1(1) by (simp add: file_thread_def cells)
    moreover have "filed L (L(DQ := pq_ins ?t PTH_PRIO_STD (L DQ))) R s (s1\<lparr>pth_current := NULL\<rparr>)"
      using current [OF s1(2)] s1(3) 3 st(2) by (simp add: filed_def gone_def)
    ultimately show ?thesis by auto
  next
    case 4
    let ?s1 = "s\<lparr>rings := (rings s)(MutexRing ?t := None), tcbs := (tcbs s)(?t := None)\<rparr>"
    have ok: "queues_ok ?s1 L"
      by (rule queues_ok_other_tcb [OF thread_invD(1) [OF D(1)] D(3)]) simp_all
    have "thread_inv L R ?s1"
      by (rule thread_inv_other [OF D(1) ok D(3,4)]) simp_all
    then have "filed L L R s (?s1\<lparr>pth_current := NULL\<rparr>)"
      using current 4 st(1,2) by (simp add: filed_def gone_def)
    moreover have "file_thread E ?t s = Some (?s1\<lparr>pth_current := NULL\<rparr>)"
      using 4 c pth_tcb_free_spec [OF c(2,1), of E] by (simp add: file_thread_def cells)
    ultimately show ?thesis by auto
  qed
qed

lemma pq_inc_fst: "fst ` set (pq_inc xs) = fst ` set xs"
  by (force simp: pq_inc_def)

lemma increase_inv:
  assumes inv: "thread_inv L R s"
  shows "\<exists>s'. pth_pqueue_increase (Some RQ) s = Some s' \<and> thread_inv (L(RQ := pq_inc (L RQ))) R s' \<and> qframe s s' \<and>
    {t. queued t (L(RQ := pq_inc (L RQ)))} = {t. queued t L}"
proof -
  let ?L = "L(RQ := pq_inc (L RQ))"
  obtain s' where s': "pth_pqueue_increase (Some RQ) s = Some s'" "queues_ok s' ?L" "qframe s s'"
    using pth_pqueue_increase_ok [OF thread_invD(1) [OF inv]] by blast
  have fst: "fst ` set (?L q) = fst ` set (L q)" for q
    by (simp add: fun_upd_apply pq_inc_fst)
  then have "thread_inv ?L R s'"
    by (intro thread_inv_sub [OF inv qframe_same [OF s'(3)] s'(2)]) simp
  moreover have "{t. queued t ?L} = {t. queued t L}"
    by (simp add: queued_def fst)
  ultimately show ?thesis
    using s'(1,3) by blast
qed

lemma make_ready_fst: "fst ` set (make_ready s vs xs) = fst ` set vs \<union> fst ` set xs"
  by (induction vs arbitrary: xs) (simp_all add: make_ready_def case_prod_beta)

lemma woken_split: "fst ` set (L WQ) = fst ` set (unwoken_threads s R (L WQ)) \<union> fst ` set (woken_threads s R (L WQ))"
  by (auto simp: unwoken_threads_def woken_threads_def)

lemma eventmanager_inv:
  assumes inv: "thread_inv L R s" and E: "quiet E" and r: "pth_sched_eventmanager E snapshot dopoll s = Some (snapshot', s')"
  shows "\<exists>L'. thread_inv L' R s' \<and> {t. queued t L'} = {t. queued t L}"
proof -
  note D = thread_invD [OF inv]
  obtain vs where vs: "em_result s L R vs s'"
    using em_wakes [OF r D(1) E _ D(5)] D(4) by auto
  let ?ws = "unwoken_threads s' R (L WQ)"
  let ?L = "L(WQ := ?ws, RQ := make_ready s vs (L RQ))" and ?W = "fst ` set vs"
  have step: "wake_step UNIV ?W s s'" and ok: "queues_ok s' ?L" and "set vs = set (woken_threads s' R (L WQ))"
    using vs unfolding em_result_def by (blast, blast, metis mset_eq_setD)
  then have W: "?W = fst ` set (woken_threads s' R (L WQ))"
    by simp
  have split: "fst ` set (L WQ) = fst ` set ?ws \<union> ?W"
    using woken_split [of L s' R] W by simp
  have disj: "fst ` set ?ws \<inter> ?W = {}"
    unfolding W unwoken_threads_def woken_threads_def by auto
  have mem: "x \<in> ?W \<and> q = RQ \<or> x \<in> fst ` set (L q) \<and> x \<notin> ?W" if "x \<in> fst ` set (?L q)" for x q
  proof (cases "x \<in> ?W")
    case True
    then have "x \<in> fst ` set (L WQ)"
      using split by blast
    then have "q = WQ \<or> q = RQ"
      using that queues_ok_elsewhere [OF D(1), of x WQ q] by (auto simp: fun_upd_apply split: if_splits)
    then show ?thesis
      using that True disj by (auto simp: fun_upd_apply split: if_splits)
  next
    case False
    then show ?thesis
      using that split make_ready_fst [of s vs "L RQ"] by (auto simp: fun_upd_apply split: if_splits)
  qed
  have alive: "alive t s' = alive t s" for t
    using wake_step_fields(1) [OF step] dom_fld unfolding alive_def by metis
  have sched: "pth_sched s' = pth_sched s"
    using step by (simp add: wake_step_def)
  have W_wait: "x \<in> fst ` set (L WQ)" if "x \<in> ?W" for x
    using that split by blast
  have "thread_inv ?L R s'"
  proof (rule thread_invI [OF ok])
    show "\<exists>st. fld (tcbs s') t_state x = Some st \<and> state_in q st" if "x \<in> fst ` set (?L q)" for x q
      using mem [OF that] D(2) [of x q] wake_step_state [OF step, of x] queues_ok_alive [OF D(1) W_wait] by (auto simp: alive_def)
    show "wait_ring s' x (R x)" if "x \<in> fst ` set (?L WQ)" for x
      using mem [OF that] D(4) wake_step_ring [OF step] by simp
    show "rings_apart R (fst ` set (?L WQ))"
      by (rule rings_apart_mono [OF D(5)]) (use split in simp)
    show "alive (pth_sched s') s'"
      using D(6) alive sched by simp
    show "x \<noteq> pth_sched s'" if "x \<in> fst ` set (?L q)" for x q
      using mem [OF that] D(3) [of x] W_wait sched by metis
  qed
  moreover have "queued t ?L = queued t L" for t
    using split make_ready_fst [of s vs "L RQ"] by (auto simp: queued_cases)
  ultimately show ?thesis by auto
qed

lemma file_and_age:
  assumes inv: "running_inv back_states L R s"
  shows "\<exists>s1 s2 s3 L'. file_thread E (pth_current s) s = Some s1 \<and> pth_pqueue_increase (Some RQ) s1 = Some s2 \<and>
    (if pth_current s2 \<noteq> NULL then do { prio \<leftarrow> t_get t_prio (pth_current s2) s2; pth_pqueue_insert (Some RQ) prio (pth_current s2) s2 }
     else Some s2) = Some s3 \<and> filed L L' R s s3"
proof -
  note D = running_invD [OF inv]
  obtain s1 where s1: "file_thread E (pth_current s) s = Some s1"
    "fld (tcbs s) t_state (pth_current s) = Some PTH_STATE_READY \<and> s1 = s \<or> pth_current s1 = NULL \<and> (\<exists>L1. filed L L1 R s s1)"
    using file_thread_inv [OF inv] by blast
  from s1(2) show ?thesis
  proof (elim disjE conjE exE)
    assume st: "fld (tcbs s) t_state (pth_current s) = Some PTH_STATE_READY" and "s1 = s"
    obtain s2 where s2: "pth_pqueue_increase (Some RQ) s = Some s2" "thread_inv (L(RQ := pq_inc (L RQ))) R s2" "qframe s s2"
      "{t. queued t (L(RQ := pq_inc (L RQ)))} = {t. queued t L}"
      using increase_inv [OF D(1)] by blast
    let ?L = "L(RQ := pq_inc (L RQ))"
    have cur: "pth_current s2 = pth_current s" "pth_sched s2 = pth_sched s" "fld (tcbs s2) t_state = fld (tcbs s) t_state"
      "alive (pth_current s) s2"
      using qframe_state(1,3) [OF s2(3)] qframe_fld [OF s2(3), of t_state] D(2) qframe_alive [OF s2(3)] by simp_all
    have "\<not> queued (pth_current s) ?L"
      using s2(4) D(3) by auto
    then have inv2: "running_inv {PTH_STATE_READY} ?L R s2"
      using s2(2) cur D(4) st by (simp add: running_inv_def)
    obtain c where c: "tcbs s2 (pth_current s) = Some c" "pth_current s \<noteq> NULL"
      using cur(4) by (auto simp: alive_def)
    obtain s3 where s3: "pth_pqueue_insert (Some RQ) (t_prio c) (pth_current s) s2 = Some s3"
      "thread_inv (?L(RQ := pq_ins (pth_current s) (t_prio c) (?L RQ))) R s3"
      "{t. queued t (?L(RQ := pq_ins (pth_current s) (t_prio c) (?L RQ)))} = {t. queued t ?L} \<union> {pth_current s}"
      using insert_current [OF inv2, of PTH_STATE_READY RQ "t_prio c"] st cur by auto
    have "filed L (?L(RQ := pq_ins (pth_current s) (t_prio c) (?L RQ))) R s s3"
      using s3(2,3) s2(4) st by (simp add: filed_def gone_def)
    then show ?thesis
      using s1(1) s2(1) s3(1) c cur(1) \<open>s1 = s\<close> by (fastforce simp: cells)
  next
    fix L1
    assume null: "pth_current s1 = NULL" and filed: "filed L L1 R s s1"
    obtain s2 where s2: "pth_pqueue_increase (Some RQ) s1 = Some s2" "thread_inv (L1(RQ := pq_inc (L1 RQ))) R s2" "qframe s1 s2"
      "{t. queued t (L1(RQ := pq_inc (L1 RQ)))} = {t. queued t L1}"
      using increase_inv [of L1 R s1] filed by (auto simp: filed_def)
    then have "filed L (L1(RQ := pq_inc (L1 RQ))) R s s2"
      using filed by (simp add: filed_def)
    then show ?thesis
      using s1(1) s2(1) qframe_state(1) [OF s2(3)] null by fastforce
  qed
qed

lemma sched_return_inv:
  assumes inv: "running_inv back_states L R s" and E: "quiet E" and r: "sched_return E s = Some (Cont (snapshot, s'))"
  shows "\<exists>L'. thread_inv L' R s' \<and> {t. queued t L'} = {t. queued t L} \<union>
    (if dead_thread_now s (pth_current s) \<and> fld (tcbs s) t_joinable (pth_current s) = Some 0 then {} else {pth_current s})"
proof -
  let ?t = "pth_current s" and ?f = "\<lambda>c. c\<lparr>t_running := pth_time_add (t_running c) (pth_time_sub (now E s) (t_lastran c))\<rparr>"
  have dom: "?t \<in> dom (tcbs s)"
    using running_invD(2) [OF inv] by (simp add: alive_def)
  obtain s1 where s1: "t_set ?f ?t s = Some s1" "same_threads s s1" "\<forall>L. queues_ok s1 L = queues_ok s L" "pth_current s1 = ?t"
    using t_set_same [OF dom, of ?f] by (auto simp: tkey_def)
  obtain s2 where s2: "take_back E ?t s1 = Some s2" "same_threads s1 s2" "\<forall>L. queues_ok s2 L = queues_ok s1 L" "pth_current s2 = ?t"
    using take_back_same [of ?t s1 E] dom same_threads_fld(5) [OF s1(2)] s1(4) by auto
  have same: "same_threads s s2"
    by (rule same_threads_trans [OF s1(2) s2(2)])
  have "queues_ok s2 L"
    using s1(3) s2(3) thread_invD(1) [OF running_invD(1) [OF inv]] by blast
  then have inv2: "running_inv back_states L R s2"
    using running_inv_same [OF inv same] s2(4) by blast
  obtain s3 where s3: "check_stack E ?t s2 = Some (Cont s3)"
    using r s1(1) s2(1) by (auto simp: sched_return_def Let_def split: sched_out.splits elim!: bind_SomeE)
  then have inv3: "running_inv back_states L R s3" and t3: "pth_current s3 = ?t"
    and gone: "gone s3 ?t \<longleftrightarrow> dead_thread_now s ?t \<and> fld (tcbs s) t_joinable ?t = Some 0"
    using check_stack_inv [OF inv2, of E s3] s2(4) same_threads_fld(1,3,8) [OF same] by (auto simp: gone_def dead_thread_now_def)
  obtain s4 s5 s6 L' where s6: "file_thread E ?t s3 = Some s4" "pth_pqueue_increase (Some RQ) s4 = Some s5"
    "(if pth_current s5 \<noteq> NULL then do { prio \<leftarrow> t_get t_prio (pth_current s5) s5; pth_pqueue_insert (Some RQ) prio (pth_current s5) s5 }
     else Some s5) = Some s6" "filed L L' R s3 s6"
    using file_and_age [OF inv3] t3 by metis
  obtain dopoll where "pth_sched_eventmanager E (now E s) dopoll s6 = Some (snapshot, s')"
    using r s1(1) s2(1) s3 s6(1-3) by (auto simp: sched_return_def Let_def elim!: bind_SomeE)
  then obtain L'' where "thread_inv L'' R s'" "{t. queued t L''} = {t. queued t L'}"
    using eventmanager_inv [OF _ E] s6(4) unfolding filed_def by blast
  then show ?thesis
    using s6(4) gone t3 unfolding filed_def by auto
qed

section \<open>Properties\<close>

text \<open>
  The contract of the code that runs in a thread: it gives control back as the current thread, in one of the
  states of a thread that has yielded, waits or has ended, and it has kept the invariant.
\<close>

definition run_ok :: "switch \<Rightarrow> bool" where
  "run_ok run \<longleftrightarrow> (\<forall>L R s s'. running_inv {PTH_STATE_READY} L R s \<longrightarrow> run s = Some s' \<longrightarrow>
     pth_current s' = pth_current s \<and> (\<exists>L' R'. running_inv back_states L' R' s'))"

inductive sched_reach :: "env \<Rightarrow> switch \<Rightarrow> pth_time_t \<times> pth_state \<Rightarrow> pth_time_t \<times> pth_state \<Rightarrow> bool"
  for E run x where
  sched_start: "sched_reach E run x x"
| sched_step: "sched_reach E run x (t, s) \<Longrightarrow> sched_iter E run t s = Some (Cont y) \<Longrightarrow> sched_reach E run x y"

lemma sched_iter_inv:
  assumes inv: "thread_inv L R s" and E: "quiet E" "run_ok run" and r: "sched_iter E run snapshot s = Some (Cont (snapshot', s'))"
  shows "\<exists>L' R'. thread_inv L' R' s'"
proof -
  obtain s1 s2 where s1: "sched_dispatch E snapshot s = Some (Cont s1)" "run s1 = Some s2" "sched_return E s2 = Some (Cont (snapshot', s'))"
    using r by (auto simp: sched_iter_def split: sched_out.splits elim!: bind_SomeE)
  have "\<exists>L1. running_inv {PTH_STATE_READY} L1 R s1"
    using dispatch_inv [OF inv, of E snapshot] s1(1) by (auto split: if_splits)
  then obtain L2 R2 where "running_inv back_states L2 R2 s2"
    using E(2) s1(2) unfolding run_ok_def by blast
  then show ?thesis
    using sched_return_inv [OF _ E(1) s1(3)] by blast
qed

text \<open>
  C1: the invariant of the scheduler loop. As long as the threads keep their contract, at the head of every
  iteration every queue is well-formed, each thread is in at most one queue and its state fits that queue,
  the waiting threads have well-formed event rings, and the scheduler itself is never queued.
\<close>

theorem sched_loop_invariant:
  assumes "sched_reach E run (t0, s0) (t1, s1)" "thread_inv L R s0" "quiet E" "run_ok run"
  shows "\<exists>L' R'. thread_inv L' R' s1"
proof -
  have "sched_reach E run (t0, s0) y \<Longrightarrow> \<exists>L' R'. thread_inv L' R' (snd y)" for y
  proof (induction rule: sched_reach.induct)
    case sched_start
    then show ?case using assms(2) by auto
  next
    case (sched_step t s y)
    then show ?case
      using sched_iter_inv [OF _ assms(3,4)] by (cases y) auto
  qed
  from this [OF assms(1)] show ?thesis by simp
qed

text \<open>Two ready threads and one new thread; the scheduler has the control block 9.\<close>

definition three_runnable :: pth_state where
  "three_runnable = state0\<lparr>tcbs := [2 \<mapsto> tcb0\<lparr>q_next := 3, q_prev := 3, q_prio := 4, t_state := PTH_STATE_READY\<rparr>,
     3 \<mapsto> tcb0\<lparr>q_next := 2, q_prev := 2, q_prio := 1, t_state := PTH_STATE_READY\<rparr>,
     4 \<mapsto> tcb0\<lparr>q_next := 4, q_prev := 4, q_prio := 0, t_state := PTH_STATE_NEW\<rparr>, 9 \<mapsto> tcb0],
     queues := (\<lambda>_. \<lparr>q_head = NULL, q_num = 0\<rparr>)(RQ := \<lparr>q_head = 2, q_num = 2\<rparr>, NQ := \<lparr>q_head = 4, q_num = 1\<rparr>),
     pth_sched := 9\<rparr>"

abbreviation three_lists :: qlists where
  "three_lists \<equiv> (\<lambda>_. [])(RQ := [(2, 4), (3, 3)], NQ := [(4, 0)])"

lemma three_runnable_inv: "thread_inv three_lists (\<lambda>_. []) three_runnable"
proof (rule thread_invI)
  have "pq_rep (tcbs three_runnable) (queues three_runnable q) (three_lists q)" for q
    by (cases "q = RQ"; cases "q = NQ") (simp_all add: pq_rep_def dring_def three_runnable_def fld_def)
  then show "queues_ok three_runnable three_lists"
    by (auto simp: queues_ok_def fun_upd_apply)
  show "\<exists>st. fld (tcbs three_runnable) t_state t = Some st \<and> state_in q st" "t \<noteq> pth_sched three_runnable"
    if "t \<in> fst ` set (three_lists q)" for q t
    using that by (auto simp: three_runnable_def fld_def fun_upd_apply split: if_splits)
qed (simp_all add: rings_apart_def alive_def three_runnable_def)

lemma quiet_env0: "quiet env0"
  by (simp add: quiet_def env0_def)

lemma yielding_run_ok: "run_ok Some"
  unfolding run_ok_def running_inv_def by auto

lemmas sched_eval = sched_iter_def sched_dispatch_def sched_return_def migrate_new.simps raise_pending_def take_back_def
  check_stack_def file_thread_def pth_scheduler_load_def em_eval

definition one_runnable :: pth_state where
  "one_runnable = state0\<lparr>tcbs := [2 \<mapsto> tcb0\<lparr>q_next := 2, q_prev := 2, t_state := PTH_STATE_READY, t_joinable := 1\<rparr>, 9 \<mapsto> tcb0],
     queues := (\<lambda>_. \<lparr>q_head = NULL, q_num = 0\<rparr>)(RQ := \<lparr>q_head = 2, q_num = 1\<rparr>),
     pth_sched := 9, pth_loadticknext := pth_time 7 0\<rparr>"

lemma one_runnable_inv: "thread_inv ((\<lambda>_. [])(RQ := [(2, 0)])) (\<lambda>_. []) one_runnable"
proof (rule thread_invI)
  have "pq_rep (tcbs one_runnable) (queues one_runnable q) (((\<lambda>_. [])(RQ := [(2, 0)])) q)" for q
    by (cases "q = RQ") (simp_all add: pq_rep_def dring_def one_runnable_def fld_def tcb0_def)
  then show "queues_ok one_runnable ((\<lambda>_. [])(RQ := [(2, 0)]))"
    by (auto simp: queues_ok_def fun_upd_apply)
  show "\<exists>st. fld (tcbs one_runnable) t_state t = Some st \<and> state_in q st" "t \<noteq> pth_sched one_runnable"
    if "t \<in> fst ` set (((\<lambda>_. [])(RQ := [(2, 0)])) q)" for q and t :: ptr
    using that by (auto simp: one_runnable_def fld_def fun_upd_apply split: if_splits)
qed (simp_all add: rings_apart_def alive_def one_runnable_def)

lemma one_runnable_iter: "\<exists>y. sched_iter env0 Some PTH_TIME_ZERO one_runnable = Some (Cont y)"
  by (simp add: sched_eval one_runnable_def state0_def env0_def
    pth_pqueue_tail_def pth_pqueue_favorite_prio_def pth_pqueue_delmax_def pth_pqueue_elements_def pth_pqueue_increase_def
    pq_make_empty_def pth_time_def pth_time_sub_def pth_time_add_def pth_pqueue_insert_def pth_pqueue_head_def
    q_set_def t_set_def t_get_def fld_def setf_def fun_upd_apply upd_def tcb0_def)

theorem sched_loop_invariant_witness:
  "\<exists>t s. sched_iter env0 Some PTH_TIME_ZERO one_runnable = Some (Cont (t, s)) \<and> (\<exists>L R. thread_inv L R s)"
proof -
  obtain t s where y: "sched_iter env0 Some PTH_TIME_ZERO one_runnable = Some (Cont (t, s))"
    using one_runnable_iter by auto
  have "sched_reach env0 Some (PTH_TIME_ZERO, one_runnable) (t, s)"
    by (rule sched_step [OF sched_start y])
  then show ?thesis
    using sched_loop_invariant [OF _ one_runnable_inv quiet_env0 yielding_run_ok] y by blast
qed

text \<open>
  C3: no thread is lost. When the current thread comes back to the scheduler and the event manager has
  run, the queues hold exactly the threads they held before and the thread itself, unless it is dead (by
  its state or because its stack guard was overwritten) and detached: then it is in no queue.
\<close>

theorem sched_return_conserves:
  assumes "running_inv back_states L R s" "quiet E" "sched_return E s = Some (Cont (snapshot, s'))"
  shows "\<exists>L'. thread_inv L' R s' \<and> {t. queued t L'} = {t. queued t L} \<union>
    (if dead_thread_now s (pth_current s) \<and> fld (tcbs s) t_joinable (pth_current s) = Some 0 then {} else {pth_current s})"
  by (rule sched_return_inv [OF assms])

theorem sched_return_conserves_witness:
  "\<exists>s1 y L'. sched_dispatch env0 PTH_TIME_ZERO one_runnable = Some (Cont s1) \<and> sched_return env0 s1 = Some (Cont y) \<and>
     thread_inv L' (\<lambda>_. []) (snd y) \<and> {t. queued t L'} = {2}"
proof -
  obtain s1 t s where s1: "sched_dispatch env0 PTH_TIME_ZERO one_runnable = Some (Cont s1)" "sched_return env0 s1 = Some (Cont (t, s))"
    using one_runnable_iter by (auto simp: sched_iter_def split: sched_out.splits elim!: bind_SomeE)
  have list: "ready_list one_runnable ((\<lambda>_. [])(RQ := [(2, 0)])) = [(2, 0)]"
    by (simp add: ready_list_def one_runnable_def favour_new_def queue_new_def)
  have inv: "running_inv {PTH_STATE_READY} (\<lambda>_. []) (\<lambda>_. []) s1" "pth_current s1 = 2"
    "fld (tcbs s1) t_joinable = fld (tcbs one_runnable) t_joinable"
    using dispatch_inv [OF one_runnable_inv, of env0 PTH_TIME_ZERO] s1(1) unfolding list by (auto simp: fun_upd_idem)
  have "running_inv back_states (\<lambda>_. []) (\<lambda>_. []) s1"
    using inv(1) by (simp add: running_inv_def)
  then obtain L' where "thread_inv L' (\<lambda>_. []) s" "{t. queued t L'} = {t. queued t (\<lambda>_. [])} \<union>
      (if dead_thread_now s1 2 \<and> fld (tcbs s1) t_joinable 2 = Some 0 then {} else {2})"
    using sched_return_conserves [OF _ quiet_env0 s1(2)] inv(2) by force
  moreover have "fld (tcbs s1) t_joinable 2 = Some 1"
    by (simp add: inv(3) one_runnable_def fld_def)
  ultimately have "thread_inv L' (\<lambda>_. []) (snd (t, s))" "{t. queued t L'} = {2}"
    by (simp_all add: queued_def)
  then show ?thesis
    using s1 by blast
qed

text \<open>
  C4: the scheduler dispatches the first thread of its ready queue, after the new threads have been put into
  it: with \<^verbatim>\<open>pth_favournew\<close> in front of all ready threads and in their order, so that a new thread always
  runs next; otherwise with the standard priority. It aborts exactly when there is neither a new nor a ready
  thread. The dispatched thread is taken out of the queue, in state ready.
\<close>

theorem sched_dispatch_next:
  assumes "thread_inv L R s"
  shows "(sched_dispatch E snapshot s = Some Aborted \<longleftrightarrow> L NQ = [] \<and> L RQ = []) \<and>
    (\<forall>s'. sched_dispatch E snapshot s = Some (Cont s') \<longrightarrow>
      pth_current s' = hd (map fst (ready_list s L)) \<and>
      (pth_favournew s \<longrightarrow> map fst (ready_list s L) = map fst (L NQ) @ map fst (L RQ)) \<and>
      running_inv {PTH_STATE_READY} (L(NQ := [], RQ := tl (ready_list s L))) R s')"
proof -
  have empty: "ready_list s L = [] \<longleftrightarrow> L NQ = [] \<and> L RQ = []"
    using ready_list_set [of s L] by (metis Un_empty image_is_empty set_empty)
  show ?thesis
  proof (cases "ready_list s L = []")
    case True
    then show ?thesis
      using dispatch_inv [OF assms, of E snapshot] empty by simp
  next
    case False
    then obtain s' where "sched_dispatch E snapshot s = Some (Cont s')" "pth_current s' = fst (hd (ready_list s L))"
      "running_inv {PTH_STATE_READY} (L(NQ := [], RQ := tl (ready_list s L))) R s'"
      using dispatch_inv [OF assms, of E snapshot] by auto
    then show ?thesis
      using False empty favour_new_order by (auto simp: hd_map ready_list_def)
  qed
qed

theorem sched_dispatch_next_witness:
  "\<exists>s'. sched_dispatch env0 PTH_TIME_ZERO three_runnable = Some (Cont s') \<and> pth_current s' = 4 \<and>
     map fst (ready_list three_runnable three_lists) = [4, 2, 3]"
proof -
  have fav: "pth_favournew three_runnable"
    by (simp add: three_runnable_def state0_def)
  have list: "map fst (ready_list three_runnable three_lists) = [4, 2, 3]"
    using favour_new_order [of "[(4, 0)]" "[(2, 4), (3, 3)]"] fav by (simp add: ready_list_def)
  then have "ready_list three_runnable three_lists \<noteq> []"
    by auto
  then obtain s' where "sched_dispatch env0 PTH_TIME_ZERO three_runnable = Some (Cont s')"
    using dispatch_inv [OF three_runnable_inv, of env0 PTH_TIME_ZERO] by auto
  then show ?thesis
    using sched_dispatch_next [OF three_runnable_inv, of env0 PTH_TIME_ZERO] list by auto
qed



text \<open>
  \<^verbatim>\<open>pth_scheduler_drop\<close> ends, empties every queue and frees exactly the queued threads; the current thread
  and the scheduler stay, and no cleanup handler of a dropped thread runs.
\<close>

theorem pth_scheduler_drop_frees:
  assumes "queues_ok s L"
  shows "\<exists>s'. pth_scheduler_drop E s = Some s' \<and> queues_ok s' (\<lambda>_. []) \<and> dom (tcbs s') = dom (tcbs s) - {t. queued t L} \<and>
    (\<forall>t. \<not> queued t L \<longrightarrow> map_option noq (tcbs s' t) = map_option noq (tcbs s t)) \<and> app_log s' = app_log s"
proof -
  obtain s' where s': "pth_scheduler_drop E s = Some s'" "queues_ok s' (\<lambda>_. [])" "freed {t. queued t L} s s'"
    using drop_all_spec [OF assms] by blast
  then show ?thesis
    using freed_dom [OF s'(3)] by (auto simp: freed_def)
qed

theorem pth_scheduler_drop_frees_witness:
  "\<exists>s'. pth_scheduler_drop env0 three_runnable = Some s' \<and> dom (tcbs s') = {9}"
proof -
  have "{t. queued t three_lists} = {2, 3, 4}"
    by (auto simp: queued_cases)
  moreover have "dom (tcbs three_runnable) = {2, 3, 4, 9}"
    by (auto simp: three_runnable_def)
  moreover obtain s' where "pth_scheduler_drop env0 three_runnable = Some s'"
    "dom (tcbs s') = dom (tcbs three_runnable) - {t. queued t three_lists}"
    using pth_scheduler_drop_frees [OF thread_invD(1) [OF three_runnable_inv], of env0] by blast
  ultimately show ?thesis
    by auto
qed

end
