(* ===== verification/Pth_Process.thy ===== *)
theory Pth_Process
  imports Pth_Sched
begin

text \<open>
  The life of the process: starting and killing the library, the end of a thread and of the main
  program (\<^verbatim>\<open>pth_lib.c\<close>), and forking with its handlers (\<^verbatim>\<open>pth_fork.c\<close>). The table of wrapped system
  calls that \<^verbatim>\<open>pth_syscall_init\<close> and \<^verbatim>\<open>pth_syscall_kill\<close> keep is no part of the state.
\<close>

section \<open>Starting and killing the library\<close>

definition init_attrs :: "ptr \<Rightarrow> int \<Rightarrow> string \<Rightarrow> int \<Rightarrow> 32 word \<Rightarrow> 32 word \<Rightarrow> pth_state \<Rightarrow> pth_state option" where
  "init_attrs a prio name joinable cancelstate stacksize s = do {
     (_, s) \<leftarrow> pth_attr_set a PTH_ATTR_PRIO (VInt prio) s;
     (_, s) \<leftarrow> pth_attr_set a PTH_ATTR_NAME (VString name) s;
     (_, s) \<leftarrow> pth_attr_set a PTH_ATTR_JOINABLE (VInt joinable) s;
     (_, s) \<leftarrow> pth_attr_set a PTH_ATTR_CANCEL_STATE (VUint cancelstate) s;
     (_, s) \<leftarrow> pth_attr_set a PTH_ATTR_STACK_SIZE (VUint stacksize) s;
     (_, s) \<leftarrow> pth_attr_set a PTH_ATTR_STACK_ADDR (VPtr NULL) s;
     Some s }"

text \<open>What \<^verbatim>\<open>pth_init\<close> undoes when a thread cannot be spawned, with \<^verbatim>\<open>errno\<close> shielded.\<close>

definition init_undo :: "env \<Rightarrow> ptr \<Rightarrow> pth_state \<Rightarrow> (bool \<times> pth_state) option" where
  "init_undo E a s = do {
     let saved = errno s;
     let s = snd (pth_attr_destroy a s);
     s \<leftarrow> pth_scheduler_kill E s;
     Some (False, s\<lparr>errno := saved\<rparr>) }"

definition pth_init :: "env \<Rightarrow> pth_state \<Rightarrow> (bool \<times> pth_state) option" where
  "pth_init E s =
     (if pth_initialized s then Some (pth_error False EPERM s)
      else do {
        let s = s\<lparr>pth_initialized := True\<rparr>;
        (ok, s) \<leftarrow> Some (pth_scheduler_init E s);
        if \<not> ok then Some (pth_error False EAGAIN s)
        else do {
          (a, s) \<leftarrow> pth_attr_new (malloc E s) s;
          s \<leftarrow> init_attrs a PTH_PRIO_MAX ''**SCHEDULER**'' 0 PTH_CANCEL_DISABLE 65536 s;
          (t, s) \<leftarrow> pth_spawn E a scheduler_addr NULL s;
          let s = s\<lparr>pth_sched := t\<rparr>;
          if t = NULL then init_undo E a s
          else do {
            s \<leftarrow> init_attrs a PTH_PRIO_STD ''main'' 1 (PTH_CANCEL_ENABLE OR PTH_CANCEL_DEFERRED) 0 s;
            (t, s) \<leftarrow> pth_spawn E a MAIN_FUNC NULL s;
            let s = s\<lparr>pth_main := t\<rparr>;
            if t = NULL then init_undo E a s
            else do {
              let s = snd (pth_attr_destroy a s);
              s \<leftarrow> sw E (s\<lparr>pth_current := pth_sched s\<rparr>);
              Some (True, s) } } } })"

definition pth_kill :: "env \<Rightarrow> pth_state \<Rightarrow> (bool \<times> pth_state) option" where
  "pth_kill E s =
     (if \<not> pth_initialized s then Some (pth_error False EINVAL s)
      else if pth_current s \<noteq> pth_main s then Some (pth_error False EPERM s)
      else do {
        s \<leftarrow> pth_thread_cleanup E (pth_main s) s;
        s \<leftarrow> pth_scheduler_kill E s;
        let s = s\<lparr>pth_initialized := False\<rparr>;
        s \<leftarrow> pth_tcb_free E (pth_sched s) s;
        s \<leftarrow> pth_tcb_free E (pth_main s) s;
        Some (True, s) })"

section \<open>The end of a thread\<close>

text \<open>
  How \<^verbatim>\<open>pth_exit\<close> leaves: by the final switch to the scheduler, in the given state, or by \<^verbatim>\<open>exit\<close> of
  the process. It never returns to its caller.
\<close>

datatype exit_out = ToScheduler | ProcessExit int

definition exit_finish :: "env \<Rightarrow> ptr \<Rightarrow> pth_state \<Rightarrow> (exit_out \<times> pth_state) option" where
  "exit_finish E val s = do {
     s \<leftarrow> pth_thread_cleanup E (pth_current s) s;
     if pth_current s \<noteq> pth_main s then do {
       s \<leftarrow> t_set (\<lambda>c. c\<lparr>t_join_arg := val, t_state := PTH_STATE_DEAD\<rparr>) (pth_current s) s;
       Some (ToScheduler, s) }
     else do {
       (_, s) \<leftarrow> pth_kill E s;
       Some (ProcessExit (to_c_int (int val)), s) } }"

text \<open>
  The event is constructed without the argument and the interval that \<^verbatim>\<open>PTH_EVENT_FUNC\<close> reads: it gets
  the stray values \<open>stray E\<close>. A cancellation of the main thread inside \<^verbatim>\<open>pth_wait\<close> calls \<^verbatim>\<open>pth_exit\<close> again.
\<close>

partial_function (option) pth_exit :: "env \<Rightarrow> ptr \<Rightarrow> pth_state \<Rightarrow> (exit_out \<times> pth_state) option" where
  "pth_exit E val s =
     (if pth_current s = pth_main s \<and> \<not> pth_exit_cb s then
        Option.bind (pth_event (fd_open s) (malloc E s) (calloc_ok E s) PTH_EVENT_FUNC NULL NullInt NULL
            (EvFUNC exit_cb_addr (fst (stray E)) (snd (stray E))) s) (\<lambda>(ev, s).
        Option.bind (pth_wait (sw E) ev s) (\<lambda>(c, s).
          case c of
            Exit v \<Rightarrow> pth_exit E v s
          | Ret _ \<Rightarrow> Option.bind (pth_event_free ev PTH_FREE_THIS s) (\<lambda>(_, s). exit_finish E val s)))
      else exit_finish E val s)"

text \<open>The first function of every thread; the result of the start routine is a parameter.\<close>

definition pth_spawn_trampoline :: "env \<Rightarrow> (ptr \<Rightarrow> ptr \<Rightarrow> pth_state \<Rightarrow> (ptr \<times> pth_state) option) \<Rightarrow> pth_state
    \<Rightarrow> (exit_out \<times> pth_state) option" where
  "pth_spawn_trampoline E start s = do {
     func \<leftarrow> t_get t_start_func (pth_current s) s;
     arg \<leftarrow> t_get t_start_arg (pth_current s) s;
     (data, s) \<leftarrow> start func arg s;
     pth_exit E data s }"

section \<open>Forking\<close>

definition pth_atfork_push :: "ptr \<Rightarrow> ptr \<Rightarrow> ptr \<Rightarrow> ptr \<Rightarrow> pth_state \<Rightarrow> bool \<times> pth_state" where
  "pth_atfork_push prepare parent child arg s =
     (if int (pth_atfork_idx s) > int PTH_ATFORK_MAX - 1 then pth_error False ENOMEM s
      else (True, s\<lparr>pth_atfork_list := (pth_atfork_list s)(pth_atfork_idx s :=
                      \<lparr>a_prepare = prepare, a_parent = parent, a_child = child, a_arg = arg\<rparr>),
                    pth_atfork_idx := pth_atfork_idx s + 1\<rparr>))"

definition pth_atfork_pop :: "pth_state \<Rightarrow> bool \<times> pth_state" where
  "pth_atfork_pop s =
     (if pth_atfork_idx s = 0 then (False, s) else (True, s\<lparr>pth_atfork_idx := pth_atfork_idx s - 1\<rparr>))"

definition atfork_call :: "env \<Rightarrow> (pth_atfork_st \<Rightarrow> ptr) \<Rightarrow> nat \<Rightarrow> pth_state \<Rightarrow> pth_state option" where
  "atfork_call E handler i s =
     (let a = pth_atfork_list s i
      in if handler a \<noteq> NULL then app_call E (handler a) (a_arg a) s else Some s)"

primrec run_prepare :: "env \<Rightarrow> nat \<Rightarrow> pth_state \<Rightarrow> pth_state option" where
  "run_prepare E 0 s = Some s"
| "run_prepare E (Suc i) s = do { s \<leftarrow> atfork_call E a_prepare i s; run_prepare E i s }"

partial_function (option) run_handlers :: "env \<Rightarrow> (pth_atfork_st \<Rightarrow> ptr) \<Rightarrow> nat \<Rightarrow> pth_state \<Rightarrow> pth_state option" where
  "run_handlers E handler i s =
     (if i < pth_atfork_idx s
      then Option.bind (atfork_call E handler i s) (\<lambda>s. run_handlers E handler (i + 1) s)
      else Some s)"

definition pth_fork :: "env \<Rightarrow> pth_state \<Rightarrow> (int \<times> pth_state) option" where
  "pth_fork E s = do {
     s \<leftarrow> run_prepare E (pth_atfork_idx s) s;
     let pid = os_fork E s;
     if pid = -1 then Some (0, s)
     else if pid \<noteq> 0 then do { s \<leftarrow> run_handlers E a_parent 0 s; Some (pid, s) }
     else do {
       s \<leftarrow> pth_scheduler_drop E s;
       s \<leftarrow> run_handlers E a_child 0 s;
       Some (0, s) } }"

section \<open>The fork handlers\<close>

text \<open>The calls of the handlers of one kind, for the given entries of the list.\<close>

definition atfork_calls :: "(pth_atfork_st \<Rightarrow> ptr) \<Rightarrow> nat list \<Rightarrow> pth_state \<Rightarrow> (ptr \<times> ptr) list" where
  "atfork_calls handler is s =
     map (\<lambda>i. (handler (pth_atfork_list s i), a_arg (pth_atfork_list s i)))
       (filter (\<lambda>i. handler (pth_atfork_list s i) \<noteq> NULL) is)"

lemma atfork_call_logs:
  assumes "logs_calls (app_call E)"
  shows "atfork_call E handler i s = Some (s\<lparr>app_log := app_log s @ atfork_calls handler [i] s\<rparr>)"
  using assms by (simp add: atfork_call_def atfork_calls_def logs_calls_def Let_def)

lemma run_prepare_logs:
  assumes "logs_calls (app_call E)"
  shows "run_prepare E n s = Some (s\<lparr>app_log := app_log s @ rev (atfork_calls a_prepare [0..<n] s)\<rparr>)"
  by (induction n arbitrary: s) (simp_all add: atfork_call_logs [OF assms] atfork_calls_def)

lemma run_handlers_logs:
  assumes "logs_calls (app_call E)"
  shows "run_handlers E handler i s = Some (s\<lparr>app_log := app_log s @ atfork_calls handler [i..<pth_atfork_idx s] s\<rparr>)"
proof (induction "pth_atfork_idx s - i" arbitrary: i s)
  case 0
  then show ?case
    by (simp add: run_handlers.simps atfork_calls_def)
next
  case (Suc n)
  let ?s = "s\<lparr>app_log := app_log s @ atfork_calls handler [i] s\<rparr>"
  have i: "i < pth_atfork_idx s"
    using Suc.hyps(2) by linarith
  then have "run_handlers E handler i s = run_handlers E handler (i + 1) ?s"
    by (subst run_handlers.simps) (simp add: atfork_call_logs [OF assms])
  also have "\<dots> = Some (?s\<lparr>app_log := app_log ?s @ atfork_calls handler [i + 1..<pth_atfork_idx ?s] ?s\<rparr>)"
    using Suc.hyps by (intro Suc.hyps(1)) simp
  finally show ?case
    using i by (simp add: atfork_calls_def upt_rec [of i])
qed

section \<open>The end of the main thread\<close>

text \<open>The threads of a running library: the main thread, with control block \<open>c\<close>, is running.\<close>

definition main_running :: "qlists \<Rightarrow> pth_st \<Rightarrow> pth_state \<Rightarrow> bool" where
  "main_running L c s \<longleftrightarrow> queues_ok s L \<and> pth_initialized s \<and> pth_current s = pth_main s \<and>
     pth_main s \<noteq> NULL \<and> tcbs s (pth_main s) = Some c \<and> cleanable s (pth_main s) c \<and> \<not> queued (pth_main s) L \<and>
     alive (pth_sched s) s \<and> \<not> queued (pth_sched s) L \<and> pth_sched s \<noteq> pth_main s"

lemma kill_spec:
  assumes call: "logs_calls (app_call E)" and run: "main_running L c s"
  shows "\<exists>s'. pth_kill E s = Some (True, s') \<and> \<not> pth_initialized s' \<and> queues_ok s' (\<lambda>_. []) \<and>
    dom (tcbs s') = dom (tcbs s) - {t. queued t L} - {pth_main s, pth_sched s} \<and> app_log s' = app_log s @ dead_calls s c"
proof -
  let ?m = "pth_main s" and ?d = "pth_sched s"
  have r: "queues_ok s L" "pth_initialized s" "pth_current s = ?m" "?m \<noteq> NULL" "tcbs s ?m = Some c" "cleanable s ?m c"
    "\<not> queued ?m L" "alive ?d s" "\<not> queued ?d L" "?d \<noteq> ?m"
    using run by (auto simp: main_running_def)
  let ?s1 = "s\<lparr>tcbs := (tcbs s)(?m \<mapsto> c\<lparr>t_cleanups := [], t_data_value := None, t_data_count := 0\<rparr>),
    app_log := app_log s @ dead_calls s c\<rparr>"
  have 1: "pth_thread_cleanup E ?m s = Some ?s1"
    by (rule thread_cleanup_spec [OF call r(4-6)])
  have "queues_ok ?s1 L"
    by (rule queues_ok_other_tcb [OF r(1,7)]) simp_all
  then obtain s2 where s2: "pth_scheduler_drop E ?s1 = Some s2" "queues_ok s2 (\<lambda>_. [])" "freed {t. queued t L} ?s1 s2"
    using drop_all_spec by blast
  have fr: "pth_sched s2 = ?d" "pth_main s2 = ?m" "app_log s2 = app_log s @ dead_calls s c" "dom (tcbs s2) = dom (tcbs s) - {t. queued t L}"
    using s2(3) freed_dom [OF s2(3)] r(5) by (auto simp: freed_def)
  have alive: "?d \<noteq> NULL" "?d \<in> dom (tcbs s2)" "?m \<in> dom (tcbs s2)"
    using r fr(4) by (auto simp: alive_def)
  let ?s3 = "s2\<lparr>fd_flags := (fd_flags s2)(fst (pth_sigpipe s2) := -1, snd (pth_sigpipe s2) := -1), pth_initialized := False\<rparr>"
  let ?s4 = "?s3\<lparr>rings := (rings ?s3)(MutexRing ?d := None), tcbs := (tcbs ?s3)(?d := None)\<rparr>"
  let ?s5 = "?s4\<lparr>rings := (rings ?s4)(MutexRing ?m := None), tcbs := (tcbs ?s4)(?m := None)\<rparr>"
  obtain cd cm where cells: "tcbs ?s3 ?d = Some cd" "tcbs ?s4 ?m = Some cm"
    using alive r(10) by (auto simp: fun_upd_apply)
  have "pth_kill E s = Some (True, ?s5)"
    using r(2,3) 1 s2(1) fr(1,2) pth_tcb_free_spec [OF alive(1) cells(1), of E] pth_tcb_free_spec [OF r(4) cells(2), of E]
    by (simp add: pth_kill_def pth_scheduler_kill_def)
  moreover have "queues_ok ?s5 (\<lambda>_. [])"
    using s2(2) by (simp add: queues_ok_def)
  moreover have "dom (tcbs ?s5) = dom (tcbs s) - {t. queued t L} - {?m, ?d}"
    using fr(4) by auto
  ultimately show ?thesis
    using fr(3) by auto
qed

lemma exit_cb_lists:
  "queues_ok s L \<Longrightarrow> pth_exit_cb s \<longleftrightarrow> length (L NQ) + length (L RQ) + length (L WQ) + length (L SQ) = 1"
  by (auto simp: pth_exit_cb_def pth_pqueue_elements_ok)

section \<open>The first two threads\<close>

lemma init_attrs_spec:
  assumes a: "a \<noteq> NULL" "attrs s a = Some r" "a_tid r = NULL" "length (a_name r) = PTH_TCB_NAMELEN" and name: "NUL \<notin> set name"
  shows "\<exists>nm. init_attrs a p name j cs n s = Some (s\<lparr>attrs := (attrs s)(a \<mapsto> r\<lparr>a_prio := p, a_name := nm, a_joinable := j,
      a_cancelstate := cs, a_stacksize := n, a_stackaddr := NULL\<rparr>)\<rparr>) \<and> length nm = PTH_TCB_NAMELEN \<and> NUL \<in> set nm"
proof -
  obtain nm where nm: "write_name (a_name r) name = Some nm" "length nm = PTH_TCB_NAMELEN"
    "cstring nm = take (PTH_TCB_NAMELEN - 1) name"
    using write_name_ok [OF a(4) name] by blast
  have "length (cstring nm) < length nm"
    using nm(2,3) by (simp add: PTH_TCB_NAMELEN_def)
  then have "takeWhile (\<lambda>c. c \<noteq> NUL) nm \<noteq> nm"
    unfolding cstring_def by force
  then have "NUL \<in> set nm"
    by (auto simp: takeWhile_eq_all_conv)
  then show ?thesis
    using a nm(1,2) by (auto simp: init_attrs_def pth_attr_set_def pth_attr_ctrl_def attr_is_rw_def attr_ctrl_rw_def attr_int_def cells)
qed

text \<open>Memory, names and descriptors are available.\<close>

definition init_env :: "env \<Rightarrow> bool" where
  "init_env E \<longleftrightarrow> (\<forall>s. malloc E s \<noteq> NULL \<and> stack_mem E s \<noteq> NULL) \<and>
     (\<forall>s. finite (dom (tcbs s)) \<longrightarrow> malloc E s \<notin> dom (tcbs s)) \<and>
     length (t_name (junk E)) = PTH_TCB_NAMELEN \<and>
     (\<exists>p0 p1. os_pipe E = Inr (p0, p1) \<and> p0 \<noteq> p1)"

lemma scheduler_init_spec:
  assumes "init_env E"
  shows "\<exists>s'. pth_scheduler_init E s = (True, s') \<and> queues_ok s' (\<lambda>_. []) \<and> pth_current s' = NULL \<and> tcbs s' = tcbs s \<and>
    pth_initialized s' = pth_initialized s \<and> pth_favournew s'"
proof -
  obtain p0 p1 where p: "os_pipe E = Inr (p0, p1)" "p0 \<noteq> p1"
    using assms by (auto simp: init_env_def)
  have q: "(f(NQ := c, RQ := c, WQ := c, SQ := c, DQ := c)) q = c" for f q and c :: pth_pqueue
    by (cases q) (simp_all add: fun_upd_apply)
  show ?thesis
    using p by (auto simp: pth_scheduler_init_def pth_fdmode_def pipe_flags_def flag_def O_NONBLOCKING_def split_def Let_def pth_pqueue_init_def q_set_def queues_ok_def q)
qed

lemma attr_new_spec:
  assumes "a \<noteq> NULL"
  shows "\<exists>r. pth_attr_new a s = Some (a, s\<lparr>attrs := (attrs s)(a \<mapsto> r)\<rparr>) \<and> a_tid r = NULL \<and> length (a_name r) = PTH_TCB_NAMELEN"
proof -
  obtain nm where "write_name (replicate PTH_TCB_NAMELEN NUL) ''unknown'' = Some nm" "length nm = PTH_TCB_NAMELEN"
    using write_name_ok [of "replicate PTH_TCB_NAMELEN NUL" "''unknown''"] by auto
  then show ?thesis
    using assms by (intro exI [of _ "\<lparr>a_tid = NULL, a_prio = PTH_PRIO_STD, a_dispatches = 0, a_name = nm, a_joinable = 1,
        a_cancelstate = PTH_CANCEL_DEFAULT, a_stacksize = 65536, a_stackaddr = NULL\<rparr>"])
      (simp add: pth_attr_new_def pth_attr_init_def cells Let_def)
qed

text \<open>Spawning with the attributes set by \<^verbatim>\<open>pth_init\<close>.\<close>

lemma init_spawn:
  assumes E: "init_env E" and s: "pth_current s = NULL" "finite (dom (tcbs s))" and a: "a \<noteq> NULL" "attrs s a = Some r" "a_tid r = NULL"
    "length (a_name r) = PTH_TCB_NAMELEN" and name: "NUL \<notin> set name" and f: "func \<noteq> NULL"
  shows "\<exists>s1 r1 s2 c. init_attrs a p name j cs n s = Some s1 \<and> s1 = s\<lparr>attrs := (attrs s)(a \<mapsto> r1)\<rparr> \<and> a_tid r1 = NULL \<and>
    length (a_name r1) = PTH_TCB_NAMELEN \<and> pth_spawn E a func NULL s1 = (if func = scheduler_addr then Some (malloc E s1, s2)
      else Option.bind (pth_pqueue_insert (Some NQ) p (malloc E s1) s2) (\<lambda>s. Some (malloc E s1, s))) \<and>
    s2 = s1\<lparr>rings := (rings s1)(MutexRing (malloc E s1) \<mapsto> \<lparr>r_hook = NULL, r_nodes = 0\<rparr>), tcbs := (tcbs s1)(malloc E s1 \<mapsto> c)\<rparr> \<and>
    (func \<noteq> scheduler_addr \<longrightarrow> t_state c = PTH_STATE_NEW) \<and> t_joinable c = j"
proof -
  obtain nm where nm: "init_attrs a p name j cs n s = Some (s\<lparr>attrs := (attrs s)(a \<mapsto> r\<lparr>a_prio := p, a_name := nm, a_joinable := j,
      a_cancelstate := cs, a_stacksize := n, a_stackaddr := NULL\<rparr>)\<rparr>)" "length nm = PTH_TCB_NAMELEN" "NUL \<in> set nm"
    using init_attrs_spec [OF a name] by blast
  define r1 where "r1 = r\<lparr>a_prio := p, a_name := nm, a_joinable := j, a_cancelstate := cs, a_stacksize := n, a_stackaddr := NULL\<rparr>"
  define s1 where "s1 = s\<lparr>attrs := (attrs s)(a \<mapsto> r1)\<rparr>"
  have "attrs s1 a = Some r1" "pth_current s1 = NULL" "NUL \<in> set (a_name r1)" "finite (dom (tcbs s1))"
    using s nm(3) by (simp_all add: s1_def r1_def)
  then have "spawn_ok E a s1"
    using E unfolding spawn_ok_def init_env_def by auto
  moreover have "spawn_attrs a s1 = (p, j, cs, a_dispatches r)"
    using a(1) by (simp add: spawn_attrs_def PTH_ATTR_DEFAULT_def s1_def r1_def)
  ultimately obtain c s2 where "pth_spawn E a func NULL s1 = (if func = scheduler_addr then Some (malloc E s1, s2)
      else Option.bind (pth_pqueue_insert (Some NQ) p (malloc E s1) s2) (\<lambda>s. Some (malloc E s1, s)))"
    "s2 = s1\<lparr>rings := (rings s1)(MutexRing (malloc E s1) \<mapsto> \<lparr>r_hook = NULL, r_nodes = 0\<rparr>), tcbs := (tcbs s1)(malloc E s1 \<mapsto> c)\<rparr>"
    "func \<noteq> scheduler_addr \<longrightarrow> t_state c = PTH_STATE_NEW" "t_joinable c = j"
    using spawn_body [OF _ f, of E a s1 p j cs "a_dispatches r" NULL] by blast
  moreover have "init_attrs a p name j cs n s = Some s1" "a_tid r1 = NULL" "length (a_name r1) = PTH_TCB_NAMELEN"
    using nm(1,2) a(3) by (simp_all add: s1_def r1_def)
  ultimately show ?thesis
    using s1_def by blast
qed

lemma init_spec:
  assumes E: "init_env E" and s: "\<not> pth_initialized s" "finite (dom (tcbs s))"
  shows "\<exists>s1. pth_init E s = Option.bind (sw E s1) (\<lambda>s. Some (True, s)) \<and>
    thread_inv ((\<lambda>_. [])(NQ := [(pth_main s1, PTH_PRIO_STD)])) (\<lambda>_. []) s1 \<and> pth_current s1 = pth_sched s1 \<and>
    fld (tcbs s1) t_joinable (pth_main s1) = Some 1"
proof -
  have env: "malloc E u \<noteq> NULL" "finite (dom (tcbs u)) \<Longrightarrow> malloc E u \<notin> dom (tcbs u)" for u
    using E by (simp_all add: init_env_def)
  obtain s1 where s1: "pth_scheduler_init E (s\<lparr>pth_initialized := True\<rparr>) = (True, s1)" "queues_ok s1 (\<lambda>_. [])" "pth_current s1 = NULL"
    "finite (dom (tcbs s1))"
    using scheduler_init_spec [OF E, of "s\<lparr>pth_initialized := True\<rparr>"] s(2) by auto
  let ?a = "malloc E s1"
  obtain r where r: "pth_attr_new ?a s1 = Some (?a, s1\<lparr>attrs := (attrs s1)(?a \<mapsto> r)\<rparr>)" "a_tid r = NULL" "length (a_name r) = PTH_TCB_NAMELEN"
    using attr_new_spec [OF env(1)] by blast
  have f: "scheduler_addr \<noteq> NULL" "MAIN_FUNC \<noteq> NULL" "MAIN_FUNC \<noteq> scheduler_addr"
    by (simp_all add: scheduler_addr_def MAIN_FUNC_def)
  obtain s3 r3 s4 c where s3: "init_attrs ?a PTH_PRIO_MAX ''**SCHEDULER**'' 0 PTH_CANCEL_DISABLE 65536 (s1\<lparr>attrs := (attrs s1)(?a \<mapsto> r)\<rparr>) = Some s3"
    "s3 = s1\<lparr>attrs := (attrs s1)(?a \<mapsto> r3)\<rparr>" "a_tid r3 = NULL" "length (a_name r3) = PTH_TCB_NAMELEN"
    "pth_spawn E ?a scheduler_addr NULL s3 = Some (malloc E s3, s4)"
    "s4 = s3\<lparr>rings := (rings s3)(MutexRing (malloc E s3) \<mapsto> \<lparr>r_hook = NULL, r_nodes = 0\<rparr>), tcbs := (tcbs s3)(malloc E s3 \<mapsto> c)\<rparr>"
    using init_spawn [OF E, of "s1\<lparr>attrs := (attrs s1)(?a \<mapsto> r)\<rparr>" ?a r "''**SCHEDULER**''" scheduler_addr PTH_PRIO_MAX 0 PTH_CANCEL_DISABLE 65536]
      env(1) r(2,3) s1(3,4) f(1) by auto
  let ?d = "malloc E s3" and ?s5 = "s4\<lparr>pth_sched := malloc E s3\<rparr>"
  obtain s6 r6 s7 d where s6: "init_attrs ?a PTH_PRIO_STD ''main'' 1 (PTH_CANCEL_ENABLE OR PTH_CANCEL_DEFERRED) 0 ?s5 = Some s6"
    "s6 = ?s5\<lparr>attrs := (attrs ?s5)(?a \<mapsto> r6)\<rparr>"
    "pth_spawn E ?a MAIN_FUNC NULL s6 = Option.bind (pth_pqueue_insert (Some NQ) PTH_PRIO_STD (malloc E s6) s7) (\<lambda>s. Some (malloc E s6, s))"
    "s7 = s6\<lparr>rings := (rings s6)(MutexRing (malloc E s6) \<mapsto> \<lparr>r_hook = NULL, r_nodes = 0\<rparr>), tcbs := (tcbs s6)(malloc E s6 \<mapsto> d)\<rparr>"
    "t_state d = PTH_STATE_NEW" "t_joinable d = 1"
    using init_spawn [OF E, of ?s5 ?a r3 "''main''" MAIN_FUNC PTH_PRIO_STD 1 "PTH_CANCEL_ENABLE OR PTH_CANCEL_DEFERRED" 0]
      env(1) s3(2-4,6) s1(3,4) f(2,3) by auto
  let ?m = "malloc E s6"
  have m: "?m \<noteq> NULL" "?m \<noteq> ?d"
    using env [of s6] s6(2) s3(2,6) s1(4) by auto
  have "queues_ok s7 (\<lambda>_. [])"
    using s1(2) s6(2,4) s3(2,6) by (simp add: queues_ok_def)
  then obtain s8 where s8: "pth_pqueue_insert (Some NQ) PTH_PRIO_STD ?m s7 = Some s8"
    "queues_ok s8 ((\<lambda>_. [])(NQ := [(?m, PTH_PRIO_STD)]))" "qframe s7 s8"
    using pq.enter_ok [of s7 "\<lambda>_. []" ?m NQ PTH_PRIO_STD] m(1) s6(4) by (auto simp: alive_def queued_def pq_ins_def)
  let ?s9 = "s8\<lparr>pth_main := ?m, attrs := (attrs s8)(?a := None), pth_current := ?d\<rparr>"
  have sched: "pth_sched s8 = ?d" "alive ?d s8"
    using qframe_state(3) [OF s8(3)] qframe_alive [OF s8(3), of ?d] s6(2,4) s3(6) env(1) [of s3] by (auto simp: alive_def)
  have fld: "fld (tcbs s8) t_state ?m = Some PTH_STATE_NEW" "fld (tcbs s8) t_joinable ?m = Some 1"
    using qframe_fld [OF s8(3), of t_state] qframe_fld [OF s8(3), of t_joinable] s6(4-6) by (simp_all add: fld_def)
  have "pth_init E s = Option.bind (sw E ?s9) (\<lambda>s. Some (True, s))"
    using s(1) s1(1) r(1) s3(1,5) s6(1,3) s8(1) m(1) env(1) [of s1] env(1) [of s3] sched(1)
    by (simp add: pth_init_def Let_def pth_attr_destroy_def)
  moreover have "thread_inv ((\<lambda>_. [])(NQ := [(?m, PTH_PRIO_STD)])) (\<lambda>_. []) ?s9"
  proof (rule thread_invI)
    show "queues_ok ?s9 ((\<lambda>_. [])(NQ := [(?m, PTH_PRIO_STD)]))"
      using s8(2) by (simp add: queues_ok_def)
    show "\<exists>st. fld (tcbs ?s9) t_state t = Some st \<and> state_in q st" "t \<noteq> pth_sched ?s9"
      if "t \<in> fst ` set (((\<lambda>_. [])(NQ := [(?m, PTH_PRIO_STD)])) q)" for q t
      using that fld(1) sched(1) m(2) by (auto simp: fun_upd_apply split: if_splits)
  qed (use sched in \<open>simp_all add: rings_apart_def alive_def\<close>)
  ultimately show ?thesis
    using fld(2) sched(1) by auto
qed

section \<open>Properties\<close>

text \<open>
  \<^verbatim>\<open>pth_fork\<close> runs the preparation handlers, the newest first. In the parent it then runs the
  parent handlers, the oldest first, and changes nothing else; in the child it drops all threads but the
  current one and the scheduler and runs the child handlers, the oldest first. When \<^verbatim>\<open>fork\<close> fails it returns
  0, which its caller takes for the child, after the preparation handlers alone have run.
\<close>

theorem pth_fork_handlers:
  assumes call: "logs_calls (app_call E)" and ok: "queues_ok s L"
  defines "s1 \<equiv> s\<lparr>app_log := app_log s @ rev (atfork_calls a_prepare [0..<pth_atfork_idx s] s)\<rparr>"
  shows "(os_fork E s1 = -1 \<longrightarrow> pth_fork E s = Some (0, s1)) \<and>
    (os_fork E s1 \<noteq> -1 \<longrightarrow> os_fork E s1 \<noteq> 0 \<longrightarrow> pth_fork E s = Some (os_fork E s1,
       s1\<lparr>app_log := app_log s1 @ atfork_calls a_parent [0..<pth_atfork_idx s] s\<rparr>)) \<and>
    (os_fork E s1 = 0 \<longrightarrow> (\<exists>s'. pth_fork E s = Some (0, s') \<and> queues_ok s' (\<lambda>_. []) \<and>
       dom (tcbs s') = dom (tcbs s) - {t. queued t L} \<and> pth_current s' = pth_current s \<and> pth_sched s' = pth_sched s \<and>
       app_log s' = app_log s1 @ atfork_calls a_child [0..<pth_atfork_idx s] s))"
proof -
  have prep: "run_prepare E (pth_atfork_idx s) s = Some s1"
    using run_prepare_logs [OF call] by (simp add: s1_def)
  have calls: "atfork_calls h is u = atfork_calls h is s" if "pth_atfork_list u = pth_atfork_list s" for h "is" u
    using that by (simp add: atfork_calls_def)
  have ok1: "queues_ok s1 L"
    using ok by (simp add: s1_def queues_ok_def)
  obtain s2 where s2: "pth_scheduler_drop E s1 = Some s2" "queues_ok s2 (\<lambda>_. [])" "freed {t. queued t L} s1 s2"
    using drop_all_spec [OF ok1] by blast
  have dom: "dom (tcbs s2) = dom (tcbs s) - {t. queued t L}"
    using freed_dom [OF s2(3)] by (simp add: s1_def)
  have fr: "pth_atfork_list s2 = pth_atfork_list s" "pth_atfork_idx s2 = pth_atfork_idx s" "app_log s2 = app_log s1"
    "pth_current s2 = pth_current s" "pth_sched s2 = pth_sched s"
    using s2(3) by (simp_all add: freed_def s1_def)
  have 1: "pth_fork E s = Some (0, s1)" if "os_fork E s1 = -1"
    using that prep by (simp add: pth_fork_def)
  have 2: "pth_fork E s = Some (os_fork E s1, s1\<lparr>app_log := app_log s1 @ atfork_calls a_parent [0..<pth_atfork_idx s] s\<rparr>)"
    if "os_fork E s1 \<noteq> -1" "os_fork E s1 \<noteq> 0"
    using that prep run_handlers_logs [OF call, of a_parent 0 s1] calls [of s1] by (simp add: pth_fork_def s1_def)
  let ?s3 = "s2\<lparr>app_log := app_log s2 @ atfork_calls a_child [0..<pth_atfork_idx s] s\<rparr>"
  have "pth_fork E s = Some (0, ?s3)" if "os_fork E s1 = 0"
    using that prep s2(1) run_handlers_logs [OF call, of a_child 0 s2] calls [OF fr(1)] fr(2) by (simp add: pth_fork_def)
  moreover have "queues_ok ?s3 (\<lambda>_. [])"
    using s2(2) by (simp add: queues_ok_def)
  ultimately show ?thesis
    using 1 2 dom fr by auto
qed

text \<open>Two sets of handlers; the second has no child handler.\<close>

definition two_handlers :: pth_state where
  "two_handlers = snd (pth_atfork_push 11 12 NULL 5 (snd (pth_atfork_push 21 22 23 6 three_runnable)))"

theorem pth_fork_handlers_witness:
  "\<exists>s'. pth_fork (env0\<lparr>os_fork := \<lambda>_. 0\<rparr>) two_handlers = Some (0, s') \<and> app_log s' = [(11, 5), (21, 6), (23, 6)] \<and>
     dom (tcbs s') = {9}"
proof -
  let ?E = "env0\<lparr>os_fork := \<lambda>_. 0\<rparr>"
  have call: "logs_calls (app_call ?E)"
    by (simp add: logs_calls_def env0_def)
  have eq: "tcbs two_handlers = tcbs three_runnable" "queues two_handlers = queues three_runnable"
    "pth_atfork_idx two_handlers = 2" "app_log two_handlers = []"
    by (simp_all add: two_handlers_def pth_atfork_push_def three_runnable_def state0_def PTH_ATFORK_MAX_def)
  have ok: "queues_ok two_handlers three_lists"
    using thread_invD(1) [OF three_runnable_inv] by (simp add: queues_ok_def eq)
  have list: "pth_atfork_list two_handlers 0 = \<lparr>a_prepare = 21, a_parent = 22, a_child = 23, a_arg = 6\<rparr>"
    "pth_atfork_list two_handlers (Suc 0) = \<lparr>a_prepare = 11, a_parent = 12, a_child = NULL, a_arg = 5\<rparr>"
    by (simp_all add: two_handlers_def pth_atfork_push_def three_runnable_def state0_def PTH_ATFORK_MAX_def)
  have "{t. queued t three_lists} = {2, 3, 4}" "dom (tcbs three_runnable) = {2, 3, 4, 9}"
    by (auto simp: queued_cases three_runnable_def)
  then show ?thesis
    using pth_fork_handlers [OF call ok] by (auto simp: eq atfork_calls_def list numeral_2_eq_2)
qed

text \<open>
  The list of fork handlers is a bounded stack: \<^verbatim>\<open>pth_atfork_push\<close> fails with \<^verbatim>\<open>ENOMEM\<close> and changes
  nothing else exactly when 128 sets of handlers are registered; otherwise the bound is kept, the older
  entries are unchanged, and \<^verbatim>\<open>pth_atfork_pop\<close> takes the new entry off again.
\<close>

theorem pth_atfork_push_pop:
  assumes "pth_atfork_idx s \<le> PTH_ATFORK_MAX"
  shows "if pth_atfork_idx s = PTH_ATFORK_MAX then pth_atfork_push p q c a s = (False, s\<lparr>errno := ENOMEM\<rparr>)
    else \<exists>s'. pth_atfork_push p q c a s = (True, s') \<and> pth_atfork_idx s' \<le> PTH_ATFORK_MAX \<and>
      pth_atfork_list s' (pth_atfork_idx s) = \<lparr>a_prepare = p, a_parent = q, a_child = c, a_arg = a\<rparr> \<and>
      (\<forall>i<pth_atfork_idx s. pth_atfork_list s' i = pth_atfork_list s i) \<and>
      pth_atfork_pop s' = (True, s'\<lparr>pth_atfork_idx := pth_atfork_idx s\<rparr>)"
proof (cases "pth_atfork_idx s = PTH_ATFORK_MAX")
  case True
  then show ?thesis
    by (simp add: pth_atfork_push_def pth_error_def)
next
  case False
  then have "\<not> int (pth_atfork_idx s) > int PTH_ATFORK_MAX - 1" "pth_atfork_idx s + 1 \<le> PTH_ATFORK_MAX"
    using assms by linarith+
  then show ?thesis
    using False by (simp add: pth_atfork_push_def pth_atfork_pop_def)
qed

theorem pth_atfork_push_pop_witness:
  "\<exists>s'. pth_atfork_push 1 2 3 4 state0 = (True, s') \<and> fst (pth_atfork_pop s')"
  using pth_atfork_push_pop [of state0 1 2 3 4] by (auto simp: state0_def PTH_ATFORK_MAX_def)



text \<open>
  C6: the main thread is meant to stay until it is the last thread, but \<^verbatim>\<open>pth_exit\<close> asks \<^verbatim>\<open>pth_exit_cb\<close> while the
  main thread is in no queue, so the count of one it takes for the main thread is that of another thread:
  with exactly one other thread alive, new, ready, waiting or suspended, \<^verbatim>\<open>pth_exit\<close> does not wait but
  frees that thread and ends the process with its value.
\<close>

theorem pth_exit_main_early:
  assumes "logs_calls (app_call E)" "main_running L c s"
    and "length (L NQ) + length (L RQ) + length (L WQ) + length (L SQ) = 1"
  shows "\<exists>s'. pth_exit E val s = Some (ProcessExit (to_c_int (int val)), s') \<and>
    dom (tcbs s') = dom (tcbs s) - {t. queued t L} - {pth_main s, pth_sched s}"
proof -
  have r: "queues_ok s L" "pth_current s = pth_main s" "pth_main s \<noteq> NULL" "tcbs s (pth_main s) = Some c"
    "cleanable s (pth_main s) c" "\<not> queued (pth_main s) L"
    using assms(2) by (auto simp: main_running_def)
  let ?c = "c\<lparr>t_cleanups := [], t_data_value := None, t_data_count := 0\<rparr>"
  let ?s = "s\<lparr>tcbs := (tcbs s)(pth_main s \<mapsto> ?c), app_log := app_log s @ dead_calls s c\<rparr>"
  have 1: "pth_thread_cleanup E (pth_main s) s = Some ?s"
    by (rule thread_cleanup_spec [OF assms(1) r(3-5)])
  have "queues_ok ?s L"
    by (rule queues_ok_other_tcb [OF r(1,6)]) simp_all
  moreover have "cleanable ?s (pth_main s) ?c"
    using r(5) by (simp add: cleanable_def data_ok_def ring_rep_def)
  ultimately have "main_running L ?c ?s"
    using assms(2) by (auto simp: main_running_def alive_def)
  then obtain s' where "pth_kill E ?s = Some (True, s')" "dom (tcbs s') = dom (tcbs ?s) - {t. queued t L} - {pth_main s, pth_sched s}"
    using kill_spec [OF assms(1), of L ?c ?s] by auto
  moreover have "dom (tcbs ?s) = dom (tcbs s)"
    using r(4) by auto
  moreover have "pth_exit_cb s"
    using exit_cb_lists [OF r(1)] assms(3) by simp
  ultimately show ?thesis
    using 1 r(2) by (simp add: pth_exit.simps exit_finish_def)
qed

text \<open>The main thread 3 exits while the thread 2 is ready.\<close>

definition main_and_other :: pth_state where
  "main_and_other = one_runnable\<lparr>tcbs := (tcbs one_runnable)(3 \<mapsto> tcb0), rings := [MutexRing 3 \<mapsto> \<lparr>r_hook = NULL, r_nodes = 0\<rparr>],
     pth_initialized := True, pth_main := 3, pth_current := 3\<rparr>"

lemma main_and_other_running: "main_running ((\<lambda>_. [])(RQ := [(2, 0)])) tcb0 main_and_other"
proof -
  let ?L = "(\<lambda>_. [])(RQ := [(2 :: ptr, 0 :: int)])"
  have q: "\<not> queued 3 ?L" "\<not> queued 9 ?L"
    by (simp_all add: queued_cases)
  have "queues_ok main_and_other ?L"
    by (rule queues_ok_other_tcb [OF thread_invD(1) [OF one_runnable_inv] q(1)]) (simp_all add: main_and_other_def)
  then show ?thesis
    using q by (simp add: main_running_def main_and_other_def one_runnable_def alive_def cleanable_def data_ok_def ring_rep_def tcb0_def)
qed

theorem pth_exit_main_early_witness:
  "\<exists>s'. pth_exit env0 1 main_and_other = Some (ProcessExit 1, s') \<and> tcbs s' 2 = None"
proof -
  let ?L = "(\<lambda>_. [])(RQ := [(2 :: ptr, 0 :: int)])"
  have "logs_calls (app_call env0)"
    by (simp add: logs_calls_def env0_def)
  then obtain s' where s': "pth_exit env0 1 main_and_other = Some (ProcessExit (to_c_int (int 1)), s')"
    "dom (tcbs s') = dom (tcbs main_and_other) - {t. queued t ?L} - {pth_main main_and_other, pth_sched main_and_other}"
    using pth_exit_main_early [OF _ main_and_other_running, of env0 1] by auto
  have "queued 2 ?L"
    by (simp add: queued_cases)
  then have "tcbs s' 2 = None"
    using s'(2) by auto
  then show ?thesis
    using s'(1) by (simp add: to_c_int_def)
qed

text \<open>
  \<^verbatim>\<open>pth_kill\<close> fails with \<^verbatim>\<open>EINVAL\<close> before \<^verbatim>\<open>pth_init\<close> and with \<^verbatim>\<open>EPERM\<close> in any thread but the main
  thread; in the main thread it runs the handlers and destructors of the main thread and frees every thread
  of every queue, the scheduler and the main thread.
\<close>

theorem pth_kill_result:
  assumes "logs_calls (app_call E)" "main_running L c s"
  shows "pth_kill E (s\<lparr>pth_initialized := False\<rparr>) = Some (False, s\<lparr>pth_initialized := False, errno := EINVAL\<rparr>) \<and>
    (t \<noteq> pth_main s \<longrightarrow> pth_kill E (s\<lparr>pth_current := t\<rparr>) = Some (False, s\<lparr>pth_current := t, errno := EPERM\<rparr>)) \<and>
    (\<exists>s'. pth_kill E s = Some (True, s') \<and> \<not> pth_initialized s' \<and> queues_ok s' (\<lambda>_. []) \<and>
      dom (tcbs s') = dom (tcbs s) - {t. queued t L} - {pth_main s, pth_sched s} \<and> app_log s' = app_log s @ dead_calls s c)"
  using kill_spec [OF assms] assms(2) by (simp add: pth_kill_def pth_error_def main_running_def)

theorem pth_kill_result_witness:
  "\<exists>s'. pth_kill env0 main_and_other = Some (True, s') \<and> dom (tcbs s') = {}"
proof -
  let ?L = "(\<lambda>_. [])(RQ := [(2 :: ptr, 0 :: int)])"
  have "logs_calls (app_call env0)"
    by (simp add: logs_calls_def env0_def)
  then obtain s' where "pth_kill env0 main_and_other = Some (True, s')"
    "dom (tcbs s') = dom (tcbs main_and_other) - {t. queued t ?L} - {pth_main main_and_other, pth_sched main_and_other}"
    using pth_kill_result [OF _ main_and_other_running] by blast
  moreover have "dom (tcbs main_and_other) = {2, 3, 9}" "{t. queued t ?L} = {2}"
    by (auto simp: main_and_other_def one_runnable_def queued_cases)
  ultimately show ?thesis
    by (auto simp: main_and_other_def one_runnable_def)
qed

text \<open>
  C5: \<^verbatim>\<open>pth_init\<close> with enough memory hands over to the scheduler in a state that satisfies the invariant of the
  scheduler loop: the scheduler is a thread in no queue, the main thread is the only other thread, new and
  joinable, in the new queue at the standard priority.
\<close>

theorem pth_init_establishes:
  assumes "init_env E" "\<not> pth_initialized s" "finite (dom (tcbs s))"
  shows "\<exists>s1. pth_init E s = Option.bind (sw E s1) (\<lambda>s. Some (True, s)) \<and>
    thread_inv ((\<lambda>_. [])(NQ := [(pth_main s1, PTH_PRIO_STD)])) (\<lambda>_. []) s1 \<and> pth_current s1 = pth_sched s1 \<and>
    fld (tcbs s1) t_joinable (pth_main s1) = Some 1"
  by (rule init_spec [OF assms])

text \<open>An allocator that never hands out a control block twice.\<close>

definition fresh_env :: env where
  "fresh_env = env0\<lparr>malloc := \<lambda>s. Suc (Max (insert 0 (dom (tcbs s)))), stack_mem := \<lambda>_. 4096\<rparr>"

theorem pth_init_establishes_witness:
  "\<exists>s L R. pth_init fresh_env state0 = Some (True, s) \<and> thread_inv L R s \<and> pth_current s = pth_sched s"
proof -
  have fresh: "Suc (Max (insert 0 X)) \<notin> X" if "finite X" for X :: "nat set"
    using that by (metis Max_ge finite_insert insertI2 not_less_eq_eq order_refl)
  have "init_env fresh_env"
    using fresh by (auto simp: init_env_def fresh_env_def env0_def tcb0_def)
  moreover have "\<not> pth_initialized state0" "finite (dom (tcbs state0))"
    by (simp_all add: state0_def)
  ultimately obtain s1 where "pth_init fresh_env state0 = Option.bind (sw fresh_env s1) (\<lambda>s. Some (True, s))"
    "thread_inv ((\<lambda>_. [])(NQ := [(pth_main s1, PTH_PRIO_STD)])) (\<lambda>_. []) s1" "pth_current s1 = pth_sched s1"
    using pth_init_establishes by blast
  then show ?thesis
    by (auto simp: fresh_env_def env0_def)
qed

text \<open>
  A failed \<^verbatim>\<open>pth_init\<close> cannot be repeated. When the signal pipe cannot be created, \<^verbatim>\<open>pth_init\<close> fails with
  \<^verbatim>\<open>EAGAIN\<close> but has already marked the library as initialised: every later call fails with \<^verbatim>\<open>EPERM\<close>, as it
  does for a library that is running.
\<close>

theorem pth_init_failure_sticks:
  assumes "\<not> pth_initialized s" "os_pipe E = Inl e"
  shows "pth_init E s = Some (False, s\<lparr>pth_initialized := True, errno := EAGAIN\<rparr>) \<and>
    pth_init E' (s\<lparr>pth_initialized := True, errno := EAGAIN\<rparr>) = Some (False, s\<lparr>pth_initialized := True, errno := EPERM\<rparr>)"
  using assms by (simp add: pth_init_def pth_scheduler_init_def pth_error_def)

theorem pth_init_failure_sticks_witness:
  "\<exists>s'. pth_init (env0\<lparr>os_pipe := Inl (EOTHER 24)\<rparr>) state0 = Some (False, s') \<and> pth_init fresh_env s' = Some (False, s'\<lparr>errno := EPERM\<rparr>)"
  using pth_init_failure_sticks [of state0 "env0\<lparr>os_pipe := Inl (EOTHER 24)\<rparr>" "EOTHER 24" fresh_env] by (simp add: state0_def)

end
