(* ===== verification/Pth_Order.thy ===== *)
theory Pth_Order
  imports Pth_State
begin

text \<open>
  The order in which the priority queues of \<^verbatim>\<open>pth_pqueue.c\<close> give threads back: a stable sort by
  priority, with an ageing step that keeps threads from starving. The proofs rest on the
  interface \<open>thread_queues\<close> and its interpretation \<open>pq\<close>.
\<close>

section \<open>Properties\<close>

text \<open>Inserting one thread after the other is a stable sort by descending priority.\<close>

lemma pq_ins_stable:
  assumes "pq_sorted ys"
  shows "filter (\<lambda>x. - snd x = k) (pq_ins t p ys) =
    filter (\<lambda>x. - snd x = k) ys @ (if - p = k then [(t, p)] else [])"
proof -
  let ?d = "dropWhile (\<lambda>x. p \<le> snd x) ys" and ?t = "takeWhile (\<lambda>x. p \<le> snd x) ys"
  have "snd x < p" if "x \<in> set ?d" for x
  proof -
    have "?d \<noteq> []"
      using that by (cases ?d) auto
    then have "\<not> p \<le> snd (hd ?d)"
      using hd_dropWhile by blast
    moreover have "sorted_wrt (\<lambda>x y. snd y \<le> snd x) ?d"
      using assms unfolding pq_sorted_def by (rule sorted_wrt_dropWhile)
    then have "snd x \<le> snd (hd ?d)"
      using that \<open>?d \<noteq> []\<close> by (cases ?d) auto
    ultimately show ?thesis by linarith
  qed
  then have "\<forall>x\<in>set ?d. \<not> - snd x = k" if "- p = k"
    using that by force
  then have "filter (\<lambda>x. - snd x = k) ?d = []" if "- p = k"
    using that by (simp add: filter_empty_conv)
  moreover have "filter (\<lambda>x. - snd x = k) ys = filter (\<lambda>x. - snd x = k) ?t @ filter (\<lambda>x. - snd x = k) ?d"
    by (metis filter_append takeWhile_dropWhile_id)
  ultimately show ?thesis
    by (simp add: pq_ins_def)
qed

lemma mset_pq_ins: "mset (pq_ins t p ys) = add_mset (t, p) (mset ys)"
proof -
  have "mset ys = mset (takeWhile (\<lambda>x. p \<le> snd x) ys) + mset (dropWhile (\<lambda>x. p \<le> snd x) ys)"
    by (metis mset_append takeWhile_dropWhile_id)
  then show ?thesis by (simp add: pq_ins_def)
qed

lemma fold_pq_ins_sort: "fold (\<lambda>(t, p). pq_ins t p) xs [] = sort_key (\<lambda>x. - snd x) xs"
proof (rule sym, rule properties_for_sort_key)
  let ?f = "\<lambda>xs. fold (\<lambda>(t, p). pq_ins t p) xs []"
  have sorted: "pq_sorted (?f xs)" for xs
    by (induction xs rule: rev_induct) (auto simp: pq_sorted_def intro: pq_ins_sorted [unfolded pq_sorted_def])
  show "mset (?f xs) = mset xs"
    by (induction xs rule: rev_induct) (auto simp: mset_pq_ins)
  show "filter (\<lambda>x. - snd k = - snd x) (?f xs) = filter (\<lambda>x. - snd k = - snd x) xs" for k
  proof (induction xs rule: rev_induct)
    case (snoc x xs)
    have "filter (\<lambda>y. - snd y = - snd k) (pq_ins (fst x) (snd x) (?f xs)) =
        filter (\<lambda>y. - snd y = - snd k) (?f xs) @ (if - snd x = - snd k then [x] else [])"
      using pq_ins_stable [OF sorted, of "- snd k" "fst x" "snd x" xs] by (cases x) simp
    with snoc show ?case
      by (cases x) (simp add: eq_commute [of "snd k"])
  qed simp
  show "sorted (map (\<lambda>x. - snd x) (?f xs))"
    using sorted [of xs] by (simp add: pq_sorted_def sorted_map)
qed

text \<open>
  C7: the priority queue refines a stable sort: after inserting threads into an empty queue,
  \<^verbatim>\<open>pth_pqueue_delmax\<close> takes them out by descending priority, threads of equal priority in the
  order of their insertion, and the queue is empty again; the other queues and everything else in
  the control blocks stay as they are.
\<close>

theorem pth_pqueue_sorts:
  assumes ok: "queues_ok s L" and empty: "L q = []" and dist: "distinct (map fst xs)"
    and xs: "\<And>t p. (t, p) \<in> set xs \<Longrightarrow> alive t s \<and> \<not> queued t L"
  shows "\<exists>s1 s2. put_all (\<lambda>(t, p). pth_pqueue_insert (Some q) p t) xs s = Some s1 \<and>
    get_many (pth_pqueue_delmax (Some q)) (length xs) s1 = Some (map fst (sort_key (\<lambda>x. - snd x) xs), s2) \<and>
    queues_ok s2 L \<and> qframe s s2"
proof -
  let ?ys = "sort_key (\<lambda>x. - snd x) xs"
  obtain s1 where s1: "put_all (\<lambda>(t, p). pth_pqueue_insert (Some q) p t) xs s = Some s1"
    "queues_ok s1 (L(q := ?ys))" "qframe s s1"
    using pq.enter_all_ok [OF ok dist, where q = q] xs empty by (auto simp: fold_pq_ins_sort)
  obtain s2 where "get_many (pth_pqueue_delmax (Some q)) (length ?ys) s1 = Some (map fst ?ys, s2)"
    "queues_ok s2 ((L(q := ?ys))(q := []))" "qframe s1 s2"
    using pq.take_many_ok [OF s1(2), of q ?ys "[]"] by auto
  moreover have "(L(q := ?ys))(q := []) = L"
    using empty by (simp add: fun_upd_idem)
  ultimately show ?thesis
    using s1 qframe_trans by fastforce
qed

definition three_threads :: pth_state where
  "three_threads = state0\<lparr>tcbs := [1 \<mapsto> tcb0, 2 \<mapsto> tcb0, 3 \<mapsto> tcb0]\<rparr>"

lemma three_threads_ok: "queues_ok three_threads (\<lambda>_. [])"
  by (simp add: queues_ok_def pq_rep_def three_threads_def state0_def dring_def)

theorem pth_pqueue_sorts_witness:
  "\<exists>s1 s2. put_all (\<lambda>(t, p). pth_pqueue_insert (Some RQ) p t) [(1, 0), (2, 5), (3, 0)] three_threads = Some s1 \<and>
    get_many (pth_pqueue_delmax (Some RQ)) 3 s1 = Some ([2, 1, 3], s2)"
proof -
  have "map fst (sort_key (\<lambda>x. - snd x) [(1 :: ptr, 0 :: int), (2, 5), (3, 0)]) = [2, 1, 3]"
    by simp
  then show ?thesis
    using pth_pqueue_sorts [OF three_threads_ok, where q = RQ and xs = "[(1, 0), (2, 5), (3, 0)]"]
    by (auto simp: alive_def queued_def three_threads_def eval_nat_numeral)
qed

lemma pq_ins_behind: "\<forall>x\<in>set xs. p \<le> snd x \<Longrightarrow> pq_ins t p (xs @ ys) = xs @ pq_ins t p ys"
  by (induction xs) (simp_all add: pq_ins_def)

lemma increase_many:
  assumes "queues_ok s L"
  shows "\<exists>s'. put_all (\<lambda>_. pth_pqueue_increase (Some q)) (replicate n ()) s = Some s' \<and>
    queues_ok s' (L(q := map (\<lambda>x. (fst x, snd x + int n)) (L q))) \<and> qframe s s'"
  using assms
proof (induction n arbitrary: s L)
  case 0
  then show ?case by (simp add: fun_upd_idem)
next
  case (Suc n)
  obtain s1 where s1: "pth_pqueue_increase (Some q) s = Some s1" "queues_ok s1 (L(q := pq_inc (L q)))" "qframe s s1"
    using pth_pqueue_increase_ok [OF Suc.prems] by blast
  obtain s2 where "put_all (\<lambda>_. pth_pqueue_increase (Some q)) (replicate n ()) s1 = Some s2"
    "queues_ok s2 (L(q := map (\<lambda>x. (fst x, snd x + int n)) (pq_inc (L q))))" "qframe s1 s2"
    using Suc.IH [OF s1(2)] by (auto simp: fun_upd_same simp del: fun_upd_apply)
  moreover have "map (\<lambda>x. (fst x, snd x + int n)) (pq_inc (L q)) = map (\<lambda>x. (fst x, snd x + int (Suc n))) (L q)"
    by (simp add: pq_inc_def algebra_simps)
  ultimately show ?case
    using s1 qframe_trans [OF s1(3)] by (intro exI [of _ s2]) simp
qed


definition one_ready :: pth_state where
  "one_ready = state0\<lparr>tcbs := [2 \<mapsto> tcb0\<lparr>q_next := 2, q_prev := 2\<rparr>, 3 \<mapsto> tcb0],
     queues := (\<lambda>_. \<lparr>q_head = NULL, q_num = 0\<rparr>)(RQ := \<lparr>q_head = 2, q_num = 1\<rparr>)\<rparr>"

lemma one_ready_ok: "queues_ok one_ready ((\<lambda>_. [])(RQ := [(2, 0)]))"
proof -
  have "pq_rep (tcbs one_ready) (queues one_ready q) (((\<lambda>_. [])(RQ := [(2, 0)])) q)" for q
    by (cases "q = RQ") (simp_all add: pq_rep_def dring_def one_ready_def fld_def tcb0_def)
  then show ?thesis
    by (auto simp: queues_ok_def fun_upd_apply)
qed


end
