(* ===== verification/Pth_Iov.thy ===== *)
theory Pth_Iov
  imports Pth_Util
begin

text \<open>
  The vector helpers of \<^verbatim>\<open>pth_high.c\<close>: counting the bytes of an I/O vector, advancing a private copy of it
  over the bytes already written, and the emulations of \<^verbatim>\<open>readv\<close> and \<^verbatim>\<open>writev\<close> by one call on a
  temporary buffer. A vector is the list of its elements, and memory is a function from addresses.
\<close>

record iovec =
  iov_base :: ptr
  iov_len :: nat

definition pth_writev_iov_bytes :: "iovec list \<Rightarrow> nat" where
  "pth_writev_iov_bytes iov = foldl (\<lambda>bytes v. if iov_len v \<le> 0 then bytes else bytes + iov_len v) 0 iov"

section \<open>Advancing a vector\<close>

text \<open>The pointer \<^verbatim>\<open>*liov\<close>: \<^verbatim>\<open>NULL\<close>, an element of the caller's vector, or one of the temporary array.\<close>

datatype liov = LNull | LReal nat | LTmp nat

definition liov_get :: "iovec list \<Rightarrow> iovec list \<Rightarrow> liov \<Rightarrow> iovec option" where
  "liov_get riov tiov p = (case p of
     LNull \<Rightarrow> None
   | LReal i \<Rightarrow> if i < length riov then Some (riov ! i) else None
   | LTmp i \<Rightarrow> if i < length tiov then Some (tiov ! i) else None)"

definition liov_set :: "iovec \<Rightarrow> iovec list \<Rightarrow> iovec list \<Rightarrow> liov \<Rightarrow> iovec list \<times> iovec list" where
  "liov_set v riov tiov p = (case p of
     LNull \<Rightarrow> (riov, tiov) | LReal i \<Rightarrow> (riov[i := v], tiov) | LTmp i \<Rightarrow> (riov, tiov[i := v]))"

definition liov_next :: "liov \<Rightarrow> liov" where
  "liov_next p = (case p of LNull \<Rightarrow> LNull | LReal i \<Rightarrow> LReal (i + 1) | LTmp i \<Rightarrow> LTmp (i + 1))"

text \<open>The copy of the caller's vector into the temporary array, from index \<open>i\<close> on.\<close>

primrec tiov_copy :: "iovec list \<Rightarrow> nat \<Rightarrow> iovec list \<Rightarrow> iovec list option" where
  "tiov_copy [] i tiov = Some tiov"
| "tiov_copy (v # vs) i tiov = (if i < length tiov then tiov_copy vs (i + 1) (tiov[i := v]) else None)"

text \<open>The loop over the elements; the first argument is \<^verbatim>\<open>*liovcnt\<close>.\<close>

fun advance_loop :: "nat \<Rightarrow> nat \<Rightarrow> liov \<Rightarrow> iovec list \<Rightarrow> iovec list
    \<Rightarrow> (liov \<times> nat \<times> iovec list \<times> iovec list) option" where
  "advance_loop 0 advance p riov tiov = Some (p, 0, riov, tiov)"
| "advance_loop (Suc cnt) advance p riov tiov =
     (if advance = 0 then Some (p, Suc cnt, riov, tiov)
      else do {
        v \<leftarrow> liov_get riov tiov p;
        if iov_len v > advance then
          (case liov_set \<lparr>iov_base = iov_base v + advance, iov_len = iov_len v - advance\<rparr> riov tiov p of
             (riov, tiov) \<Rightarrow> Some (p, Suc cnt, riov, tiov))
        else advance_loop cnt (advance - iov_len v) (liov_next p) riov tiov })"

definition pth_writev_iov_advance :: "nat \<Rightarrow> liov \<Rightarrow> nat \<Rightarrow> iovec list \<Rightarrow> iovec list
    \<Rightarrow> (liov \<times> nat \<times> iovec list \<times> iovec list) option" where
  "pth_writev_iov_advance advance p cnt riov tiov = do {
     let riovcnt = length riov;
     let (p, cnt) = (if p = LNull \<and> cnt = 0 then (LReal 0, riovcnt) else (p, cnt));
     if advance > 0 then do {
       (p, tiov) \<leftarrow> (if p = LReal 0 \<and> cnt = riovcnt
                     then map_option (Pair (LTmp 0)) (tiov_copy riov 0 tiov) else Some (p, tiov));
       advance_loop cnt advance p riov tiov }
     else Some (p, cnt, riov, tiov) }"

section \<open>The faked calls\<close>

text \<open>The first loop of both: the number of bytes, or \<^verbatim>\<open>EINVAL\<close> for an empty element.\<close>

primrec iov_total :: "iovec list \<Rightarrow> nat \<Rightarrow> nat option" where
  "iov_total [] bytes = Some bytes"
| "iov_total (v # vs) bytes = (if iov_len v \<le> 0 then None else iov_total vs (bytes + iov_len v))"

definition iov_data :: "(ptr \<Rightarrow> char) \<Rightarrow> iovec \<Rightarrow> string" where
  "iov_data m v = map m [iov_base v..<iov_base v + iov_len v]"

text \<open>
  The gathering loop of \<^verbatim>\<open>pth_writev_faked\<close>. Its target \<^verbatim>\<open>cp\<close> is the start of the buffer in every turn, since
  the code does not advance it.
\<close>

primrec gather :: "(ptr \<Rightarrow> char) \<Rightarrow> iovec list \<Rightarrow> nat \<Rightarrow> string \<Rightarrow> string" where
  "gather m [] to_copy buffer = buffer"
| "gather m (v # vs) to_copy buffer =
     (let copy = min (iov_len v) to_copy; buffer = take copy (iov_data m v) @ drop copy buffer
      in if to_copy - copy \<le> 0 then buffer else gather m vs (to_copy - copy) buffer)"

text \<open>
  \<open>block n\<close> is what \<^verbatim>\<open>malloc(n)\<close> returns, with its contents, and \<open>os_write\<close> the call \<^verbatim>\<open>write\<close> on the given bytes.
\<close>

definition pth_writev_faked :: "(nat \<Rightarrow> string option) \<Rightarrow> (string \<Rightarrow> pth_state \<Rightarrow> int \<times> pth_state)
    \<Rightarrow> (ptr \<Rightarrow> char) \<Rightarrow> iovec list \<Rightarrow> pth_state \<Rightarrow> int \<times> pth_state" where
  "pth_writev_faked block os_write m iov s = (case iov_total iov 0 of
     None \<Rightarrow> pth_error (-1) EINVAL s
   | Some bytes \<Rightarrow>
       if bytes \<le> 0 then pth_error (-1) EINVAL s
       else (case block bytes of
         None \<Rightarrow> (-1, s)
       | Some buffer \<Rightarrow> os_write (gather m iov bytes buffer) s))"

text \<open>
  The scattering loop of \<^verbatim>\<open>pth_readv_faked\<close>: the pointer \<open>off\<close> into the buffer moves on, and the loop ends
  when \<open>bytes\<close> have been copied. The result of \<^verbatim>\<open>read\<close> is kept in a \<^verbatim>\<open>size_t\<close>, so an error counts as the
  largest number. Freeing the buffer is defined only if the pointer has come back to its start.
\<close>

primrec scatter :: "iovec list \<Rightarrow> nat \<Rightarrow> nat \<Rightarrow> string \<Rightarrow> (ptr \<Rightarrow> char) \<Rightarrow> (nat \<times> (ptr \<Rightarrow> char)) option" where
  "scatter [] bytes off buffer m = Some (off, m)"
| "scatter (v # vs) bytes off buffer m =
     (let copy = min (iov_len v) bytes in
      if off + copy \<le> length buffer then
        (let m = (\<lambda>a. if iov_base v \<le> a \<and> a < iov_base v + copy then buffer ! (off + (a - iov_base v)) else m a)
         in if bytes - copy \<le> 0 then Some (off + copy, m) else scatter vs (bytes - copy) (off + copy) buffer m)
      else None)"

definition to_size_t :: "int \<Rightarrow> nat" where
  "to_size_t rv = nat (rv mod 2 ^ 64)"

definition pth_readv_faked :: "(nat \<Rightarrow> string option) \<Rightarrow> (nat \<Rightarrow> pth_state \<Rightarrow> (int \<times> string) \<times> pth_state)
    \<Rightarrow> iovec list \<Rightarrow> (ptr \<Rightarrow> char) \<Rightarrow> pth_state \<Rightarrow> ((int \<times> (ptr \<Rightarrow> char)) \<times> pth_state) option" where
  "pth_readv_faked block os_read iov m s = (case iov_total iov 0 of
     None \<Rightarrow> Some (pth_error (-1, m) EINVAL s)
   | Some bytes \<Rightarrow>
       if bytes \<le> 0 then Some (pth_error (-1, m) EINVAL s)
       else (case block bytes of
         None \<Rightarrow> Some ((-1, m), s)
       | Some buffer \<Rightarrow> do {
           let ((rv, data), s) = os_read bytes s;
           let buffer = data @ drop (length data) buffer;
           let n = to_size_t rv;
           (off, m) \<leftarrow> (if n > 0 then scatter iov n 0 buffer m else Some (0, m));
           if off = 0 then Some ((rv, m), s) else None }))"

section \<open>Advancing drops bytes\<close>

text \<open>The elements still to be written, and their bytes.\<close>

definition liov_rest :: "liov \<Rightarrow> nat \<Rightarrow> iovec list \<Rightarrow> iovec list \<Rightarrow> iovec list" where
  "liov_rest p cnt riov tiov = (case p of
     LNull \<Rightarrow> riov | LReal i \<Rightarrow> take cnt (drop i riov) | LTmp i \<Rightarrow> take cnt (drop i tiov))"

definition iov_datas :: "(ptr \<Rightarrow> char) \<Rightarrow> iovec list \<Rightarrow> string" where
  "iov_datas m iov = concat (map (iov_data m) iov)"

text \<open>The states the vector goes through: untouched, all of it, or a part of the temporary array.\<close>

definition liov_ok :: "liov \<Rightarrow> nat \<Rightarrow> iovec list \<Rightarrow> iovec list \<Rightarrow> bool" where
  "liov_ok p cnt riov tiov \<longleftrightarrow> length riov \<le> length tiov \<and> (case p of
     LNull \<Rightarrow> cnt = 0 | LReal i \<Rightarrow> i = 0 \<and> cnt = length riov | LTmp i \<Rightarrow> i + cnt \<le> length tiov)"

lemma length_iov_data [simp]: "length (iov_data m v) = iov_len v"
  by (simp add: iov_data_def)

lemma drop_iov_data: "drop n (iov_data m v) = iov_data m \<lparr>iov_base = iov_base v + n, iov_len = iov_len v - n\<rparr>"
  by (cases "n \<le> iov_len v") (auto simp: iov_data_def drop_map)

lemma tiov_copy_spec:
  "i + length vs \<le> length tiov \<Longrightarrow> tiov_copy vs i tiov = Some (take i tiov @ vs @ drop (i + length vs) tiov)"
proof (induction vs arbitrary: i tiov)
  case Nil
  then show ?case by simp
next
  case (Cons v vs)
  have "take (Suc i) (tiov[i := v]) = take i tiov @ [v]"
    using Cons.prems by (simp add: take_Suc_conv_app_nth)
  with Cons show ?case by simp
qed

lemma advance_loop_spec:
  assumes "i + cnt \<le> length tiov" "n \<le> length (iov_datas m (take cnt (drop i tiov)))"
  shows "\<exists>j cnt' tiov'. advance_loop cnt n (LTmp i) riov tiov = Some (LTmp j, cnt', riov, tiov') \<and>
    length tiov' = length tiov \<and> j + cnt' \<le> length tiov \<and>
    iov_datas m (take cnt' (drop j tiov')) = drop n (iov_datas m (take cnt (drop i tiov)))"
  using assms
proof (induction cnt arbitrary: i n)
  case 0
  then show ?case by (simp add: iov_datas_def)
next
  case (Suc cnt)
  let ?v = "tiov ! i"
  have i: "i < length tiov" "drop i tiov = ?v # drop (Suc i) tiov"
    using Suc.prems(1) by (auto simp: Cons_nth_drop_Suc)
  then have datas: "iov_datas m (take (Suc cnt) (drop i tiov)) = iov_data m ?v @ iov_datas m (take cnt (drop (Suc i) tiov))"
    by (simp add: iov_datas_def)
  consider "n = 0" | "0 < n" "n < iov_len ?v" | "0 < n" "iov_len ?v \<le> n" by linarith
  then show ?case
  proof cases
    case 2
    let ?w = "\<lparr>iov_base = iov_base ?v + n, iov_len = iov_len ?v - n\<rparr>"
    have "drop i (tiov[i := ?w]) = ?w # drop (Suc i) tiov"
      using i(1) by (simp add: drop_update_swap) (simp add: i(2))
    then have "iov_datas m (take (Suc cnt) (drop i (tiov[i := ?w]))) = drop n (iov_datas m (take (Suc cnt) (drop i tiov)))"
      using 2 by (simp add: datas drop_iov_data) (simp add: iov_datas_def)
    then show ?thesis
      using 2 i(1) Suc.prems(1) by (simp add: liov_get_def liov_set_def)
  next
    case 3
    have "\<exists>j cnt' tiov'. advance_loop cnt (n - iov_len ?v) (LTmp (Suc i)) riov tiov = Some (LTmp j, cnt', riov, tiov') \<and>
        length tiov' = length tiov \<and> j + cnt' \<le> length tiov \<and>
        iov_datas m (take cnt' (drop j tiov')) = drop (n - iov_len ?v) (iov_datas m (take cnt (drop (Suc i) tiov)))"
      using Suc.prems 3 datas by (intro Suc.IH) auto
    then show ?thesis
      using 3 i(1) by (simp add: datas liov_get_def liov_next_def not_less)
  qed (use Suc.prems in auto)
qed

lemma advance_spec:
  assumes "liov_ok p cnt riov tiov" "n \<le> length (iov_datas m (liov_rest p cnt riov tiov))"
  shows "\<exists>p' cnt' tiov'. pth_writev_iov_advance n p cnt riov tiov = Some (p', cnt', riov, tiov') \<and>
    liov_ok p' cnt' riov tiov' \<and> p' \<noteq> LNull \<and>
    iov_datas m (liov_rest p' cnt' riov tiov') = drop n (iov_datas m (liov_rest p cnt riov tiov))"
proof -
  let ?p = "if p = LNull \<and> cnt = 0 then LReal 0 else p" and ?cnt = "if p = LNull \<and> cnt = 0 then length riov else cnt"
  have ok: "liov_ok ?p ?cnt riov tiov" "liov_rest ?p ?cnt riov tiov = liov_rest p cnt riov tiov" "?p \<noteq> LNull"
    using assms(1) by (auto simp: liov_ok_def liov_rest_def split: liov.splits)
  show ?thesis
  proof (cases "n = 0")
    case True
    then show ?thesis
      using ok by (auto simp: pth_writev_iov_advance_def Let_def)
  next
    case False
    have tmp: "\<exists>p' cnt' tiov'. advance_loop c n (LTmp i) riov t = Some (p', cnt', riov, tiov') \<and>
        liov_ok p' cnt' riov tiov' \<and> p' \<noteq> LNull \<and>
        iov_datas m (liov_rest p' cnt' riov tiov') = drop n (iov_datas m (liov_rest p cnt riov tiov))"
      if "length riov \<le> length t" "i + c \<le> length t" "take c (drop i t) = liov_rest p cnt riov tiov" for i c t
    proof -
      have "n \<le> length (iov_datas m (take c (drop i t)))"
        using assms(2) that(3) by simp
      from advance_loop_spec [OF that(2) this, of riov] obtain j c' t' where
        "advance_loop c n (LTmp i) riov t = Some (LTmp j, c', riov, t')" "length t' = length t" "j + c' \<le> length t"
        "iov_datas m (take c' (drop j t')) = drop n (iov_datas m (take c (drop i t)))" by blast
      with that show ?thesis
        by (intro exI [of _ "LTmp j"] exI [of _ c'] exI [of _ t']) (simp add: liov_ok_def liov_rest_def)
    qed
    show ?thesis
    proof (cases ?p)
      case (LReal k)
      then have k: "k = 0" "?cnt = length riov" "length riov \<le> length tiov" "liov_rest p cnt riov tiov = riov"
        using ok by (auto simp: liov_ok_def liov_rest_def)
      have "tiov_copy riov 0 tiov = Some (riov @ drop (length riov) tiov)"
        using tiov_copy_spec [of 0 riov tiov] k(3) by simp
      then have "pth_writev_iov_advance n p cnt riov tiov =
          advance_loop (length riov) n (LTmp 0) riov (riov @ drop (length riov) tiov)"
        using False LReal k(1,2) by (auto simp: pth_writev_iov_advance_def Let_def split_def split: if_splits)
      moreover have "take (length riov) (drop 0 (riov @ drop (length riov) tiov)) = liov_rest p cnt riov tiov"
        by (simp add: k(4))
      ultimately show ?thesis
        using tmp [of "riov @ drop (length riov) tiov" 0 "length riov"] k(3) by simp
    next
      case (LTmp i)
      then have "pth_writev_iov_advance n p cnt riov tiov = advance_loop cnt n (LTmp i) riov tiov"
        using False by (auto simp: pth_writev_iov_advance_def Let_def split: if_splits)
      moreover have "take cnt (drop i tiov) = liov_rest p cnt riov tiov"
        using LTmp by (auto simp: liov_rest_def split: if_splits)
      ultimately show ?thesis
        using tmp [of tiov i cnt] LTmp ok(1) by (auto simp: liov_ok_def split: if_splits)
    qed (use ok in simp)
  qed
qed

text \<open>A sequence of partial writes: the vector advances by each of the counts in turn.\<close>

primrec iov_advances :: "nat list \<Rightarrow> liov \<times> nat \<times> iovec list \<times> iovec list
    \<Rightarrow> (liov \<times> nat \<times> iovec list \<times> iovec list) option" where
  "iov_advances [] st = Some st"
| "iov_advances (n # ns) st =
     (case st of (p, cnt, riov, tiov) \<Rightarrow> Option.bind (pth_writev_iov_advance n p cnt riov tiov) (iov_advances ns))"

lemma iov_advances_spec:
  assumes "liov_ok p cnt riov tiov" "sum_list ns \<le> length (iov_datas m (liov_rest p cnt riov tiov))"
  shows "\<exists>p' cnt' tiov'. iov_advances ns (p, cnt, riov, tiov) = Some (p', cnt', riov, tiov') \<and>
    iov_datas m (liov_rest p' cnt' riov tiov') = drop (sum_list ns) (iov_datas m (liov_rest p cnt riov tiov))"
  using assms
proof (induction ns arbitrary: p cnt tiov)
  case Nil
  then show ?case by simp
next
  case (Cons n ns)
  obtain p1 cnt1 tiov1 where 1: "pth_writev_iov_advance n p cnt riov tiov = Some (p1, cnt1, riov, tiov1)"
    "liov_ok p1 cnt1 riov tiov1" "iov_datas m (liov_rest p1 cnt1 riov tiov1) = drop n (iov_datas m (liov_rest p cnt riov tiov))"
    using advance_spec [OF Cons.prems(1), of n m] Cons.prems(2) by auto
  then show ?case
    using Cons.IH [OF 1(2)] Cons.prems(2) by (auto simp: add.commute)
qed

section \<open>Properties\<close>

lemma iov_bytes_datas: "pth_writev_iov_bytes iov = length (iov_datas m iov)"
proof -
  have "foldl (\<lambda>bytes v. if iov_len v \<le> 0 then bytes else bytes + iov_len v) n iov = n + length (iov_datas m iov)" for n
    by (induction iov arbitrary: n) (auto simp: iov_datas_def)
  then show ?thesis
    by (simp add: pth_writev_iov_bytes_def)
qed

lemma tiov_copy_short: "length tiov < i + length vs \<Longrightarrow> i \<le> length tiov \<Longrightarrow> tiov_copy vs i tiov = None"
  by (induction vs arbitrary: i tiov) auto

text \<open>
  Advancing an I/O vector by the counts of any partial writes leaves exactly the bytes not written
  yet, in order, whether or not the vector has empty elements, and does not touch the caller's vector;
  this needs a temporary array as long as the vector. With a shorter one the first advance writes
  beyond the array.
\<close>

theorem pth_writev_iov_advance_drops:
  assumes "ns \<noteq> []" "sum_list ns \<le> pth_writev_iov_bytes riov"
  shows "(length riov \<le> length tiov \<longrightarrow>
      (\<exists>p cnt tiov'. iov_advances ns (LNull, 0, riov, tiov) = Some (p, cnt, riov, tiov') \<and>
        iov_datas m (liov_rest p cnt riov tiov') = drop (sum_list ns) (iov_datas m riov))) \<and>
    (length tiov < length riov \<longrightarrow> 0 < hd ns \<longrightarrow> iov_advances ns (LNull, 0, riov, tiov) = None)"
proof -
  have "liov_ok LNull 0 riov tiov" if "length riov \<le> length tiov"
    using that by (simp add: liov_ok_def)
  moreover have "iov_advances ns (LNull, 0, riov, tiov) = None" if "length tiov < length riov" "0 < hd ns"
    using that assms(1) tiov_copy_short [of tiov 0 riov] by (cases ns) (auto simp: pth_writev_iov_advance_def Let_def)
  ultimately show ?thesis
    using iov_advances_spec [of LNull 0 riov tiov ns m] assms(2)
    by (auto simp: iov_bytes_datas [of _ m] liov_rest_def)
qed

definition two_elements :: "iovec list" where
  "two_elements = [\<lparr>iov_base = 10, iov_len = 4\<rparr>, \<lparr>iov_base = 30, iov_len = 4\<rparr>]"

theorem pth_writev_iov_advance_drops_witness:
  "\<exists>p cnt tiov'. iov_advances [2, 3] (LNull, 0, two_elements, replicate 32 \<lparr>iov_base = 0, iov_len = 0\<rparr>) =
      Some (p, cnt, two_elements, tiov') \<and>
    iov_datas char_of (liov_rest p cnt two_elements tiov') = drop 5 (iov_datas char_of two_elements)"
  using pth_writev_iov_advance_drops [of "[2, 3]" two_elements "replicate 32 \<lparr>iov_base = 0, iov_len = 0\<rparr>" char_of]
  by (simp add: pth_writev_iov_bytes_def two_elements_def)

text \<open>
  \<^verbatim>\<open>pth_writev_faked\<close> writes all elements to the start of its buffer: of two elements of the same length only
  the second one is written, followed by uninitialised memory.
\<close>

theorem pth_writev_faked_overwrites:
  assumes "iov_len v = n" "iov_len w = n" "0 < n" "block (2 * n) = Some buffer"
  shows "pth_writev_faked block os_write m [v, w] s = os_write (iov_data m w @ drop n buffer) s"
  using assms by (simp add: pth_writev_faked_def Let_def mult_2)

text \<open>
  \<^verbatim>\<open>pth_readv_faked\<close> moves the pointer to its buffer and then frees it: whenever \<^verbatim>\<open>read\<close> has returned data,
  or failed, the call is undefined.
\<close>

lemma scatter_off:
  "scatter iov n off buffer m = Some (off', m') \<Longrightarrow> 0 < n \<Longrightarrow> iov \<noteq> [] \<Longrightarrow> 0 < iov_len (hd iov) \<Longrightarrow> off < off'"
proof (induction iov arbitrary: n off m)
  case Nil
  then show ?case by simp
next
  case (Cons v vs)
  have "off \<le> off'" if "scatter iov n off buffer m = Some (off', m')" for iov n off and m
    using that by (induction iov arbitrary: n off m) (force simp: Let_def split: if_splits)+
  then show ?case
    using Cons.prems by (fastforce simp: Let_def split: if_splits)
qed

theorem pth_readv_faked_undefined:
  assumes "iov_total iov 0 = Some bytes" "iov \<noteq> []" "block bytes = Some buffer" "to_size_t (fst (fst (os_read bytes s))) \<noteq> 0"
  shows "pth_readv_faked block os_read iov m s = None"
proof -
  obtain v vs where iov: "iov = v # vs" "0 < iov_len v"
    using assms(1,2) by (cases iov) (auto split: if_splits)
  have total: "n \<le> b" if "iov_total vs n = Some b" for vs n b
    using that by (induction vs arbitrary: n) (fastforce split: if_splits)+
  then have bytes: "0 < bytes"
    using assms(1) iov by (fastforce split: if_splits)
  obtain rv data s' where read: "os_read bytes s = ((rv, data), s')" "to_size_t rv \<noteq> 0"
    using assms(4) by (cases "os_read bytes s") auto
  have "off \<noteq> 0" if "scatter iov (to_size_t rv) 0 (data @ drop (length data) buffer) m = Some (off, m')" for off m'
    using scatter_off [OF that _ assms(2)] read(2) iov by simp
  then show ?thesis
    using assms(1,3) bytes read
    by (cases "scatter iov (to_size_t rv) 0 (data @ drop (length data) buffer) m") (auto simp: pth_readv_faked_def Let_def)
qed

end
