(* ===== verification/Pth_IO.thy ===== *)
theory Pth_IO
  imports Pth_Process Pth_Iov
begin

text \<open>
  The blocking input and output of \<^verbatim>\<open>pth_high.c\<close>: reading, writing, their vector, socket and positioned
  variants, connecting and accepting. The system calls are parameters; a call returns its result and
  the state after it, with \<^verbatim>\<open>errno\<close> set when the result is negative. A function that reads returns the
  bytes instead of storing them in the buffer of the caller; what a call that writes has accepted is
  logged in \<open>io_out\<close>.
\<close>

datatype whence = SEEK_SET | SEEK_CUR

record io =
  sc_read :: "int \<Rightarrow> nat \<Rightarrow> pth_state \<Rightarrow> (int \<times> string) \<times> pth_state"
  sc_readv :: "int \<Rightarrow> iovec list \<Rightarrow> pth_state \<Rightarrow> (int \<times> string) \<times> pth_state"
  sc_recvfrom :: "int \<Rightarrow> nat \<Rightarrow> int \<Rightarrow> pth_state \<Rightarrow> (int \<times> string) \<times> pth_state"
  sc_write :: "int \<Rightarrow> string \<Rightarrow> pth_state \<Rightarrow> int \<times> pth_state"
  sc_writev :: "int \<Rightarrow> string list \<Rightarrow> pth_state \<Rightarrow> int \<times> pth_state"
  sc_sendto :: "int \<Rightarrow> string \<Rightarrow> int \<Rightarrow> ptr \<Rightarrow> pth_state \<Rightarrow> int \<times> pth_state"
  sc_connect :: "int \<Rightarrow> ptr \<Rightarrow> pth_state \<Rightarrow> int \<times> pth_state"
  sc_accept :: "int \<Rightarrow> pth_state \<Rightarrow> int \<times> pth_state"
  sc_so_error :: "int \<Rightarrow> pth_state \<Rightarrow> (int \<times> errcode) \<times> pth_state"
  sc_lseek :: "int \<Rightarrow> int \<Rightarrow> whence \<Rightarrow> pth_state \<Rightarrow> int \<times> pth_state"
  pread_mutex :: ptr
  pwrite_mutex :: ptr

definition EINPROGRESS :: errcode where "EINPROGRESS = EOTHER 115"
definition UIO_MAXIOV :: nat where "UIO_MAXIOV = 1024"

section \<open>Common steps\<close>

definition pth_implicit_init :: "env \<Rightarrow> pth_state \<Rightarrow> pth_state option" where
  "pth_implicit_init E s = (if \<not> pth_initialized s then map_option snd (pth_init E s) else Some s)"

text \<open>The loop \<^verbatim>\<open>while ((n = call) < 0 && errno == EINTR) ;\<close>.\<close>

partial_function (option) sc_retry :: "(pth_state \<Rightarrow> (int \<times> 'a) \<times> pth_state) \<Rightarrow> pth_state
    \<Rightarrow> ((int \<times> 'a) \<times> pth_state) option" where
  "sc_retry call s = (case call s of ((rc, x), s) \<Rightarrow>
     if rc < 0 \<and> errno s = EINTR then sc_retry call s else Some ((rc, x), s))"

text \<open>A call that writes: the first \<open>rc\<close> bytes have been accepted.\<close>

definition accepting :: "int \<Rightarrow> (string \<Rightarrow> pth_state \<Rightarrow> int \<times> pth_state) \<Rightarrow> string \<Rightarrow> pth_state
    \<Rightarrow> (int \<times> unit) \<times> pth_state" where
  "accepting fd call data s = (case call data s of (rc, s) \<Rightarrow>
     ((rc, ()), if rc > 0 then s\<lparr>io_out := io_out s @ [(fd, take (nat rc) data)]\<rparr> else s))"

text \<open>The errno shield around restoring the mode of a descriptor.\<close>

definition restore_mode :: "int \<Rightarrow> fdmode \<Rightarrow> pth_state \<Rightarrow> pth_state" where
  "restore_mode fd mode s = (snd (pth_fdmode fd mode s))\<lparr>errno := errno s\<rparr>"

text \<open>
  Waiting for a descriptor: create the static event, add the extra events, wait, and take the ring apart
  again. The result is whether to go on; otherwise an extra event has interrupted the wait.
\<close>

definition wait_ring :: "env \<Rightarrow> ptr \<Rightarrow> ptr \<Rightarrow> pth_state \<Rightarrow> (bool ctl \<times> pth_state) option" where
  "wait_ring E ev ev_extra s = do {
     (c, s) \<leftarrow> pth_wait (sw E) ev s;
     case c of
       Exit v \<Rightarrow> Some (Exit v, s)
     | Ret _ \<Rightarrow>
         if ev_extra \<noteq> NULL then do {
           (_, s) \<leftarrow> pth_event_isolate ev s;
           (st, s) \<leftarrow> pth_event_status ev s;
           Some (Ret (st = PTH_STATUS_OCCURRED), s) }
         else Some (Ret True, s) }"

definition add_extra :: "ptr \<Rightarrow> ptr \<Rightarrow> pth_state \<Rightarrow> pth_state option" where
  "add_extra ev ev_extra s = (if ev_extra \<noteq> NULL then map_option snd (pth_event_concat ev [ev_extra] s) else Some s)"

definition wait_fd :: "env \<Rightarrow> string \<Rightarrow> 64 word \<Rightarrow> int \<Rightarrow> ptr \<Rightarrow> pth_state \<Rightarrow> (bool ctl \<times> pth_state) option" where
  "wait_fd E site goal fd ev_extra s = do {
     (ev, s) \<leftarrow> static_event E (PTH_EVENT_FD OR goal) site (EvFD fd) s;
     s \<leftarrow> add_extra ev ev_extra s;
     wait_ring E ev ev_extra s }"

section \<open>Reading\<close>

text \<open>
  What \<^verbatim>\<open>pth_read_ev\<close> and \<^verbatim>\<open>pth_recvfrom_ev\<close> do before the call: poll a blocking descriptor and wait if it has
  nothing to read. The result \<open>Some n\<close> is that of the whole function.
\<close>

definition await_readable :: "env \<Rightarrow> string \<Rightarrow> int \<Rightarrow> ptr \<Rightarrow> pth_state \<Rightarrow> (int option ctl \<times> pth_state) option" where
  "await_readable E site fd ev_extra s = do {
     (n, _, s) \<leftarrow> select_retry E (fd + 1) ({fd}, {}, {}) (Some PTH_TIME_ZERO) s;
     if n < 0 \<and> (errno s = EINVAL \<or> errno s = EBADF) then Some (pth_error (Ret (Some (-1))) (errno s) s)
     else if n = 0 then do {
       (c, s) \<leftarrow> wait_fd E site PTH_UNTIL_FD_READABLE fd ev_extra s;
       case c of
         Exit v \<Rightarrow> Some (Exit v, s)
       | Ret ok \<Rightarrow> if ok then Some (Ret None, s) else Some (pth_error (Ret (Some (-1))) EINTR s) }
     else Some (Ret None, s) }"

definition pth_read_ev :: "env \<Rightarrow> io \<Rightarrow> int \<Rightarrow> nat \<Rightarrow> ptr \<Rightarrow> pth_state \<Rightarrow> ((int \<times> string) ctl \<times> pth_state) option" where
  "pth_read_ev E I fd nbytes ev_extra s = do {
     s \<leftarrow> pth_implicit_init E s;
     if nbytes = 0 then Some (Ret (0, []), s)
     else if \<not> pth_util_fd_valid (fd_open s) fd then Some (pth_error (Ret (-1, [])) EBADF s)
     else do {
       let (fdmode, s) = pth_fdmode fd PTH_FDMODE_POLL s;
       if fdmode = PTH_FDMODE_ERROR then Some (pth_error (Ret (-1, [])) EBADF s)
       else do {
         (c, s) \<leftarrow> (if fdmode = PTH_FDMODE_BLOCK then await_readable E ''pth_read_ev'' fd ev_extra s
                    else Some (Ret None, s));
         case c of
           Exit v \<Rightarrow> Some (Exit v, s)
         | Ret (Some n) \<Rightarrow> Some (Ret (n, []), s)
         | Ret None \<Rightarrow> do { (r, s) \<leftarrow> sc_retry (sc_read I fd nbytes) s; Some (Ret r, s) } } } }"

definition pth_read :: "env \<Rightarrow> io \<Rightarrow> int \<Rightarrow> nat \<Rightarrow> pth_state \<Rightarrow> ((int \<times> string) ctl \<times> pth_state) option" where
  "pth_read E I fd nbytes s = pth_read_ev E I fd nbytes NULL s"

definition pth_recvfrom_ev :: "env \<Rightarrow> io \<Rightarrow> int \<Rightarrow> nat \<Rightarrow> int \<Rightarrow> ptr \<Rightarrow> pth_state \<Rightarrow> ((int \<times> string) ctl \<times> pth_state) option" where
  "pth_recvfrom_ev E I fd nbytes flags ev_extra s = do {
     s \<leftarrow> pth_implicit_init E s;
     if nbytes = 0 then Some (Ret (0, []), s)
     else if \<not> pth_util_fd_valid (fd_open s) fd then Some (pth_error (Ret (-1, [])) EBADF s)
     else do {
       let (fdmode, s) = pth_fdmode fd PTH_FDMODE_POLL s;
       if fdmode = PTH_FDMODE_ERROR then Some (pth_error (Ret (-1, [])) EBADF s)
       else do {
         (c, s) \<leftarrow> (if fdmode = PTH_FDMODE_BLOCK then
                      (if \<not> pth_util_fd_valid (fd_open s) fd then Some (pth_error (Ret (Some (-1))) EBADF s)
                       else await_readable E ''pth_recvfrom_ev'' fd ev_extra s)
                    else Some (Ret None, s));
         case c of
           Exit v \<Rightarrow> Some (Exit v, s)
         | Ret (Some n) \<Rightarrow> Some (Ret (n, []), s)
         | Ret None \<Rightarrow> do { (r, s) \<leftarrow> sc_retry (sc_recvfrom I fd nbytes flags) s; Some (Ret r, s) } } } }"

definition pth_recvfrom :: "env \<Rightarrow> io \<Rightarrow> int \<Rightarrow> nat \<Rightarrow> int \<Rightarrow> pth_state \<Rightarrow> ((int \<times> string) ctl \<times> pth_state) option" where
  "pth_recvfrom E I fd nbytes flags s = pth_recvfrom_ev E I fd nbytes flags NULL s"

definition pth_recv_ev :: "env \<Rightarrow> io \<Rightarrow> int \<Rightarrow> nat \<Rightarrow> int \<Rightarrow> ptr \<Rightarrow> pth_state \<Rightarrow> ((int \<times> string) ctl \<times> pth_state) option" where
  "pth_recv_ev E I fd nbytes flags ev s = pth_recvfrom_ev E I fd nbytes flags ev s"

definition pth_recv :: "env \<Rightarrow> io \<Rightarrow> int \<Rightarrow> nat \<Rightarrow> int \<Rightarrow> pth_state \<Rightarrow> ((int \<times> string) ctl \<times> pth_state) option" where
  "pth_recv E I fd nbytes flags s = pth_recv_ev E I fd nbytes flags NULL s"

text \<open>\<^verbatim>\<open>pth_readv_ev\<close> does not look at the error of the poll and waits after it.\<close>

definition pth_readv_ev :: "env \<Rightarrow> io \<Rightarrow> int \<Rightarrow> iovec list \<Rightarrow> ptr \<Rightarrow> pth_state \<Rightarrow> ((int \<times> string) ctl \<times> pth_state) option" where
  "pth_readv_ev E I fd iov ev_extra s = do {
     s \<leftarrow> pth_implicit_init E s;
     if length iov \<le> 0 \<or> length iov > UIO_MAXIOV then Some (pth_error (Ret (-1, [])) EINVAL s)
     else if \<not> pth_util_fd_valid (fd_open s) fd then Some (pth_error (Ret (-1, [])) EBADF s)
     else do {
       let (fdmode, s) = pth_fdmode fd PTH_FDMODE_POLL s;
       if fdmode = PTH_FDMODE_ERROR then Some (pth_error (Ret (-1, [])) EBADF s)
       else do {
         (c, s) \<leftarrow> (if fdmode = PTH_FDMODE_BLOCK then do {
                      (n, _, s) \<leftarrow> select_retry E (fd + 1) ({fd}, {}, {}) (Some PTH_TIME_ZERO) s;
                      if n < 1 then wait_fd E ''pth_readv_ev'' PTH_UNTIL_FD_READABLE fd ev_extra s
                      else Some (Ret True, s) }
                    else Some (Ret True, s));
         case c of
           Exit v \<Rightarrow> Some (Exit v, s)
         | Ret ok \<Rightarrow>
             if \<not> ok then Some (pth_error (Ret (-1, [])) EINTR s)
             else do { (r, s) \<leftarrow> sc_retry (sc_readv I fd iov) s; Some (Ret r, s) } } } }"

definition pth_readv :: "env \<Rightarrow> io \<Rightarrow> int \<Rightarrow> iovec list \<Rightarrow> pth_state \<Rightarrow> ((int \<times> string) ctl \<times> pth_state) option" where
  "pth_readv E I fd iov s = pth_readv_ev E I fd iov NULL s"

section \<open>Writing\<close>

text \<open>
  The loop of \<^verbatim>\<open>pth_write_ev\<close> and \<^verbatim>\<open>pth_sendto_ev\<close>, which differ in the call and in the test on \<open>n\<close> before waiting.
  The result \<open>None\<close> is the early return with \<open>-1\<close> after an extra event.
\<close>

partial_function (option) write_loop :: "env \<Rightarrow> string \<Rightarrow> (string \<Rightarrow> pth_state \<Rightarrow> int \<times> pth_state) \<Rightarrow> (int \<Rightarrow> bool)
    \<Rightarrow> int \<Rightarrow> fdmode \<Rightarrow> ptr \<Rightarrow> int \<Rightarrow> int \<Rightarrow> string \<Rightarrow> pth_state \<Rightarrow> (int option ctl \<times> pth_state) option" where
  "write_loop E site call blocked fd fdmode ev_extra n rv data s =
     Option.bind (if blocked n then wait_fd E site PTH_UNTIL_FD_WRITEABLE fd ev_extra s else Some (Ret True, s)) (\<lambda>(c, s).
     case c of
       Exit v \<Rightarrow> Some (Exit v, s)
     | Ret ok \<Rightarrow>
         if \<not> ok then Some (pth_error (Ret None) EINTR (snd (pth_fdmode fd fdmode s)))
         else Option.bind (sc_retry (accepting fd call data) s) (\<lambda>((n, _), s).
           let rv = (if n > 0 then rv + n else rv) in
           if n > 0 \<and> n < int (length data)
           then write_loop E site call blocked fd fdmode ev_extra 0 rv (drop (nat n) data) s
           else Some (Ret (Some (if n < 0 \<and> rv = 0 then -1 else rv)), s)))"

text \<open>The common frame of both functions, without their argument checks.\<close>

definition write_all :: "env \<Rightarrow> string \<Rightarrow> (string \<Rightarrow> pth_state \<Rightarrow> int \<times> pth_state) \<Rightarrow> (int \<Rightarrow> bool)
    \<Rightarrow> int \<Rightarrow> fdmode \<Rightarrow> ptr \<Rightarrow> string \<Rightarrow> pth_state \<Rightarrow> (int ctl \<times> pth_state) option" where
  "write_all E site call blocked fd fdmode ev_extra data s =
     (if fdmode \<noteq> PTH_FDMODE_NONBLOCK then do {
        (n, _, s) \<leftarrow> select_retry E (fd + 1) ({}, {fd}, {}) (Some PTH_TIME_ZERO) s;
        if n < 0 \<and> (errno s = EINVAL \<or> errno s = EBADF) then Some (pth_error (Ret (-1)) (errno s) s)
        else do {
          (c, s) \<leftarrow> write_loop E site call blocked fd fdmode ev_extra n 0 data s;
          case c of
            Exit v \<Rightarrow> Some (Exit v, s)
          | Ret None \<Rightarrow> Some (Ret (-1), s)
          | Ret (Some rv) \<Rightarrow> Some (Ret rv, restore_mode fd fdmode s) } }
      else do {
        ((rv, _), s) \<leftarrow> sc_retry (accepting fd call data) s;
        Some (Ret rv, restore_mode fd fdmode s) })"

definition pth_write_ev :: "env \<Rightarrow> io \<Rightarrow> int \<Rightarrow> string \<Rightarrow> ptr \<Rightarrow> pth_state \<Rightarrow> (int ctl \<times> pth_state) option" where
  "pth_write_ev E I fd data ev_extra s = do {
     s \<leftarrow> pth_implicit_init E s;
     if length data = 0 then Some (Ret 0, s)
     else if \<not> pth_util_fd_valid (fd_open s) fd then Some (pth_error (Ret (-1)) EBADF s)
     else do {
       let (fdmode, s) = pth_fdmode fd PTH_FDMODE_NONBLOCK s;
       if fdmode = PTH_FDMODE_ERROR then Some (pth_error (Ret (-1)) EBADF s)
       else write_all E ''pth_write_ev'' (sc_write I fd) (\<lambda>n. n < 1) fd fdmode ev_extra data s } }"

definition pth_write :: "env \<Rightarrow> io \<Rightarrow> int \<Rightarrow> string \<Rightarrow> pth_state \<Rightarrow> (int ctl \<times> pth_state) option" where
  "pth_write E I fd data s = pth_write_ev E I fd data NULL s"

definition pth_sendto_ev :: "env \<Rightarrow> io \<Rightarrow> int \<Rightarrow> string \<Rightarrow> int \<Rightarrow> ptr \<Rightarrow> ptr \<Rightarrow> pth_state \<Rightarrow> (int ctl \<times> pth_state) option" where
  "pth_sendto_ev E I fd data flags to ev_extra s = do {
     s \<leftarrow> pth_implicit_init E s;
     if length data = 0 then Some (Ret 0, s)
     else if \<not> pth_util_fd_valid (fd_open s) fd then Some (pth_error (Ret (-1)) EBADF s)
     else do {
       let (fdmode, s) = pth_fdmode fd PTH_FDMODE_NONBLOCK s;
       if fdmode = PTH_FDMODE_ERROR then Some (pth_error (Ret (-1)) EBADF s)
       else if fdmode \<noteq> PTH_FDMODE_NONBLOCK \<and> \<not> pth_util_fd_valid (fd_open s) fd then
         Some (pth_error (Ret (-1)) EBADF (snd (pth_fdmode fd fdmode s)))
       else write_all E ''pth_sendto_ev'' (\<lambda>data. sc_sendto I fd data flags to) (\<lambda>n. n = 0) fd fdmode ev_extra data s } }"

definition pth_sendto :: "env \<Rightarrow> io \<Rightarrow> int \<Rightarrow> string \<Rightarrow> int \<Rightarrow> ptr \<Rightarrow> pth_state \<Rightarrow> (int ctl \<times> pth_state) option" where
  "pth_sendto E I fd data flags to s = pth_sendto_ev E I fd data flags to NULL s"

definition pth_send_ev :: "env \<Rightarrow> io \<Rightarrow> int \<Rightarrow> string \<Rightarrow> int \<Rightarrow> ptr \<Rightarrow> pth_state \<Rightarrow> (int ctl \<times> pth_state) option" where
  "pth_send_ev E I fd data flags ev s = pth_sendto_ev E I fd data flags NULL ev s"

definition pth_send :: "env \<Rightarrow> io \<Rightarrow> int \<Rightarrow> string \<Rightarrow> int \<Rightarrow> pth_state \<Rightarrow> (int ctl \<times> pth_state) option" where
  "pth_send E I fd data flags s = pth_send_ev E I fd data flags NULL s"

text \<open>
  The loop of \<^verbatim>\<open>pth_writev_ev\<close>; \<open>m\<close> is the memory the vector points into, \<open>nbytes\<close> the bytes left and \<open>liov\<close> the
  position in the vector.
\<close>

partial_function (option) writev_loop :: "env \<Rightarrow> io \<Rightarrow> (ptr \<Rightarrow> char) \<Rightarrow> int \<Rightarrow> fdmode \<Rightarrow> ptr \<Rightarrow> int \<Rightarrow> int \<Rightarrow> int
    \<Rightarrow> liov \<times> nat \<times> iovec list \<times> iovec list \<Rightarrow> pth_state \<Rightarrow> (int option ctl \<times> pth_state) option" where
  "writev_loop E I m fd fdmode ev_extra n rv nbytes l s =
     Option.bind (if n < 1 then wait_fd E ''pth_writev_ev'' PTH_UNTIL_FD_WRITEABLE fd ev_extra s else Some (Ret True, s)) (\<lambda>(c, s).
     case c of
       Exit v \<Rightarrow> Some (Exit v, s)
     | Ret ok \<Rightarrow>
         if \<not> ok then Some (pth_error (Ret None) EINTR (snd (pth_fdmode fd fdmode s)))
         else (case l of (p, cnt, riov, tiov) \<Rightarrow>
           let datas = map (iov_data m) (liov_rest p cnt riov tiov) in
           Option.bind (sc_retry (accepting fd (\<lambda>_. sc_writev I fd datas) (concat datas)) s) (\<lambda>((n, _), s).
           let rv = (if n > 0 then rv + n else rv) in
           if n > 0 \<and> n < nbytes then
             Option.bind (pth_writev_iov_advance (nat n) p cnt riov tiov)
               (\<lambda>l. writev_loop E I m fd fdmode ev_extra 0 rv (nbytes - n) l s)
           else Some (Ret (Some (if n < 0 \<and> rv = 0 then -1 else rv)), s))))"

text \<open>
  The temporary array has 32 elements; its size in bytes, 512, decides whether a larger one is
  allocated instead. A failed allocation leaves the descriptor in its new mode.
\<close>

definition pth_writev_ev :: "env \<Rightarrow> io \<Rightarrow> (ptr \<Rightarrow> char) \<Rightarrow> int \<Rightarrow> iovec list \<Rightarrow> ptr \<Rightarrow> pth_state \<Rightarrow> (int ctl \<times> pth_state) option" where
  "pth_writev_ev E I m fd iov ev_extra s = do {
     s \<leftarrow> pth_implicit_init E s;
     if length iov \<le> 0 \<or> length iov > UIO_MAXIOV then Some (pth_error (Ret (-1)) EINVAL s)
     else if \<not> pth_util_fd_valid (fd_open s) fd then Some (pth_error (Ret (-1)) EBADF s)
     else do {
       let (fdmode, s) = pth_fdmode fd PTH_FDMODE_NONBLOCK s;
       if fdmode = PTH_FDMODE_ERROR then Some (pth_error (Ret (-1)) EBADF s)
       else if fdmode \<noteq> PTH_FDMODE_NONBLOCK then
         (if length iov > 512 \<and> malloc E s = NULL then Some (pth_error (Ret (-1)) ENOMEM s)
          else do {
            let tiov = replicate (if length iov > 512 then UIO_MAXIOV else 32) \<lparr>iov_base = 0, iov_len = 0\<rparr>;
            let nbytes = int (pth_writev_iov_bytes iov);
            l \<leftarrow> pth_writev_iov_advance 0 LNull 0 iov tiov;
            (n, _, s) \<leftarrow> select_retry E (fd + 1) ({}, {fd}, {}) (Some PTH_TIME_ZERO) s;
            (c, s) \<leftarrow> writev_loop E I m fd fdmode ev_extra n 0 nbytes l s;
            case c of
              Exit v \<Rightarrow> Some (Exit v, s)
            | Ret None \<Rightarrow> Some (Ret (-1), s)
            | Ret (Some rv) \<Rightarrow> Some (Ret rv, restore_mode fd fdmode s) })
       else do {
         let datas = map (iov_data m) iov;
         ((rv, _), s) \<leftarrow> sc_retry (accepting fd (\<lambda>_. sc_writev I fd datas) (concat datas)) s;
         Some (Ret rv, restore_mode fd fdmode s) } } }"

definition pth_writev :: "env \<Rightarrow> io \<Rightarrow> (ptr \<Rightarrow> char) \<Rightarrow> int \<Rightarrow> iovec list \<Rightarrow> pth_state \<Rightarrow> (int ctl \<times> pth_state) option" where
  "pth_writev E I m fd iov s = pth_writev_ev E I m fd iov NULL s"

section \<open>Connecting and accepting\<close>

text \<open>The loop \<^verbatim>\<open>while ((rv = connect(...)) == -1 && errno == EINTR) ;\<close>.\<close>

partial_function (option) connect_retry :: "io \<Rightarrow> int \<Rightarrow> ptr \<Rightarrow> pth_state \<Rightarrow> (int \<times> pth_state) option" where
  "connect_retry I fd addr s = (case sc_connect I fd addr s of (rv, s) \<Rightarrow>
     if rv = -1 \<and> errno s = EINTR then connect_retry I fd addr s else Some (rv, s))"

text \<open>\<open>sc_so_error\<close> is \<^verbatim>\<open>getsockopt\<close> for \<^verbatim>\<open>SO_ERROR\<close>: its result and the error it stores.\<close>

definition pth_connect_ev :: "env \<Rightarrow> io \<Rightarrow> int \<Rightarrow> ptr \<Rightarrow> ptr \<Rightarrow> pth_state \<Rightarrow> (int ctl \<times> pth_state) option" where
  "pth_connect_ev E I fd addr ev_extra s = do {
     s \<leftarrow> pth_implicit_init E s;
     if \<not> pth_util_fd_valid (fd_open s) fd then Some (pth_error (Ret (-1)) EBADF s)
     else do {
       let (fdmode, s) = pth_fdmode fd PTH_FDMODE_NONBLOCK s;
       if fdmode = PTH_FDMODE_ERROR then Some (pth_error (Ret (-1)) EBADF s)
       else do {
         (rv, s) \<leftarrow> connect_retry I fd addr s;
         let s = restore_mode fd fdmode s;
         if rv = -1 \<and> errno s = EINPROGRESS \<and> fdmode \<noteq> PTH_FDMODE_NONBLOCK then do {
           (ev, s) \<leftarrow> static_event E (PTH_EVENT_FD OR PTH_UNTIL_FD_WRITEABLE) ''pth_connect_ev'' (EvFD fd) s;
           if ev = NULL then Some (pth_error (Ret (-1)) (errno s) s)
           else do {
             s \<leftarrow> add_extra ev ev_extra s;
             (c, s) \<leftarrow> wait_ring E ev ev_extra s;
             case c of
               Exit v \<Rightarrow> Some (Exit v, s)
             | Ret ok \<Rightarrow>
                 if \<not> ok then Some (pth_error (Ret (-1)) EINTR s)
                 else do {
                   let ((rc, err), s) = sc_so_error I fd s;
                   if rc = -1 then Some (Ret (-1), s)
                   else if err = EOK then Some (Ret 0, s)
                   else Some (pth_error (Ret rv) err s) } } }
         else Some (Ret rv, s) } } }"

definition pth_connect :: "env \<Rightarrow> io \<Rightarrow> int \<Rightarrow> ptr \<Rightarrow> pth_state \<Rightarrow> (int ctl \<times> pth_state) option" where
  "pth_connect E I fd addr s = pth_connect_ev E I fd addr NULL s"

text \<open>
  The loop of \<^verbatim>\<open>pth_accept_ev\<close>. The event is created, and the extra events are added, in the first turn that has to
  wait; the ring is taken apart after every wait. \<open>None\<close> is an early return with \<open>-1\<close>.
\<close>

partial_function (option) accept_loop :: "env \<Rightarrow> io \<Rightarrow> int \<Rightarrow> fdmode \<Rightarrow> ptr \<Rightarrow> ptr \<Rightarrow> pth_state
    \<Rightarrow> (int option ctl \<times> pth_state) option" where
  "accept_loop E I fd fdmode ev_extra ev s = (case sc_accept I fd s of (rv, s) \<Rightarrow>
     if rv = -1 \<and> errno s = EAGAIN \<and> fdmode \<noteq> PTH_FDMODE_NONBLOCK then
       Option.bind (if ev = NULL then static_event E (PTH_EVENT_FD OR PTH_UNTIL_FD_READABLE) ''pth_accept_ev'' (EvFD fd) s
                    else Some (ev, s)) (\<lambda>(ev', s).
       if ev' = NULL then Some (pth_error (Ret None) (errno s) s)
       else
         Option.bind (if ev = NULL then add_extra ev' ev_extra s else Some s) (\<lambda>s.
         Option.bind (wait_ring E ev' ev_extra s) (\<lambda>(c, s).
         case c of
           Exit v \<Rightarrow> Some (Exit v, s)
         | Ret ok \<Rightarrow>
             if \<not> ok then Some (pth_error (Ret None) EINTR (snd (pth_fdmode fd fdmode s)))
             else accept_loop E I fd fdmode ev_extra ev' s)))
     else Some (Ret (Some rv), s))"

definition pth_accept_ev :: "env \<Rightarrow> io \<Rightarrow> int \<Rightarrow> ptr \<Rightarrow> pth_state \<Rightarrow> (int ctl \<times> pth_state) option" where
  "pth_accept_ev E I fd ev_extra s = do {
     s \<leftarrow> pth_implicit_init E s;
     if \<not> pth_util_fd_valid (fd_open s) fd then Some (pth_error (Ret (-1)) EBADF s)
     else do {
       let (fdmode, s) = pth_fdmode fd PTH_FDMODE_NONBLOCK s;
       if fdmode = PTH_FDMODE_ERROR then Some (pth_error (Ret (-1)) EBADF s)
       else do {
         (c, s) \<leftarrow> accept_loop E I fd fdmode ev_extra NULL s;
         case c of
           Exit v \<Rightarrow> Some (Exit v, s)
         | Ret None \<Rightarrow> Some (Ret (-1), s)
         | Ret (Some rv) \<Rightarrow>
             Some (Ret rv, (let s' = snd (pth_fdmode fd fdmode s);
                                s' = (if rv \<noteq> -1 then snd (pth_fdmode rv fdmode s') else s')
                            in s'\<lparr>errno := errno s\<rparr>)) } } }"

definition pth_accept :: "env \<Rightarrow> io \<Rightarrow> int \<Rightarrow> pth_state \<Rightarrow> (int ctl \<times> pth_state) option" where
  "pth_accept E I fd s = pth_accept_ev E I fd NULL s"

section \<open>Positioned reading and writing\<close>

text \<open>
  The frame \<^verbatim>\<open>pth_pread\<close> and \<^verbatim>\<open>pth_pwrite\<close> share: a static mutex of each function, at the address given in
  \<open>io\<close>, protects moving the offset, the operation \<open>body\<close> and moving the offset back. \<open>failed\<close> is the result \<open>-1\<close>.
\<close>

definition positioned :: "env \<Rightarrow> io \<Rightarrow> ptr \<Rightarrow> 'r \<Rightarrow> (pth_state \<Rightarrow> ('r ctl \<times> pth_state) option) \<Rightarrow> int \<Rightarrow> int \<Rightarrow> pth_state
    \<Rightarrow> ('r ctl \<times> pth_state) option" where
  "positioned E I mutex failed body fd offset s = do {
     (c, s) \<leftarrow> pth_mutex_acquire E mutex False NULL s;
     case c of
       Exit v \<Rightarrow> Some (Exit v, s)
     | Ret ok \<Rightarrow>
         if \<not> ok then Some (Ret failed, s)
         else do {
           let (old_offset, s) = sc_lseek I fd 0 SEEK_CUR s;
           if old_offset = -1 then do { (_, s) \<leftarrow> pth_mutex_release mutex s; Some (Ret failed, s) }
           else do {
             let (o', s) = sc_lseek I fd offset SEEK_SET s;
             if o' = -1 then do { (_, s) \<leftarrow> pth_mutex_release mutex s; Some (Ret failed, s) }
             else do {
               (c, s) \<leftarrow> body s;
               case c of
                 Exit v \<Rightarrow> Some (Exit v, s)
               | Ret rc \<Rightarrow> do {
                   let s = (snd (sc_lseek I fd old_offset SEEK_SET s))\<lparr>errno := errno s\<rparr>;
                   (_, s) \<leftarrow> pth_mutex_release mutex s;
                   Some (Ret rc, s) } } } } }"

definition pth_pread :: "env \<Rightarrow> io \<Rightarrow> int \<Rightarrow> nat \<Rightarrow> int \<Rightarrow> pth_state \<Rightarrow> ((int \<times> string) ctl \<times> pth_state) option" where
  "pth_pread E I fd nbytes offset s = positioned E I (pread_mutex I) (-1, []) (pth_read E I fd nbytes) fd offset s"

definition pth_pwrite :: "env \<Rightarrow> io \<Rightarrow> int \<Rightarrow> string \<Rightarrow> int \<Rightarrow> pth_state \<Rightarrow> (int ctl \<times> pth_state) option" where
  "pth_pwrite E I fd data offset s = positioned E I (pwrite_mutex I) (-1) (pth_write E I fd data) fd offset s"

end
