(* ===== verification/Pth_Transfer.thy ===== *)
theory Pth_Transfer
  imports Pth_IO
begin

text \<open>
  What the blocking input and output of \<open>Pth_IO\<close> does to a descriptor: the bytes a writing function hands to the
  system are the front of its argument, its result tells how many, and the mode of the descriptor is
  restored. While a thread waits, the other threads run; the frame rules below say which part of the state
  waiting leaves to them.
\<close>

section \<open>What waiting leaves alone\<close>

text \<open>
  The contract of an observation of the state that the event and waiting functions do not touch: it does not
  depend on the variables they store to. The client lemmas follow it through all of them.
\<close>

definition undisturbed :: "(pth_state \<Rightarrow> 'o) \<Rightarrow> switch \<Rightarrow> bool" where
  "undisturbed obs k \<longleftrightarrow> (\<forall>s s'. k s = Some s' \<longrightarrow> obs s' = obs s)"

locale event_frame =
  fixes obs :: "pth_state \<Rightarrow> 'o"
  assumes obs_errno: "obs (s\<lparr>errno := x\<rparr>) = obs s"
    and obs_evs: "obs (s\<lparr>evs := h\<rparr>) = obs s"
    and obs_tcbs: "obs (s\<lparr>tcbs := t\<rparr>) = obs s"
    and obs_keytab: "obs (s\<lparr>pth_keytab := k\<rparr>) = obs s"
    and obs_mem_int: "obs (s\<lparr>mem_int := m\<rparr>) = obs s"
begin

lemmas obs_simps = obs_errno obs_evs obs_tcbs obs_keytab obs_mem_int pth_error_def

lemma obs_cells:
  "e_set f p s = Some s' \<Longrightarrow> obs s' = obs s"
  "t_set g t s = Some s' \<Longrightarrow> obs s' = obs s"
  "int_set r v s = Some s' \<Longrightarrow> obs s' = obs s"
  by (auto simp: e_set_def t_set_def int_set_def obs_simps)

lemma obs_key:
  "pth_key_create key func s = Some (b, s') \<Longrightarrow> obs s' = obs s"
  "pth_key_getdata k s = Some (p, s') \<Longrightarrow> obs s' = obs s"
  "pth_key_setdata ok k v s = Some (b, s') \<Longrightarrow> obs s' = obs s"
  by (auto simp: pth_key_create_def pth_key_getdata_def pth_key_setdata_def obs_simps Let_def
      elim!: bind_SomeE dest!: obs_cells split: if_splits option.splits)

lemma obs_obtain: "event_obtain spec reuse key mem ok s = Some (ev, s') \<Longrightarrow> obs s' = obs s"
  by (auto simp: event_obtain_def event_malloc_def obs_simps elim!: bind_SomeE
      dest!: obs_key split: if_splits option.splits)

lemma obs_link: "event_link spec ev ch s = Some s' \<Longrightarrow> obs s' = obs s"
  by (auto simp: event_link_def elim!: bind_SomeE dest!: obs_cells split: if_splits)

lemma obs_init: "event_init is_open spec ev args s = Some (ev', s') \<Longrightarrow> obs s' = obs s"
  by (auto simp: event_init_def event_set_def obs_simps Let_def elim!: bind_SomeE
      dest!: obs_cells split: if_splits ev_args.splits)

lemma obs_event: "pth_event is_open mem ok spec reuse key ch args s = Some (ev, s') \<Longrightarrow> obs s' = obs s"
  by (auto simp: pth_event_def obs_simps elim!: bind_SomeE
      dest!: obs_obtain obs_link obs_cells obs_init split: if_splits)

lemma obs_static_event: "static_event E spec site args s = Some (ev, s') \<Longrightarrow> obs s' = obs s"
  by (auto simp: static_event_def dest: obs_event)

lemma obs_concat_loop: "concat_loop evns evc s = Some (ev, s') \<Longrightarrow> obs s' = obs s"
  by (induction evns arbitrary: evc s) (force elim!: bind_SomeE dest!: obs_cells split: if_splits)+

lemma obs_concat: "pth_event_concat ev evns s = Some (ev', s') \<Longrightarrow> obs s' = obs s"
  by (auto simp: pth_event_concat_def obs_simps elim!: bind_SomeE dest!: obs_concat_loop obs_cells split: if_splits)

lemma obs_isolate: "pth_event_isolate ev s = Some (ev', s') \<Longrightarrow> obs s' = obs s"
  by (auto simp: pth_event_isolate_def event_unlink_def obs_simps elim!: bind_SomeE dest!: obs_cells split: if_splits)

lemma obs_status: "pth_event_status ev s = Some (st, s') \<Longrightarrow> obs s' = obs s"
  by (auto simp: pth_event_status_def obs_simps elim!: bind_SomeE split: if_splits)

lemma obs_mark: "mark_pending ring ev s = Some s' \<Longrightarrow> obs s' = obs s"
proof (rule mark_pending.raw_induct [where P = "\<lambda>ring ev s s'. obs s' = obs s", rotated])
  fix loop :: "ptr \<Rightarrow> ptr \<Rightarrow> pth_state \<Rightarrow> pth_state option" and ring ev s s'
  assume IH: "\<And>ring ev s s'. loop ring ev s = Some s' \<Longrightarrow> obs s' = obs s"
    and body: "Option.bind (e_set (\<lambda>e. e\<lparr>ev_status := PTH_STATUS_PENDING\<rparr>) ev s) (\<lambda>s.
     Option.bind (e_get ev_next ev s) (\<lambda>ev.
       if ev \<noteq> ring then loop ring ev s else Some s)) = Some s'"
  show "obs s' = obs s"
    using body by (auto elim!: bind_SomeE dest!: IH obs_cells split: if_splits)
qed

lemma obs_cancel_point: "pth_cancel_point s = Some (c, s') \<Longrightarrow> obs s' = obs s"
  by (auto simp: pth_cancel_point_def elim!: bind_SomeE dest!: obs_cells split: if_splits)

text \<open>The rest needs that the other threads leave the observed part alone, too.\<close>

lemma obs_wait:
  assumes "undisturbed obs k" "pth_wait k ring s = Some (c, s')"
  shows "obs s' = obs s"
  using assms
  by (auto simp: pth_wait_def pth_yield_def undisturbed_def obs_simps elim!: bind_SomeE
      dest!: obs_mark obs_cells obs_cancel_point split: if_splits ctl.splits)

lemma obs_wait_ring:
  assumes "undisturbed obs (sw E)" "wait_ring E ev ev_extra s = Some (c, s')"
  shows "obs s' = obs s"
  using assms(2)
  by (auto simp: wait_ring_def elim!: bind_SomeE
      dest!: obs_wait [OF assms(1)] obs_isolate obs_status split: if_splits ctl.splits)

lemma obs_add_extra: "add_extra ev ev_extra s = Some s' \<Longrightarrow> obs s' = obs s"
  by (auto simp: add_extra_def dest!: obs_concat split: if_splits)

lemma obs_wait_fd:
  assumes "undisturbed obs (sw E)" "wait_fd E site goal fd ev_extra s = Some (c, s')"
  shows "obs s' = obs s"
  using assms(2)
  by (auto simp: wait_fd_def elim!: bind_SomeE
      dest!: obs_wait_ring [OF assms(1)] obs_static_event obs_add_extra)

end

section \<open>What a descriptor sees\<close>

text \<open>The bytes accepted by a descriptor so far, and its view of the state: the status flags and these bytes.\<close>

definition fd_sent :: "int \<Rightarrow> pth_state \<Rightarrow> string" where
  "fd_sent fd s = concat (map snd (filter (\<lambda>p. fst p = fd) (io_out s)))"

definition fd_view :: "int \<Rightarrow> pth_state \<Rightarrow> 32 word \<times> string" where
  "fd_view fd s = (fd_flags s fd, fd_sent fd s)"

interpretation fdio: event_frame "fd_view fd" for fd
  by unfold_locales (simp_all add: fd_view_def fd_sent_def)

lemma fd_view_errno [simp]: "fd_view fd (s\<lparr>errno := e\<rparr>) = fd_view fd s"
  by (rule fdio.obs_errno)

text \<open>What the code relies on of a system call that writes and of \<^verbatim>\<open>select\<close>.\<close>

definition writes :: "int \<Rightarrow> (string \<Rightarrow> pth_state \<Rightarrow> int \<times> pth_state) \<Rightarrow> bool" where
  "writes fd call \<longleftrightarrow> (\<forall>d s. case call d s of (rc, s') \<Rightarrow> -1 \<le> rc \<and> rc \<le> int (length d) \<and> fd_view fd s' = fd_view fd s)"

definition select_keeps :: "int \<Rightarrow> env \<Rightarrow> bool" where
  "select_keeps fd E \<longleftrightarrow> (\<forall>n fds d s. fd_view fd (snd (snd (os_select E n fds d s))) = fd_view fd s)"

text \<open>\<open>sends fd s d s'\<close>: the descriptor has accepted \<open>d\<close> between the two states and its mode is the same.\<close>

definition sends :: "int \<Rightarrow> pth_state \<Rightarrow> string \<Rightarrow> pth_state \<Rightarrow> bool" where
  "sends fd s d s' \<longleftrightarrow> fd_view fd s' = (fd_flags s fd, fd_sent fd s @ d)"

lemma sends_view: "fd_view fd s' = fd_view fd s \<Longrightarrow> sends fd s [] s'"
  by (simp add: sends_def fd_view_def)

lemma sends_errno [simp]: "sends fd s d (s'\<lparr>errno := e\<rparr>) = sends fd s d s'"
  by (simp add: sends_def)

lemma sends_trans: "sends fd s d s1 \<Longrightarrow> sends fd s1 d' s2 \<Longrightarrow> sends fd s (d @ d') s2"
  by (auto simp: sends_def fd_view_def)

lemma select_retry_view:
  assumes "select_keeps fd E" "select_retry E n fds d s = Some (rc, fds', s')"
  shows "fd_view fd s' = fd_view fd s"
proof -
  have "case r of (rc, fds', s') \<Rightarrow> select_keeps fd E \<longrightarrow> fd_view fd s' = fd_view fd s"
    if "select_retry E n fds d s = Some r" for r
    using that
  proof (rule select_retry.raw_induct [where P = "\<lambda>E n fds d s r. case r of (rc, fds', s') \<Rightarrow>
        select_keeps fd E \<longrightarrow> fd_view fd s' = fd_view fd s", rotated], goal_cases)
    case (1 loop E n fds d s r)
    obtain rc fds1 s1 where o: "os_select E n fds d s = (rc, fds1, s1)"
      by (cases "os_select E n fds d s") auto
    then have "select_keeps fd E \<longrightarrow> fd_view fd s1 = fd_view fd s"
      unfolding select_keeps_def by (metis snd_conv)
    with 1 o show ?case
      by (fastforce split: if_splits)
  qed
  with assms show ?thesis by fastforce
qed

lemma accepting_sends:
  assumes "writes fd call" "accepting fd call d s = ((n, u), s')"
  shows "-1 \<le> n" "n \<le> int (length d)" "sends fd s (take (nat n) d) s'" "n < 0 \<longrightarrow> sends fd s [] s'" "\<exists>s1. fst (call d s1) = n"
proof -
  obtain rc s1 where c: "call d s = (rc, s1)" by (cases "call d s")
  have "case call d s of (rc, s') \<Rightarrow> -1 \<le> rc \<and> rc \<le> int (length d) \<and> fd_view fd s' = fd_view fd s"
    by (rule spec [OF spec [OF assms(1) [unfolded writes_def]]])
  then have r: "-1 \<le> rc" "rc \<le> int (length d)" "fd_view fd s1 = fd_view fd s"
    by (simp_all add: c)
  have n: "n = rc" "s' = (if rc > 0 then s1\<lparr>io_out := io_out s1 @ [(fd, take (nat rc) d)]\<rparr> else s1)"
    using assms(2) c by (auto simp: accepting_def split: if_splits)
  show "-1 \<le> n" "n \<le> int (length d)" "\<exists>s1. fst (call d s1) = n" using r n c by (auto intro: exI [of _ s])
  show "sends fd s (take (nat n) d) s'" "n < 0 \<longrightarrow> sends fd s [] s'"
    using r n by (auto simp: sends_def fd_view_def fd_sent_def)
qed

lemma sc_retry_sends:
  assumes "writes fd call" "sc_retry (accepting fd call d) s = Some ((n, u), s')"
  shows "-1 \<le> n \<and> n \<le> int (length d) \<and> sends fd s (take (nat n) d) s' \<and> (\<exists>s1. fst (call d s1) = n)"
proof -
  have "case r of ((n, u), s') \<Rightarrow> f = accepting fd call d \<longrightarrow>
      -1 \<le> n \<and> n \<le> int (length d) \<and> sends fd s (take (nat n) d) s' \<and> (\<exists>s1. fst (call d s1) = n)"
    if "sc_retry f s = Some r" for f r
    using that
  proof (rule sc_retry.raw_induct [where P = "\<lambda>f s r. case r of ((n, u), s') \<Rightarrow> f = accepting fd call d \<longrightarrow>
      -1 \<le> n \<and> n \<le> int (length d) \<and> sends fd s (take (nat n) d) s' \<and> (\<exists>s1. fst (call d s1) = n)", rotated], goal_cases)
    case (1 loop f s r)
    obtain n1 u1 s1 where a: "f s = ((n1, u1), s1)"
      by (metis surj_pair)
    show ?case
    proof (cases "f = accepting fd call d")
      case True
      note acc = accepting_sends [OF assms(1) a [unfolded True]]
      show ?thesis
      proof (cases "n1 < 0 \<and> errno s1 = EINTR")
        case again: True
        then have "case r of ((n, u), s') \<Rightarrow> -1 \<le> n \<and> n \<le> int (length d) \<and> sends fd s1 (take (nat n) d) s' \<and>
            (\<exists>s1. fst (call d s1) = n)"
          using 1(1) [of f s1 r] 1(2) True a by (simp split: prod.splits)
        moreover have "sends fd s [] s1"
          using acc(4) again by simp
        ultimately show ?thesis
          using sends_trans by fastforce
      next
        case False
        then show ?thesis using 1(2) a acc by auto
      qed
    qed (auto split: prod.splits)
  qed
  with assms show ?thesis by fastforce
qed

section \<open>The loop of the writing functions\<close>

definition refused :: "(string \<Rightarrow> pth_state \<Rightarrow> int \<times> pth_state) \<Rightarrow> string \<Rightarrow> bool" where
  "refused call d \<longleftrightarrow> (\<exists>s. fst (call d s) \<le> 0)"

definition write_result :: "(string \<Rightarrow> pth_state \<Rightarrow> int \<times> pth_state) \<Rightarrow> int \<Rightarrow> fdmode \<Rightarrow> ptr \<Rightarrow> int \<Rightarrow> string \<Rightarrow> pth_state
    \<Rightarrow> int option ctl \<times> pth_state \<Rightarrow> bool" where
  "write_result call fd fdmode ev_extra rv data s r \<longleftrightarrow> (case r of
     (Exit v, s') \<Rightarrow> True
   | (Ret None, s') \<Rightarrow> ev_extra \<noteq> NULL \<and>
       (\<exists>k s1. sends fd s (take k data) s1 \<and> s' = (snd (pth_fdmode fd fdmode s1))\<lparr>errno := EINTR\<rparr>)
   | (Ret (Some v), s') \<Rightarrow> \<exists>k \<le> length data. sends fd s (take k data) s' \<and>
       (v = rv + int k \<or> v = -1 \<and> rv + int k = 0) \<and> (k < length data \<longrightarrow> refused call (drop k data)))"

lemma wait_fd_plain: "wait_fd E site goal fd NULL s = Some (Ret ok, s') \<Longrightarrow> ok"
  by (auto simp: wait_fd_def wait_ring_def elim!: bind_SomeE split: ctl.splits)

lemma take_drop_append: "k \<le> length (drop n d) \<Longrightarrow> take n d @ take k (drop n d) = take (n + k) d"
  by (simp add: take_add)

lemma write_result_step:
  assumes n: "0 < n" "n < int (length data)" and s: "sends fd s (take (nat n) data) s1"
    and r: "write_result call fd fdmode ev_extra (rv + n) (drop (nat n) data) s1 r" and rv: "0 \<le> rv"
  shows "write_result call fd fdmode ev_extra rv data s r"
proof -
  obtain c s' where c: "r = (c, s')" by fastforce
  show ?thesis
  proof (cases "\<exists>v. c = Ret (Some v)")
    case True
    then obtain v where v: "c = Ret (Some v)" by blast
    then obtain k where k: "k \<le> length (drop (nat n) data)" "sends fd s1 (take k (drop (nat n) data)) s'"
      "v = rv + n + int k" "k < length (drop (nat n) data) \<longrightarrow> refused call (drop k (drop (nat n) data))"
      using r c rv n by (auto simp: write_result_def)
    from sends_trans [OF s k(2)] have "sends fd s (take (nat n + k) data) s'"
      by (simp add: take_add)
    with k n c v show ?thesis
      by (auto simp: write_result_def add.commute intro!: exI [of _ "nat n + k"])
  next
    case False
    then show ?thesis
      using r c sends_trans [OF s] by (fastforce simp: write_result_def take_add [symmetric] split: ctl.splits option.splits)
  qed
qed

lemma write_result_last:
  assumes "writes fd call" "sc_retry (accepting fd call data) s1 = Some ((m, u), s2)" "sends fd s [] s1"
    "\<not> (0 < m \<and> m < int (length data))" "0 \<le> rv"
  shows "write_result call fd fdmode ev_extra rv data s
    (Ret (Some (if m < 0 \<and> rv = 0 then -1 else if m > 0 then rv + m else rv)), s2)"
proof -
  note m = sc_retry_sends [OF assms(1,2)]
  then have "sends fd s (take (nat m) data) s2"
    using sends_trans [OF assms(3)] by fastforce
  moreover have "refused call data" if "m \<le> 0"
    using that m unfolding refused_def by force
  ultimately show ?thesis
    using assms(4,5) m by (auto simp: write_result_def intro!: exI [of _ "nat m"])
qed

lemma write_loop_result:
  assumes "writes fd call" "undisturbed (fd_view fd) (sw E)" "0 \<le> rv"
    "write_loop E site call blocked fd fdmode ev_extra n rv data s = Some r"
  shows "write_result call fd fdmode ev_extra rv data s r"
proof -
  have "writes fd call \<longrightarrow> undisturbed (fd_view fd) (sw E) \<longrightarrow> 0 \<le> rv \<longrightarrow> write_result call fd fdmode ev_extra rv data s r"
    using assms(4)
  proof (rule write_loop.raw_induct [where P = "\<lambda>E site call blocked fd fdmode ev_extra n rv data s r.
      writes fd call \<longrightarrow> undisturbed (fd_view fd) (sw E) \<longrightarrow> 0 \<le> rv \<longrightarrow> write_result call fd fdmode ev_extra rv data s r",
      rotated], goal_cases)
    case (1 loop E site call blocked fd fdmode ev_extra n rv data s r)
    show ?case
    proof (intro impI)
      assume W: "writes fd call" and quiet: "undisturbed (fd_view fd) (sw E)" and rv: "0 \<le> rv"
      obtain c s1 where w: "(if blocked n then wait_fd E site PTH_UNTIL_FD_WRITEABLE fd ev_extra s else Some (Ret True, s)) = Some (c, s1)"
        and rest: "(case c of
            Exit v \<Rightarrow> Some (Exit v, s1)
          | Ret ok \<Rightarrow>
              if \<not> ok then Some (pth_error (Ret None) EINTR (snd (pth_fdmode fd fdmode s1)))
              else Option.bind (sc_retry (accepting fd call data) s1) (\<lambda>((n, _), s).
                let rv = (if n > 0 then rv + n else rv) in
                if n > 0 \<and> n < int (length data)
                then loop E site call blocked fd fdmode ev_extra 0 rv (drop (nat n) data) s
                else Some (Ret (Some (if n < 0 \<and> rv = 0 then -1 else rv)), s))) = Some r"
        using 1(2) by (auto elim!: bind_SomeE)
      have view: "sends fd s [] s1"
        using w fdio.obs_wait_fd [OF quiet] by (auto simp: sends_view split: if_splits)
      consider v where "c = Exit v" | "c = Ret False" | "c = Ret True" by (cases c) auto
      then show "write_result call fd fdmode ev_extra rv data s r"
      proof cases
        case 2
        then have "ev_extra \<noteq> NULL"
          using w wait_fd_plain by (cases "ev_extra = NULL") (fastforce split: if_splits)+
        with 2 rest view show ?thesis
          by (auto simp: write_result_def pth_error_def intro!: exI [of _ 0] exI [of _ s1])
      next
        case 3
        then obtain m s2 where m: "sc_retry (accepting fd call data) s1 = Some ((m, ()), s2)"
          and r: "(if m > 0 \<and> m < int (length data)
              then loop E site call blocked fd fdmode ev_extra 0 (rv + m) (drop (nat m) data) s2
              else Some (Ret (Some (if m < 0 \<and> rv = 0 then -1 else if m > 0 then rv + m else rv)), s2)) = Some r"
          using rest by (auto simp: Let_def elim!: bind_SomeE split: if_splits)
        show ?thesis
        proof (cases "m > 0 \<and> m < int (length data)")
          case True
          have sent: "sends fd s (take (nat m) data) s2"
            using sends_trans [OF view] sc_retry_sends [OF W m] by fastforce
          have "write_result call fd fdmode ev_extra (rv + m) (drop (nat m) data) s2 r"
            using 1(1) [of E site call blocked fd fdmode ev_extra 0 "rv + m" "drop (nat m) data" s2 r] r W quiet rv True by simp
          then show ?thesis
            using True rv by (blast intro: write_result_step [OF _ _ sent])
        qed (use r write_result_last [OF W m view _ rv] in auto)
      qed (use rest in \<open>auto simp: write_result_def\<close>)
    qed
  qed
  with assms show ?thesis by blast
qed

section \<open>The mode of the descriptor\<close>

lemma or_nonblocking:
  assumes "0 \<le> sint fl"
  shows "fl OR O_NONBLOCKING \<noteq> -1"
proof
  assume "fl OR O_NONBLOCKING = -1"
  then have "bit (fl OR O_NONBLOCKING) 31" by simp
  then have "bit fl 31" by (simp add: O_NONBLOCKING_def bit_simps)
  with assms show False using bit_last_iff [of fl] by simp
qed

lemma flag_or_nonblocking:
  assumes "\<not> flag fl O_NONBLOCKING"
  shows "flag (fl OR O_NONBLOCKING) O_NONBLOCKING" "(fl OR O_NONBLOCKING) AND NOT O_NONBLOCKING = fl"
proof -
  have z: "fl AND O_NONBLOCKING = 0" using assms by (simp add: flag_def)
  show "flag (fl OR O_NONBLOCKING) O_NONBLOCKING"
    by (simp add: flag_def bit.conj_disj_distrib2 z O_NONBLOCKING_def)
  have "fl AND NOT O_NONBLOCKING = fl"
    using bit.conj_disj_distrib [of fl O_NONBLOCKING "NOT O_NONBLOCKING"] z by simp
  then show "(fl OR O_NONBLOCKING) AND NOT O_NONBLOCKING = fl"
    by (simp add: bit.conj_disj_distrib2)
qed

text \<open>Switching a descriptor to the non-blocking mode and back restores its flags, whatever was written in between.\<close>

lemma fdmode_restored:
  assumes m: "pth_fdmode fd PTH_FDMODE_NONBLOCK s = (m, s1)" "m \<noteq> PTH_FDMODE_ERROR"
    and fl: "0 \<le> sint (fd_flags s fd)" and w: "sends fd s1 d s2"
  shows "sends fd s d (snd (pth_fdmode fd m s2))"
proof (cases "flag (fd_flags s fd) O_NONBLOCKING")
  case True
  then have "s1 = s" "m = PTH_FDMODE_NONBLOCK"
    using m by (auto simp: pth_fdmode_def Let_def split: if_splits)
  then show ?thesis
    using w True by (auto simp: pth_fdmode_def Let_def sends_def fd_view_def fd_sent_def)
next
  case False
  then have s1: "s1 = s\<lparr>fd_flags := (fd_flags s)(fd := fd_flags s fd OR O_NONBLOCKING)\<rparr>" "m = PTH_FDMODE_BLOCK"
    using m by (auto simp: pth_fdmode_def Let_def split: if_splits)
  then have "fd_flags s2 fd = fd_flags s fd OR O_NONBLOCKING" "fd_sent fd s2 = fd_sent fd s @ d"
    using w by (auto simp: sends_def fd_view_def fd_sent_def)
  then show ?thesis
    using s1 or_nonblocking [OF fl] flag_or_nonblocking [OF False]
    by (simp add: pth_fdmode_def Let_def sends_def fd_view_def fd_sent_def)
qed

section \<open>Writing\<close>

text \<open>
  The result of a function that writes: \<open>k\<close> bytes from the front of the data have been accepted; the result is \<open>k\<close>, and
  less than all of a blocking descriptor's data only when the system refused the rest, or \<open>-1\<close>.
  After an error no byte has been accepted unless an extra event has ended the wait. The
  mode of the descriptor is restored, except when \<^verbatim>\<open>select\<close> fails.
\<close>

definition written :: "(string \<Rightarrow> pth_state \<Rightarrow> int \<times> pth_state) \<Rightarrow> int \<Rightarrow> ptr \<Rightarrow> string \<Rightarrow> pth_state \<Rightarrow> int \<Rightarrow> pth_state \<Rightarrow> bool" where
  "written call fd ev_extra data s rv s' \<longleftrightarrow>
     (\<exists>k \<le> length data. fd_sent fd s' = fd_sent fd s @ take k data \<and>
        (rv = int k \<and> (k < length data \<longrightarrow> flag (fd_flags s fd) O_NONBLOCKING \<or> refused call (drop k data)) \<or>
         rv = -1 \<and> (k = 0 \<or> ev_extra \<noteq> NULL \<and> errno s' = EINTR))) \<and>
     (fd_flags s' fd = fd_flags s fd \<or> rv = -1 \<and> errno s' \<in> {EINVAL, EBADF})"

lemma written_none: "fd_view fd s' = fd_view fd s \<Longrightarrow> written call fd ev_extra data s (-1) s'"
  by (auto simp: written_def fd_view_def intro: exI [of _ 0])

lemma writtenI:
  assumes "sends fd s (take k data) s'" "k \<le> length data"
    "rv = int k \<and> (k < length data \<longrightarrow> flag (fd_flags s fd) O_NONBLOCKING \<or> refused call (drop k data)) \<or>
     rv = -1 \<and> (k = 0 \<or> ev_extra \<noteq> NULL \<and> errno s' = EINTR)"
  shows "written call fd ev_extra data s rv s'"
  using assms by (auto simp: written_def sends_def fd_view_def)

lemma sends_restore: "sends fd s d (restore_mode fd m s') = sends fd s d (snd (pth_fdmode fd m s'))"
  by (simp add: restore_mode_def)

lemma write_all_written:
  assumes m: "pth_fdmode fd PTH_FDMODE_NONBLOCK s = (m, s1)" "m \<noteq> PTH_FDMODE_ERROR"
    and fl: "0 \<le> sint (fd_flags s fd)"
    and env: "writes fd call" "undisturbed (fd_view fd) (sw E)" "select_keeps fd E"
    and r: "write_all E site call blocked fd m ev_extra data s1 = Some (Ret rv, s')"
  shows "written call fd ev_extra data s rv s'"
proof (cases "m = PTH_FDMODE_NONBLOCK")
  case True
  then have nb: "flag (fd_flags s fd) O_NONBLOCKING"
    using m by (auto simp: pth_fdmode_def Let_def split: if_splits)
  obtain u s2 where "sc_retry (accepting fd call data) s1 = Some ((rv, u), s2)" "s' = restore_mode fd m s2"
    using r True by (auto simp: write_all_def elim!: bind_SomeE)
  with sc_retry_sends [OF env(1), of data s1 rv u s2] fdmode_restored [OF m fl, of "take (nat rv) data" s2] nb show ?thesis
    by (intro writtenI [of _ _ "nat rv"]) (auto simp: sends_restore)
next
  case False
  obtain n fds s2 where sel: "select_retry E (fd + 1) ({}, {fd}, {}) (Some PTH_TIME_ZERO) s1 = Some (n, fds, s2)"
    using r False by (auto simp: write_all_def elim!: bind_SomeE)
  have s2: "sends fd s1 [] s2"
    by (rule sends_view, rule select_retry_view [OF env(3) sel])
  show ?thesis
  proof (cases "n < 0 \<and> (errno s2 = EINVAL \<or> errno s2 = EBADF)")
    case True
    then have "rv = -1" "s' = s2\<lparr>errno := errno s2\<rparr>"
      using r False sel by (auto simp: write_all_def pth_error_def)
    moreover have "fd_sent fd s2 = fd_sent fd s"
      using s2 m by (auto simp: sends_def fd_view_def fd_sent_def pth_fdmode_def Let_def split: if_splits)
    ultimately show ?thesis
      using True by (auto simp: written_def intro!: exI [of _ 0])
  next
    case sel_ok: False
    obtain c s3 where loop: "write_loop E site call blocked fd m ev_extra n 0 data s2 = Some (c, s3)"
      and c: "c = Ret None \<and> rv = -1 \<and> s' = s3 \<or> c = Ret (Some rv) \<and> s' = restore_mode fd m s3"
      using r False sel sel_ok by (auto simp: write_all_def elim!: bind_SomeE split: ctl.splits option.splits)
    note res = write_loop_result [OF env(1,2) _ loop, simplified write_result_def, simplified]
    from c show ?thesis
    proof
      assume "c = Ret None \<and> rv = -1 \<and> s' = s3"
      with res obtain k s4 where "ev_extra \<noteq> NULL" "sends fd s2 (take k data) s4"
        "s' = (snd (pth_fdmode fd m s4))\<lparr>errno := EINTR\<rparr>" "rv = -1" by auto
      with fdmode_restored [OF m fl, of "take k data" s4] sends_trans [OF s2] show ?thesis
        by (intro writtenI [of _ _ "min k (length data)"]) (auto simp: min_def)
    next
      assume c: "c = Ret (Some rv) \<and> s' = restore_mode fd m s3"
      with res obtain k where "k \<le> length data" "sends fd s2 (take k data) s3"
        "rv = int k \<or> rv = -1 \<and> k = 0" "k < length data \<longrightarrow> refused call (drop k data)" by auto
      with c fdmode_restored [OF m fl, of "take k data" s3] sends_trans [OF s2] show ?thesis
        by (intro writtenI [of _ _ k]) (auto simp: sends_restore)
    qed
  qed
qed


text \<open>The same for \<^verbatim>\<open>pth_sendto_ev\<close>.\<close>

lemma pth_sendto_ev_written:
  assumes "pth_initialized s" "0 \<le> sint (fd_flags s fd)" "data \<noteq> []" "pth_util_fd_valid (fd_open s) fd"
    and env: "writes fd (\<lambda>d. sc_sendto I fd d flags to)" "undisturbed (fd_view fd) (sw E)" "select_keeps fd E"
    and r: "pth_sendto_ev E I fd data flags to ev_extra s = Some (Ret rv, s')"
  shows "written (\<lambda>d. sc_sendto I fd d flags to) fd ev_extra data s rv s'"
proof -
  obtain m s1 where m: "pth_fdmode fd PTH_FDMODE_NONBLOCK s = (m, s1)" by fastforce
  have fl: "fd_flags s fd \<noteq> -1" using assms(4) by (simp add: pth_util_fd_valid_def fd_open_def)
  then have e: "m \<noteq> PTH_FDMODE_ERROR" "pth_util_fd_valid (fd_open s1) fd"
    using m assms(2,4) or_nonblocking by (auto simp: pth_fdmode_def Let_def pth_util_fd_valid_def fd_open_def split: if_splits)
  then have "write_all E ''pth_sendto_ev'' (\<lambda>d. sc_sendto I fd d flags to) (\<lambda>n. n = 0) fd m ev_extra data s1 = Some (Ret rv, s')"
    using assms(1,3,4) r m by (simp add: pth_sendto_ev_def pth_implicit_init_def)
  then show ?thesis
    using write_all_written [OF m e(1) assms(2) env] by blast
qed

text \<open>A system in which every descriptor is ready and takes at most three bytes at a time.\<close>

definition io0 :: io where
  "io0 = \<lparr>sc_read = (\<lambda>_ _ s. ((0, []), s)), sc_readv = (\<lambda>_ _ s. ((0, []), s)), sc_recvfrom = (\<lambda>_ _ _ s. ((0, []), s)),
     sc_write = (\<lambda>_ d s. (min 3 (int (length d)), s)), sc_writev = (\<lambda>_ ds s. (min 3 (int (length (concat ds))), s)),
     sc_sendto = (\<lambda>_ d _ _ s. (min 3 (int (length d)), s)), sc_connect = (\<lambda>_ _ s. (0, s)), sc_accept = (\<lambda>_ s. (7, s)),
     sc_so_error = (\<lambda>_ s. ((0, EOK), s)), sc_lseek = (\<lambda>_ o' _ s. (o', s)), pread_mutex = 1, pwrite_mutex = 2\<rparr>"

definition io_env :: env where
  "io_env = env0\<lparr>os_select := \<lambda>_ fds _ s. (1, fds, s), malloc := \<lambda>_. 9, calloc_ok := \<lambda>_. True\<rparr>"

lemma io0_writes: "writes fd (sc_write io0 fd)" "undisturbed (fd_view fd) (sw io_env)" "select_keeps fd io_env"
  by (simp_all add: writes_def io0_def undisturbed_def io_env_def env0_def select_keeps_def)


section \<open>Writing comes to its end\<close>

text \<open>
  The running thread can wait for the descriptor \<open>fd\<close> at the place \<open>site\<close>: it keeps the event \<open>ev\<close> for that place under
  the static key, the event is in a ring of its own, and no cancellation is due.
\<close>

definition parked :: "string \<Rightarrow> int \<Rightarrow> ptr \<Rightarrow> pth_state \<Rightarrow> bool" where
  "parked site fd ev s \<longleftrightarrow> pth_util_fd_valid (fd_open s) fd \<and> ev \<noteq> NULL \<and>
     (\<exists>c k v e. tcbs s (pth_current s) = Some c \<and> \<not> (t_cancelreq c \<and> flag (t_cancelstate c) PTH_CANCEL_ENABLE) \<and>
        mem_int s (EvKey site) = Some k \<and> key_in_range k \<and> k_used (pth_keytab s (nat k)) \<and>
        t_data_value c = Some v \<and> v (nat k) = ev \<and> evs s ev = Some e \<and> ev_next e = ev \<and> ev_prev e = ev)"

lemma parked_static_event:
  assumes "parked site fd ev s"
  shows "\<exists>e. evs s ev = Some e \<and> static_event E (PTH_EVENT_FD OR PTH_UNTIL_FD_WRITEABLE) site (EvFD fd) s =
    Some (ev, s\<lparr>evs := (evs s)(ev \<mapsto> e\<lparr>ev_prev := ev, ev_next := ev, ev_goal := ucast PTH_UNTIL_FD_WRITEABLE,
      ev_arg := EvFD fd, ev_status := PTH_STATUS_PENDING\<rparr>)\<rparr>)"
proof -
  let ?spec = "(PTH_EVENT_FD OR PTH_UNTIL_FD_WRITEABLE) OR PTH_MODE_STATIC"
  obtain c k v e where p: "pth_util_fd_valid (fd_open s) fd" "ev \<noteq> NULL" "tcbs s (pth_current s) = Some c"
    "mem_int s (EvKey site) = Some k" "key_in_range k" "k_used (pth_keytab s (nat k))"
    "t_data_value c = Some v" "v (nat k) = ev" "evs s ev = Some e"
    using assms by (auto simp: parked_def)
  have k: "k \<noteq> PTH_KEY_INIT" using p(5) by (auto simp: key_in_range_def PTH_KEY_INIT_def)
  have fl: "\<not> flag ?spec PTH_MODE_REUSE" "flag ?spec PTH_MODE_STATIC" "\<not> flag ?spec PTH_MODE_CHAIN" "flag ?spec PTH_EVENT_FD"
    "?spec AND (PTH_UNTIL_FD_READABLE OR PTH_UNTIL_FD_WRITEABLE OR PTH_UNTIL_FD_EXCEPTION) = PTH_UNTIL_FD_WRITEABLE"
    by code_simp+
  have "event_obtain ?spec NULL (EvKey site) (malloc E s) (calloc_ok E s) s = Some (ev, s)"
    using p k fl by (simp add: event_obtain_def pth_key_getdata_def cells)
  then show ?thesis
    using p fl by (cases e) (simp add: static_event_def pth_event_def event_link_def event_init_def event_set_def cells Let_def)
qed

lemma wait_fd_parked:
  assumes p: "parked site fd ev s" and returns: "\<And>s. parked site fd ev s \<Longrightarrow> \<exists>s'. sw E s = Some s' \<and> parked site fd ev s'"
  shows "\<exists>s'. wait_fd E site PTH_UNTIL_FD_WRITEABLE fd NULL s = Some (Ret True, s') \<and> parked site fd ev s'"
proof -
  obtain e where st: "static_event E (PTH_EVENT_FD OR PTH_UNTIL_FD_WRITEABLE) site (EvFD fd) s =
    Some (ev, s\<lparr>evs := (evs s)(ev \<mapsto> e\<lparr>ev_prev := ev, ev_next := ev, ev_goal := ucast PTH_UNTIL_FD_WRITEABLE,
      ev_arg := EvFD fd, ev_status := PTH_STATUS_PENDING\<rparr>)\<rparr>)" (is "_ = Some (ev, ?s1)")
    using parked_static_event [OF p] by blast
  obtain c where c: "tcbs s (pth_current s) = Some c" using p by (auto simp: parked_def)
  define s2 where "s2 = ?s1\<lparr>tcbs := (tcbs s)(pth_current s \<mapsto> c\<lparr>t_events := ev, t_state := PTH_STATE_WAITING\<rparr>)\<rparr>"
  have s2: "parked site fd ev s2"
    using p c by (auto simp: parked_def s2_def fd_open_def pth_util_fd_valid_def)
  then obtain s3 where s3: "sw E s2 = Some s3" "parked site fd ev s3" using returns by blast
  then obtain c3 e3 where c3: "tcbs s3 (pth_current s3) = Some c3" "\<not> (t_cancelreq c3 \<and> flag (t_cancelstate c3) PTH_CANCEL_ENABLE)"
    "evs s3 ev = Some e3" "ev_next e3 = ev" "ev \<noteq> NULL"
    by (auto simp: parked_def)
  have "parked site fd ev (s3\<lparr>tcbs := (tcbs s3)(pth_current s3 \<mapsto> c3\<lparr>t_events := NULL\<rparr>)\<rparr>)"
    using s3(2) c3(1) by (auto simp: parked_def fd_open_def pth_util_fd_valid_def)
  then show ?thesis
    using st c s3(1) c3
    by (simp add: wait_fd_def add_extra_def wait_ring_def pth_wait_def mark_pending.simps count_nonpending.simps
        pth_yield_def pth_cancel_point_def cells Let_def s2_def)
qed

text \<open>
  What the code relies on: the scheduler runs a waiting thread again and keeps what the thread needs for waiting,
  the system takes at least one byte of a non-empty block, and \<^verbatim>\<open>select\<close> does not fail.
\<close>

definition write_ready :: "env \<Rightarrow> io \<Rightarrow> string \<Rightarrow> int \<Rightarrow> ptr \<Rightarrow> bool" where
  "write_ready E I site fd ev \<longleftrightarrow>
     (\<forall>s. parked site fd ev s \<longrightarrow> (\<exists>s'. sw E s = Some s' \<and> parked site fd ev s')) \<and>
     (\<forall>d s. (d \<noteq> [] \<longrightarrow> 0 < fst (sc_write I fd d s)) \<and> (parked site fd ev s \<longrightarrow> parked site fd ev (snd (sc_write I fd d s)))) \<and>
     (\<forall>n fds d s. 0 \<le> fst (os_select E n fds d s) \<and> (parked site fd ev s \<longrightarrow> parked site fd ev (snd (snd (os_select E n fds d s)))))"

lemma write_ready_accepts:
  assumes "write_ready E I site fd ev" "parked site fd ev s" "data \<noteq> []"
  shows "\<exists>m s'. sc_retry (accepting fd (sc_write I fd) data) s = Some ((m, ()), s') \<and> 0 < m \<and> parked site fd ev s'"
proof -
  obtain m s1 where c: "sc_write I fd data s = (m, s1)" by fastforce
  then have m: "0 < m" "parked site fd ev s1"
    using assms unfolding write_ready_def by (metis fst_conv snd_conv)+
  then have "parked site fd ev (s1\<lparr>io_out := io_out s1 @ [(fd, take (nat m) data)]\<rparr>)"
    by (auto simp: parked_def fd_open_def pth_util_fd_valid_def)
  with c m show ?thesis
    by (simp add: sc_retry.simps accepting_def)
qed

lemma write_loop_returns:
  assumes ready: "write_ready E I site fd ev" and W: "writes fd (sc_write I fd)" and "parked site fd ev s" "data \<noteq> []"
  shows "\<exists>v s'. write_loop E site (sc_write I fd) blocked fd m NULL n rv data s = Some (Ret (Some v), s')"
  using assms(3,4)
proof (induction "length data" arbitrary: n rv data s rule: less_induct)
  case less
  have "\<exists>s1. (if blocked n then wait_fd E site PTH_UNTIL_FD_WRITEABLE fd NULL s else Some (Ret True, s)) = Some (Ret True, s1)
      \<and> parked site fd ev s1"
    using wait_fd_parked [OF less.prems(1), of E] ready less.prems(1) unfolding write_ready_def by (auto split: if_splits)
  then obtain s1 where s1: "(if blocked n then wait_fd E site PTH_UNTIL_FD_WRITEABLE fd NULL s else Some (Ret True, s)) = Some (Ret True, s1)"
    "parked site fd ev s1" by blast
  obtain k s2 where k: "sc_retry (accepting fd (sc_write I fd) data) s1 = Some ((k, ()), s2)" "0 < k" "parked site fd ev s2"
    using write_ready_accepts [OF ready s1(2) less.prems(2)] by blast
  show ?case
  proof (cases "k < int (length data)")
    case True
    then have "length (drop (nat k) data) < length data" "drop (nat k) data \<noteq> []"
      using k(2) by auto
    with less.hyps [of "drop (nat k) data" s2 0 "rv + k"] k True s1(1) show ?thesis
      by (subst write_loop.simps) simp
  next
    case False
    with k s1(1) show ?thesis
      by (subst write_loop.simps) simp
  qed
qed


definition io_state :: pth_state where
  "io_state = state0\<lparr>pth_initialized := True, pth_current := 1,
     tcbs := [1 \<mapsto> tcb0\<lparr>t_data_value := Some ((\<lambda>_. NULL)(0 := 9))\<rparr>],
     evs := [9 \<mapsto> ev_self 9 PTH_STATUS_PENDING], mem_int := [EvKey ''pth_write_ev'' \<mapsto> 0],
     pth_keytab := (\<lambda>_. \<lparr>k_used = True, k_destructor = event_destructor_addr\<rparr>), fd_flags := (\<lambda>_. -1)(5 := 2)\<rparr>"


end
