(* ===== verification/Pth_Vector.thy ===== *)
theory Pth_Vector
  imports Pth_Transfer
begin

text \<open>
  Vector writing refines plain writing: \<^verbatim>\<open>pth_writev_ev\<close> does what \<^verbatim>\<open>pth_write_ev\<close> does with the bytes the vector
  points to, one after the other, as long as its temporary array is large enough for the vector. The
  code does not make sure that it is.
\<close>

section \<open>The two loops\<close>

text \<open>What the code relies on of \<^verbatim>\<open>writev\<close>: it writes the blocks in order, like \<^verbatim>\<open>write\<close> of their concatenation.\<close>

definition gathers :: "io \<Rightarrow> int \<Rightarrow> bool" where
  "gathers I fd \<longleftrightarrow> (\<forall>ds s. sc_writev I fd ds s = sc_write I fd (concat ds) s)"

lemma accepting_gathers:
  "gathers I fd \<Longrightarrow> accepting fd (\<lambda>_. sc_writev I fd ds) (concat ds) = accepting fd (sc_write I fd) (concat ds)"
  by (simp add: accepting_def gathers_def fun_eq_iff)

text \<open>The position in the vector stands for the bytes that are left.\<close>

definition left :: "(ptr \<Rightarrow> char) \<Rightarrow> iovec list \<Rightarrow> liov \<times> nat \<times> iovec list \<times> iovec list \<Rightarrow> string \<Rightarrow> bool" where
  "left m iov l data \<longleftrightarrow> (case l of (p, cnt, riov, tiov) \<Rightarrow>
     riov = iov \<and> p \<noteq> LNull \<and> liov_ok p cnt riov tiov \<and> iov_datas m (liov_rest p cnt riov tiov) = data)"

lemma left_data: "left m iov (p, cnt, riov, tiov) data \<Longrightarrow> concat (map (iov_data m) (liov_rest p cnt riov tiov)) = data"
  by (auto simp: left_def iov_datas_def)

lemma left_advance:
  assumes "writes fd call" "left m iov (p, cnt, riov, tiov) data" "sc_retry (accepting fd call data) s1 = Some ((k, u), s2)"
  shows "k \<le> int (length data)" "\<exists>l. pth_writev_iov_advance (nat k) p cnt riov tiov = Some l \<and> left m iov l (drop (nat k) data)"
proof -
  show k: "k \<le> int (length data)"
    using sc_retry_sends [OF assms(1,3)] by simp
  have "nat k \<le> length (iov_datas m (liov_rest p cnt riov tiov))"
    using k assms(2) by (auto simp: left_def)
  then show "\<exists>l. pth_writev_iov_advance (nat k) p cnt riov tiov = Some l \<and> left m iov l (drop (nat k) data)"
    using advance_spec [of p cnt riov tiov "nat k" m] assms(2) by (auto simp: left_def)
qed

lemma writev_loop_write:
  assumes "gathers I fd" "writes fd (sc_write I fd)" "left m iov l data"
    "writev_loop E I m fd fdmode ev_extra n rv (int (length data)) l s = Some r"
  shows "write_loop E ''pth_writev_ev'' (sc_write I fd) (\<lambda>n. n < 1) fd fdmode ev_extra n rv data s = Some r"
proof -
  have "\<forall>data. gathers I fd \<longrightarrow> writes fd (sc_write I fd) \<longrightarrow> left m iov l data \<longrightarrow> nb = int (length data) \<longrightarrow>
      write_loop E ''pth_writev_ev'' (sc_write I fd) (\<lambda>n. n < 1) fd fdmode ev_extra n rv data s = Some r"
    if "writev_loop E I m fd fdmode ev_extra n rv nb l s = Some r" for nb
    using that
  proof (rule writev_loop.raw_induct [where P = "\<lambda>E I m fd fdmode ev_extra n rv nb l s r. \<forall>data. gathers I fd \<longrightarrow>
      writes fd (sc_write I fd) \<longrightarrow> left m iov l data \<longrightarrow> nb = int (length data) \<longrightarrow>
      write_loop E ''pth_writev_ev'' (sc_write I fd) (\<lambda>n. n < 1) fd fdmode ev_extra n rv data s = Some r", rotated], goal_cases)
    case (1 loop E I m fd fdmode ev_extra n rv nb l s r)
    show ?case
    proof (intro allI impI)
      fix data
      assume G: "gathers I fd" and W: "writes fd (sc_write I fd)" and l: "left m iov l data" and nb: "nb = int (length data)"
      obtain p cnt riov tiov where lp: "l = (p, cnt, riov, tiov)" by (cases l)
      note data = left_data [OF l [unfolded lp]]
      obtain c s1 where w: "(if n < 1 then wait_fd E ''pth_writev_ev'' PTH_UNTIL_FD_WRITEABLE fd ev_extra s else Some (Ret True, s)) = Some (c, s1)"
        using 1(2) by (auto elim!: bind_SomeE)
      note body = 1(2) [unfolded w bind.bind_lunit prod.case lp Let_def data accepting_gathers [OF G, of "map (iov_data m) (liov_rest p cnt riov tiov)", unfolded data]]
      consider v where "c = Exit v" | "c = Ret False" | "c = Ret True" by (cases c) auto
      then show "write_loop E ''pth_writev_ev'' (sc_write I fd) (\<lambda>n. n < 1) fd fdmode ev_extra n rv data s = Some r"
      proof cases
        case 3
        obtain k u s2 where k: "sc_retry (accepting fd (sc_write I fd) data) s1 = Some ((k, u), s2)"
          using body 3 by (auto elim!: bind_SomeE)
        note le = left_advance(1) [OF W l [unfolded lp] k]
        obtain l' where "pth_writev_iov_advance (nat k) p cnt riov tiov = Some l'" "left m iov l' (drop (nat k) data)"
          using left_advance(2) [OF W l [unfolded lp] k] by blast
        note l' = this
        show ?thesis
        proof (cases "0 < k \<and> k < int (length data)")
          case True
          then have "loop E I m fd fdmode ev_extra 0 (rv + k) (nb - k) l' s2 = Some r"
            using body 3 k l'(1) nb by simp
          from 1(1) [OF this] have "write_loop E ''pth_writev_ev'' (sc_write I fd) (\<lambda>n. n < 1) fd fdmode ev_extra 0 (rv + k) (drop (nat k) data) s2 = Some r"
            using G W l'(2) nb le True by auto
          then show ?thesis
            using True 3 k w by (subst write_loop.simps) simp
        next
          case False
          then show ?thesis
            using body 3 k w nb by (subst write_loop.simps) auto
        qed
      qed (use body w in \<open>simp_all add: write_loop.simps\<close>)
    qed
  qed
  with assms show ?thesis by blast
qed

lemma write_loop_writev:
  assumes "gathers I fd" "writes fd (sc_write I fd)" "left m iov l data"
    "write_loop E ''pth_writev_ev'' (sc_write I fd) (\<lambda>n. n < 1) fd fdmode ev_extra n rv data s = Some r"
  shows "writev_loop E I m fd fdmode ev_extra n rv (int (length data)) l s = Some r"
proof -
  have "\<forall>l. call = sc_write I fd \<longrightarrow> gathers I fd \<longrightarrow> writes fd (sc_write I fd) \<longrightarrow> site = ''pth_writev_ev'' \<longrightarrow> blocked = (\<lambda>n. n < 1) \<longrightarrow>
      left m iov l data \<longrightarrow> writev_loop E I m fd fdmode ev_extra n rv (int (length data)) l s = Some r"
    if "write_loop E site call blocked fd fdmode ev_extra n rv data s = Some r" for call site blocked
    using that
  proof (rule write_loop.raw_induct [where P = "\<lambda>E site call blocked fd fdmode ev_extra n rv data s r. \<forall>l. call = sc_write I fd \<longrightarrow>
      gathers I fd \<longrightarrow> writes fd (sc_write I fd) \<longrightarrow> site = ''pth_writev_ev'' \<longrightarrow> blocked = (\<lambda>n. n < 1) \<longrightarrow> left m iov l data \<longrightarrow>
      writev_loop E I m fd fdmode ev_extra n rv (int (length data)) l s = Some r", rotated], goal_cases)
    case (1 loop E site call blocked fd fdmode ev_extra n rv data s r)
    show ?case
    proof (intro allI impI)
      fix l
      assume call: "call = sc_write I fd" "site = ''pth_writev_ev''" "blocked = (\<lambda>n. n < 1)"
        and G: "gathers I fd" and W: "writes fd (sc_write I fd)" and l: "left m iov l data"
      obtain p cnt riov tiov where lp: "l = (p, cnt, riov, tiov)" by (cases l)
      note data = left_data [OF l [unfolded lp]]
      note acc = accepting_gathers [OF G, of "map (iov_data m) (liov_rest p cnt riov tiov)", unfolded data]
      obtain c s1 where w: "(if n < 1 then wait_fd E ''pth_writev_ev'' PTH_UNTIL_FD_WRITEABLE fd ev_extra s else Some (Ret True, s)) = Some (c, s1)"
        using 1(2) call by (auto elim!: bind_SomeE)
      note body = 1(2) [unfolded call w bind.bind_lunit prod.case Let_def]
      consider v where "c = Exit v" | "c = Ret False" | "c = Ret True" by (cases c) auto
      then show "writev_loop E I m fd fdmode ev_extra n rv (int (length data)) l s = Some r"
      proof cases
        case 3
        obtain k u s2 where k: "sc_retry (accepting fd (sc_write I fd) data) s1 = Some ((k, u), s2)"
          using body 3 by (auto elim!: bind_SomeE)
        note le = left_advance(1) [OF W l [unfolded lp] k]
        obtain l' where "pth_writev_iov_advance (nat k) p cnt riov tiov = Some l'" "left m iov l' (drop (nat k) data)"
          using left_advance(2) [OF W l [unfolded lp] k] by blast
        note l' = this
        show ?thesis
        proof (cases "0 < k \<and> k < int (length data)")
          case True
          then have "loop E ''pth_writev_ev'' (sc_write I fd) (\<lambda>n. n < 1) fd fdmode ev_extra 0 (rv + k) (drop (nat k) data) s2 = Some r"
            using body 3 k by simp
          moreover have "int (length (drop (nat k) data)) = int (length data) - k"
            using True by auto
          ultimately have "writev_loop E I m fd fdmode ev_extra 0 (rv + k) (int (length data) - k) l' s2 = Some r"
            using 1(1) [rule_format, OF _ refl G W refl refl l'(2)] by metis
          then show ?thesis
            using True 3 k w lp l'(1) by (subst writev_loop.simps) (simp add: data acc)
        next
          case False
          then show ?thesis
            using body 3 k w lp by (subst writev_loop.simps) (auto simp: data acc Let_def)
        qed
      qed (use body w lp in \<open>simp_all add: writev_loop.simps\<close>)
    qed
  qed
  with assms show ?thesis by blast
qed

lemma writev_loop_eq:
  assumes "gathers I fd" "writes fd (sc_write I fd)" "left m iov l data"
  shows "writev_loop E I m fd fdmode ev_extra n rv (int (length data)) l s =
    write_loop E ''pth_writev_ev'' (sc_write I fd) (\<lambda>n. n < 1) fd fdmode ev_extra n rv data s"
  using writev_loop_write [OF assms] write_loop_writev [OF assms] by (metis option.exhaust)

section \<open>Vector writing\<close>

text \<open>
  C17: \<^verbatim>\<open>pth_writev_ev\<close> of a vector with at most 32 elements, or with more than 512 when the allocation succeeds, is the
  writing loop of \<^verbatim>\<open>pth_write_ev\<close> on the bytes the vector points to: with a \<^verbatim>\<open>writev\<close> that writes blocks in order and a
  \<^verbatim>\<open>select\<close> that does not reject its arguments both give the same result and the same state, for every
  sequence of partial writes and every interruption, and either both return or none.
\<close>

theorem pth_writev_ev_gathers:
  assumes "pth_initialized s" "pth_util_fd_valid (fd_open s) fd"
    and iov: "0 < length iov" "length iov \<le> 32 \<or> 512 < length iov \<and> length iov \<le> UIO_MAXIOV \<and> (\<forall>s. malloc E s \<noteq> NULL)"
    and io: "gathers I fd" "writes fd (sc_write I fd)"
    and sel: "\<And>s n fds s'. select_retry E (fd + 1) ({}, {fd}, {}) (Some PTH_TIME_ZERO) s = Some (n, fds, s') \<Longrightarrow> 0 \<le> n"
  shows "pth_writev_ev E I m fd iov ev_extra s =
    (let (fdmode, s1) = pth_fdmode fd PTH_FDMODE_NONBLOCK s
     in write_all E ''pth_writev_ev'' (sc_write I fd) (\<lambda>n. n < 1) fd fdmode ev_extra (iov_datas m iov) s1)"
proof -
  obtain fdmode s1 where mode: "pth_fdmode fd PTH_FDMODE_NONBLOCK s = (fdmode, s1)" by fastforce
  then have ok: "fdmode \<noteq> PTH_FDMODE_ERROR"
    using assms(2) by (auto simp: pth_fdmode_def Let_def pth_util_fd_valid_def fd_open_def split: if_splits)
  have len: "length iov \<le> UIO_MAXIOV" using iov(2) by (auto simp: UIO_MAXIOV_def)
  define t where "t = replicate (if length iov > 512 then UIO_MAXIOV else 32) \<lparr>iov_base = 0, iov_len = 0\<rparr>"
  have start: "pth_writev_iov_advance 0 LNull 0 iov t = Some (LReal 0, length iov, iov, t)"
    by (simp add: pth_writev_iov_advance_def)
  have left: "left m iov (LReal 0, length iov, iov, t) (iov_datas m iov)"
    using iov len by (auto simp: left_def liov_ok_def liov_rest_def t_def)
  have bytes: "pth_writev_iov_bytes iov = length (iov_datas m iov)"
    by (rule iov_bytes_datas)
  have acc: "accepting fd (\<lambda>_. sc_writev I fd (map (iov_data m) iov)) (concat (map (iov_data m) iov)) = accepting fd (sc_write I fd) (iov_datas m iov)"
    using accepting_gathers [OF io(1)] by (simp add: iov_datas_def)
  have alloc: "\<not> (length iov > 512 \<and> malloc E s1 = NULL)" using iov(2) by auto
  show ?thesis
  proof (cases "fdmode = PTH_FDMODE_NONBLOCK")
    case True
    then show ?thesis
      using assms(1,2) iov(1) len mode by (simp add: pth_writev_ev_def pth_implicit_init_def write_all_def acc not_less)
  next
    case False
    have "Option.bind (select_retry E (fd + 1) ({}, {fd}, {}) (Some PTH_TIME_ZERO) s1) (\<lambda>(n, _, s). F n s) =
      Option.bind (select_retry E (fd + 1) ({}, {fd}, {}) (Some PTH_TIME_ZERO) s1)
        (\<lambda>(n, _, s). if n < 0 \<and> (errno s = EINVAL \<or> errno s = EBADF) then X n s else F n s)" for F X :: "int \<Rightarrow> pth_state \<Rightarrow> (int ctl \<times> pth_state) option"
      by (cases "select_retry E (fd + 1) ({}, {fd}, {}) (Some PTH_TIME_ZERO) s1") (auto dest: sel)
    then show ?thesis
      using False ok assms(1,2) iov(1) len mode
      by (simp add: pth_writev_ev_def pth_implicit_init_def write_all_def bytes if_not_P [OF alloc] t_def [symmetric]
          start writev_loop_eq [OF io left])
  qed
qed

lemma io_state_valid: "pth_initialized io_state" "pth_util_fd_valid (fd_open io_state) 5" "\<not> flag (fd_flags io_state 5) O_NONBLOCKING"
  by (simp_all add: io_state_def pth_util_fd_valid_def fd_open_def FD_SETSIZE_def flag_def O_NONBLOCKING_def)

theorem pth_writev_ev_gathers_witness:
  "pth_writev_ev io_env io0 char_of 5 two_elements NULL io_state =
    (let (fdmode, s1) = pth_fdmode 5 PTH_FDMODE_NONBLOCK io_state
     in write_all io_env ''pth_writev_ev'' (sc_write io0 5) (\<lambda>n. n < 1) 5 fdmode NULL (iov_datas char_of two_elements) s1)"
proof -
  have "0 \<le> n" if "select_retry io_env (5 + 1) ({}, {5}, {}) (Some PTH_TIME_ZERO) s = Some (n, fds, s')" for s n fds s'
    using that by (simp add: select_retry.simps io_env_def)
  moreover have "gathers io0 5"
    by (simp add: gathers_def io0_def)
  ultimately show ?thesis
    using pth_writev_ev_gathers [of io_state 5 two_elements io_env io0 char_of NULL] io_state_valid io0_writes(1)
    by (simp add: two_elements_def)
qed

text \<open>
  C18: \<^verbatim>\<open>pth_writev_ev\<close> compares the number of elements with the size of its array of 32 elements in bytes: on a
  blocking descriptor that is ready, a vector of 33 to 512 elements of which the system takes only a part
  makes it write beyond the array.
\<close>

theorem pth_writev_ev_overflow:
  assumes "pth_initialized s" "pth_util_fd_valid (fd_open s) fd" "\<not> flag (fd_flags s fd) O_NONBLOCKING"
    and iov: "32 < length iov" "length iov \<le> 512"
    and sel: "\<And>s. \<exists>n fds s'. os_select E (fd + 1) ({}, {fd}, {}) (Some PTH_TIME_ZERO) s = (n, fds, s') \<and> 1 \<le> n"
    and part: "\<And>s. \<exists>k s'. sc_writev I fd (map (iov_data m) iov) s = (k, s') \<and> 0 < k \<and> k < int (pth_writev_iov_bytes iov)"
  shows "pth_writev_ev E I m fd iov ev_extra s = None"
proof -
  obtain s1 where mode: "pth_fdmode fd PTH_FDMODE_NONBLOCK s = (PTH_FDMODE_BLOCK, s1)"
    using assms(2,3) by (auto simp: pth_fdmode_def Let_def pth_util_fd_valid_def fd_open_def)
  let ?t = "replicate 32 \<lparr>iov_base = 0, iov_len = 0\<rparr>"
  have start: "pth_writev_iov_advance 0 LNull 0 iov ?t = Some (LReal 0, length iov, iov, ?t)"
    by (simp add: pth_writev_iov_advance_def)
  obtain n fds s2 where o: "os_select E (fd + 1) ({}, {fd}, {}) (Some PTH_TIME_ZERO) s1 = (n, fds, s2)" "1 \<le> n"
    using sel by blast
  obtain k s3 where k: "sc_writev I fd (map (iov_data m) iov) s2 = (k, s3)" "0 < k" "k < int (pth_writev_iov_bytes iov)"
    using part by blast
  have copy: "tiov_copy iov 0 ?t = None"
    using iov(1) tiov_copy_short [of ?t 0 iov] by simp
  then have "pth_writev_iov_advance (nat k) (LReal 0) (length iov) iov ?t = None"
    using k(2) by (simp add: pth_writev_iov_advance_def)
  then have "writev_loop E I m fd PTH_FDMODE_BLOCK ev_extra n 0 (int (pth_writev_iov_bytes iov)) (LReal 0, length iov, iov, ?t) s2 = None"
    using o(2) k by (subst writev_loop.simps) (simp add: liov_rest_def sc_retry.simps accepting_def)
  moreover have "iov \<noteq> []" using iov(1) by auto
  ultimately show ?thesis
    using assms(1,2) iov mode start o
    by (simp add: pth_writev_ev_def pth_implicit_init_def UIO_MAXIOV_def select_retry.simps)
qed

definition many_elements :: "iovec list" where
  "many_elements = replicate 33 \<lparr>iov_base = 10, iov_len = 4\<rparr>"

theorem pth_writev_ev_overflow_witness:
  "pth_writev_ev io_env io0 char_of 5 many_elements NULL io_state = None"
proof (rule pth_writev_ev_overflow)
  show "\<exists>n fds s'. os_select io_env (5 + 1) ({}, {5}, {}) (Some PTH_TIME_ZERO) s = (n, fds, s') \<and> 1 \<le> n" for s
    by (simp add: io_env_def)
  have "length (concat (map (iov_data char_of) many_elements)) = 132" "pth_writev_iov_bytes many_elements = 132"
    by (simp_all add: many_elements_def pth_writev_iov_bytes_def length_concat numeral_eq_Suc)
  then show "\<exists>k s'. sc_writev io0 5 (map (iov_data char_of) many_elements) s = (k, s') \<and> 0 < k \<and> k < int (pth_writev_iov_bytes many_elements)" for s
    by (simp add: io0_def)
qed (simp_all add: io_state_valid many_elements_def)

end
