(* ===== verification/Pth_High.thy ===== *)
theory Pth_High
  imports Pth_IO
begin

text \<open>
  The remaining functions of \<^verbatim>\<open>pth_high.c\<close>: sleeping, waiting for signals and processes, running a shell command, and
  \<^verbatim>\<open>select\<close> and \<^verbatim>\<open>poll\<close> for threads. As in \<open>Pth_IO\<close> system calls are parameters; a local variable whose address the
  code hands out has that address as a parameter. Results stored through a pointer to a local
  structure of the caller are returned.
\<close>

datatype how = SIG_BLOCK | SIG_UNBLOCK | SIG_SETMASK

record hio = io +
  sc_waitpid :: "int \<Rightarrow> 32 word \<Rightarrow> pth_state \<Rightarrow> (int \<times> int) \<times> pth_state"
  sc_sigprocmask :: "how \<Rightarrow> sigset option \<Rightarrow> pth_state \<Rightarrow> (int \<times> sigset) \<times> pth_state"
  sc_sigaction :: "nat \<Rightarrow> ptr \<Rightarrow> pth_state \<Rightarrow> ptr \<times> pth_state"
  sc_stat_binsh :: "pth_state \<Rightarrow> int"
  sc_execl :: "string \<Rightarrow> pth_state \<Rightarrow> bool"
  sc_peek :: "int \<Rightarrow> pth_state \<Rightarrow> int \<times> pth_state"
  select_rc :: "pth_state \<Rightarrow> ptr"
  poll_sets :: "pth_state \<Rightarrow> ptr \<times> ptr \<times> ptr"
  pstat_addr :: "pth_state \<Rightarrow> ptr"

section \<open>Sleeping\<close>

record timespec =
  ts_sec :: int
  ts_nsec :: int

text \<open>
  The common end: wait for the event of the time \<open>until\<close>. The result is whether there was an event to wait for.
\<close>

definition sleep_until :: "env \<Rightarrow> string \<Rightarrow> pth_time_t \<Rightarrow> pth_state \<Rightarrow> (bool ctl \<times> pth_state) option" where
  "sleep_until E site until s = do {
     (ev, s) \<leftarrow> static_event E PTH_EVENT_TIME site (EvTIME until) s;
     if ev = NULL then Some (Ret False, s)
     else do {
       (c, s) \<leftarrow> pth_wait (sw E) ev s;
       case c of Exit v \<Rightarrow> Some (Exit v, s) | Ret _ \<Rightarrow> Some (Ret True, s) } }"

text \<open>The second result is the time left, which is stored if \<open>want_rest\<close>: the argument \<^verbatim>\<open>rmtp\<close> is not \<^verbatim>\<open>NULL\<close>.\<close>

definition pth_nanosleep :: "env \<Rightarrow> timespec option \<Rightarrow> bool \<Rightarrow> pth_state \<Rightarrow> ((int \<times> timespec option) ctl \<times> pth_state) option" where
  "pth_nanosleep E rqtp want_rest s = (case rqtp of
     None \<Rightarrow> Some (pth_error (Ret (-1, None)) EFAULT s)
   | Some rq \<Rightarrow>
       if ts_nsec rq < 0 \<or> ts_nsec rq > 1000 * 1000000 then Some (pth_error (Ret (-1, None)) EINVAL s)
       else if ts_sec rq = 0 \<and> ts_nsec rq = 0 then Some (Ret (0, None), s)
       else do {
         let offset = pth_time (ts_sec rq) (ts_nsec rq div 1000);
         let until = pth_time_add (now E s) offset;
         (c, s) \<leftarrow> sleep_until E ''pth_nanosleep'' until s;
         case c of
           Exit v \<Rightarrow> Some (Exit v, s)
         | Ret ok \<Rightarrow>
             if \<not> ok then Some (pth_error (Ret (-1, None)) (errno s) s)
             else if want_rest then
               (let rest = pth_time_sub until (now E s)
                in Some (Ret (0, Some \<lparr>ts_sec = tv_sec rest, ts_nsec = tv_usec rest * 1000\<rparr>), s))
             else Some (Ret (0, None), s) })"

definition pth_usleep :: "env \<Rightarrow> 32 word \<Rightarrow> pth_state \<Rightarrow> (int ctl \<times> pth_state) option" where
  "pth_usleep E usec s =
     (if usec = 0 then Some (Ret 0, s)
      else do {
        let offset = pth_time (uint (usec div 1000000)) (uint (usec mod 1000000));
        let until = pth_time_add (now E s) offset;
        (c, s) \<leftarrow> sleep_until E ''pth_usleep'' until s;
        case c of
          Exit v \<Rightarrow> Some (Exit v, s)
        | Ret ok \<Rightarrow> if \<not> ok then Some (pth_error (Ret (-1)) (errno s) s) else Some (Ret 0, s) })"

definition pth_sleep :: "env \<Rightarrow> 32 word \<Rightarrow> pth_state \<Rightarrow> (32 word ctl \<times> pth_state) option" where
  "pth_sleep E sec s =
     (if sec = 0 then Some (Ret 0, s)
      else do {
        let offset = pth_time (uint sec) 0;
        let until = pth_time_add (now E s) offset;
        (c, s) \<leftarrow> sleep_until E ''pth_sleep'' until s;
        case c of
          Exit v \<Rightarrow> Some (Exit v, s)
        | Ret ok \<Rightarrow> if \<not> ok then Some (Ret sec, s) else Some (Ret 0, s) })"

section \<open>Signals\<close>

text \<open>
  The first call is meant to change the copy of the mask the scheduler uses; it applies that copy to the
  mask of the process instead. The results are that of the second call and the old mask.
\<close>

definition pth_sigmask :: "hio \<Rightarrow> how \<Rightarrow> sigset option \<Rightarrow> pth_state \<Rightarrow> ((int \<times> sigset) \<times> pth_state) option" where
  "pth_sigmask I how sset s = do {
     s \<leftarrow> (if sset \<noteq> None then do {
             sigs \<leftarrow> t_get t_mctx_sigs (pth_current s) s;
             Some (snd (sc_sigprocmask I how (Some sigs) s)) }
           else Some s);
     Some (sc_sigprocmask I how sset s) }"

definition pth_sigwait_ev :: "env \<Rightarrow> ptr \<Rightarrow> intref \<Rightarrow> ptr \<Rightarrow> pth_state \<Rightarrow> (errcode ctl \<times> pth_state) option" where
  "pth_sigwait_ev E sset sigp ev_extra s =
     (if sset = NULL \<or> sigp = NullInt then Some (pth_error (Ret EINVAL) EINVAL s)
      else do {
        sigs \<leftarrow> mem_sigset s sset;
        case List.find (\<lambda>sig. sig \<in> sigs \<and> sig \<in> os_sigpending s) [1..<PTH_NSIG] of
          Some sig \<Rightarrow> do {
            let s = snd (pth_util_sigdelete (sigaction_ok E sig) sig s);
            s \<leftarrow> int_set sigp (int sig) s;
            Some (Ret EOK, s) }
        | None \<Rightarrow> do {
            (ev, s) \<leftarrow> static_event E PTH_EVENT_SIGS ''pth_sigwait_ev'' (EvSIGS sset sigp) s;
            if ev = NULL then Some (pth_error (Ret (errno s)) (errno s) s)
            else do {
              s \<leftarrow> add_extra ev ev_extra s;
              (c, s) \<leftarrow> wait_ring E ev ev_extra s;
              case c of
                Exit v \<Rightarrow> Some (Exit v, s)
              | Ret ok \<Rightarrow> if \<not> ok then Some (pth_error (Ret EINTR) EINTR s) else Some (Ret EOK, s) } } })"

definition pth_sigwait :: "env \<Rightarrow> ptr \<Rightarrow> intref \<Rightarrow> pth_state \<Rightarrow> (errcode ctl \<times> pth_state) option" where
  "pth_sigwait E sset sigp s = pth_sigwait_ev E sset sigp NULL s"

section \<open>Processes\<close>

definition WNOHANG :: "32 word" where "WNOHANG = 1"

text \<open>The call \<^verbatim>\<open>waitpid\<close> stores the status through its pointer when it has found a process.\<close>

definition store_status :: "intref \<Rightarrow> int \<Rightarrow> int \<Rightarrow> pth_state \<Rightarrow> pth_state option" where
  "store_status status pid st s = (if pid > 0 \<and> status \<noteq> NullInt then int_set status st s else Some s)"

partial_function (option) pth_waitpid :: "env \<Rightarrow> hio \<Rightarrow> int \<Rightarrow> intref \<Rightarrow> 32 word \<Rightarrow> pth_state \<Rightarrow> (int ctl \<times> pth_state) option" where
  "pth_waitpid E I wpid status options s =
     Option.bind (sc_retry (sc_waitpid I wpid (options OR WNOHANG)) s) (\<lambda>((pid, st), s).
     Option.bind (store_status status pid st s) (\<lambda>s.
     if pid = -1 \<or> pid > 0 \<or> (pid = 0 \<and> flag options WNOHANG) then Some (Ret pid, s)
     else
       Option.bind (static_event E PTH_EVENT_TIME ''pth_waitpid'' (EvTIME (pth_timeout (now E s) 0 250000)) s) (\<lambda>(ev, s).
       Option.bind (pth_wait (sw E) ev s) (\<lambda>(c, s).
       case c of Exit v \<Rightarrow> Some (Exit v, s) | Ret _ \<Rightarrow> pth_waitpid E I wpid status options s))))"

text \<open>How \<^verbatim>\<open>pth_system\<close> ends: with a result, or in the child process by running the shell or by an exit.\<close>

datatype system_end = Status int | Replaced string | Terminated int

definition SIG_IGN :: ptr where "SIG_IGN = 1"
definition SIGINT :: nat where "SIGINT = 2"
definition SIGQUIT :: nat where "SIGQUIT = 3"
definition SIGCHLD :: nat where "SIGCHLD = 17"

definition system_restore :: "hio \<Rightarrow> ptr \<Rightarrow> ptr \<Rightarrow> sigset \<Rightarrow> pth_state \<Rightarrow> pth_state" where
  "system_restore I sa_int sa_quit ss_old s =
     (let s = snd (sc_sigaction I SIGINT sa_int s); s = snd (sc_sigaction I SIGQUIT sa_quit s)
      in snd (sc_sigprocmask I SIG_SETMASK (Some ss_old) s))"

definition pth_system :: "env \<Rightarrow> hio \<Rightarrow> string option \<Rightarrow> pth_state \<Rightarrow> (system_end ctl \<times> pth_state) option" where
  "pth_system E I cmd s = (case cmd of
     None \<Rightarrow> Some (Ret (Status (if sc_stat_binsh I s = -1 then 0 else 1)), s)
   | Some c \<Rightarrow> do {
       let (sa_int, s) = sc_sigaction I SIGINT SIG_IGN s;
       let (sa_quit, s) = sc_sigaction I SIGQUIT SIG_IGN s;
       let ((_, ss_old), s) = sc_sigprocmask I SIG_BLOCK (Some {SIGCHLD}) s;
       let pstat = IntAt (pstat_addr I s);
       let s = s\<lparr>mem_int := (mem_int s)(pstat \<mapsto> -1)\<rparr>;
       (pid, s) \<leftarrow> pth_fork E s;
       if pid = 0 then do {
         let s = system_restore I sa_int sa_quit ss_old s;
         s \<leftarrow> pth_scheduler_kill E s;
         Some (Ret (if sc_execl I c s then Replaced c else Terminated 127), s) }
       else do {
         (r, s) \<leftarrow> (if pid = -1 then Some (Ret pid, s) else pth_waitpid E I pid pstat 0 s);
         case r of
           Exit v \<Rightarrow> Some (Exit v, s)
         | Ret pid \<Rightarrow> do {
             let s = system_restore I sa_int sa_quit ss_old s;
             st \<leftarrow> mem_int s pstat;
             Some (Ret (Status (if pid = -1 then -1 else st)), s) } } })"

section \<open>Selecting\<close>

definition FULL_MONTH :: int where "FULL_MONTH = 31 * 24 * 60 * 60"

definition store_set :: "ptr \<Rightarrow> fd_set \<Rightarrow> pth_state \<Rightarrow> pth_state option" where
  "store_set p fds s =
     (if p = NULL then Some s else if p \<in> dom (mem_fdset s) then Some (s\<lparr>mem_fdset := (mem_fdset s)(p \<mapsto> fds)\<rparr>) else None)"

definition store_sets :: "ptr \<times> ptr \<times> ptr \<Rightarrow> fd_sets \<Rightarrow> pth_state \<Rightarrow> pth_state option" where
  "store_sets ps fds s = (case ps of (rp, wp, ep) \<Rightarrow> case fds of (r, w, x) \<Rightarrow> do {
     s \<leftarrow> store_set rp r s; s \<leftarrow> store_set wp w s; store_set ep x s })"

text \<open>Local variables come into being with their value.\<close>

definition local_sets :: "ptr \<times> ptr \<times> ptr \<Rightarrow> fd_sets \<Rightarrow> pth_state \<Rightarrow> pth_state" where
  "local_sets ps fds s = (case ps of (rp, wp, ep) \<Rightarrow> case fds of (r, w, x) \<Rightarrow>
     s\<lparr>mem_fdset := (mem_fdset s)(rp \<mapsto> r, wp \<mapsto> w, ep \<mapsto> x)\<rparr>)"

definition load_sets :: "ptr \<times> ptr \<times> ptr \<Rightarrow> pth_state \<Rightarrow> fd_sets option" where
  "load_sets ps s = (case ps of (rp, wp, ep) \<Rightarrow> do {
     r \<leftarrow> copy_set rp s; w \<leftarrow> copy_set wp s; x \<leftarrow> copy_set ep s; Some (r, w, x) })"

text \<open>The special situation of a plain delay.\<close>

definition select_delay :: "env \<Rightarrow> pth_time_t \<Rightarrow> ptr \<Rightarrow> pth_state \<Rightarrow> (int ctl \<times> pth_state) option" where
  "select_delay E timeout ev_extra s =
     (if tv_sec timeout = 0 \<and> tv_usec timeout \<le> 10000 then do {
        (_, _, s) \<leftarrow> select_retry E 0 ({}, {}, {}) (Some timeout) s;
        Some (Ret 0, s) }
      else do {
        (ev, s) \<leftarrow> static_event E PTH_EVENT_TIME ''pth_select_ev timeout''
                     (EvTIME (pth_timeout (now E s) (tv_sec timeout) (tv_usec timeout))) s;
        s \<leftarrow> add_extra ev ev_extra s;
        (c, s) \<leftarrow> wait_ring E ev ev_extra s;
        case c of
          Exit v \<Rightarrow> Some (Exit v, s)
        | Ret ok \<Rightarrow> if \<not> ok then Some (pth_error (Ret (-1)) EINTR s) else Some (Ret 0, s) })"

text \<open>
  Waiting through the scheduler. The local variable \<^verbatim>\<open>rc\<close>, which the scheduler stores the result in, is at
  \<open>select_rc\<close>.
\<close>

definition select_wait :: "env \<Rightarrow> hio \<Rightarrow> int \<Rightarrow> ptr \<times> ptr \<times> ptr \<Rightarrow> pth_time_t option \<Rightarrow> ptr \<Rightarrow> pth_state
    \<Rightarrow> (int ctl \<times> pth_state) option" where
  "select_wait E I nfd ps timeout ev_extra s = (case ps of (rp, wp, ep) \<Rightarrow> do {
     let rc = IntAt (select_rc I s);
     let s = s\<lparr>mem_int := (mem_int s)(rc \<mapsto> -1)\<rparr>;
     (ev_select, s) \<leftarrow> static_event E PTH_EVENT_SELECT ''pth_select_ev select'' (EvSELECT rc nfd rp wp ep) s;
     (ev_timeout, s) \<leftarrow> (case timeout of
         None \<Rightarrow> Some (NULL, s)
       | Some t \<Rightarrow> do {
           (ev, s) \<leftarrow> static_event E PTH_EVENT_TIME ''pth_select_ev timeout''
                        (EvTIME (pth_timeout (now E s) (tv_sec t) (tv_usec t))) s;
           (_, s) \<leftarrow> pth_event_concat ev_select [ev] s;
           Some (ev, s) });
     s \<leftarrow> add_extra ev_select ev_extra s;
     (c, s) \<leftarrow> pth_wait (sw E) ev_select s;
     case c of
       Exit v \<Rightarrow> Some (Exit v, s)
     | Ret _ \<Rightarrow> do {
         s \<leftarrow> (if ev_extra \<noteq> NULL then map_option snd (pth_event_isolate ev_extra s) else Some s);
         s \<leftarrow> (if timeout \<noteq> None then map_option snd (pth_event_isolate ev_timeout s) else Some s);
         (st, s) \<leftarrow> pth_event_status ev_select s;
         if st = PTH_STATUS_FAILED then Some (pth_error (Ret (-1)) EBADF s)
         else do {
           (st, s) \<leftarrow> pth_event_status ev_select s;
           (elapsed, s) \<leftarrow> (if timeout \<noteq> None then do {
               (st, s) \<leftarrow> pth_event_status ev_timeout s; Some (st = PTH_STATUS_OCCURRED, s) }
             else Some (False, s));
           s \<leftarrow> (if elapsed then do { s \<leftarrow> store_sets ps ({}, {}, {}) s; int_set rc 0 s } else Some s);
           if ev_extra \<noteq> NULL \<and> \<not> (st = PTH_STATUS_OCCURRED \<or> elapsed) then Some (pth_error (Ret (-1)) EINTR s)
           else do { n \<leftarrow> mem_int s rc; Some (Ret n, s) } } } })"

text \<open>The second result is the timeout of the caller, which the function cuts to a month.\<close>

definition pth_select_ev :: "env \<Rightarrow> hio \<Rightarrow> int \<Rightarrow> ptr \<times> ptr \<times> ptr \<Rightarrow> pth_time_t option \<Rightarrow> ptr \<Rightarrow> pth_state
    \<Rightarrow> ((int \<times> pth_time_t option) ctl \<times> pth_state) option" where
  "pth_select_ev E I nfd ps timeout ev_extra s = do {
     s \<leftarrow> pth_implicit_init E s;
     if nfd > FD_SETSIZE then Some (pth_error (Ret (-1, timeout)) EINVAL s)
     else if (case timeout of None \<Rightarrow> False | Some t \<Rightarrow> tv_sec t < 0 \<or> tv_usec t < 0 \<or> tv_usec t \<ge> 1000000) then
       Some (pth_error (Ret (-1, timeout)) EINVAL s)
     else do {
       let timeout = map_option (\<lambda>t. if tv_sec t > FULL_MONTH then t\<lparr>tv_sec := FULL_MONTH\<rparr> else t) timeout;
       (c, s) \<leftarrow> (if nfd = 0 \<and> ps = (NULL, NULL, NULL) \<and> timeout \<noteq> None then select_delay E (the timeout) ev_extra s
         else do {
           fds \<leftarrow> load_sets ps s;
           (rc, spare, s) \<leftarrow> select_retry E nfd fds (Some PTH_TIME_ZERO) s;
           if rc < 0 then Some (pth_error (Ret (-1)) (errno s) s)
           else if rc > 0 \<or> rc = 0 \<and> timeout \<noteq> None \<and> pth_time_cmp (the timeout) PTH_TIME_ZERO = 0 then do {
             s \<leftarrow> store_sets ps spare s;
             Some (Ret rc, s) }
           else select_wait E I nfd ps timeout ev_extra s });
       Some (case c of Exit v \<Rightarrow> Exit v | Ret rc \<Rightarrow> Ret (rc, timeout), s) } }"

definition pth_select :: "env \<Rightarrow> hio \<Rightarrow> int \<Rightarrow> ptr \<times> ptr \<times> ptr \<Rightarrow> pth_time_t option \<Rightarrow> pth_state
    \<Rightarrow> ((int \<times> pth_time_t option) ctl \<times> pth_state) option" where
  "pth_select E I nfd ps timeout s = pth_select_ev E I nfd ps timeout NULL s"

definition pth_pselect :: "env \<Rightarrow> hio \<Rightarrow> int \<Rightarrow> ptr \<times> ptr \<times> ptr \<Rightarrow> timespec option \<Rightarrow> sigset option \<Rightarrow> pth_state
    \<Rightarrow> (int ctl \<times> pth_state) option" where
  "pth_pselect E I nfds ps ts smask s = do {
     let tvp = map_option (\<lambda>t. \<lparr>tv_sec = ts_sec t, tv_usec = ts_nsec t sdiv 1000\<rparr>) ts;
     let ((rc, omask), s) = (if smask \<noteq> None then sc_sigprocmask I SIG_SETMASK smask s else ((0, {}), s));
     if rc < 0 then Some (pth_error (Ret (-1)) (errno s) s)
     else do {
       (c, s) \<leftarrow> pth_select E I nfds ps tvp s;
       case c of
         Exit v \<Rightarrow> Some (Exit v, s)
       | Ret (rv, _) \<Rightarrow>
           Some (Ret rv, if smask \<noteq> None then (snd (sc_sigprocmask I SIG_SETMASK (Some omask) s))\<lparr>errno := errno s\<rparr> else s) } }"

section \<open>Polling\<close>

record pollfd =
  pf_fd :: int
  pf_events :: "16 word"
  pf_revents :: "16 word"

definition POLLIN :: "16 word" where "POLLIN = 0x001"
definition POLLPRI :: "16 word" where "POLLPRI = 0x002"
definition POLLOUT :: "16 word" where "POLLOUT = 0x004"
definition POLLHUP :: "16 word" where "POLLHUP = 0x010"
definition POLLNVAL :: "16 word" where "POLLNVAL = 0x020"
definition POLLRDNORM :: "16 word" where "POLLRDNORM = 0x040"
definition POLLRDBAND :: "16 word" where "POLLRDBAND = 0x080"
definition POLLWRNORM :: "16 word" where "POLLWRNORM = 0x100"
definition POLLWRBAND :: "16 word" where "POLLWRBAND = 0x200"
definition INFTIM :: int where "INFTIM = -1"

definition POLL_ALL :: "16 word" where
  "POLL_ALL = POLLIN OR POLLOUT OR POLLPRI OR POLLRDNORM OR POLLRDBAND OR POLLWRNORM OR POLLWRBAND"

text \<open>\<^verbatim>\<open>FD_SET\<close> and \<^verbatim>\<open>FD_ISSET\<close> are defined for the descriptors that have a bit in the set.\<close>

definition fd_set_bit :: "int \<Rightarrow> fd_set \<Rightarrow> fd_set option" where
  "fd_set_bit fd fds = (if 0 \<le> fd \<and> fd < FD_SETSIZE then Some (insert fd fds) else None)"

definition fd_isset :: "int \<Rightarrow> fd_set \<Rightarrow> bool option" where
  "fd_isset fd fds = (if 0 \<le> fd \<and> fd < FD_SETSIZE then Some (fd \<in> fds) else None)"

text \<open>The first loop: the sets to select on, the invalid descriptors, and the largest descriptor.\<close>

fun poll_collect :: "(int \<Rightarrow> bool) \<Rightarrow> pollfd list \<Rightarrow> fd_sets \<times> fd_set \<times> int \<Rightarrow> (fd_sets \<times> fd_set \<times> int) option" where
  "poll_collect is_open [] acc = Some acc"
| "poll_collect is_open (p # ps) ((rfds, wfds, efds), xfds, maxfd) =
     (if \<not> pth_util_fd_valid is_open (pf_fd p) then do {
        xfds \<leftarrow> fd_set_bit (pf_fd p) xfds;
        poll_collect is_open ps ((rfds, wfds, efds), xfds, maxfd) }
      else do {
        rfds \<leftarrow> (if flag (pf_events p) (POLLIN OR POLLRDNORM) then fd_set_bit (pf_fd p) rfds else Some rfds);
        wfds \<leftarrow> (if flag (pf_events p) (POLLOUT OR POLLWRNORM OR POLLWRBAND) then fd_set_bit (pf_fd p) wfds else Some wfds);
        efds \<leftarrow> (if flag (pf_events p) (POLLPRI OR POLLRDBAND) then fd_set_bit (pf_fd p) efds else Some efds);
        poll_collect is_open ps ((rfds, wfds, efds), xfds,
          if pf_fd p \<ge> maxfd \<and> flag (pf_events p) POLL_ALL then pf_fd p else maxfd) })"

definition revents_if :: "16 word \<Rightarrow> 16 word list \<Rightarrow> 16 word" where
  "revents_if events fs = foldl (\<lambda>r f. if flag events f then r OR f else r) 0 fs"

definition hung_up :: "errcode \<Rightarrow> bool" where
  "hung_up e \<longleftrightarrow> e \<in> {EOTHER 108, EOTHER 104, EOTHER 103, EOTHER 102}"

text \<open>The second loop for one entry: its new \<^verbatim>\<open>revents\<close> and whether it counts.\<close>

definition poll_entry :: "hio \<Rightarrow> fd_sets \<Rightarrow> fd_set \<Rightarrow> int \<Rightarrow> pollfd \<Rightarrow> pth_state \<Rightarrow> ((16 word \<times> nat) \<times> pth_state) option" where
  "poll_entry I fds xfds maxfd p s = (case fds of (rfds, wfds, efds) \<Rightarrow> do {
     x \<leftarrow> fd_isset (pf_fd p) xfds;
     if x then Some (if pf_fd p \<ge> 0 then ((POLLNVAL, 1), s) else ((0, 0), s))
     else if maxfd = -1 then Some ((0, 0), s)
     else if pf_fd p \<in> rfds then do {
       let r = revents_if (pf_events p) [POLLIN, POLLRDNORM];
       let (rc, s) = sc_peek I (pf_fd p) s;
       Some ((if rc = -1 \<and> hung_up (errno s) then (r AND NOT POLLIN AND NOT POLLRDNORM) OR POLLHUP else r, 1), s) }
     else if pf_fd p \<in> wfds then Some ((revents_if (pf_events p) [POLLOUT, POLLWRNORM, POLLWRBAND], 1), s)
     else if pf_fd p \<in> efds then Some ((revents_if (pf_events p) [POLLPRI, POLLRDBAND], 1), s)
     else Some ((0, 0), s) })"

primrec poll_results :: "hio \<Rightarrow> fd_sets \<Rightarrow> fd_set \<Rightarrow> int \<Rightarrow> pollfd list \<Rightarrow> pth_state \<Rightarrow> ((nat \<times> pollfd list) \<times> pth_state) option" where
  "poll_results I fds xfds maxfd [] s = Some ((0, []), s)"
| "poll_results I fds xfds maxfd (p # ps) s = do {
     ((r, k), s) \<leftarrow> poll_entry I fds xfds maxfd p s;
     ((n, ps), s) \<leftarrow> poll_results I fds xfds maxfd ps s;
     Some ((k + n, p\<lparr>pf_revents := r\<rparr> # ps), s) }"

text \<open>The second result is the array of the caller. The three sets are local variables at \<open>poll_sets\<close>.\<close>

definition pth_poll_ev :: "env \<Rightarrow> hio \<Rightarrow> pollfd list option \<Rightarrow> int \<Rightarrow> ptr \<Rightarrow> pth_state
    \<Rightarrow> ((int \<times> pollfd list) ctl \<times> pth_state) option" where
  "pth_poll_ev E I pfd timeout ev_extra s = do {
     s \<leftarrow> pth_implicit_init E s;
     case pfd of
       None \<Rightarrow> Some (pth_error (Ret (-1, [])) EFAULT s)
     | Some ps \<Rightarrow>
         if int (length ps) > FD_SETSIZE then Some (pth_error (Ret (-1, ps)) EINVAL s)
         else if timeout < 0 \<and> timeout \<noteq> INFTIM then Some (pth_error (Ret (-1, ps)) EINVAL s)
         else do {
           let ptv = (if timeout = 0 then Some PTH_TIME_ZERO
                      else if timeout = INFTIM then None
                      else Some \<lparr>tv_sec = timeout div 1000, tv_usec = (timeout mod 1000) * 1000\<rparr>);
           (fds, xfds, maxfd) \<leftarrow> poll_collect (fd_open s) ps (({}, {}, {}), {}, -1);
           if maxfd \<noteq> -1 then do {
             let sets = poll_sets I s;
             let s = local_sets sets fds s;
             (c, s) \<leftarrow> pth_select_ev E I (maxfd + 1) sets ptv ev_extra s;
             case c of
               Exit v \<Rightarrow> Some (Exit v, s)
             | Ret (rc, _) \<Rightarrow>
                 if rc < 0 then Some (pth_error (Ret (-1, ps)) (errno s) s)
                 else if rc = 0 then Some (Ret (0, ps), s)
                 else do {
                   fds \<leftarrow> load_sets sets s;
                   ((n, ps), s) \<leftarrow> poll_results I fds xfds maxfd ps s;
                   Some (Ret (int n, ps), s) } }
           else do {
             ((n, ps), s) \<leftarrow> poll_results I fds xfds maxfd ps s;
             Some (Ret (int n, ps), s) } } }"

definition pth_poll :: "env \<Rightarrow> hio \<Rightarrow> pollfd list option \<Rightarrow> int \<Rightarrow> pth_state \<Rightarrow> ((int \<times> pollfd list) ctl \<times> pth_state) option" where
  "pth_poll E I pfd timeout s = pth_poll_ev E I pfd timeout NULL s"

end
