(* ===== verification/Pth_Poll.thy ===== *)
theory Pth_Poll
  imports Pth_High Pth_Transfer
begin

text \<open>
  Properties of the functions of \<open>Pth_High\<close>: what \<^verbatim>\<open>pth_poll_ev\<close> reports and where it is undefined, the deadlines
  of the sleeping functions, what \<^verbatim>\<open>pth_waitpid\<close> returns, and what \<^verbatim>\<open>pth_system\<close> does when no process can be created.
\<close>

section \<open>The bits of a poll entry\<close>

lemma flag_power:
  fixes e :: "16 word"
  shows "(if flag e (push_bit n 1) then r OR push_bit n 1 else r) = r OR (e AND push_bit n 1)"
proof -
  have "e AND push_bit n 1 = (if bit e n then push_bit n 1 else 0)"
    by (rule bit_eqI) (auto simp: bit_simps bit_1_iff)
  then show ?thesis
    by (simp add: flag_def)
qed

lemma poll_flags:
  "POLLIN = push_bit 0 1" "POLLPRI = push_bit 1 1" "POLLOUT = push_bit 2 1" "POLLRDNORM = push_bit 6 1"
  "POLLRDBAND = push_bit 7 1" "POLLWRNORM = push_bit 8 1" "POLLWRBAND = push_bit 9 1"
  by (simp_all add: POLLIN_def POLLPRI_def POLLOUT_def POLLRDNORM_def POLLRDBAND_def POLLWRNORM_def POLLWRBAND_def)

lemma revents_if_and:
  "revents_if e [POLLIN, POLLRDNORM] = e AND (POLLIN OR POLLRDNORM)"
  "revents_if e [POLLOUT, POLLWRNORM, POLLWRBAND] = e AND (POLLOUT OR POLLWRNORM OR POLLWRBAND)"
  "revents_if e [POLLPRI, POLLRDBAND] = e AND (POLLPRI OR POLLRDBAND)"
  unfolding revents_if_def foldl.simps poll_flags flag_power
  by (simp_all only: bit.conj_disj_distrib or.assoc or.left_neutral)

lemma revents_hup: "((e AND (POLLIN OR POLLRDNORM)) AND NOT POLLIN AND NOT POLLRDNORM) OR POLLHUP = POLLHUP"
  by (rule bit_eqI) (auto simp: bit_simps)

section \<open>Collecting the descriptors\<close>

lemma poll_collect_undefined:
  assumes "p \<in> set ps" "pf_fd p < 0 \<or> FD_SETSIZE \<le> pf_fd p"
  shows "poll_collect is_open ps acc = None"
  using assms
proof (induction is_open ps acc rule: poll_collect.induct)
  case (2 is_open q ps rfds wfds efds xfds maxfd)
  then show ?case
    by (auto simp: pth_util_fd_valid_def fd_set_bit_def elim!: bind_SomeE split: Option.bind_splits if_splits)
qed simp

lemma poll_collect_invalid:
  "poll_collect is_open ps (fds, xfds, maxfd) = Some (fds', xfds', maxfd') \<Longrightarrow>
   xfds' = xfds \<union> {fd \<in> pf_fd ` set ps. \<not> pth_util_fd_valid is_open fd}"
proof (induction is_open ps "(fds, xfds, maxfd)" arbitrary: fds xfds maxfd rule: poll_collect.induct)
  case (2 is_open q ps rfds wfds efds xfds maxfd)
  then show ?case
    by (fastforce simp: fd_set_bit_def elim!: bind_SomeE split: if_splits)
qed auto

lemma poll_all:
  assumes "\<not> flag e POLL_ALL"
  shows "\<not> flag e (POLLIN OR POLLRDNORM)" "\<not> flag e (POLLOUT OR POLLWRNORM OR POLLWRBAND)" "\<not> flag e (POLLPRI OR POLLRDBAND)"
  using assms unfolding flag_def POLL_ALL_def
  by (simp_all add: bit.conj_disj_distrib or_eq_0_iff)

text \<open>If no descriptor is to be selected on, the sets stay empty.\<close>

lemma poll_collect_none:
  assumes "poll_collect is_open ps (({}, {}, {}), {}, -1) = Some (fds, xfds, maxfd)" "maxfd = -1"
  shows "fds = ({}, {}, {})"
proof -
  have "-1 \<le> m \<longrightarrow> m \<le> m' \<and> (m' = -1 \<longrightarrow> f' = f)" if "poll_collect is_open ps (f, x, m) = Some (f', x', m')" for f x m f' x' m'
    using that
  proof (induction is_open ps "(f, x, m)" arbitrary: f x m rule: poll_collect.induct)
    case (2 is_open q ps rfds wfds efds xfds maxfd)
    show ?case
    proof (cases "pth_util_fd_valid is_open (pf_fd q)")
      case False
      then show ?thesis
        using 2 by (auto elim!: bind_SomeE)
    next
      case True
      then have fd: "0 \<le> pf_fd q" by (simp add: pth_util_fd_valid_def)
      obtain r w e where sets: "(if flag (pf_events q) (POLLIN OR POLLRDNORM) then fd_set_bit (pf_fd q) rfds else Some rfds) = Some r"
        "(if flag (pf_events q) (POLLOUT OR POLLWRNORM OR POLLWRBAND) then fd_set_bit (pf_fd q) wfds else Some wfds) = Some w"
        "(if flag (pf_events q) (POLLPRI OR POLLRDBAND) then fd_set_bit (pf_fd q) efds else Some efds) = Some e"
        "poll_collect is_open ps ((r, w, e), xfds, if maxfd \<le> pf_fd q \<and> flag (pf_events q) POLL_ALL then pf_fd q else maxfd) = Some (f', x', m')"
        using 2(3) True by (auto elim!: bind_SomeE)
      have "(r, w, e) = (rfds, wfds, efds)" if "\<not> flag (pf_events q) POLL_ALL"
        using sets(1-3) poll_all [OF that] by simp
      with 2(2) [OF _ sets] True fd show ?thesis
        by (auto split: if_splits)
    qed
  qed simp
  from this [OF assms(1)] show ?thesis using assms(2) by simp
qed

section \<open>Reporting the results\<close>

definition reported :: "(int \<Rightarrow> bool) \<Rightarrow> fd_sets \<Rightarrow> pollfd \<Rightarrow> bool" where
  "reported is_open fds p \<longleftrightarrow> (case fds of (rfds, wfds, efds) \<Rightarrow>
     \<not> pth_util_fd_valid is_open (pf_fd p) \<or> pf_fd p \<in> rfds \<union> wfds \<union> efds)"

definition poll_report :: "(int \<Rightarrow> bool) \<Rightarrow> fd_sets \<Rightarrow> pollfd \<Rightarrow> pollfd \<Rightarrow> bool" where
  "poll_report is_open fds p q \<longleftrightarrow> (\<exists>r. q = p\<lparr>pf_revents := r\<rparr> \<and> (case fds of (rfds, wfds, efds) \<Rightarrow>
     if \<not> pth_util_fd_valid is_open (pf_fd p) then r = POLLNVAL
     else if pf_fd p \<in> rfds then r = pf_events p AND (POLLIN OR POLLRDNORM) \<or> r = POLLHUP
     else if pf_fd p \<in> wfds then r = pf_events p AND (POLLOUT OR POLLWRNORM OR POLLWRBAND)
     else if pf_fd p \<in> efds then r = pf_events p AND (POLLPRI OR POLLRDBAND)
     else r = 0))"

lemma poll_entry_report:
  assumes "poll_entry I fds xfds maxfd p s = Some ((r, k), s')" "maxfd = -1 \<longrightarrow> fds = ({}, {}, {})"
    "pf_fd p \<in> xfds \<longleftrightarrow> \<not> pth_util_fd_valid is_open (pf_fd p)"
  shows "poll_report is_open fds p (p\<lparr>pf_revents := r\<rparr>) \<and> k = (if reported is_open fds p then 1 else 0)"
proof -
  obtain rfds wfds efds where fds: "fds = (rfds, wfds, efds)" by (cases fds)
  have range: "0 \<le> pf_fd p"
    using assms(1) by (auto simp: poll_entry_def fds fd_isset_def split: if_splits)
  have "r = pf_events p AND (POLLIN OR POLLRDNORM) \<or> r = POLLHUP" if "pf_fd p \<notin> xfds" "pf_fd p \<in> rfds" "k = 1" "maxfd \<noteq> -1"
    using assms(1) that by (auto simp: poll_entry_def fds fd_isset_def revents_if_and revents_hup Let_def split: if_splits prod.splits)
  with assms range show ?thesis
    by (auto simp: poll_entry_def fds fd_isset_def reported_def poll_report_def revents_if_and revents_hup Let_def
        split: if_splits prod.splits)
qed

lemma poll_results_report:
  assumes "poll_results I fds xfds maxfd ps s = Some ((n, ps'), s')" "maxfd = -1 \<longrightarrow> fds = ({}, {}, {})"
    "\<And>p. p \<in> set ps \<Longrightarrow> pf_fd p \<in> xfds \<longleftrightarrow> \<not> pth_util_fd_valid is_open (pf_fd p)"
  shows "list_all2 (poll_report is_open fds) ps ps' \<and> n = length (filter (reported is_open fds) ps)"
  using assms(1,3)
proof (induction ps arbitrary: n ps' s)
  case Nil
  then show ?case by simp
next
  case (Cons p ps)
  obtain r k s1 m qs where e: "poll_entry I fds xfds maxfd p s = Some ((r, k), s1)"
    "poll_results I fds xfds maxfd ps s1 = Some ((m, qs), s')" "n = k + m" "ps' = p\<lparr>pf_revents := r\<rparr> # qs"
    using Cons.prems(1) by (auto elim!: bind_SomeE)
  then show ?case
    using poll_entry_report [OF e(1) assms(2) Cons.prems(2)] Cons.IH [OF e(2)] Cons.prems(2) by auto
qed

section \<open>Polling\<close>


text \<open>
  \<^verbatim>\<open>pth_poll_ev\<close> stores every invalid descriptor in a set, also one that has no bit there: with a negative
  descriptor, which \<^verbatim>\<open>poll\<close> is to ignore, or one that is too large its behaviour is undefined.
\<close>

theorem pth_poll_ev_undefined:
  assumes "pth_initialized s" "int (length ps) \<le> FD_SETSIZE" "-1 \<le> timeout" "p \<in> set ps" "pf_fd p < 0 \<or> FD_SETSIZE \<le> pf_fd p"
  shows "pth_poll_ev E I (Some ps) timeout ev_extra s = None"
  using assms poll_collect_undefined [OF assms(4,5)]
  by (simp add: pth_poll_ev_def pth_implicit_init_def INFTIM_def)

definition hio0 :: hio where
  "hio0 = io.extend io0 \<lparr>sc_waitpid = (\<lambda>_ _ s. ((4711, 256), s)), sc_sigprocmask = (\<lambda>_ _ s. ((0, {}), s)),
     sc_sigaction = (\<lambda>_ _ s. (0, s)), sc_stat_binsh = (\<lambda>_. 0), sc_execl = (\<lambda>_ _. True),
     sc_peek = (\<lambda>_ s. (1, s)), select_rc = (\<lambda>_. 70), poll_sets = (\<lambda>_. (71, 72, 73)), pstat_addr = (\<lambda>_. 74)\<rparr>"

lemmas poll_eval = pth_poll_ev_def pth_implicit_init_def pth_util_fd_valid_def fd_open_def FD_SETSIZE_def fd_set_bit_def
  local_sets_def pth_select_ev_def load_sets_def copy_set_def select_retry.simps store_sets_def store_set_def poll_entry_def
  fd_isset_def revents_if_def


theorem pth_poll_ev_undefined_witness:
  "pth_poll_ev io_env hio0 (Some [\<lparr>pf_fd = -1, pf_events = POLLIN, pf_revents = 0\<rparr>]) 0 NULL io_state = None"
  by (rule pth_poll_ev_undefined [where p = "\<lparr>pf_fd = -1, pf_events = POLLIN, pf_revents = 0\<rparr>"])
    (simp_all add: io_state_def FD_SETSIZE_def)

section \<open>Sleeping\<close>

text \<open>The times the sleeping functions wait for; a request of exactly one billion nanoseconds is accepted.\<close>

lemma sleep_deadlines:
  "usecs (pth_time_add t (pth_time (uint (usec div 1000000)) (uint (usec mod 1000000)))) = usecs t + uint (usec :: 32 word)"
  "usecs (pth_time_add t (pth_time (uint (sec :: 32 word)) 0)) = usecs t + 1000000 * uint sec"
  "usecs (pth_time_add t (pth_time n (m div 1000))) = usecs t + (1000000000 * n + m) div 1000"
  by (simp_all add: usecs_add) (simp_all add: usecs_def pth_time_def uint_div uint_mod)

section \<open>Processes\<close>

text \<open>
  Whatever happens while the thread waits, \<^verbatim>\<open>pth_waitpid\<close> returns a process, an error, or 0 when the caller asked
  not to wait; for a process the status has been stored.
\<close>

theorem pth_waitpid_result:
  assumes "pth_waitpid E I wpid status options s = Some (Ret pid, s')"
  shows "(pid = -1 \<or> 0 < pid \<or> pid = 0 \<and> flag options WNOHANG) \<and>
    (0 < pid \<longrightarrow> status \<noteq> NullInt \<longrightarrow> mem_int s' status \<noteq> None)"
proof -
  have "\<forall>pid. fst r = Ret pid \<longrightarrow> (pid = -1 \<or> 0 < pid \<or> pid = 0 \<and> flag options WNOHANG) \<and>
      (0 < pid \<longrightarrow> status \<noteq> NullInt \<longrightarrow> mem_int (snd r) status \<noteq> None)"
    if "pth_waitpid E I wpid status options s = Some r" for r
    using that
  proof (rule pth_waitpid.raw_induct [where P = "\<lambda>E I wpid status options s r. \<forall>pid. fst r = Ret pid \<longrightarrow>
      (pid = -1 \<or> 0 < pid \<or> pid = 0 \<and> flag options WNOHANG) \<and>
      (0 < pid \<longrightarrow> status \<noteq> NullInt \<longrightarrow> mem_int (snd r) status \<noteq> None)", rotated], goal_cases)
    case (1 loop E I wpid status options s r)
    have stored: "mem_int s2 q \<noteq> None" if "int_set q v s1 = Some s2" for q v s1 s2
      using that by (auto simp: int_set_def setf_def upd_def split: if_splits)
    from 1(2) show ?case
      by (auto simp: store_status_def elim!: bind_SomeE dest!: 1(1) stored split: if_splits ctl.splits)
  qed
  with assms show ?thesis by fastforce
qed

text \<open>What the code relies on of the calls that set signal masks and actions: they concern the process only.\<close>

definition signal_calls :: "hio \<Rightarrow> bool" where
  "signal_calls I \<longleftrightarrow> (\<forall>sig h s. snd (sc_sigaction I sig h s) = s) \<and> (\<forall>h m s. snd (sc_sigprocmask I h m s) = s)"

text \<open>
  C20: when no process can be created, \<^verbatim>\<open>pth_fork\<close> returns 0 and \<^verbatim>\<open>pth_system\<close> takes the caller for the child: it drops all
  threads of the program and replaces the program by the shell, or ends it with the status 127.
\<close>

theorem pth_system_fork_fails:
  assumes "queues_ok s L" "pth_atfork_idx s = 0" "\<And>s. os_fork E s = -1" "signal_calls I"
  shows "\<exists>s'. pth_system E I (Some c) s = Some (Ret (if sc_execl I c s' then Replaced c else Terminated 127), s') \<and>
    queues_ok s' (\<lambda>_. []) \<and> dom (tcbs s') = dom (tcbs s) - {t. queued t L}"
proof -
  define s1 where "s1 = s\<lparr>mem_int := (mem_int s)(IntAt (pstat_addr I s) \<mapsto> -1)\<rparr>"
  have "queues_ok s1 L"
    using assms(1) by (simp add: s1_def queues_ok_def pq_rep_def)
  then obtain s2 where s2: "pth_scheduler_drop E s1 = Some s2" "queues_ok s2 (\<lambda>_. [])" "freed {t. queued t L} s1 s2"
    using drop_all_spec by blast
  define s' where "s' = s2\<lparr>fd_flags := (fd_flags s2)(fst (pth_sigpipe s2) := -1, snd (pth_sigpipe s2) := -1)\<rparr>"
  have "pth_fork E s1 = Some (0, s1)"
    using assms(2,3) by (simp add: pth_fork_def s1_def)
  moreover have "pth_scheduler_kill E s1 = Some s'"
    using s2(1) by (simp add: pth_scheduler_kill_def s'_def)
  ultimately have "pth_system E I (Some c) s = Some (Ret (if sc_execl I c s' then Replaced c else Terminated 127), s')"
    using assms(4) by (simp add: pth_system_def signal_calls_def system_restore_def split_def Let_def s1_def)
  moreover have "queues_ok s' (\<lambda>_. [])" "dom (tcbs s') = dom (tcbs s) - {t. queued t L}"
    using s2(2) freed_dom [OF s2(3)] by (simp_all add: s'_def s1_def queues_ok_def pq_rep_def)
  ultimately show ?thesis by blast
qed

theorem pth_system_fork_fails_witness:
  "\<exists>s'. pth_system env0 hio0 (Some ''ls'') three_runnable = Some (Ret (Replaced ''ls''), s') \<and> dom (tcbs s') = {9}"
proof -
  have "signal_calls hio0" "\<And>s. os_fork env0 s = -1" "pth_atfork_idx three_runnable = 0" "\<And>c s. sc_execl hio0 c s"
    by (simp_all add: signal_calls_def hio0_def io.defs io0_def env0_def three_runnable_def state0_def)
  moreover have "{t. queued t three_lists} = {2, 3, 4}" "dom (tcbs three_runnable) = {2, 3, 4, 9}"
    by (auto simp: queued_cases three_runnable_def)
  ultimately show ?thesis
    using pth_system_fork_fails [OF thread_invD(1) [OF three_runnable_inv], of env0 hio0 "''ls''"] by auto
qed

end
