(* ===== verification/Pth_Posix.thy ===== *)
theory Pth_Posix
  imports Pth_High
begin

text \<open>
  The POSIX thread interface (\<^verbatim>\<open>pthread.c\<close>, with the constants of \<^verbatim>\<open>pthread.h\<close>). Most functions check their
  arguments, call the function of the library and turn its result into an error number, here a value
  of \<open>errcode\<close> with \<open>EOK\<close> for 0. The objects of the application are cells that hold a handle; a cell of a
  mutex, lock or condition variable that holds \<^verbatim>\<open>NULL\<close> is one that was initialised statically.
\<close>

section \<open>Handles and initialisation\<close>

definition PTHREAD_THREADS_MAX :: int where "PTHREAD_THREADS_MAX = 10000"
definition PTHREAD_CREATE_DETACHED :: int where "PTHREAD_CREATE_DETACHED = 1"
definition PTHREAD_CREATE_JOINABLE :: int where "PTHREAD_CREATE_JOINABLE = 2"
definition PTHREAD_CANCEL_ENABLE :: int where "PTHREAD_CANCEL_ENABLE = 1"
definition PTHREAD_CANCEL_DISABLE :: int where "PTHREAD_CANCEL_DISABLE = 2"
definition PTHREAD_CANCEL_ASYNCHRONOUS :: int where "PTHREAD_CANCEL_ASYNCHRONOUS = 1"
definition PTHREAD_CANCEL_DEFERRED :: int where "PTHREAD_CANCEL_DEFERRED = 2"
definition PTHREAD_CANCELED :: ptr where "PTHREAD_CANCELED = 2 ^ 64 - 1"

definition px_set :: "(posix \<Rightarrow> posix) \<Rightarrow> pth_state \<Rightarrow> pth_state" where
  "px_set f s = s\<lparr>px := f (px s)\<rparr>"

definition hnd_get :: "ptr \<Rightarrow> pth_state \<Rightarrow> ptr option" where
  "hnd_get p s = handles (px s) p"

definition hnd_set :: "ptr \<Rightarrow> ptr \<Rightarrow> pth_state \<Rightarrow> pth_state option" where
  "hnd_set p v s =
     (if p \<in> dom (handles (px s)) then Some (px_set (\<lambda>x. x\<lparr>handles := (handles x)(p \<mapsto> v)\<rparr>) s) else None)"

text \<open>\<^verbatim>\<open>if (!f(...)) return errno; return OK;\<close>\<close>

definition errno_of :: "bool \<Rightarrow> pth_state \<Rightarrow> errcode \<times> pth_state" where
  "errno_of ok s = (if ok then EOK else errno s, s)"

definition errno_ctl :: "bool ctl \<Rightarrow> pth_state \<Rightarrow> errcode ctl \<times> pth_state" where
  "errno_ctl c s = (case c of Exit v \<Rightarrow> (Exit v, s) | Ret ok \<Rightarrow> (Ret (if ok then EOK else errno s), s))"

definition pthread_initialize :: "env \<Rightarrow> pth_state \<Rightarrow> pth_state option" where
  "pthread_initialize E s =
     (if \<not> pthread_initialized (px s) then do {
        let s = px_set (\<lambda>x. x\<lparr>pthread_initialized := True\<rparr>) s;
        (_, s) \<leftarrow> pth_init E s;
        Some (px_set (\<lambda>x. x\<lparr>pthread_atexit := True\<rparr>) s) }
      else Some s)"

definition pthread_shutdown :: "env \<Rightarrow> pth_state \<Rightarrow> pth_state option" where
  "pthread_shutdown E s = map_option snd (pth_kill E s)"

text \<open>The functions that are not supported: they check their pointers and fail.\<close>

definition unsupported :: "ptr list \<Rightarrow> pth_state \<Rightarrow> errcode \<times> pth_state" where
  "unsupported ps s = (if NULL \<in> set ps then pth_error EINVAL EINVAL s else pth_error ENOSYS ENOSYS s)"

section \<open>Thread attributes\<close>

definition pthread_attr_init :: "env \<Rightarrow> ptr \<Rightarrow> pth_state \<Rightarrow> (errcode \<times> pth_state) option" where
  "pthread_attr_init E attr s = do {
     s \<leftarrow> pthread_initialize E s;
     if attr = NULL then Some (pth_error EINVAL EINVAL s)
     else do {
       (na, s) \<leftarrow> pth_attr_new (malloc E s) s;
       if na = NULL then Some (errno s, s)
       else do { s \<leftarrow> hnd_set attr na s; Some (EOK, s) } } }"

definition pthread_attr_destroy :: "ptr \<Rightarrow> pth_state \<Rightarrow> (errcode \<times> pth_state) option" where
  "pthread_attr_destroy attr s =
     (if attr = NULL then Some (pth_error EINVAL EINVAL s)
      else do {
        na \<leftarrow> hnd_get attr s;
        if na = NULL then Some (pth_error EINVAL EINVAL s)
        else do {
          let s = snd (pth_attr_destroy na s);
          s \<leftarrow> hnd_set attr NULL s;
          Some (EOK, s) } })"

definition pthread_attr_setinheritsched :: "ptr \<Rightarrow> int \<Rightarrow> pth_state \<Rightarrow> errcode \<times> pth_state" where
  "pthread_attr_setinheritsched attr inheritsched s = unsupported [attr] s"

definition pthread_attr_getinheritsched :: "ptr \<Rightarrow> ptr \<Rightarrow> pth_state \<Rightarrow> errcode \<times> pth_state" where
  "pthread_attr_getinheritsched attr inheritsched s = unsupported [attr, inheritsched] s"

definition pthread_attr_setschedparam :: "ptr \<Rightarrow> ptr \<Rightarrow> pth_state \<Rightarrow> errcode \<times> pth_state" where
  "pthread_attr_setschedparam attr schedparam s = unsupported [attr] s"

definition pthread_attr_getschedparam :: "ptr \<Rightarrow> ptr \<Rightarrow> pth_state \<Rightarrow> errcode \<times> pth_state" where
  "pthread_attr_getschedparam attr schedparam s = unsupported [attr, schedparam] s"

definition pthread_attr_setschedpolicy :: "ptr \<Rightarrow> int \<Rightarrow> pth_state \<Rightarrow> errcode \<times> pth_state" where
  "pthread_attr_setschedpolicy attr schedpolicy s = unsupported [attr] s"

definition pthread_attr_getschedpolicy :: "ptr \<Rightarrow> ptr \<Rightarrow> pth_state \<Rightarrow> errcode \<times> pth_state" where
  "pthread_attr_getschedpolicy attr schedpolicy s = unsupported [attr, schedpolicy] s"

definition pthread_attr_setscope :: "ptr \<Rightarrow> int \<Rightarrow> pth_state \<Rightarrow> errcode \<times> pth_state" where
  "pthread_attr_setscope attr scope s = unsupported [attr] s"

definition pthread_attr_getscope :: "ptr \<Rightarrow> ptr \<Rightarrow> pth_state \<Rightarrow> errcode \<times> pth_state" where
  "pthread_attr_getscope attr scope s = unsupported [attr, scope] s"

definition pthread_attr_setguardsize :: "ptr \<Rightarrow> int \<Rightarrow> pth_state \<Rightarrow> errcode \<times> pth_state" where
  "pthread_attr_setguardsize attr stacksize s =
     (if attr = NULL \<or> stacksize < 0 then pth_error EINVAL EINVAL s else pth_error ENOSYS ENOSYS s)"

definition pthread_attr_getguardsize :: "ptr \<Rightarrow> ptr \<Rightarrow> pth_state \<Rightarrow> errcode \<times> pth_state" where
  "pthread_attr_getguardsize attr stacksize s = unsupported [attr, stacksize] s"

text \<open>Setting one attribute of the object a cell refers to.\<close>

definition attr_set_at :: "ptr \<Rightarrow> attr_op \<Rightarrow> attr_val \<Rightarrow> pth_state \<Rightarrow> (errcode \<times> pth_state) option" where
  "attr_set_at attr op v s = do {
     na \<leftarrow> hnd_get attr s;
     (ok, s) \<leftarrow> pth_attr_set na op v s;
     Some (errno_of ok s) }"

text \<open>Reading one; the value is stored only when the result is \<open>EOK\<close>.\<close>

definition attr_get_at :: "ptr \<Rightarrow> attr_op \<Rightarrow> pth_state \<Rightarrow> ((errcode \<times> attr_val) \<times> pth_state) option" where
  "attr_get_at attr op s = do {
     na \<leftarrow> hnd_get attr s;
     ((ok, v), s) \<leftarrow> pth_attr_get na op s;
     Some ((fst (errno_of ok s), v), s) }"

definition pthread_attr_setstacksize :: "ptr \<Rightarrow> 64 word \<Rightarrow> pth_state \<Rightarrow> (errcode \<times> pth_state) option" where
  "pthread_attr_setstacksize attr stacksize s =
     (if attr = NULL then Some (pth_error EINVAL EINVAL s)
      else attr_set_at attr PTH_ATTR_STACK_SIZE (VUint (ucast stacksize)) s)"

text \<open>The \<^verbatim>\<open>size_t\<close> at \<open>stacksize\<close> is written through a pointer to an \<^verbatim>\<open>unsigned int\<close>: only its lower half changes.\<close>

definition pthread_attr_getstacksize :: "ptr \<Rightarrow> ptr \<Rightarrow> pth_state \<Rightarrow> (errcode \<times> pth_state) option" where
  "pthread_attr_getstacksize attr stacksize s =
     (if attr = NULL \<or> stacksize = NULL then Some (pth_error EINVAL EINVAL s)
      else do {
        ((e, v), s) \<leftarrow> attr_get_at attr PTH_ATTR_STACK_SIZE s;
        if e \<noteq> EOK then Some (e, s)
        else (case v of
          VUint n \<Rightarrow> do {
            old \<leftarrow> hnd_get stacksize s;
            s \<leftarrow> hnd_set stacksize (old div 2 ^ 32 * 2 ^ 32 + unat n) s;
            Some (EOK, s) }
        | _ \<Rightarrow> None) })"

definition pthread_attr_setstackaddr :: "ptr \<Rightarrow> ptr \<Rightarrow> pth_state \<Rightarrow> (errcode \<times> pth_state) option" where
  "pthread_attr_setstackaddr attr stackaddr s =
     (if attr = NULL then Some (pth_error EINVAL EINVAL s)
      else attr_set_at attr PTH_ATTR_STACK_ADDR (VPtr stackaddr) s)"

definition pthread_attr_getstackaddr :: "ptr \<Rightarrow> ptr \<Rightarrow> pth_state \<Rightarrow> (errcode \<times> pth_state) option" where
  "pthread_attr_getstackaddr attr stackaddr s =
     (if attr = NULL \<or> stackaddr = NULL then Some (pth_error EINVAL EINVAL s)
      else do {
        ((e, v), s) \<leftarrow> attr_get_at attr PTH_ATTR_STACK_ADDR s;
        if e \<noteq> EOK then Some (e, s)
        else (case v of VPtr p \<Rightarrow> do { s \<leftarrow> hnd_set stackaddr p s; Some (EOK, s) } | _ \<Rightarrow> None) })"

definition pthread_attr_setdetachstate :: "ptr \<Rightarrow> int \<Rightarrow> pth_state \<Rightarrow> (errcode \<times> pth_state) option" where
  "pthread_attr_setdetachstate attr detachstate s =
     (if attr = NULL then Some (pth_error EINVAL EINVAL s)
      else if detachstate = PTHREAD_CREATE_DETACHED then attr_set_at attr PTH_ATTR_JOINABLE (VInt 0) s
      else if detachstate = PTHREAD_CREATE_JOINABLE then attr_set_at attr PTH_ATTR_JOINABLE (VInt 1) s
      else Some (pth_error EINVAL EINVAL s))"

definition pthread_attr_getdetachstate :: "ptr \<Rightarrow> intref \<Rightarrow> pth_state \<Rightarrow> (errcode \<times> pth_state) option" where
  "pthread_attr_getdetachstate attr detachstate s =
     (if attr = NULL \<or> detachstate = NullInt then Some (pth_error EINVAL EINVAL s)
      else do {
        ((e, v), s) \<leftarrow> attr_get_at attr PTH_ATTR_JOINABLE s;
        if e \<noteq> EOK then Some (e, s)
        else (case v of
          VInt n \<Rightarrow> do {
            s \<leftarrow> int_set detachstate (if n = 1 then PTHREAD_CREATE_JOINABLE else PTHREAD_CREATE_DETACHED) s;
            Some (EOK, s) }
        | _ \<Rightarrow> None) })"

definition pthread_attr_setname_np :: "ptr \<Rightarrow> string option \<Rightarrow> pth_state \<Rightarrow> (errcode \<times> pth_state) option" where
  "pthread_attr_setname_np attr name s = (case name of
     None \<Rightarrow> Some (pth_error EINVAL EINVAL s)
   | Some n \<Rightarrow> if attr = NULL then Some (pth_error EINVAL EINVAL s) else attr_set_at attr PTH_ATTR_NAME (VString n) s)"

text \<open>The name is returned, instead of the address of the name in the object or the thread.\<close>

definition pthread_attr_getname_np :: "ptr \<Rightarrow> bool \<Rightarrow> pth_state \<Rightarrow> ((errcode \<times> attr_val) \<times> pth_state) option" where
  "pthread_attr_getname_np attr name_is_null s =
     (if attr = NULL \<or> name_is_null then Some (pth_error (EINVAL, VNone) EINVAL s) else attr_get_at attr PTH_ATTR_NAME s)"

definition pthread_attr_setprio_np :: "ptr \<Rightarrow> int \<Rightarrow> pth_state \<Rightarrow> (errcode \<times> pth_state) option" where
  "pthread_attr_setprio_np attr prio s =
     (if attr = NULL \<or> prio < PTH_PRIO_MIN \<or> prio > PTH_PRIO_MAX then Some (pth_error EINVAL EINVAL s)
      else attr_set_at attr PTH_ATTR_PRIO (VInt prio) s)"

definition pthread_attr_getprio_np :: "ptr \<Rightarrow> intref \<Rightarrow> pth_state \<Rightarrow> (errcode \<times> pth_state) option" where
  "pthread_attr_getprio_np attr prio s =
     (if attr = NULL \<or> prio = NullInt then Some (pth_error EINVAL EINVAL s)
      else do {
        ((e, v), s) \<leftarrow> attr_get_at attr PTH_ATTR_PRIO s;
        if e \<noteq> EOK then Some (e, s)
        else (case v of VInt n \<Rightarrow> do { s \<leftarrow> int_set prio n s; Some (EOK, s) } | _ \<Rightarrow> None) })"

section \<open>Threads\<close>

definition pthread_create :: "env \<Rightarrow> ptr \<Rightarrow> ptr \<Rightarrow> ptr \<Rightarrow> ptr \<Rightarrow> pth_state \<Rightarrow> (errcode \<times> pth_state) option" where
  "pthread_create E thread attr start_routine arg s = do {
     s \<leftarrow> pthread_initialize E s;
     if thread = NULL \<or> start_routine = NULL then Some (pth_error EINVAL EINVAL s)
     else do {
       (n, s) \<leftarrow> pth_ctrl PTH_CTRL_GETTHREADS NoArg s;
       if (case n of CtrlLong k \<Rightarrow> k \<ge> PTHREAD_THREADS_MAX | _ \<Rightarrow> False) then Some (pth_error EAGAIN EAGAIN s)
       else do {
         na \<leftarrow> (if attr \<noteq> NULL then hnd_get attr s else Some PTH_ATTR_DEFAULT);
         (t, s) \<leftarrow> pth_spawn E na start_routine arg s;
         s \<leftarrow> hnd_set thread t s;
         if t = NULL then Some (pth_error EAGAIN EAGAIN s) else Some (EOK, s) } } }"

definition pthread_detach :: "env \<Rightarrow> ptr \<Rightarrow> pth_state \<Rightarrow> (errcode \<times> pth_state) option" where
  "pthread_detach E thread s =
     (if thread = NULL then Some (pth_error EINVAL EINVAL s)
      else do {
        let (na, s) = pth_attr_of (malloc E s) thread s;
        if na = NULL then Some (errno s, s)
        else do {
          (ok, s) \<leftarrow> pth_attr_set na PTH_ATTR_JOINABLE (VInt 0) s;
          if \<not> ok then Some (errno s, s)
          else Some (EOK, snd (pth_attr_destroy na s)) } })"

definition pthread_self :: "env \<Rightarrow> pth_state \<Rightarrow> (ptr \<times> pth_state) option" where
  "pthread_self E s = do { s \<leftarrow> pthread_initialize E s; Some (pth_self s, s) }"

definition pthread_equal :: "ptr \<Rightarrow> ptr \<Rightarrow> bool" where
  "pthread_equal t1 t2 \<longleftrightarrow> t1 = t2"

definition pthread_yield_np :: "env \<Rightarrow> pth_state \<Rightarrow> (errcode \<times> pth_state) option" where
  "pthread_yield_np E s = do { s \<leftarrow> pthread_initialize E s; (_, s) \<leftarrow> pth_yield (sw E) NULL s; Some (EOK, s) }"

definition pthread_exit :: "env \<Rightarrow> ptr \<Rightarrow> pth_state \<Rightarrow> (exit_out \<times> pth_state) option" where
  "pthread_exit E value_ptr s = do { s \<leftarrow> pthread_initialize E s; pth_exit E value_ptr s }"

definition pthread_join :: "env \<Rightarrow> ptr \<Rightarrow> ptr \<Rightarrow> pth_state \<Rightarrow> (errcode ctl \<times> pth_state) option" where
  "pthread_join E thread value_ptr s = do {
     s \<leftarrow> pthread_initialize E s;
     (c, s) \<leftarrow> pth_join E thread s;
     case c of
       Exit v \<Rightarrow> Some (Exit v, s)
     | Ret (ok, v) \<Rightarrow>
         if \<not> ok then Some (Ret (errno s), s)
         else do {
           s \<leftarrow> (if value_ptr \<noteq> NULL then hnd_set value_ptr (if v = PTH_CANCELED then PTHREAD_CANCELED else v) s
                 else Some s);
           Some (Ret EOK, s) } }"

definition pthread_once :: "env \<Rightarrow> intref \<Rightarrow> ptr \<Rightarrow> pth_state \<Rightarrow> (errcode \<times> pth_state) option" where
  "pthread_once E once_control init_routine s = do {
     s \<leftarrow> pthread_initialize E s;
     if once_control = NullInt \<or> init_routine = NULL then Some (pth_error EINVAL EINVAL s)
     else do {
       ran \<leftarrow> mem_int s once_control;
       s \<leftarrow> (if ran \<noteq> 1 then app_call E init_routine NULL s else Some s);
       s \<leftarrow> int_set once_control 1 s;
       Some (EOK, s) } }"

definition pthread_sigmask :: "env \<Rightarrow> hio \<Rightarrow> how \<Rightarrow> sigset option \<Rightarrow> pth_state \<Rightarrow> ((int \<times> sigset) \<times> pth_state) option" where
  "pthread_sigmask E I how sset s = do { s \<leftarrow> pthread_initialize E s; pth_sigmask I how sset s }"

definition pthread_kill :: "env \<Rightarrow> ptr \<Rightarrow> int \<Rightarrow> pth_state \<Rightarrow> (errcode \<times> pth_state) option" where
  "pthread_kill E thread sig s = do { (ok, s) \<leftarrow> pth_raise E thread sig s; Some (errno_of ok s) }"

definition pthread_getconcurrency :: "pth_state \<Rightarrow> int" where
  "pthread_getconcurrency s = pthread_concurrency (px s)"

definition pthread_setconcurrency :: "int \<Rightarrow> pth_state \<Rightarrow> errcode \<times> pth_state" where
  "pthread_setconcurrency new_level s =
     (if new_level < 0 then pth_error EINVAL EINVAL s
      else (EOK, px_set (\<lambda>x. x\<lparr>pthread_concurrency := new_level\<rparr>) s))"

section \<open>Thread specific data, cancellation, scheduling parameters and cleanup handlers\<close>

definition pthread_key_create :: "env \<Rightarrow> intref \<Rightarrow> ptr \<Rightarrow> pth_state \<Rightarrow> (errcode \<times> pth_state) option" where
  "pthread_key_create E key destructor s = do {
     s \<leftarrow> pthread_initialize E s;
     (ok, s) \<leftarrow> pth_key_create key destructor s;
     Some (errno_of ok s) }"

definition pthread_key_delete :: "int \<Rightarrow> pth_state \<Rightarrow> errcode \<times> pth_state" where
  "pthread_key_delete key s = (let (ok, s) = pth_key_delete key s in errno_of ok s)"

definition pthread_setspecific :: "env \<Rightarrow> int \<Rightarrow> ptr \<Rightarrow> pth_state \<Rightarrow> (errcode \<times> pth_state) option" where
  "pthread_setspecific E key value s = do {
     (ok, s) \<leftarrow> pth_key_setdata (calloc_ok E s) key value s;
     Some (errno_of ok s) }"

definition pthread_getspecific :: "int \<Rightarrow> pth_state \<Rightarrow> (ptr \<times> pth_state) option" where
  "pthread_getspecific key s = pth_key_getdata key s"

definition pthread_cancel :: "env \<Rightarrow> ptr \<Rightarrow> pth_state \<Rightarrow> (errcode \<times> pth_state) option" where
  "pthread_cancel E thread s = do { (ok, s) \<leftarrow> pth_cancel E thread s; Some (errno_of ok s) }"

definition pthread_testcancel :: "pth_state \<Rightarrow> (unit ctl \<times> pth_state) option" where
  "pthread_testcancel s = pth_cancel_point s"

text \<open>What \<^verbatim>\<open>pth_cancel_state(0, &x)\<close> stores in the local variable \<^verbatim>\<open>x\<close>.\<close>

definition cancel_state_of :: "pth_state \<Rightarrow> 32 word option" where
  "cancel_state_of s = t_get t_cancelstate (pth_current s) s"

definition pthread_setcancelstate :: "int \<Rightarrow> intref \<Rightarrow> pth_state \<Rightarrow> (errcode \<times> pth_state) option" where
  "pthread_setcancelstate state oldstate s = do {
     s \<leftarrow> (if oldstate \<noteq> NullInt then do {
             os \<leftarrow> cancel_state_of s;
             int_set oldstate (if flag os PTH_CANCEL_ENABLE then PTHREAD_CANCEL_ENABLE else PTHREAD_CANCEL_DISABLE) s }
           else Some s);
     s \<leftarrow> (if state \<noteq> 0 then do {
             cs \<leftarrow> cancel_state_of s;
             let cs = (if state = PTHREAD_CANCEL_ENABLE
                       then (cs OR PTH_CANCEL_ENABLE) AND NOT PTH_CANCEL_DISABLE
                       else (cs OR PTH_CANCEL_DISABLE) AND NOT PTH_CANCEL_ENABLE);
             pth_cancel_state cs NullInt s }
           else Some s);
     Some (EOK, s) }"

definition pthread_setcanceltype :: "int \<Rightarrow> intref \<Rightarrow> pth_state \<Rightarrow> (errcode \<times> pth_state) option" where
  "pthread_setcanceltype type oldtype s = do {
     s \<leftarrow> (if oldtype \<noteq> NullInt then do {
             ot \<leftarrow> cancel_state_of s;
             int_set oldtype
               (if flag ot PTH_CANCEL_DEFERRED then PTHREAD_CANCEL_DEFERRED else PTHREAD_CANCEL_ASYNCHRONOUS) s }
           else Some s);
     s \<leftarrow> (if type \<noteq> 0 then do {
             t \<leftarrow> cancel_state_of s;
             let t = (if type = PTHREAD_CANCEL_DEFERRED
                      then (t OR PTH_CANCEL_DEFERRED) AND NOT PTH_CANCEL_ASYNCHRONOUS
                      else (t OR PTH_CANCEL_ASYNCHRONOUS) AND NOT PTH_CANCEL_DEFERRED);
             pth_cancel_state t NullInt s }
           else Some s);
     Some (EOK, s) }"

definition pthread_setschedparam :: "ptr \<Rightarrow> int \<Rightarrow> ptr \<Rightarrow> pth_state \<Rightarrow> errcode \<times> pth_state" where
  "pthread_setschedparam pthread policy param s = pth_error ENOSYS ENOSYS s"

definition pthread_getschedparam :: "ptr \<Rightarrow> intref \<Rightarrow> ptr \<Rightarrow> pth_state \<Rightarrow> errcode \<times> pth_state" where
  "pthread_getschedparam pthread policy param s = pth_error ENOSYS ENOSYS s"

definition pthread_cleanup_push :: "env \<Rightarrow> ptr \<Rightarrow> ptr \<Rightarrow> pth_state \<Rightarrow> pth_state option" where
  "pthread_cleanup_push E routine arg s = do {
     s \<leftarrow> pthread_initialize E s;
     map_option snd (pth_cleanup_push (malloc E s \<noteq> NULL) routine arg s) }"

definition pthread_cleanup_pop :: "env \<Rightarrow> bool \<Rightarrow> pth_state \<Rightarrow> pth_state option" where
  "pthread_cleanup_pop E execute s = map_option snd (pth_cleanup_pop (app_call E) execute s)"

section \<open>Fork handlers\<close>

text \<open>
  The addresses of the three static functions and of the entries of \<^verbatim>\<open>pthread_atfork_info\<close>. \<open>posix_call\<close> is the call of a
  function pointer in a program that uses this interface: the three functions are run, all others belong to the application.
\<close>

definition cb_prepare_addr :: ptr where "cb_prepare_addr = 2 ^ 64 - 6"
definition cb_parent_addr :: ptr where "cb_parent_addr = 2 ^ 64 - 7"
definition cb_child_addr :: ptr where "cb_child_addr = 2 ^ 64 - 8"
definition atfork_info_addr :: "nat \<Rightarrow> ptr" where "atfork_info_addr i = 2 ^ 62 + 24 * i"

text \<open>\<^verbatim>\<open>f()\<close> for a function pointer without arguments: a call of \<^verbatim>\<open>NULL\<close> is undefined.\<close>

definition call_void :: "env \<Rightarrow> ptr \<Rightarrow> pth_state \<Rightarrow> pth_state option" where
  "call_void E f s = (if f = NULL then None else app_call E f NULL s)"

definition atfork_info :: "ptr \<Rightarrow> pth_state \<Rightarrow> pthread_atfork_st option" where
  "atfork_info info s =
     (let i = (info - 2 ^ 62) div 24
      in if i < PTH_ATFORK_MAX \<and> info = atfork_info_addr i then Some (pthread_atfork_info (px s) i) else None)"

definition pthread_atfork_cb_prepare :: "env \<Rightarrow> ptr \<Rightarrow> pth_state \<Rightarrow> pth_state option" where
  "pthread_atfork_cb_prepare E info s = do { i \<leftarrow> atfork_info info s; call_void E (pa_prepare i) s }"

definition pthread_atfork_cb_parent :: "env \<Rightarrow> ptr \<Rightarrow> pth_state \<Rightarrow> pth_state option" where
  "pthread_atfork_cb_parent E info s = do { i \<leftarrow> atfork_info info s; call_void E (pa_parent i) s }"

definition pthread_atfork_cb_child :: "env \<Rightarrow> ptr \<Rightarrow> pth_state \<Rightarrow> pth_state option" where
  "pthread_atfork_cb_child E info s = do { i \<leftarrow> atfork_info info s; call_void E (pa_child i) s }"

definition posix_call :: "env \<Rightarrow> callback" where
  "posix_call E f arg s =
     (if f = cb_prepare_addr then pthread_atfork_cb_prepare E arg s
      else if f = cb_parent_addr then pthread_atfork_cb_parent E arg s
      else if f = cb_child_addr then pthread_atfork_cb_child E arg s
      else app_call E f arg s)"

definition pthread_atfork :: "ptr \<Rightarrow> ptr \<Rightarrow> ptr \<Rightarrow> pth_state \<Rightarrow> errcode \<times> pth_state" where
  "pthread_atfork prepare parent child s =
     (let idx = pthread_atfork_idx (px s)
      in if int idx > int PTH_ATFORK_MAX - 1 then pth_error ENOMEM ENOMEM s
         else let
           s = px_set (\<lambda>x. x\<lparr>pthread_atfork_idx := idx + 1, pthread_atfork_info := (pthread_atfork_info x)(idx :=
                 \<lparr>pa_prepare = prepare, pa_parent = parent, pa_child = child\<rparr>)\<rparr>) s;
           (ok, s) = pth_atfork_push cb_prepare_addr cb_parent_addr cb_child_addr (atfork_info_addr idx) s
         in errno_of ok s)"

definition pthread_fork :: "env \<Rightarrow> pth_state \<Rightarrow> (int \<times> pth_state) option" where
  "pthread_fork E s = do { s \<leftarrow> pthread_initialize E s; pth_fork (E\<lparr>app_call := posix_call E\<rparr>) s }"

end
