(* ===== verification/Pth_Posix_Sync.thy ===== *)
theory Pth_Posix_Sync
  imports Pth_Posix
begin

text \<open>
  The rest of \<^verbatim>\<open>pthread.c\<close>: mutexes, read-write locks and condition variables of the POSIX interface, and the replacements
  of blocking system calls. Every operation on an object whose cell holds \<^verbatim>\<open>NULL\<close> first allocates the object.
\<close>

section \<open>Attribute objects of mutexes, locks and condition variables\<close>

text \<open>They have no contents: the functions check the pointer only.\<close>

definition dummy_attr :: "ptr \<Rightarrow> pth_state \<Rightarrow> errcode \<times> pth_state" where
  "dummy_attr attr s = (if attr = NULL then pth_error EINVAL EINVAL s else (EOK, s))"

definition pthread_mutexattr_init :: "env \<Rightarrow> ptr \<Rightarrow> pth_state \<Rightarrow> (errcode \<times> pth_state) option" where
  "pthread_mutexattr_init E attr s = map_option (dummy_attr attr) (pthread_initialize E s)"

definition pthread_mutexattr_destroy :: "ptr \<Rightarrow> pth_state \<Rightarrow> errcode \<times> pth_state" where
  "pthread_mutexattr_destroy attr s = dummy_attr attr s"

definition pthread_mutexattr_setprioceiling :: "ptr \<Rightarrow> int \<Rightarrow> pth_state \<Rightarrow> errcode \<times> pth_state" where
  "pthread_mutexattr_setprioceiling attr prioceiling s = unsupported [attr] s"

definition pthread_mutexattr_getprioceiling :: "ptr \<Rightarrow> intref \<Rightarrow> pth_state \<Rightarrow> errcode \<times> pth_state" where
  "pthread_mutexattr_getprioceiling attr prioceiling s = unsupported [attr] s"

definition pthread_mutexattr_setprotocol :: "ptr \<Rightarrow> int \<Rightarrow> pth_state \<Rightarrow> errcode \<times> pth_state" where
  "pthread_mutexattr_setprotocol attr protocol s = unsupported [attr] s"

definition pthread_mutexattr_getprotocol :: "ptr \<Rightarrow> intref \<Rightarrow> pth_state \<Rightarrow> errcode \<times> pth_state" where
  "pthread_mutexattr_getprotocol attr protocol s = unsupported [attr] s"

definition pthread_mutexattr_setpshared :: "ptr \<Rightarrow> int \<Rightarrow> pth_state \<Rightarrow> errcode \<times> pth_state" where
  "pthread_mutexattr_setpshared attr pshared s = unsupported [attr] s"

definition pthread_mutexattr_getpshared :: "ptr \<Rightarrow> intref \<Rightarrow> pth_state \<Rightarrow> errcode \<times> pth_state" where
  "pthread_mutexattr_getpshared attr pshared s = unsupported [attr] s"

definition pthread_mutexattr_settype :: "ptr \<Rightarrow> int \<Rightarrow> pth_state \<Rightarrow> errcode \<times> pth_state" where
  "pthread_mutexattr_settype attr type s = unsupported [attr] s"

definition pthread_mutexattr_gettype :: "ptr \<Rightarrow> intref \<Rightarrow> pth_state \<Rightarrow> errcode \<times> pth_state" where
  "pthread_mutexattr_gettype attr type s = unsupported [attr] s"

definition pthread_rwlockattr_init :: "env \<Rightarrow> ptr \<Rightarrow> pth_state \<Rightarrow> (errcode \<times> pth_state) option" where
  "pthread_rwlockattr_init E attr s = map_option (dummy_attr attr) (pthread_initialize E s)"

definition pthread_rwlockattr_destroy :: "ptr \<Rightarrow> pth_state \<Rightarrow> errcode \<times> pth_state" where
  "pthread_rwlockattr_destroy attr s = dummy_attr attr s"

definition pthread_rwlockattr_setpshared :: "ptr \<Rightarrow> int \<Rightarrow> pth_state \<Rightarrow> errcode \<times> pth_state" where
  "pthread_rwlockattr_setpshared attr pshared s = unsupported [attr] s"

definition pthread_rwlockattr_getpshared :: "ptr \<Rightarrow> intref \<Rightarrow> pth_state \<Rightarrow> errcode \<times> pth_state" where
  "pthread_rwlockattr_getpshared attr pshared s = unsupported [attr] s"

definition pthread_condattr_init :: "env \<Rightarrow> ptr \<Rightarrow> pth_state \<Rightarrow> (errcode \<times> pth_state) option" where
  "pthread_condattr_init E attr s = map_option (dummy_attr attr) (pthread_initialize E s)"

definition pthread_condattr_destroy :: "ptr \<Rightarrow> pth_state \<Rightarrow> errcode \<times> pth_state" where
  "pthread_condattr_destroy attr s = dummy_attr attr s"

definition pthread_condattr_setpshared :: "ptr \<Rightarrow> int \<Rightarrow> pth_state \<Rightarrow> errcode \<times> pth_state" where
  "pthread_condattr_setpshared attr pshared s = unsupported [attr] s"

definition pthread_condattr_getpshared :: "ptr \<Rightarrow> intref \<Rightarrow> pth_state \<Rightarrow> errcode \<times> pth_state" where
  "pthread_condattr_getpshared attr pshared s = unsupported [attr] s"

section \<open>Objects on the heap\<close>

text \<open>
  A mutex in fresh memory and its ring node; what they hold is written before it is read. The two mutexes of a read-write
  lock lie at the offsets 16 and 56; its mode is whatever the memory holds, and is an argument.
\<close>

definition mutex_memory :: "ptr \<Rightarrow> pth_state \<Rightarrow> pth_state" where
  "mutex_memory m s = s\<lparr>nodes := (nodes s)(m \<mapsto> \<lparr>rn_next = NULL, rn_prev = NULL\<rparr>),
     mutexes := (mutexes s)(m \<mapsto> \<lparr>mx_state = 0, mx_owner = NULL, mx_count = 0\<rparr>)\<rparr>"

definition rwlock_memory :: "rw_op \<Rightarrow> ptr \<Rightarrow> pth_state \<Rightarrow> pth_state" where
  "rwlock_memory mode rw s =
     (let s = mutex_memory (rw + 56) (mutex_memory (rw + 16) s)
      in s\<lparr>rwlocks := (rwlocks s)(rw \<mapsto>
           \<lparr>rw_state = 0, rw_mode = mode, rw_readers = 0, rw_mutex_rd = rw + 16, rw_mutex_rw = rw + 56\<rparr>)\<rparr>)"

definition cond_memory :: "ptr \<Rightarrow> pth_state \<Rightarrow> pth_state" where
  "cond_memory c s = s\<lparr>conds := (conds s)(c \<mapsto> \<lparr>cn_state = 0, cn_waiters = 0\<rparr>)\<rparr>"

text \<open>\<^verbatim>\<open>free\<close> of a mutex, lock or condition variable; \<^verbatim>\<open>free(NULL)\<close> does nothing.\<close>

definition free_mutex :: "ptr \<Rightarrow> pth_state \<Rightarrow> pth_state option" where
  "free_mutex m s =
     (if m = NULL then Some s
      else if m \<in> dom (mutexes s) then Some (s\<lparr>nodes := (nodes s)(m := None), mutexes := (mutexes s)(m := None)\<rparr>)
      else None)"

definition free_rwlock :: "ptr \<Rightarrow> pth_state \<Rightarrow> pth_state option" where
  "free_rwlock rw s =
     (if rw = NULL then Some s
      else do {
        rd \<leftarrow> rw_get rw_mutex_rd rw s;
        wr \<leftarrow> rw_get rw_mutex_rw rw s;
        s \<leftarrow> free_mutex rd s;
        s \<leftarrow> free_mutex wr s;
        Some (s\<lparr>rwlocks := (rwlocks s)(rw := None)\<rparr>) })"

definition free_cond :: "ptr \<Rightarrow> pth_state \<Rightarrow> pth_state option" where
  "free_cond c s =
     (if c = NULL then Some s
      else if c \<in> dom (conds s) then Some (s\<lparr>conds := (conds s)(c := None)\<rparr>)
      else None)"

text \<open>The common parts: making an object, freeing one, and the check and initialisation every operation begins with.\<close>

definition object_init :: "env \<Rightarrow> (ptr \<Rightarrow> pth_state \<Rightarrow> pth_state) \<Rightarrow> (ptr \<Rightarrow> pth_state \<Rightarrow> (bool \<times> pth_state) option)
    \<Rightarrow> ptr \<Rightarrow> pth_state \<Rightarrow> (errcode \<times> pth_state) option" where
  "object_init E memory init obj s = do {
     s \<leftarrow> pthread_initialize E s;
     if obj = NULL then Some (pth_error EINVAL EINVAL s)
     else do {
       let p = malloc E s;
       if p = NULL then Some (pth_error ENOMEM ENOMEM s)
       else do {
         (ok, s) \<leftarrow> init p (memory p s);
         if \<not> ok then Some (errno s, s)
         else do { s \<leftarrow> hnd_set obj p s; Some (EOK, s) } } } }"

definition object_destroy :: "(ptr \<Rightarrow> pth_state \<Rightarrow> pth_state option) \<Rightarrow> ptr \<Rightarrow> pth_state \<Rightarrow> (errcode \<times> pth_state) option" where
  "object_destroy free obj s =
     (if obj = NULL then Some (pth_error EINVAL EINVAL s)
      else do {
        p \<leftarrow> hnd_get obj s;
        s \<leftarrow> free p s;
        s \<leftarrow> hnd_set obj NULL s;
        Some (EOK, s) })"

definition static_init :: "(ptr \<Rightarrow> pth_state \<Rightarrow> (errcode \<times> pth_state) option) \<Rightarrow> ptr \<Rightarrow> pth_state \<Rightarrow> (errcode \<times> pth_state) option" where
  "static_init init obj s = do {
     p \<leftarrow> hnd_get obj s;
     if p = NULL then do {
       (e, s) \<leftarrow> init obj s;
       Some (if e \<noteq> EOK then errno s else EOK, s) }
     else Some (EOK, s) }"

definition on_object :: "(ptr \<Rightarrow> pth_state \<Rightarrow> (errcode \<times> pth_state) option) \<Rightarrow> ptr
    \<Rightarrow> (ptr \<Rightarrow> pth_state \<Rightarrow> (bool ctl \<times> pth_state) option) \<Rightarrow> pth_state \<Rightarrow> (errcode ctl \<times> pth_state) option" where
  "on_object init obj f s =
     (if obj = NULL then Some (pth_error (Ret EINVAL) EINVAL s)
      else do {
        (e, s) \<leftarrow> static_init init obj s;
        if e \<noteq> EOK then Some (Ret e, s)
        else do {
          p \<leftarrow> hnd_get obj s;
          (c, s) \<leftarrow> f p s;
          Some (errno_ctl c s) } })"

text \<open>An operation that cannot leave by cancellation.\<close>

definition plain :: "(bool \<times> pth_state) option \<Rightarrow> (bool ctl \<times> pth_state) option" where
  "plain r = map_option (\<lambda>(ok, s). (Ret ok, s)) r"

section \<open>Mutexes\<close>

definition pthread_mutex_init :: "env \<Rightarrow> ptr \<Rightarrow> pth_state \<Rightarrow> (errcode \<times> pth_state) option" where
  "pthread_mutex_init E mutex s = object_init E mutex_memory pth_mutex_init mutex s"

definition pthread_mutex_destroy :: "ptr \<Rightarrow> pth_state \<Rightarrow> (errcode \<times> pth_state) option" where
  "pthread_mutex_destroy mutex s = object_destroy free_mutex mutex s"

definition not_supported :: "(ptr \<Rightarrow> pth_state \<Rightarrow> (errcode \<times> pth_state) option) \<Rightarrow> ptr \<Rightarrow> pth_state \<Rightarrow> (errcode \<times> pth_state) option" where
  "not_supported init obj s =
     (if obj = NULL then Some (pth_error EINVAL EINVAL s)
      else do {
        (e, s) \<leftarrow> static_init init obj s;
        if e \<noteq> EOK then Some (e, s) else Some (pth_error ENOSYS ENOSYS s) })"

definition pthread_mutex_setprioceiling :: "env \<Rightarrow> ptr \<Rightarrow> int \<Rightarrow> intref \<Rightarrow> pth_state \<Rightarrow> (errcode \<times> pth_state) option" where
  "pthread_mutex_setprioceiling E mutex prioceiling old_ceiling s = not_supported (pthread_mutex_init E) mutex s"

definition pthread_mutex_getprioceiling :: "env \<Rightarrow> ptr \<Rightarrow> intref \<Rightarrow> pth_state \<Rightarrow> (errcode \<times> pth_state) option" where
  "pthread_mutex_getprioceiling E mutex prioceiling s = not_supported (pthread_mutex_init E) mutex s"

definition pthread_mutex_lock :: "env \<Rightarrow> ptr \<Rightarrow> pth_state \<Rightarrow> (errcode ctl \<times> pth_state) option" where
  "pthread_mutex_lock E mutex s =
     on_object (pthread_mutex_init E) mutex (\<lambda>m. pth_mutex_acquire E m False NULL) s"

definition pthread_mutex_trylock :: "env \<Rightarrow> ptr \<Rightarrow> pth_state \<Rightarrow> (errcode ctl \<times> pth_state) option" where
  "pthread_mutex_trylock E mutex s =
     on_object (pthread_mutex_init E) mutex (\<lambda>m. pth_mutex_acquire E m True NULL) s"

definition pthread_mutex_unlock :: "env \<Rightarrow> ptr \<Rightarrow> pth_state \<Rightarrow> (errcode ctl \<times> pth_state) option" where
  "pthread_mutex_unlock E mutex s =
     on_object (pthread_mutex_init E) mutex (\<lambda>m s. plain (pth_mutex_release m s)) s"

section \<open>Read-write locks\<close>

definition pthread_rwlock_init :: "env \<Rightarrow> rw_op \<Rightarrow> ptr \<Rightarrow> pth_state \<Rightarrow> (errcode \<times> pth_state) option" where
  "pthread_rwlock_init E mode rwlock s = object_init E (rwlock_memory mode) pth_rwlock_init rwlock s"

definition pthread_rwlock_destroy :: "ptr \<Rightarrow> pth_state \<Rightarrow> (errcode \<times> pth_state) option" where
  "pthread_rwlock_destroy rwlock s = object_destroy free_rwlock rwlock s"

definition pthread_rwlock_rdlock :: "env \<Rightarrow> rw_op \<Rightarrow> ptr \<Rightarrow> pth_state \<Rightarrow> (errcode ctl \<times> pth_state) option" where
  "pthread_rwlock_rdlock E mode rwlock s =
     on_object (pthread_rwlock_init E mode) rwlock (\<lambda>rw. pth_rwlock_acquire E rw PTH_RWLOCK_RD False NULL) s"

definition pthread_rwlock_tryrdlock :: "env \<Rightarrow> rw_op \<Rightarrow> ptr \<Rightarrow> pth_state \<Rightarrow> (errcode ctl \<times> pth_state) option" where
  "pthread_rwlock_tryrdlock E mode rwlock s =
     on_object (pthread_rwlock_init E mode) rwlock (\<lambda>rw. pth_rwlock_acquire E rw PTH_RWLOCK_RD True NULL) s"

definition pthread_rwlock_wrlock :: "env \<Rightarrow> rw_op \<Rightarrow> ptr \<Rightarrow> pth_state \<Rightarrow> (errcode ctl \<times> pth_state) option" where
  "pthread_rwlock_wrlock E mode rwlock s =
     on_object (pthread_rwlock_init E mode) rwlock (\<lambda>rw. pth_rwlock_acquire E rw PTH_RWLOCK_RW False NULL) s"

definition pthread_rwlock_trywrlock :: "env \<Rightarrow> rw_op \<Rightarrow> ptr \<Rightarrow> pth_state \<Rightarrow> (errcode ctl \<times> pth_state) option" where
  "pthread_rwlock_trywrlock E mode rwlock s =
     on_object (pthread_rwlock_init E mode) rwlock (\<lambda>rw. pth_rwlock_acquire E rw PTH_RWLOCK_RW True NULL) s"

definition pthread_rwlock_unlock :: "env \<Rightarrow> rw_op \<Rightarrow> ptr \<Rightarrow> pth_state \<Rightarrow> (errcode ctl \<times> pth_state) option" where
  "pthread_rwlock_unlock E mode rwlock s =
     on_object (pthread_rwlock_init E mode) rwlock (\<lambda>rw. pth_rwlock_release E rw) s"

section \<open>Condition variables\<close>

definition pthread_cond_init :: "env \<Rightarrow> ptr \<Rightarrow> pth_state \<Rightarrow> (errcode \<times> pth_state) option" where
  "pthread_cond_init E cond s = object_init E cond_memory pth_cond_init cond s"

definition pthread_cond_destroy :: "ptr \<Rightarrow> pth_state \<Rightarrow> (errcode \<times> pth_state) option" where
  "pthread_cond_destroy cond s = object_destroy free_cond cond s"

definition pthread_cond_broadcast :: "env \<Rightarrow> ptr \<Rightarrow> pth_state \<Rightarrow> (errcode ctl \<times> pth_state) option" where
  "pthread_cond_broadcast E cond s =
     on_object (pthread_cond_init E) cond (\<lambda>cn s. plain (pth_cond_notify E cn True s)) s"

definition pthread_cond_signal :: "env \<Rightarrow> ptr \<Rightarrow> pth_state \<Rightarrow> (errcode ctl \<times> pth_state) option" where
  "pthread_cond_signal E cond s =
     on_object (pthread_cond_init E) cond (\<lambda>cn s. plain (pth_cond_notify E cn False s)) s"

text \<open>The two static initialisations before a wait.\<close>

definition cond_mutex_init :: "env \<Rightarrow> ptr \<Rightarrow> ptr \<Rightarrow> pth_state \<Rightarrow> (errcode \<times> pth_state) option" where
  "cond_mutex_init E cond mutex s = do {
     (e, s) \<leftarrow> static_init (pthread_cond_init E) cond s;
     if e \<noteq> EOK then Some (e, s) else static_init (pthread_mutex_init E) mutex s }"

definition pthread_cond_wait :: "env \<Rightarrow> ptr \<Rightarrow> ptr \<Rightarrow> pth_state \<Rightarrow> (errcode ctl \<times> pth_state) option" where
  "pthread_cond_wait E cond mutex s =
     (if cond = NULL \<or> mutex = NULL then Some (pth_error (Ret EINVAL) EINVAL s)
      else do {
        (e, s) \<leftarrow> cond_mutex_init E cond mutex s;
        if e \<noteq> EOK then Some (Ret e, s)
        else do {
          cn \<leftarrow> hnd_get cond s;
          m \<leftarrow> hnd_get mutex s;
          (c, s) \<leftarrow> pth_cond_await E cn m NULL s;
          Some (errno_ctl c s) } })"

definition pthread_cond_timedwait :: "env \<Rightarrow> ptr \<Rightarrow> ptr \<Rightarrow> timespec option \<Rightarrow> pth_state \<Rightarrow> (errcode ctl \<times> pth_state) option" where
  "pthread_cond_timedwait E cond mutex abstime s = (case abstime of
     None \<Rightarrow> Some (pth_error (Ret EINVAL) EINVAL s)
   | Some t \<Rightarrow>
       if cond = NULL \<or> mutex = NULL then Some (pth_error (Ret EINVAL) EINVAL s)
       else if ts_sec t < 0 \<or> ts_nsec t < 0 \<or> ts_nsec t \<ge> 1000000000 then Some (pth_error (Ret EINVAL) EINVAL s)
       else do {
         (e, s) \<leftarrow> cond_mutex_init E cond mutex s;
         if e \<noteq> EOK then Some (Ret e, s)
         else do {
           (ev, s) \<leftarrow> static_event E PTH_EVENT_TIME ''pthread_cond_timedwait'' (EvTIME (pth_time (ts_sec t) (ts_nsec t div 1000))) s;
           cn \<leftarrow> hnd_get cond s;
           m \<leftarrow> hnd_get mutex s;
           (c, s) \<leftarrow> pth_cond_await E cn m ev s;
           case c of
             Exit v \<Rightarrow> Some (Exit v, s)
           | Ret ok \<Rightarrow>
               if \<not> ok then Some (Ret (errno s), s)
               else do {
                 (st, s) \<leftarrow> pth_event_status ev s;
                 Some (Ret (if st = PTH_STATUS_OCCURRED then ETIMEDOUT else EOK), s) } } })"

definition pthread_abort :: "env \<Rightarrow> ptr \<Rightarrow> pth_state \<Rightarrow> (errcode ctl \<times> pth_state) option" where
  "pthread_abort E thread s = do { (c, s) \<leftarrow> pth_abort E thread s; Some (errno_ctl c s) }"

section \<open>Replacements of blocking system calls\<close>

definition pthread_sleep :: "env \<Rightarrow> 32 word \<Rightarrow> pth_state \<Rightarrow> (32 word ctl \<times> pth_state) option" where
  "pthread_sleep E sec s = do { s \<leftarrow> pthread_initialize E s; pth_sleep E sec s }"

definition pthread_system :: "env \<Rightarrow> hio \<Rightarrow> string option \<Rightarrow> pth_state \<Rightarrow> (system_end ctl \<times> pth_state) option" where
  "pthread_system E I cmd s = do { s \<leftarrow> pthread_initialize E s; pth_system (E\<lparr>app_call := posix_call E\<rparr>) I cmd s }"

definition pthread_nanosleep :: "env \<Rightarrow> timespec option \<Rightarrow> bool \<Rightarrow> pth_state \<Rightarrow> ((int \<times> timespec option) ctl \<times> pth_state) option" where
  "pthread_nanosleep E rqtp want_rest s = do { s \<leftarrow> pthread_initialize E s; pth_nanosleep E rqtp want_rest s }"

definition pthread_usleep :: "env \<Rightarrow> 32 word \<Rightarrow> pth_state \<Rightarrow> (int ctl \<times> pth_state) option" where
  "pthread_usleep E sec s = do { s \<leftarrow> pthread_initialize E s; pth_usleep E sec s }"

definition pthread_sigwait :: "env \<Rightarrow> ptr \<Rightarrow> intref \<Rightarrow> pth_state \<Rightarrow> (errcode ctl \<times> pth_state) option" where
  "pthread_sigwait E sset sig s = do { s \<leftarrow> pthread_initialize E s; pth_sigwait E sset sig s }"

definition pthread_waitpid :: "env \<Rightarrow> hio \<Rightarrow> int \<Rightarrow> intref \<Rightarrow> 32 word \<Rightarrow> pth_state \<Rightarrow> (int ctl \<times> pth_state) option" where
  "pthread_waitpid E I pid status options s = do { s \<leftarrow> pthread_initialize E s; pth_waitpid E I pid status options s }"

definition pthread_connect :: "env \<Rightarrow> io \<Rightarrow> int \<Rightarrow> ptr \<Rightarrow> pth_state \<Rightarrow> (int ctl \<times> pth_state) option" where
  "pthread_connect E I fd addr s = do { s \<leftarrow> pthread_initialize E s; pth_connect E I fd addr s }"

definition pthread_accept :: "env \<Rightarrow> io \<Rightarrow> int \<Rightarrow> pth_state \<Rightarrow> (int ctl \<times> pth_state) option" where
  "pthread_accept E I fd s = do { s \<leftarrow> pthread_initialize E s; pth_accept E I fd s }"

definition pthread_select :: "env \<Rightarrow> hio \<Rightarrow> int \<Rightarrow> ptr \<times> ptr \<times> ptr \<Rightarrow> pth_time_t option \<Rightarrow> pth_state
    \<Rightarrow> ((int \<times> pth_time_t option) ctl \<times> pth_state) option" where
  "pthread_select E I nfds fdsets timeout s = do { s \<leftarrow> pthread_initialize E s; pth_select E I nfds fdsets timeout s }"

definition pthread_poll :: "env \<Rightarrow> hio \<Rightarrow> pollfd list option \<Rightarrow> int \<Rightarrow> pth_state \<Rightarrow> ((int \<times> pollfd list) ctl \<times> pth_state) option" where
  "pthread_poll E I pfd timeout s = do { s \<leftarrow> pthread_initialize E s; pth_poll E I pfd timeout s }"

definition pthread_read :: "env \<Rightarrow> io \<Rightarrow> int \<Rightarrow> nat \<Rightarrow> pth_state \<Rightarrow> ((int \<times> string) ctl \<times> pth_state) option" where
  "pthread_read E I fd nbytes s = do { s \<leftarrow> pthread_initialize E s; pth_read E I fd nbytes s }"

definition pthread_write :: "env \<Rightarrow> io \<Rightarrow> int \<Rightarrow> string \<Rightarrow> pth_state \<Rightarrow> (int ctl \<times> pth_state) option" where
  "pthread_write E I fd buf s = do { s \<leftarrow> pthread_initialize E s; pth_write E I fd buf s }"

definition pthread_readv :: "env \<Rightarrow> io \<Rightarrow> int \<Rightarrow> iovec list \<Rightarrow> pth_state \<Rightarrow> ((int \<times> string) ctl \<times> pth_state) option" where
  "pthread_readv E I fd piovec s = do { s \<leftarrow> pthread_initialize E s; pth_readv E I fd piovec s }"

definition pthread_writev :: "env \<Rightarrow> io \<Rightarrow> (ptr \<Rightarrow> char) \<Rightarrow> int \<Rightarrow> iovec list \<Rightarrow> pth_state \<Rightarrow> (int ctl \<times> pth_state) option" where
  "pthread_writev E I mem fd piovec s = do { s \<leftarrow> pthread_initialize E s; pth_writev E I mem fd piovec s }"

definition pthread_recv :: "env \<Rightarrow> io \<Rightarrow> int \<Rightarrow> nat \<Rightarrow> int \<Rightarrow> pth_state \<Rightarrow> ((int \<times> string) ctl \<times> pth_state) option" where
  "pthread_recv E I fd nbytes flags s = do { s \<leftarrow> pthread_initialize E s; pth_recv E I fd nbytes flags s }"

definition pthread_send :: "env \<Rightarrow> io \<Rightarrow> int \<Rightarrow> string \<Rightarrow> int \<Rightarrow> pth_state \<Rightarrow> (int ctl \<times> pth_state) option" where
  "pthread_send E I fd buf flags s = do { s \<leftarrow> pthread_initialize E s; pth_send E I fd buf flags s }"

definition pthread_recvfrom :: "env \<Rightarrow> io \<Rightarrow> int \<Rightarrow> nat \<Rightarrow> int \<Rightarrow> pth_state \<Rightarrow> ((int \<times> string) ctl \<times> pth_state) option" where
  "pthread_recvfrom E I fd nbytes flags s = do { s \<leftarrow> pthread_initialize E s; pth_recvfrom E I fd nbytes flags s }"

definition pthread_sendto :: "env \<Rightarrow> io \<Rightarrow> int \<Rightarrow> string \<Rightarrow> int \<Rightarrow> ptr \<Rightarrow> pth_state \<Rightarrow> (int ctl \<times> pth_state) option" where
  "pthread_sendto E I fd buf flags addr s = do { s \<leftarrow> pthread_initialize E s; pth_sendto E I fd buf flags addr s }"

definition pthread_pread :: "env \<Rightarrow> io \<Rightarrow> int \<Rightarrow> nat \<Rightarrow> int \<Rightarrow> pth_state \<Rightarrow> ((int \<times> string) ctl \<times> pth_state) option" where
  "pthread_pread E I fd nbytes offset s = do { s \<leftarrow> pthread_initialize E s; pth_pread E I fd nbytes offset s }"

definition pthread_pwrite :: "env \<Rightarrow> io \<Rightarrow> int \<Rightarrow> string \<Rightarrow> int \<Rightarrow> pth_state \<Rightarrow> (int ctl \<times> pth_state) option" where
  "pthread_pwrite E I fd buf offset s = do { s \<leftarrow> pthread_initialize E s; pth_pwrite E I fd buf offset s }"

end
