(* ===== verification/Pth_Posix_Props.thy ===== *)
theory Pth_Posix_Props
  imports Pth_Posix_Sync
begin

text \<open>
  Properties of the POSIX interface: the cancellation state stays a valid combination of bits, objects that were initialised
  statically behave like ones that were initialised by a call, and the fork handlers run in the order POSIX demands.
\<close>

section \<open>The cancellation state\<close>

text \<open>Exactly one of the two bits for the state is set, and one of the two for the type.\<close>

definition cancel_wf :: "32 word \<Rightarrow> bool" where
  "cancel_wf w \<longleftrightarrow> (flag w PTH_CANCEL_ENABLE \<longleftrightarrow> \<not> flag w PTH_CANCEL_DISABLE) \<and>
     (flag w PTH_CANCEL_DEFERRED \<longleftrightarrow> \<not> flag w PTH_CANCEL_ASYNCHRONOUS)"

definition with_cancel_state :: "32 word \<Rightarrow> pth_state \<Rightarrow> pth_state" where
  "with_cancel_state w s = s\<lparr>tcbs := (tcbs s)(pth_current s \<mapsto> (the (tcbs s (pth_current s)))\<lparr>t_cancelstate := w\<rparr>)\<rparr>"

lemma cancel_bits:
  "PTH_CANCEL_ENABLE = push_bit 0 1" "PTH_CANCEL_DISABLE = push_bit 1 1"
  "PTH_CANCEL_ASYNCHRONOUS = push_bit 2 1" "PTH_CANCEL_DEFERRED = push_bit 3 1"
  by (simp_all add: PTH_CANCEL_ENABLE_def PTH_CANCEL_DISABLE_def PTH_CANCEL_ASYNCHRONOUS_def PTH_CANCEL_DEFERRED_def)

lemma flag_push_bit: "flag w (push_bit n 1) \<longleftrightarrow> bit w n"
  by (simp add: flag_def bit_iff_and_push_bit_not_eq_0)

text \<open>Setting one bit and clearing another one, and undoing it.\<close>

lemma swap_bits:
  fixes w :: "32 word"
  assumes "a \<noteq> b" "a < 32" "b < 32"
  defines "v \<equiv> (w OR push_bit a 1) AND NOT (push_bit b 1)"
  shows "bit v a" "\<not> bit v b" "n \<noteq> a \<Longrightarrow> n \<noteq> b \<Longrightarrow> bit v n = bit w n"
    "bit w a \<noteq> bit w b \<Longrightarrow> bit w a \<Longrightarrow> v = w"
    "bit w a \<noteq> bit w b \<Longrightarrow> bit w b \<Longrightarrow> (v OR push_bit b 1) AND NOT (push_bit a 1) = w"
  using assms bit_imp_le_length [of w n] by (auto simp: bit_simps intro!: bit_word_eqI)

lemma cancel_state_steps:
  assumes "tcbs s (pth_current s) = Some c"
  shows "cancel_state_of s = Some (t_cancelstate c)"
    "w \<noteq> 0 \<Longrightarrow> pth_cancel_state w NullInt s = Some (with_cancel_state w s)"
  using assms by (simp_all add: cancel_state_of_def pth_cancel_state_def with_cancel_state_def cells)

text \<open>
  \<open>pick_bit a b on w\<close>: of the bits \<open>a\<close> and \<open>b\<close>, set \<open>a\<close> and clear \<open>b\<close>, or the other way round. Both functions change the state this way.
\<close>

definition pick_bit :: "nat \<Rightarrow> nat \<Rightarrow> bool \<Rightarrow> 32 word \<Rightarrow> 32 word" where
  "pick_bit a b on w = (if on then (w OR push_bit a 1) AND NOT (push_bit b 1) else (w OR push_bit b 1) AND NOT (push_bit a 1))"

lemma pick_bit_bits:
  assumes "a \<noteq> b" "a < 32" "b < 32"
  shows "bit (pick_bit a b on w) a \<longleftrightarrow> on" "bit (pick_bit a b on w) b \<longleftrightarrow> \<not> on"
    "n \<noteq> a \<Longrightarrow> n \<noteq> b \<Longrightarrow> bit (pick_bit a b on w) n = bit w n" "pick_bit a b on w \<noteq> 0"
    "bit w a \<noteq> bit w b \<Longrightarrow> pick_bit a b (bit w a) (pick_bit a b on w) = w"
proof -
  note 1 = swap_bits [OF assms, where w = w] and 2 = swap_bits [OF assms(1) [symmetric] assms(3,2), where w = w]
  show b: "bit (pick_bit a b on w) a \<longleftrightarrow> on" "bit (pick_bit a b on w) b \<longleftrightarrow> \<not> on"
    "n \<noteq> a \<Longrightarrow> n \<noteq> b \<Longrightarrow> bit (pick_bit a b on w) n = bit w n" for n
    using 1(1-3) 2(1-3) by (simp_all add: pick_bit_def)
  show "pick_bit a b on w \<noteq> 0"
    using b(1,2) by (cases on) auto
  show "bit w a \<noteq> bit w b \<Longrightarrow> pick_bit a b (bit w a) (pick_bit a b on w) = w"
    using swap_bits(4,5) [OF assms, where w = w] swap_bits(4,5) [OF assms(1) [symmetric] assms(3,2), where w = w]
    by (cases on; cases "bit w a") (simp_all add: pick_bit_def)
qed

lemma setcancelstate_picks:
  assumes c: "tcbs s (pth_current s) = Some c" and r: "r = NullInt \<or> r \<in> dom (mem_int s)" and v: "v \<noteq> 0"
  defines "s1 \<equiv> if r = NullInt then s else s\<lparr>mem_int := (mem_int s)(r \<mapsto> if bit (t_cancelstate c) 0 then 1 else 2)\<rparr>"
  shows "pthread_setcancelstate v r s = Some (EOK, with_cancel_state (pick_bit 0 1 (v = 1) (t_cancelstate c)) s1)"
proof -
  have "tcbs s1 (pth_current s1) = Some c"
    using c by (simp add: s1_def)
  note steps = cancel_state_steps [OF c] cancel_state_steps [OF this]
  have "pick_bit 0 1 (v = 1) (t_cancelstate c) \<noteq> 0"
    by (rule pick_bit_bits) simp_all
  then show ?thesis
    using r v steps unfolding pthread_setcancelstate_def cancel_bits flag_push_bit pick_bit_def s1_def
    by (auto simp: PTHREAD_CANCEL_ENABLE_def PTHREAD_CANCEL_DISABLE_def int_set_def cells Let_def)
qed

lemma setcanceltype_picks:
  assumes c: "tcbs s (pth_current s) = Some c" and r: "r = NullInt \<or> r \<in> dom (mem_int s)" and v: "v \<noteq> 0"
  defines "s1 \<equiv> if r = NullInt then s else s\<lparr>mem_int := (mem_int s)(r \<mapsto> if bit (t_cancelstate c) 3 then 2 else 1)\<rparr>"
  shows "pthread_setcanceltype v r s = Some (EOK, with_cancel_state (pick_bit 3 2 (v = 2) (t_cancelstate c)) s1)"
proof -
  have "tcbs s1 (pth_current s1) = Some c"
    using c by (simp add: s1_def)
  note steps = cancel_state_steps [OF c] cancel_state_steps [OF this]
  have "pick_bit 3 2 (v = 2) (t_cancelstate c) \<noteq> 0"
    by (rule pick_bit_bits) simp_all
  then show ?thesis
    using r v steps unfolding pthread_setcanceltype_def cancel_bits flag_push_bit pick_bit_def s1_def
    by (auto simp: PTHREAD_CANCEL_DEFERRED_def PTHREAD_CANCEL_ASYNCHRONOUS_def int_set_def cells Let_def)
qed

text \<open>
  \<open>restoring f on other v r s\<close>: the call \<open>f v r\<close> makes the choice of \<open>on\<close> (a number and its bit) that \<open>v\<close> asks for and no other, stores the
  old choice at \<open>r\<close>, and \<open>f\<close> of that old choice brings the old state back.
\<close>

definition restoring :: "(int \<Rightarrow> intref \<Rightarrow> pth_state \<Rightarrow> (errcode \<times> pth_state) option) \<Rightarrow> int \<times> 32 word \<Rightarrow> 32 word \<Rightarrow> int \<Rightarrow> intref \<Rightarrow> 32 word
    \<Rightarrow> pth_state \<Rightarrow> bool" where
  "restoring f on other v r w s \<longleftrightarrow> (\<exists>w' old. let s1 = s\<lparr>mem_int := (mem_int s)(r \<mapsto> old)\<rparr> in
     cancel_wf w' \<and> (flag w' (snd on) \<longleftrightarrow> v = fst on) \<and> (flag w' other \<longleftrightarrow> flag w other) \<and>
     (old = fst on \<longleftrightarrow> flag w (snd on)) \<and>
     f v r s = Some (EOK, with_cancel_state w' s1) \<and> f old NullInt (with_cancel_state w' s1) = Some (EOK, s1))"

lemma with_cancel_state_again:
  assumes "tcbs s (pth_current s) = Some c"
  shows "tcbs (with_cancel_state w s) (pth_current (with_cancel_state w s)) = Some (c\<lparr>t_cancelstate := w\<rparr>)"
    "with_cancel_state (t_cancelstate c) (with_cancel_state w s) = s"
  using assms by (simp_all add: with_cancel_state_def self_upd)

lemma setcancelstate_restoring:
  assumes c: "tcbs s (pth_current s) = Some c" and wf: "cancel_wf (t_cancelstate c)"
    and r: "r \<noteq> NullInt" "r \<in> dom (mem_int s)" and v: "v \<noteq> 0"
  shows "restoring pthread_setcancelstate (PTHREAD_CANCEL_ENABLE, PTH_CANCEL_ENABLE) PTH_CANCEL_DEFERRED v r (t_cancelstate c) s"
proof -
  let ?w = "t_cancelstate c" and ?w' = "pick_bit 0 1 (v = 1) (t_cancelstate c)"
  let ?old = "if bit ?w 0 then 1 else 2 :: int"
  let ?s1 = "s\<lparr>mem_int := (mem_int s)(r \<mapsto> ?old)\<rparr>"
  have b: "bit ?w 0 \<noteq> bit ?w 1" "bit ?w 3 \<noteq> bit ?w 2"
    using wf unfolding cancel_wf_def cancel_bits flag_push_bit by simp_all
  have w': "bit ?w' 0 \<longleftrightarrow> v = 1" "bit ?w' 1 \<longleftrightarrow> v \<noteq> 1" "bit ?w' 2 = bit ?w 2" "bit ?w' 3 = bit ?w 3"
    "pick_bit 0 1 (bit ?w 0) ?w' = ?w"
    using pick_bit_bits [of 0 1] b(1) by simp_all
  have s1: "tcbs ?s1 (pth_current ?s1) = Some c"
    using c by simp
  have "pthread_setcancelstate v r s = Some (EOK, with_cancel_state ?w' ?s1)"
    using setcancelstate_picks [OF c _ v, of r] r by simp
  moreover have "pthread_setcancelstate ?old NullInt (with_cancel_state ?w' ?s1) = Some (EOK, ?s1)"
    using setcancelstate_picks [OF with_cancel_state_again(1) [OF s1], where r = NullInt and v = ?old] with_cancel_state_again(2) [OF s1] w'(5)
    by (cases "bit ?w 0") simp_all
  ultimately show ?thesis
    unfolding restoring_def Let_def prod.sel cancel_wf_def cancel_bits flag_push_bit PTHREAD_CANCEL_ENABLE_def
    using b w'(1-4) by (intro exI [of _ ?w'] exI [of _ ?old]) simp
qed

lemma setcanceltype_restoring:
  assumes c: "tcbs s (pth_current s) = Some c" and wf: "cancel_wf (t_cancelstate c)"
    and r: "r \<noteq> NullInt" "r \<in> dom (mem_int s)" and v: "v \<noteq> 0"
  shows "restoring pthread_setcanceltype (PTHREAD_CANCEL_DEFERRED, PTH_CANCEL_DEFERRED) PTH_CANCEL_ENABLE v r (t_cancelstate c) s"
proof -
  let ?w = "t_cancelstate c" and ?w' = "pick_bit 3 2 (v = 2) (t_cancelstate c)"
  let ?old = "if bit ?w 3 then 2 else 1 :: int"
  let ?s1 = "s\<lparr>mem_int := (mem_int s)(r \<mapsto> ?old)\<rparr>"
  have b: "bit ?w 0 \<noteq> bit ?w 1" "bit ?w 3 \<noteq> bit ?w 2"
    using wf unfolding cancel_wf_def cancel_bits flag_push_bit by simp_all
  have w': "bit ?w' 3 \<longleftrightarrow> v = 2" "bit ?w' 2 \<longleftrightarrow> v \<noteq> 2" "bit ?w' 0 = bit ?w 0" "bit ?w' 1 = bit ?w 1"
    "pick_bit 3 2 (bit ?w 3) ?w' = ?w"
    using pick_bit_bits [of 3 2] b(2) by simp_all
  have s1: "tcbs ?s1 (pth_current ?s1) = Some c"
    using c by simp
  have "pthread_setcanceltype v r s = Some (EOK, with_cancel_state ?w' ?s1)"
    using setcanceltype_picks [OF c _ v, of r] r by simp
  moreover have "pthread_setcanceltype ?old NullInt (with_cancel_state ?w' ?s1) = Some (EOK, ?s1)"
    using setcanceltype_picks [OF with_cancel_state_again(1) [OF s1], where r = NullInt and v = ?old] with_cancel_state_again(2) [OF s1] w'(5)
    by (cases "bit ?w 3") simp_all
  ultimately show ?thesis
    unfolding restoring_def Let_def prod.sel cancel_wf_def cancel_bits flag_push_bit PTHREAD_CANCEL_DEFERRED_def
    using b w'(1-4) by (intro exI [of _ ?w'] exI [of _ ?old]) simp
qed

text \<open>
  C35: \<^verbatim>\<open>pthread_setcancelstate\<close> and \<^verbatim>\<open>pthread_setcanceltype\<close> keep the cancellation state of a thread well-formed: exactly one of
  the two bits for the state and one of the two for the type is set afterwards. Each of them changes its own choice to the one
  asked for (every number other than the one for enabled or deferred selects the opposite), keeps the other choice, and returns
  the old choice, which the same function restores: the second call leaves the state as it was.
\<close>

theorem pthread_setcancel_restores:
  assumes "tcbs s (pth_current s) = Some c" "cancel_wf (t_cancelstate c)" "r \<noteq> NullInt" "r \<in> dom (mem_int s)" "v \<noteq> 0"
  shows
    "restoring pthread_setcancelstate (PTHREAD_CANCEL_ENABLE, PTH_CANCEL_ENABLE) PTH_CANCEL_DEFERRED v r (t_cancelstate c) s \<and>
     restoring pthread_setcanceltype (PTHREAD_CANCEL_DEFERRED, PTH_CANCEL_DEFERRED) PTH_CANCEL_ENABLE v r (t_cancelstate c) s"
  using setcancelstate_restoring setcanceltype_restoring assms by blast

definition default_thread :: pth_state where
  "default_thread = state0\<lparr>pth_current := 1, tcbs := [1 \<mapsto> tcb0\<lparr>t_cancelstate := PTH_CANCEL_DEFAULT\<rparr>], mem_int := [IntAt 7 \<mapsto> 0]\<rparr>"

theorem pthread_setcancel_restores_witness:
  "\<exists>w. pthread_setcancelstate PTHREAD_CANCEL_DISABLE (IntAt 7) default_thread =
     Some (EOK, with_cancel_state w (default_thread\<lparr>mem_int := [IntAt 7 \<mapsto> PTHREAD_CANCEL_ENABLE]\<rparr>)) \<and>
     cancel_wf w \<and> \<not> flag w PTH_CANCEL_ENABLE"
proof -
  let ?c = "tcb0\<lparr>t_cancelstate := PTH_CANCEL_DEFAULT\<rparr>"
  have d: "tcbs default_thread (pth_current default_thread) = Some ?c" "IntAt 7 \<in> dom (mem_int default_thread)"
    "mem_int default_thread = [IntAt 7 \<mapsto> 0]"
    by (simp_all add: default_thread_def)
  have f: "flag PTH_CANCEL_DEFAULT PTH_CANCEL_ENABLE" "cancel_wf PTH_CANCEL_DEFAULT"
    by (simp_all add: flag_def cancel_wf_def PTH_CANCEL_DEFAULT_def PTH_CANCEL_ENABLE_def PTH_CANCEL_DISABLE_def
        PTH_CANCEL_DEFERRED_def PTH_CANCEL_ASYNCHRONOUS_def)
  show ?thesis
    using pthread_setcancel_restores [OF d(1) _ _ d(2), of PTHREAD_CANCEL_DISABLE] f d(3)
    by (auto simp: restoring_def Let_def PTHREAD_CANCEL_DISABLE_def PTHREAD_CANCEL_ENABLE_def)
qed

section \<open>Objects that are initialised when they are first used\<close>

text \<open>
  The contract of a kind of object: initialising fresh memory makes it ready for use and leaves the variables of this interface
  alone. What an operation does with an object that was initialised statically follows.
\<close>

locale posix_object =
  fixes memory :: "ptr \<Rightarrow> pth_state \<Rightarrow> pth_state"
    and init :: "ptr \<Rightarrow> pth_state \<Rightarrow> (bool \<times> pth_state) option"
    and made :: "ptr \<Rightarrow> pth_state \<Rightarrow> pth_state"
  assumes init_made: "p \<noteq> NULL \<Longrightarrow> init p (memory p s) = Some (True, made p s)"
    and made_px: "px (made p s) = px s"
begin

lemma object_init_made:
  assumes "pthread_initialized (px s)" "obj \<noteq> NULL" "hnd_get obj s = Some h" "malloc E s \<noteq> NULL"
  shows "object_init E memory init obj s =
    Some (EOK, px_set (\<lambda>x. x\<lparr>handles := (handles x)(obj \<mapsto> malloc E s)\<rparr>) (made (malloc E s) s))"
  using assms init_made made_px
  by (auto simp: object_init_def pthread_initialize_def Let_def hnd_set_def hnd_get_def)

lemma on_object_static:
  assumes "pthread_initialized (px s)" "obj \<noteq> NULL" "hnd_get obj s = Some NULL" "malloc E s \<noteq> NULL"
  shows "on_object (object_init E memory init) obj f s =
    do { (c, s) \<leftarrow> f (malloc E s) (px_set (\<lambda>x. x\<lparr>handles := (handles x)(obj \<mapsto> malloc E s)\<rparr>) (made (malloc E s) s)); Some (errno_ctl c s) }"
  using assms(2-4) object_init_made [OF assms(1-4)]
  by (simp add: on_object_def static_init_def hnd_get_def px_set_def)

lemma on_object_no_memory:
  assumes "pthread_initialized (px s)" "obj \<noteq> NULL" "hnd_get obj s = Some NULL" "malloc E s = NULL"
  shows "on_object (object_init E memory init) obj f s = Some (Ret ENOMEM, s\<lparr>errno := ENOMEM\<rparr>)"
  using assms by (simp add: on_object_def static_init_def object_init_def pthread_initialize_def Let_def pth_error_def)

end

lemma on_object_used:
  assumes "obj \<noteq> NULL" "hnd_get obj s = Some p" "p \<noteq> NULL"
  shows "on_object init obj f s = do { (c, s) \<leftarrow> f p s; Some (errno_ctl c s) }"
  using assms by (simp add: on_object_def static_init_def)

lemma pthread_init_object:
  "pthread_mutex_init E = object_init E mutex_memory pth_mutex_init"
  "pthread_rwlock_init E mode = object_init E (rwlock_memory mode) pth_rwlock_init"
  "pthread_cond_init E = object_init E cond_memory pth_cond_init"
  by (intro ext; simp add: pthread_mutex_init_def pthread_rwlock_init_def pthread_cond_init_def)+

definition mutex_made :: "ptr \<Rightarrow> pth_state \<Rightarrow> pth_state" where
  "mutex_made m s = s\<lparr>nodes := (nodes s)(m \<mapsto> \<lparr>rn_next = NULL, rn_prev = NULL\<rparr>),
     mutexes := (mutexes s)(m \<mapsto> \<lparr>mx_state = PTH_MUTEX_INITIALIZED, mx_owner = NULL, mx_count = 0\<rparr>)\<rparr>"

definition rwlock_made :: "rw_op \<Rightarrow> ptr \<Rightarrow> pth_state \<Rightarrow> pth_state" where
  "rwlock_made mode rw s =
     (let s = mutex_made (rw + 56) (mutex_made (rw + 16) s)
      in s\<lparr>rwlocks := (rwlocks s)(rw \<mapsto> \<lparr>rw_state = PTH_RWLOCK_INITIALIZED, rw_mode = mode, rw_readers = 0,
           rw_mutex_rd = rw + 16, rw_mutex_rw = rw + 56\<rparr>)\<rparr>)"

definition cond_made :: "ptr \<Rightarrow> pth_state \<Rightarrow> pth_state" where
  "cond_made c s = s\<lparr>conds := (conds s)(c \<mapsto> \<lparr>cn_state = PTH_COND_INITIALIZED, cn_waiters = 0\<rparr>)\<rparr>"

interpretation px_mutex: posix_object mutex_memory pth_mutex_init mutex_made
  by unfold_locales (simp_all add: mutex_memory_def mutex_made_def pth_mutex_init_def cells)

interpretation px_cond: posix_object cond_memory pth_cond_init cond_made
  by unfold_locales (simp_all add: cond_memory_def cond_made_def pth_cond_init_def cells)

interpretation px_rwlock: posix_object "rwlock_memory mode" pth_rwlock_init "rwlock_made mode" for mode
  by unfold_locales (simp_all add: rwlock_memory_def rwlock_made_def mutex_memory_def mutex_made_def pth_rwlock_init_def
      pth_mutex_init_def cells Let_def fun_upd_twist)

lemma px_set_simps [simp]:
  "px (px_set f s) = f (px s)" "tcbs (px_set f s) = tcbs s" "pth_current (px_set f s) = pth_current s"
  "mutexes (px_set f s) = mutexes s" "nodes (px_set f s) = nodes s" "rings (px_set f s) = rings s"
  by (simp_all add: px_set_def)

lemma mutexes_ok_px [simp]: "mutexes_ok (px_set f s) M = mutexes_ok s M"
  by (simp add: mutexes_ok_def ring_rep_def)

lemma mutexes_ok_made:
  assumes ok: "mutexes_ok s M" and m: "m \<notin> dom (nodes s)" "m \<noteq> NULL"
  shows "mutexes_ok (mutex_made m s) M"
proof -
  have ring: "ring_rep (mutex_made m s) (MutexRing t) (M t)" if t: "t \<in> dom (tcbs s)" for t
  proof -
    have rep: "ring_rep s (MutexRing t) (M t)"
      by (rule mutexes_ok_ring [OF ok t])
    have "dring (fld (nodes (mutex_made m s)) rn_next) (fld (nodes (mutex_made m s)) rn_prev) (M t) =
        dring (fld (nodes s) rn_next) (fld (nodes s) rn_prev) (M t)"
      using ring_rep_nodes [OF rep] m(1) by (intro dring_cong) (auto simp: mutex_made_def fld_def fun_upd_apply)
    with rep show ?thesis
      by (simp add: ring_rep_def mutex_made_def)
  qed
  have fresh: "mutexes s m = None"
    using mutexes_ok_node [OF ok, of m] m(1) by (cases "mutexes s m") auto
  have node: "\<exists>y. nodes s x = Some y" "x \<noteq> NULL" if "mutexes s x = Some c" for x c
    using mutexes_ok_node [OF ok that] by auto
  have new: "\<not> locked \<lparr>mx_state = PTH_MUTEX_INITIALIZED, mx_owner = NULL, mx_count = 0\<rparr>"
    by (simp add: locked_def flag_def PTH_MUTEX_LOCKED_def PTH_MUTEX_INITIALIZED_def)
  show ?thesis
    unfolding mutexes_ok_def
  proof (intro conjI ballI allI impI)
    fix t assume "t \<in> dom (tcbs (mutex_made m s))"
    then have t: "t \<in> dom (tcbs s)" by (simp add: mutex_made_def)
    then show "ring_rep (mutex_made m s) (MutexRing t) (M t)" by (rule ring)
    show "x \<in> set (M t) \<longleftrightarrow> (\<exists>c. mutexes (mutex_made m s) x = Some c \<and> locked c \<and> mx_owner c = t)" for x
      using mutexes_ok_mem [OF ok t, of x] fresh new by (cases "x = m") (auto simp: mutex_made_def)
  qed (use mutexes_ok_locked [OF ok] node m(2) new in
      \<open>auto simp: mutex_made_def fun_upd_apply split: if_splits\<close>)
qed

lemma mutex_lock_px:
  assumes "mutex_lock m s = Some s'"
  shows "px s' = px s"
proof -
  obtain h where "pth_ring_append (MutexRing (pth_current s)) m (s\<lparr>mutexes := h\<rparr>) = Some s'"
    using assms by (auto simp: mutex_lock_def mx_set_def split: Option.bind_splits)
  from ring_append_keeps [OF this, THEN arg_cong [where f = px]] show ?thesis
    by (simp add: ringless_def)
qed

text \<open>
  C34: a mutex that was initialised statically works like one that \<^verbatim>\<open>pthread_mutex_init\<close> has made: the first \<^verbatim>\<open>pthread_mutex_lock\<close>
  allocates it, stores its address in the cell of the application and returns 0 with the mutex held once by the caller, and
  \<^verbatim>\<open>pthread_mutex_unlock\<close> gives it back; the mutexes and the rings of their owners stay consistent throughout. Without memory
  the call fails with \<^verbatim>\<open>ENOMEM\<close> and changes nothing else.
\<close>

theorem pthread_mutex_static_lock:
  assumes ok: "mutexes_ok s M" and t: "pth_current s \<in> dom (tcbs s)" and init: "pthread_initialized (px s)"
    and h: "mutex \<noteq> NULL" "hnd_get mutex s = Some NULL" and m: "malloc E s \<notin> dom (nodes s)"
  shows "if malloc E s = NULL then pthread_mutex_lock E mutex s = Some (Ret ENOMEM, s\<lparr>errno := ENOMEM\<rparr>)
    else \<exists>s1 s2. pthread_mutex_lock E mutex s = Some (Ret EOK, s1) \<and> hnd_get mutex s1 = Some (malloc E s) \<and>
      mutexes_ok s1 (M(pth_current s := M (pth_current s) @ [malloc E s])) \<and>
      mutexes s1 (malloc E s) = Some \<lparr>mx_state = PTH_MUTEX_INITIALIZED OR PTH_MUTEX_LOCKED, mx_owner = pth_current s, mx_count = 1\<rparr> \<and>
      pthread_mutex_unlock E mutex s1 = Some (Ret EOK, s2) \<and> mutexes_ok s2 M \<and>
      mutexes s2 = (mutexes s)(malloc E s \<mapsto> \<lparr>mx_state = PTH_MUTEX_INITIALIZED, mx_owner = NULL, mx_count = 0\<rparr>)"
proof (cases "malloc E s = NULL")
  case True
  then show ?thesis
    using px_mutex.on_object_no_memory [OF init h True] by (simp add: pthread_mutex_lock_def pthread_init_object)
next
  case False
  let ?m = "malloc E s" and ?t = "pth_current s"
  let ?s0 = "px_set (\<lambda>x. x\<lparr>handles := (handles x)(mutex \<mapsto> malloc E s)\<rparr>) (mutex_made (malloc E s) s)"
  let ?c = "\<lparr>mx_state = PTH_MUTEX_INITIALIZED, mx_owner = NULL, mx_count = 0\<rparr>"
  let ?c1 = "\<lparr>mx_state = PTH_MUTEX_INITIALIZED OR PTH_MUTEX_LOCKED, mx_owner = ?t, mx_count = 1\<rparr>"
  have bits: "flag PTH_MUTEX_INITIALIZED PTH_MUTEX_INITIALIZED" "\<not> flag PTH_MUTEX_INITIALIZED PTH_MUTEX_LOCKED"
    "flag (PTH_MUTEX_INITIALIZED OR PTH_MUTEX_LOCKED) PTH_MUTEX_INITIALIZED" "locked ?c1" "\<not> locked ?c" "unlocked ?c1 = ?c"
    by (simp_all add: flag_def locked_def unlocked_def PTH_MUTEX_INITIALIZED_def PTH_MUTEX_LOCKED_def)
  have s0: "mutexes_ok ?s0 M" "pth_current ?s0 = ?t" "tcbs ?s0 = tcbs s" "mutexes ?s0 ?m = Some ?c"
    using mutexes_ok_made [OF ok m False] by (simp_all add: mutex_made_def)
  obtain s1 where s1: "mutex_lock ?m ?s0 = Some s1" "mutexes_ok s1 (M(?t := M ?t @ [?m]))"
    "mutexes s1 = (mutexes ?s0)(?m \<mapsto> ?c1)" "tcbs s1 = tcbs s" "pth_current s1 = ?t"
    using mutex_lock_ok [OF s0(1) _ s0(4) bits(5)] s0(2,3) t by auto
  have "pth_mutex_acquire E ?m False NULL ?s0 = Some (Ret True, s1)"
    using False s0(4) bits s1(1) by (simp add: pth_mutex_acquire_def cells)
  then have lock: "pthread_mutex_lock E mutex s = Some (Ret EOK, s1)"
    using px_mutex.on_object_static [OF init h False]
    by (simp add: pthread_mutex_lock_def pthread_init_object errno_ctl_def)
  have cell: "hnd_get mutex s1 = Some ?m"
    using mutex_lock_px [OF s1(1)] by (simp add: hnd_get_def)
  have out: "?m \<notin> set (M ?t)"
    using mutexes_ok_mem [OF ok t, of ?m] mutexes_ok_node [OF ok, of ?m] m by auto
  obtain s2 where s2: "pth_mutex_release ?m s1 = Some (True, s2)"
    "mutexes_ok s2 ((M(?t := M ?t @ [?m]))(?t := removeAll ?m (M ?t @ [?m])))" "mutexes s2 = (mutexes s1)(?m \<mapsto> ?c)"
    using release_last_ok [OF s1(2), of ?m ?c1] s1(3-5) t bits by auto
  have "pthread_mutex_unlock E mutex s1 = Some (Ret EOK, s2)"
    using on_object_used [OF h(1) cell False] s2(1) by (simp add: pthread_mutex_unlock_def plain_def errno_ctl_def)
  moreover have "mutexes_ok s2 M"
    using s2(2) out by simp
  moreover have "mutexes s2 = (mutexes s)(?m \<mapsto> ?c)"
    using s2(3) s1(3) by (simp add: mutex_made_def)
  ultimately show ?thesis
    using False lock cell s1(2,3) by auto
qed

definition static_mutex :: pth_state where
  "static_mutex = state0\<lparr>pth_current := 1, tcbs := [1 \<mapsto> tcb0], rings := [MutexRing 1 \<mapsto> \<lparr>r_hook = NULL, r_nodes = 0\<rparr>],
     px := (px state0)\<lparr>pthread_initialized := True, handles := [7 \<mapsto> NULL]\<rparr>\<rparr>"

lemma static_mutex_ok: "mutexes_ok static_mutex (\<lambda>_. [])"
  by (auto simp: mutexes_ok_def static_mutex_def state0_def ring_rep_def fun_upd_apply split: if_splits)

theorem pthread_mutex_static_lock_witness:
  "\<exists>s1 s2. pthread_mutex_lock (env0\<lparr>malloc := \<lambda>_. 5\<rparr>) 7 static_mutex = Some (Ret EOK, s1) \<and>
     pthread_mutex_unlock (env0\<lparr>malloc := \<lambda>_. 5\<rparr>) 7 s1 = Some (Ret EOK, s2)"
proof -
  have h: "pth_current static_mutex \<in> dom (tcbs static_mutex)" "pthread_initialized (px static_mutex)" "hnd_get 7 static_mutex = Some NULL"
    "malloc (env0\<lparr>malloc := \<lambda>_. 5\<rparr>) static_mutex \<notin> dom (nodes static_mutex)"
    by (simp_all add: static_mutex_def state0_def hnd_get_def)
  show ?thesis
    using pthread_mutex_static_lock [OF static_mutex_ok h(1,2) _ h(3,4)] by auto
qed

text \<open>
  C36: \<^verbatim>\<open>pthread_mutex_destroy\<close> does not check that the mutex is unlocked: destroying the first mutex the calling thread holds returns
  0, but the mutex stays in the ring of its owner, so that releasing the mutexes of the thread when it ends reads freed memory.
\<close>

theorem pthread_mutex_destroy_locked:
  assumes ok: "mutexes_ok s M" and t: "pth_current s \<in> dom (tcbs s)" "pth_current s \<noteq> NULL"
    and h: "mutex \<noteq> NULL" "hnd_get mutex s = Some m" and M: "M (pth_current s) = m # ms"
  shows "\<exists>s'. pthread_mutex_destroy mutex s = Some (EOK, s') \<and> hnd_get mutex s' = Some NULL \<and> m \<notin> dom (mutexes s') \<and>
    pth_ring_first (MutexRing (pth_current s')) s' = Some m \<and> pth_mutex_releaseall (pth_current s') s' = None"
proof -
  let ?t = "pth_current s"
  have rep: "ring_rep s (MutexRing ?t) (m # ms)"
    using mutexes_ok_ring [OF ok t(1)] M by simp
  have m: "m \<in> dom (mutexes s)" "m \<noteq> NULL"
    using mutexes_ok_mem [OF ok t(1), of m] M rep by (auto simp: ring_rep_def)
  let ?s1 = "s\<lparr>nodes := (nodes s)(m := None), mutexes := (mutexes s)(m := None)\<rparr>"
  let ?s' = "px_set (\<lambda>x. x\<lparr>handles := (handles x)(mutex \<mapsto> NULL)\<rparr>) ?s1"
  have "pthread_mutex_destroy mutex s = Some (EOK, ?s')"
    using h m by (auto simp: pthread_mutex_destroy_def object_destroy_def free_mutex_def hnd_set_def hnd_get_def)
  moreover have first: "pth_ring_first (MutexRing (pth_current ?s')) ?s' = Some m"
    using pth_ring_first_spec [OF rep] by (simp add: pth_ring_first_def r_get_def)
  moreover have "pth_mutex_release m ?s' = None"
    using m(2) by (simp add: pth_mutex_release_def mx_get_def fld_def)
  then have "pth_mutex_releaseall (pth_current ?s') ?s' = None"
    using t(2) first m(2) by (simp add: pth_mutex_releaseall_def releaseall_loop.simps)
  ultimately show ?thesis
    by (intro exI [of _ ?s']) (simp add: hnd_get_def)
qed

theorem pthread_mutex_destroy_locked_witness:
  "\<exists>s'. pthread_mutex_destroy 7 (px_set (\<lambda>x. x\<lparr>handles := [7 \<mapsto> 5]\<rparr>) two_mutexes) = Some (EOK, s') \<and> pth_mutex_releaseall 1 s' = None"
proof -
  let ?s = "px_set (\<lambda>x. x\<lparr>handles := [7 \<mapsto> 5]\<rparr>) two_mutexes"
  have ok: "mutexes_ok ?s ((\<lambda>_. [])(1 := [5, 6]))"
    using two_mutexes_ok by simp
  have h: "pth_current ?s \<in> dom (tcbs ?s)" "pth_current ?s = 1" "hnd_get 7 ?s = Some 5"
    by (simp_all add: two_mutexes_def hnd_get_def)
  obtain s' where "pthread_mutex_destroy 7 ?s = Some (EOK, s')" "pth_mutex_releaseall (pth_current s') s' = None"
    using pthread_mutex_destroy_locked [OF ok h(1) _ _ h(3), of "[6]"] h(2) by auto
  moreover from this(1) have "pth_current s' = pth_current ?s"
    by (auto simp: pthread_mutex_destroy_def object_destroy_def free_mutex_def hnd_set_def split: Option.bind_splits if_splits)
  ultimately show ?thesis
    using h(2) by auto
qed

section \<open>Fork handlers\<close>

text \<open>
  \<open>posix_handlers s\<close>: the handlers registered with the library are those of this interface, each with its entry of
  \<^verbatim>\<open>pthread_atfork_info\<close>.
\<close>

definition posix_handlers :: "pth_state \<Rightarrow> bool" where
  "posix_handlers s \<longleftrightarrow> pthread_atfork_idx (px s) = pth_atfork_idx s \<and> pth_atfork_idx s \<le> PTH_ATFORK_MAX \<and>
     (\<forall>i < pth_atfork_idx s. pth_atfork_list s i =
        \<lparr>a_prepare = cb_prepare_addr, a_parent = cb_parent_addr, a_child = cb_child_addr, a_arg = atfork_info_addr i\<rparr>)"

lemma atfork_info_at: "i < PTH_ATFORK_MAX \<Longrightarrow> atfork_info (atfork_info_addr i) s = Some (pthread_atfork_info (px s) i)"
  by (simp add: atfork_info_def atfork_info_addr_def Let_def)

lemma cb_addrs:
  "cb_prepare_addr \<noteq> NULL" "cb_parent_addr \<noteq> NULL" "cb_child_addr \<noteq> NULL"
  "cb_parent_addr \<noteq> cb_prepare_addr" "cb_child_addr \<noteq> cb_prepare_addr" "cb_child_addr \<noteq> cb_parent_addr"
  by (simp_all add: cb_prepare_addr_def cb_parent_addr_def cb_child_addr_def)

text \<open>The call of the \<open>i\<close>-th handler of each kind.\<close>

lemma posix_atfork_call:
  assumes "posix_handlers s" "i < pth_atfork_idx s"
  shows "atfork_call (E\<lparr>app_call := posix_call E\<rparr>) a_prepare i s = call_void E (pa_prepare (pthread_atfork_info (px s) i)) s"
    "atfork_call (E\<lparr>app_call := posix_call E\<rparr>) a_parent i s = call_void E (pa_parent (pthread_atfork_info (px s) i)) s"
    "atfork_call (E\<lparr>app_call := posix_call E\<rparr>) a_child i s = call_void E (pa_child (pthread_atfork_info (px s) i)) s"
  using assms cb_addrs atfork_info_at [of i s]
  by (simp_all add: posix_handlers_def atfork_call_def Let_def posix_call_def pthread_atfork_cb_prepare_def
      pthread_atfork_cb_parent_def pthread_atfork_cb_child_def)

lemma call_void_logs:
  "logs_calls (app_call E) \<Longrightarrow> call_void E f s = (if f = NULL then None else Some (s\<lparr>app_log := app_log s @ [(f, NULL)]\<rparr>))"
  by (simp add: call_void_def logs_calls_def)

text \<open>The calls of the handlers of one kind, in the order of registration; none of them may be \<^verbatim>\<open>NULL\<close>.\<close>

definition void_calls :: "(pthread_atfork_st \<Rightarrow> ptr) \<Rightarrow> nat list \<Rightarrow> pth_state \<Rightarrow> (ptr \<times> ptr) list" where
  "void_calls handler is s = map (\<lambda>i. (handler (pthread_atfork_info (px s) i), NULL)) is"

definition no_null :: "(pthread_atfork_st \<Rightarrow> ptr) \<Rightarrow> nat list \<Rightarrow> pth_state \<Rightarrow> bool" where
  "no_null handler is s \<longleftrightarrow> (\<forall>i \<in> set is. handler (pthread_atfork_info (px s) i) \<noteq> NULL)"

lemma posix_handlers_log [simp]:
  "posix_handlers (s\<lparr>app_log := l\<rparr>) = posix_handlers s" "void_calls h is (s\<lparr>app_log := l\<rparr>) = void_calls h is s"
  "no_null h is (s\<lparr>app_log := l\<rparr>) = no_null h is s"
  by (simp_all add: posix_handlers_def void_calls_def no_null_def)

lemma run_prepare_posix:
  assumes call: "logs_calls (app_call E)"
  shows "posix_handlers s \<Longrightarrow> n \<le> pth_atfork_idx s \<Longrightarrow> run_prepare (E\<lparr>app_call := posix_call E\<rparr>) n s =
    (if no_null pa_prepare [0..<n] s then Some (s\<lparr>app_log := app_log s @ rev (void_calls pa_prepare [0..<n] s)\<rparr>) else None)"
proof (induction n arbitrary: s)
  case 0
  then show ?case by (simp add: no_null_def void_calls_def)
next
  case (Suc n)
  then show ?case
    using Suc.IH [of "s\<lparr>app_log := app_log s @ void_calls pa_prepare [n] s\<rparr>"]
    by (auto simp: posix_atfork_call call_void_logs [OF call]) (auto simp: no_null_def void_calls_def)
qed

lemma run_handlers_posix:
  assumes call: "logs_calls (app_call E)"
    and step: "\<And>u i. posix_handlers u \<Longrightarrow> i < pth_atfork_idx u \<Longrightarrow>
      atfork_call E' h i u = call_void E (pa (pthread_atfork_info (px u) i)) u"
  shows "posix_handlers s \<Longrightarrow> run_handlers E' h i s =
    (if no_null pa [i..<pth_atfork_idx s] s then Some (s\<lparr>app_log := app_log s @ void_calls pa [i..<pth_atfork_idx s] s\<rparr>) else None)"
proof (induction "pth_atfork_idx s - i" arbitrary: i s)
  case 0
  then show ?case by (simp add: run_handlers.simps no_null_def void_calls_def)
next
  case (Suc n)
  let ?s = "s\<lparr>app_log := app_log s @ void_calls pa [i] s\<rparr>" and ?f = "pa (pthread_atfork_info (px s) i)"
  have i: "i < pth_atfork_idx s"
    using Suc.hyps(2) by linarith
  have upt: "[i..<pth_atfork_idx s] = i # [i + 1..<pth_atfork_idx s]"
    using i by (simp add: upt_rec [of i])
  have "run_handlers E' h (i + 1) ?s =
      (if no_null pa [i + 1..<pth_atfork_idx s] s then Some (?s\<lparr>app_log := app_log ?s @ void_calls pa [i + 1..<pth_atfork_idx s] s\<rparr>) else None)"
    using Suc.hyps(1) [of ?s "i + 1"] Suc.hyps(2) Suc.prems by simp
  then show ?case
    using i upt step [OF Suc.prems i]
    by (subst run_handlers.simps) (auto simp: call_void_logs [OF call] no_null_def void_calls_def)
qed

lemma pthread_atfork_registers:
  assumes "posix_handlers s" "pth_atfork_idx s < PTH_ATFORK_MAX"
  shows "\<exists>s'. pthread_atfork p q c s = (EOK, s') \<and> posix_handlers s' \<and> pth_atfork_idx s' = pth_atfork_idx s + 1 \<and>
    pthread_atfork_info (px s') = (pthread_atfork_info (px s))(pth_atfork_idx s := \<lparr>pa_prepare = p, pa_parent = q, pa_child = c\<rparr>)"
  using assms
  by (auto simp: pthread_atfork_def pth_atfork_push_def Let_def errno_of_def posix_handlers_def px_set_def less_Suc_eq)

text \<open>
  C37: a program that registers its handlers by \<^verbatim>\<open>pthread_atfork\<close> gets them called by \<^verbatim>\<open>fork\<close> as POSIX demands: all prepare handlers in
  reverse order of their registration, then in the parent all parent handlers, or in the child all child handlers, in the order
  of registration; in the child the other threads are gone. But POSIX allows a handler to be \<^verbatim>\<open>NULL\<close>, and there the code calls it:
  one \<^verbatim>\<open>NULL\<close> among the handlers of the kind to be called, and the behaviour of \<^verbatim>\<open>fork\<close> is undefined.
\<close>

theorem pthread_fork_order:
  assumes call: "logs_calls (app_call E)" and reg: "posix_handlers s" and init: "pthread_initialized (px s)" and ok: "queues_ok s L"
  defines "is \<equiv> [0..<pth_atfork_idx s]"
  defines "s1 \<equiv> s\<lparr>app_log := app_log s @ rev (void_calls pa_prepare is s)\<rparr>"
  shows "if \<not> no_null pa_prepare is s then pthread_fork E s = None
    else if os_fork E s1 = -1 then pthread_fork E s = Some (0, s1)
    else if os_fork E s1 \<noteq> 0 then pthread_fork E s =
      (if no_null pa_parent is s then Some (os_fork E s1, s1\<lparr>app_log := app_log s1 @ void_calls pa_parent is s\<rparr>) else None)
    else if \<not> no_null pa_child is s then pthread_fork E s = None
    else \<exists>s'. pthread_fork E s = Some (0, s') \<and> dom (tcbs s') = dom (tcbs s) - {t. queued t L} \<and>
      app_log s' = app_log s1 @ void_calls pa_child is s"
proof -
  let ?E = "E\<lparr>app_call := posix_call E\<rparr>" and ?n = "pth_atfork_idx s"
  have prep: "run_prepare ?E ?n s = (if no_null pa_prepare is s then Some s1 else None)"
    using run_prepare_posix [OF call reg order.refl] by (simp add: is_def s1_def)
  have s1: "posix_handlers s1" "pth_atfork_idx s1 = ?n" "px s1 = px s"
    using reg by (simp_all add: s1_def)
  have fork: "pthread_fork E s = pth_fork ?E s"
    using init by (simp add: pthread_fork_def pthread_initialize_def)
  have parent: "run_handlers ?E a_parent 0 s1 =
      (if no_null pa_parent is s then Some (s1\<lparr>app_log := app_log s1 @ void_calls pa_parent is s\<rparr>) else None)"
    using run_handlers_posix [OF call posix_atfork_call(2) s1(1)] s1(2,3) by (simp add: is_def no_null_def void_calls_def)
  have "queues_ok s1 L"
    using ok by (simp add: s1_def queues_ok_def)
  then obtain s2 where s2: "pth_scheduler_drop ?E s1 = Some s2" "freed {t. queued t L} s1 s2"
    using drop_all_spec by blast
  have fr: "posix_handlers s2" "pth_atfork_idx s2 = ?n" "px s2 = px s" "app_log s2 = app_log s1" "tcbs s1 = tcbs s"
    using s2(2) s1 by (simp_all add: freed_def posix_handlers_def s1_def)
  have child: "run_handlers ?E a_child 0 s2 =
      (if no_null pa_child is s then Some (s2\<lparr>app_log := app_log s1 @ void_calls pa_child is s\<rparr>) else None)"
    using run_handlers_posix [OF call posix_atfork_call(3) fr(1)] fr(2-4) by (simp add: is_def no_null_def void_calls_def)
  show ?thesis
    using freed_dom [OF s2(2)] fr(5) by (simp add: fork pth_fork_def prep parent s2(1) child Let_def)
qed

definition two_posix_handlers :: pth_state where
  "two_posix_handlers = snd (pthread_atfork 11 12 13 (snd (pthread_atfork 21 22 NULL
     (px_set (\<lambda>x. x\<lparr>pthread_initialized := True\<rparr>) three_runnable))))"

lemma two_posix_handlers_simps:
  "tcbs two_posix_handlers = tcbs three_runnable" "queues two_posix_handlers = queues three_runnable"
  "pth_atfork_idx two_posix_handlers = 2" "app_log two_posix_handlers = []" "pthread_initialized (px two_posix_handlers)"
  "pthread_atfork_info (px two_posix_handlers) 0 = \<lparr>pa_prepare = 21, pa_parent = 22, pa_child = NULL\<rparr>"
  "pthread_atfork_info (px two_posix_handlers) (Suc 0) = \<lparr>pa_prepare = 11, pa_parent = 12, pa_child = 13\<rparr>"
  "posix_handlers two_posix_handlers"
  by (simp_all add: two_posix_handlers_def pthread_atfork_def pth_atfork_push_def px_set_def errno_of_def three_runnable_def
      state0_def PTH_ATFORK_MAX_def posix_handlers_def numeral_2_eq_2 less_Suc_eq Let_def)

theorem pthread_fork_order_witness:
  "(\<exists>s'. pthread_fork (env0\<lparr>os_fork := \<lambda>_. 4711\<rparr>) two_posix_handlers = Some (4711, s') \<and>
     app_log s' = [(11, NULL), (21, NULL), (22, NULL), (12, NULL)]) \<and>
   pthread_fork (env0\<lparr>os_fork := \<lambda>_. 0\<rparr>) two_posix_handlers = None"
proof -
  have call: "logs_calls (app_call (env0\<lparr>os_fork := \<lambda>_. n\<rparr>))" for n
    by (simp add: logs_calls_def env0_def)
  have ok: "queues_ok two_posix_handlers three_lists"
    using thread_invD(1) [OF three_runnable_inv] by (simp add: queues_ok_def two_posix_handlers_simps)
  show ?thesis
    using pthread_fork_order [OF call two_posix_handlers_simps(8,5) ok, of 4711]
      pthread_fork_order [OF call two_posix_handlers_simps(8,5) ok, of 0]
    by (simp add: two_posix_handlers_simps no_null_def void_calls_def numeral_2_eq_2 del: env.select_convs split: if_splits)
qed

end
