(* ===== verification/Pth_Syscall.thy ===== *)
theory Pth_Syscall
  imports Pth_High
begin

text \<open>
  The wrapping of system calls (\<^verbatim>\<open>pth_syscall.c\<close>, compiled with \<^verbatim>\<open>PTH_SYSCALL_HARD\<close>): the library defines the functions of
  the C library that block itself, and looks up the replaced functions at run time. The dynamic linker is a parameter; an address
  is \<^verbatim>\<open>NULL\<close> if there is no such symbol or library. \<open>via a\<close> stands for the functions at the address \<open>a\<close> and \<open>raw\<close> for the
  system calls themselves.
\<close>

section \<open>Tables\<close>

record linker =
  dl_next :: "string \<Rightarrow> ptr"
  dl_open :: "string \<Rightarrow> ptr"
  dl_sym :: "ptr \<Rightarrow> string \<Rightarrow> ptr"

record lib_entry =
  lib_path :: string
  lib_handle :: ptr

record syscalls =
  lib_tab :: "lib_entry list"
  fct_tab :: "(string \<times> ptr) list"

definition fct_names :: "string list" where
  "fct_names = [''fork'', ''waitpid'', ''system'', ''nanosleep'', ''usleep'', ''sleep'', ''sigprocmask'', ''sigwait'', ''select'',
     ''poll'', ''connect'', ''accept'', ''read'', ''write'', ''readv'', ''writev'', ''recv'', ''send'', ''recvfrom'', ''sendto'',
     ''pread'', ''pwrite'']"

definition LIB_TAB_SIZE :: nat where "LIB_TAB_SIZE = 128"

section \<open>Looking up the functions\<close>

text \<open>
  The loop that fills the table of libraries: \<open>n\<close> entries are left, the last one being kept for the terminator. The path of
  an entry ends at the next colon.
\<close>

primrec fill_libs :: "nat \<Rightarrow> string \<Rightarrow> lib_entry list" where
  "fill_libs 0 cs = []"
| "fill_libs (Suc n) cs =
     (let e = \<lparr>lib_path = takeWhile (\<lambda>c. c \<noteq> CHR '':'') cs, lib_handle = NULL\<rparr>
      in case dropWhile (\<lambda>c. c \<noteq> CHR '':'') cs of [] \<Rightarrow> [e] | _ # rest \<Rightarrow> e # fill_libs n rest)"

text \<open>First the libraries that are open already, then the others, which are opened one after the other.\<close>

primrec search_open :: "linker \<Rightarrow> string \<Rightarrow> lib_entry list \<Rightarrow> ptr" where
  "search_open D name [] = NULL"
| "search_open D name (l # ls) =
     (if lib_handle l \<noteq> NULL \<and> dl_sym D (lib_handle l) name \<noteq> NULL then dl_sym D (lib_handle l) name
      else search_open D name ls)"

primrec search_more :: "linker \<Rightarrow> string \<Rightarrow> lib_entry list \<Rightarrow> ptr \<times> lib_entry list" where
  "search_more D name [] = (NULL, [])"
| "search_more D name (l # ls) =
     (if lib_handle l = NULL then
        (let h = dl_open D (lib_path l); l = l\<lparr>lib_handle := h\<rparr>
         in if h \<noteq> NULL \<and> dl_sym D h name \<noteq> NULL then (dl_sym D h name, l # ls)
            else (case search_more D name ls of (a, ls) \<Rightarrow> (a, l # ls)))
      else (case search_more D name ls of (a, ls) \<Rightarrow> (a, l # ls)))"

definition resolve :: "linker \<Rightarrow> string \<Rightarrow> lib_entry list \<Rightarrow> ptr \<times> lib_entry list" where
  "resolve D name libs =
     (if dl_next D name \<noteq> NULL then (dl_next D name, libs)
      else if search_open D name libs \<noteq> NULL then (search_open D name libs, libs)
      else search_more D name libs)"

primrec resolve_all :: "linker \<Rightarrow> string list \<Rightarrow> lib_entry list \<Rightarrow> (string \<times> ptr) list \<times> lib_entry list" where
  "resolve_all D [] libs = ([], libs)"
| "resolve_all D (n # ns) libs =
     (case resolve D n libs of (a, libs) \<Rightarrow> case resolve_all D ns libs of (as, libs) \<Rightarrow> ((n, a) # as, libs))"

text \<open>\<open>dup\<close> is the copy \<^verbatim>\<open>strdup\<close> makes of the list of libraries; that it may fail is not checked.\<close>

definition pth_syscall_init :: "linker \<Rightarrow> string option \<Rightarrow> syscalls option" where
  "pth_syscall_init D dup = do {
     libs \<leftarrow> dup;
     let (fs, ls) = resolve_all D fct_names (fill_libs (LIB_TAB_SIZE - 1) libs);
     Some \<lparr>lib_tab = ls, fct_tab = fs\<rparr> }"

text \<open>The handles that \<^verbatim>\<open>pth_syscall_kill\<close> closes, and the tables afterwards: the addresses of the functions are kept.\<close>

definition pth_syscall_kill :: "syscalls \<Rightarrow> ptr list \<times> syscalls" where
  "pth_syscall_kill T = (filter (\<lambda>h. h \<noteq> NULL) (map lib_handle (lib_tab T)), T\<lparr>lib_tab := []\<rparr>)"

section \<open>Internal exit points\<close>

definition sc_addr :: "syscalls \<Rightarrow> string \<Rightarrow> ptr" where
  "sc_addr T name = (case map_of (fct_tab T) name of None \<Rightarrow> NULL | Some a \<Rightarrow> a)"

definition sc_call :: "syscalls \<Rightarrow> string \<Rightarrow> (ptr \<Rightarrow> 'f) \<Rightarrow> 'f \<Rightarrow> 'f" where
  "sc_call T name via raw = (if sc_addr T name \<noteq> NULL then via (sc_addr T name) else raw)"

definition pth_sc_fork :: "syscalls \<Rightarrow> (ptr \<Rightarrow> env) \<Rightarrow> env \<Rightarrow> pth_state \<Rightarrow> int" where
  "pth_sc_fork T via raw = sc_call T ''fork'' (\<lambda>a. os_fork (via a)) (os_fork raw)"

definition pth_sc_sigprocmask :: "syscalls \<Rightarrow> (ptr \<Rightarrow> hio) \<Rightarrow> hio \<Rightarrow> how \<Rightarrow> sigset option \<Rightarrow> pth_state \<Rightarrow> (int \<times> sigset) \<times> pth_state" where
  "pth_sc_sigprocmask T via raw = sc_call T ''sigprocmask'' (\<lambda>a. sc_sigprocmask (via a)) (sc_sigprocmask raw)"

definition pth_sc_waitpid :: "syscalls \<Rightarrow> (ptr \<Rightarrow> hio) \<Rightarrow> hio \<Rightarrow> int \<Rightarrow> 32 word \<Rightarrow> pth_state \<Rightarrow> (int \<times> int) \<times> pth_state" where
  "pth_sc_waitpid T via raw = sc_call T ''waitpid'' (\<lambda>a. sc_waitpid (via a)) (sc_waitpid raw)"

definition pth_sc_connect :: "syscalls \<Rightarrow> (ptr \<Rightarrow> hio) \<Rightarrow> hio \<Rightarrow> int \<Rightarrow> ptr \<Rightarrow> pth_state \<Rightarrow> int \<times> pth_state" where
  "pth_sc_connect T via raw = sc_call T ''connect'' (\<lambda>a. sc_connect (via a)) (sc_connect raw)"

definition pth_sc_accept :: "syscalls \<Rightarrow> (ptr \<Rightarrow> hio) \<Rightarrow> hio \<Rightarrow> int \<Rightarrow> pth_state \<Rightarrow> int \<times> pth_state" where
  "pth_sc_accept T via raw = sc_call T ''accept'' (\<lambda>a. sc_accept (via a)) (sc_accept raw)"

definition pth_sc_select :: "syscalls \<Rightarrow> (ptr \<Rightarrow> env) \<Rightarrow> env \<Rightarrow> int \<Rightarrow> fd_sets \<Rightarrow> pth_time_t option \<Rightarrow> pth_state
    \<Rightarrow> int \<times> fd_sets \<times> pth_state" where
  "pth_sc_select T via raw = sc_call T ''select'' (\<lambda>a. os_select (via a)) (os_select raw)"

definition pth_sc_read :: "syscalls \<Rightarrow> (ptr \<Rightarrow> hio) \<Rightarrow> hio \<Rightarrow> int \<Rightarrow> nat \<Rightarrow> pth_state \<Rightarrow> (int \<times> string) \<times> pth_state" where
  "pth_sc_read T via raw = sc_call T ''read'' (\<lambda>a. sc_read (via a)) (sc_read raw)"

definition pth_sc_write :: "syscalls \<Rightarrow> (ptr \<Rightarrow> hio) \<Rightarrow> hio \<Rightarrow> int \<Rightarrow> string \<Rightarrow> pth_state \<Rightarrow> int \<times> pth_state" where
  "pth_sc_write T via raw = sc_call T ''write'' (\<lambda>a. sc_write (via a)) (sc_write raw)"

definition pth_sc_readv :: "syscalls \<Rightarrow> (ptr \<Rightarrow> hio) \<Rightarrow> hio \<Rightarrow> int \<Rightarrow> iovec list \<Rightarrow> pth_state \<Rightarrow> (int \<times> string) \<times> pth_state" where
  "pth_sc_readv T via raw = sc_call T ''readv'' (\<lambda>a. sc_readv (via a)) (sc_readv raw)"

definition pth_sc_writev :: "syscalls \<Rightarrow> (ptr \<Rightarrow> hio) \<Rightarrow> hio \<Rightarrow> int \<Rightarrow> string list \<Rightarrow> pth_state \<Rightarrow> int \<times> pth_state" where
  "pth_sc_writev T via raw = sc_call T ''writev'' (\<lambda>a. sc_writev (via a)) (sc_writev raw)"

definition pth_sc_recvfrom :: "syscalls \<Rightarrow> (ptr \<Rightarrow> hio) \<Rightarrow> hio \<Rightarrow> int \<Rightarrow> nat \<Rightarrow> int \<Rightarrow> pth_state \<Rightarrow> (int \<times> string) \<times> pth_state" where
  "pth_sc_recvfrom T via raw = sc_call T ''recvfrom'' (\<lambda>a. sc_recvfrom (via a)) (sc_recvfrom raw)"

definition pth_sc_sendto :: "syscalls \<Rightarrow> (ptr \<Rightarrow> hio) \<Rightarrow> hio \<Rightarrow> int \<Rightarrow> string \<Rightarrow> int \<Rightarrow> ptr \<Rightarrow> pth_state \<Rightarrow> int \<times> pth_state" where
  "pth_sc_sendto T via raw = sc_call T ''sendto'' (\<lambda>a. sc_sendto (via a)) (sc_sendto raw)"

text \<open>\<^verbatim>\<open>recv\<close> and \<^verbatim>\<open>send\<close> without an implementation are the calls with an address, which is \<^verbatim>\<open>NULL\<close>.\<close>

definition pth_sc_recv :: "syscalls \<Rightarrow> (ptr \<Rightarrow> hio) \<Rightarrow> hio \<Rightarrow> int \<Rightarrow> nat \<Rightarrow> int \<Rightarrow> pth_state \<Rightarrow> (int \<times> string) \<times> pth_state" where
  "pth_sc_recv T via raw = sc_call T ''recv'' (\<lambda>a. sc_recvfrom (via a)) (sc_recvfrom raw)"

definition pth_sc_send :: "syscalls \<Rightarrow> (ptr \<Rightarrow> hio) \<Rightarrow> hio \<Rightarrow> int \<Rightarrow> string \<Rightarrow> int \<Rightarrow> pth_state \<Rightarrow> int \<times> pth_state" where
  "pth_sc_send T via raw fd data flags = sc_call T ''send'' (\<lambda>a. sc_sendto (via a) fd data flags NULL) (sc_sendto raw fd data flags NULL)"

text \<open>What the functions of the library see of the system: \<^verbatim>\<open>pth_sc(f)\<close> stands for the exit point.\<close>

definition hard_env :: "syscalls \<Rightarrow> (ptr \<Rightarrow> env) \<Rightarrow> env \<Rightarrow> env" where
  "hard_env T via raw = raw\<lparr>os_fork := pth_sc_fork T via raw, os_select := pth_sc_select T via raw\<rparr>"

definition hard_io :: "syscalls \<Rightarrow> (ptr \<Rightarrow> hio) \<Rightarrow> hio \<Rightarrow> hio" where
  "hard_io T via raw = raw\<lparr>sc_sigprocmask := pth_sc_sigprocmask T via raw, sc_waitpid := pth_sc_waitpid T via raw,
     sc_connect := pth_sc_connect T via raw, sc_accept := pth_sc_accept T via raw, sc_read := pth_sc_read T via raw,
     sc_write := pth_sc_write T via raw, sc_readv := pth_sc_readv T via raw, sc_writev := pth_sc_writev T via raw,
     sc_recvfrom := pth_sc_recvfrom T via raw, sc_sendto := pth_sc_sendto T via raw\<rparr>"

section \<open>External entry points\<close>

definition sys_fork :: "env \<Rightarrow> pth_state \<Rightarrow> (int \<times> pth_state) option" where
  "sys_fork E s = do { s \<leftarrow> pth_implicit_init E s; pth_fork E s }"

definition sys_nanosleep :: "env \<Rightarrow> timespec option \<Rightarrow> bool \<Rightarrow> pth_state \<Rightarrow> ((int \<times> timespec option) ctl \<times> pth_state) option" where
  "sys_nanosleep E rqtp want_rest s = do { s \<leftarrow> pth_implicit_init E s; pth_nanosleep E rqtp want_rest s }"

definition sys_usleep :: "env \<Rightarrow> 32 word \<Rightarrow> pth_state \<Rightarrow> (int ctl \<times> pth_state) option" where
  "sys_usleep E sec s = do { s \<leftarrow> pth_implicit_init E s; pth_usleep E sec s }"

definition sys_sleep :: "env \<Rightarrow> 32 word \<Rightarrow> pth_state \<Rightarrow> (32 word ctl \<times> pth_state) option" where
  "sys_sleep E sec s = do { s \<leftarrow> pth_implicit_init E s; pth_sleep E sec s }"

definition sys_system :: "env \<Rightarrow> hio \<Rightarrow> string option \<Rightarrow> pth_state \<Rightarrow> (system_end ctl \<times> pth_state) option" where
  "sys_system E I cmd s = do { s \<leftarrow> pth_implicit_init E s; pth_system E I cmd s }"

definition sys_sigprocmask :: "env \<Rightarrow> hio \<Rightarrow> how \<Rightarrow> sigset option \<Rightarrow> pth_state \<Rightarrow> ((int \<times> sigset) \<times> pth_state) option" where
  "sys_sigprocmask E I how sset s = do { s \<leftarrow> pth_implicit_init E s; pth_sigmask I how sset s }"

definition sys_sigwait :: "env \<Rightarrow> ptr \<Rightarrow> intref \<Rightarrow> pth_state \<Rightarrow> (errcode ctl \<times> pth_state) option" where
  "sys_sigwait E sset sigp s = do { s \<leftarrow> pth_implicit_init E s; pth_sigwait E sset sigp s }"

definition sys_waitpid :: "env \<Rightarrow> hio \<Rightarrow> int \<Rightarrow> intref \<Rightarrow> 32 word \<Rightarrow> pth_state \<Rightarrow> (int ctl \<times> pth_state) option" where
  "sys_waitpid E I wpid status options s = do { s \<leftarrow> pth_implicit_init E s; pth_waitpid E I wpid status options s }"

definition sys_connect :: "env \<Rightarrow> io \<Rightarrow> int \<Rightarrow> ptr \<Rightarrow> pth_state \<Rightarrow> (int ctl \<times> pth_state) option" where
  "sys_connect E I fd addr s = do { s \<leftarrow> pth_implicit_init E s; pth_connect E I fd addr s }"

definition sys_accept :: "env \<Rightarrow> io \<Rightarrow> int \<Rightarrow> pth_state \<Rightarrow> (int ctl \<times> pth_state) option" where
  "sys_accept E I fd s = do { s \<leftarrow> pth_implicit_init E s; pth_accept E I fd s }"

definition sys_select :: "env \<Rightarrow> hio \<Rightarrow> int \<Rightarrow> ptr \<times> ptr \<times> ptr \<Rightarrow> pth_time_t option \<Rightarrow> pth_state
    \<Rightarrow> ((int \<times> pth_time_t option) ctl \<times> pth_state) option" where
  "sys_select E I nfds fdsets timeout s = do { s \<leftarrow> pth_implicit_init E s; pth_select E I nfds fdsets timeout s }"

definition sys_pselect :: "env \<Rightarrow> hio \<Rightarrow> int \<Rightarrow> ptr \<times> ptr \<times> ptr \<Rightarrow> timespec option \<Rightarrow> sigset option \<Rightarrow> pth_state
    \<Rightarrow> (int ctl \<times> pth_state) option" where
  "sys_pselect E I nfds fdsets ts smask s = do { s \<leftarrow> pth_implicit_init E s; pth_pselect E I nfds fdsets ts smask s }"

definition sys_poll :: "env \<Rightarrow> hio \<Rightarrow> pollfd list option \<Rightarrow> int \<Rightarrow> pth_state \<Rightarrow> ((int \<times> pollfd list) ctl \<times> pth_state) option" where
  "sys_poll E I pfd timeout s = do { s \<leftarrow> pth_implicit_init E s; pth_poll E I pfd timeout s }"

definition sys_read :: "env \<Rightarrow> io \<Rightarrow> int \<Rightarrow> nat \<Rightarrow> pth_state \<Rightarrow> ((int \<times> string) ctl \<times> pth_state) option" where
  "sys_read E I fd nbytes s = do { s \<leftarrow> pth_implicit_init E s; pth_read E I fd nbytes s }"

definition sys_write :: "env \<Rightarrow> io \<Rightarrow> int \<Rightarrow> string \<Rightarrow> pth_state \<Rightarrow> (int ctl \<times> pth_state) option" where
  "sys_write E I fd buf s = do { s \<leftarrow> pth_implicit_init E s; pth_write E I fd buf s }"

definition sys_readv :: "env \<Rightarrow> io \<Rightarrow> int \<Rightarrow> iovec list \<Rightarrow> pth_state \<Rightarrow> ((int \<times> string) ctl \<times> pth_state) option" where
  "sys_readv E I fd iov s = do { s \<leftarrow> pth_implicit_init E s; pth_readv E I fd iov s }"

definition sys_writev :: "env \<Rightarrow> io \<Rightarrow> (ptr \<Rightarrow> char) \<Rightarrow> int \<Rightarrow> iovec list \<Rightarrow> pth_state \<Rightarrow> (int ctl \<times> pth_state) option" where
  "sys_writev E I mem fd iov s = do { s \<leftarrow> pth_implicit_init E s; pth_writev E I mem fd iov s }"

definition sys_pread :: "env \<Rightarrow> io \<Rightarrow> int \<Rightarrow> nat \<Rightarrow> int \<Rightarrow> pth_state \<Rightarrow> ((int \<times> string) ctl \<times> pth_state) option" where
  "sys_pread E I fd nbytes offset s = do { s \<leftarrow> pth_implicit_init E s; pth_pread E I fd nbytes offset s }"

definition sys_pwrite :: "env \<Rightarrow> io \<Rightarrow> int \<Rightarrow> string \<Rightarrow> int \<Rightarrow> pth_state \<Rightarrow> (int ctl \<times> pth_state) option" where
  "sys_pwrite E I fd buf offset s = do { s \<leftarrow> pth_implicit_init E s; pth_pwrite E I fd buf offset s }"

definition sys_recv :: "env \<Rightarrow> io \<Rightarrow> int \<Rightarrow> nat \<Rightarrow> int \<Rightarrow> pth_state \<Rightarrow> ((int \<times> string) ctl \<times> pth_state) option" where
  "sys_recv E I fd nbytes flags s = do { s \<leftarrow> pth_implicit_init E s; pth_recv E I fd nbytes flags s }"

definition sys_send :: "env \<Rightarrow> io \<Rightarrow> int \<Rightarrow> string \<Rightarrow> int \<Rightarrow> pth_state \<Rightarrow> (int ctl \<times> pth_state) option" where
  "sys_send E I fd buf flags s = do { s \<leftarrow> pth_implicit_init E s; pth_send E I fd buf flags s }"

definition sys_recvfrom :: "env \<Rightarrow> io \<Rightarrow> int \<Rightarrow> nat \<Rightarrow> int \<Rightarrow> pth_state \<Rightarrow> ((int \<times> string) ctl \<times> pth_state) option" where
  "sys_recvfrom E I fd nbytes flags s = do { s \<leftarrow> pth_implicit_init E s; pth_recvfrom E I fd nbytes flags s }"

definition sys_sendto :: "env \<Rightarrow> io \<Rightarrow> int \<Rightarrow> string \<Rightarrow> int \<Rightarrow> ptr \<Rightarrow> pth_state \<Rightarrow> (int ctl \<times> pth_state) option" where
  "sys_sendto E I fd buf flags addr s = do { s \<leftarrow> pth_implicit_init E s; pth_sendto E I fd buf flags addr s }"

section \<open>The order of the libraries\<close>

text \<open>The reference: the paths are what stands between the colons, and a function comes from the first library that has it.\<close>

fun split_on :: "char \<Rightarrow> string \<Rightarrow> string list" where
  "split_on c [] = [[]]"
| "split_on c (x # xs) = (if x = c then [] # split_on c xs else (case split_on c xs of y # ys \<Rightarrow> (x # y) # ys | [] \<Rightarrow> [[x]]))"

definition lib_sym :: "linker \<Rightarrow> string \<Rightarrow> string \<Rightarrow> ptr" where
  "lib_sym D name p = (if dl_open D p = NULL then NULL else dl_sym D (dl_open D p) name)"

primrec first_sym :: "linker \<Rightarrow> string \<Rightarrow> string list \<Rightarrow> ptr" where
  "first_sym D name [] = NULL"
| "first_sym D name (p # ps) = (if lib_sym D name p \<noteq> NULL then lib_sym D name p else first_sym D name ps)"

definition provider :: "linker \<Rightarrow> string list \<Rightarrow> string \<Rightarrow> ptr" where
  "provider D ps name = (if dl_next D name \<noteq> NULL then dl_next D name else first_sym D name ps)"

lemma split_on_While:
  "split_on c cs = takeWhile (\<lambda>x. x \<noteq> c) cs # (case dropWhile (\<lambda>x. x \<noteq> c) cs of [] \<Rightarrow> [] | _ # rest \<Rightarrow> split_on c rest)"
  by (induction cs) auto

lemma fill_libs_split: "fill_libs n cs = map (\<lambda>p. \<lparr>lib_path = p, lib_handle = NULL\<rparr>) (take n (split_on (CHR '':'') cs))"
proof (induction n arbitrary: cs)
  case 0
  then show ?case by simp
next
  case (Suc n)
  show ?case
  proof (cases "dropWhile (\<lambda>c. c \<noteq> CHR '':'') cs")
    case Nil
    then show ?thesis
      by (simp add: split_on_While [of _ cs] Let_def del: split_on.simps dropWhile_eq_Nil_conv)
  next
    case (Cons c rest)
    then show ?thesis
      by (simp add: split_on_While [of _ cs] Let_def Suc.IH del: split_on.simps)
  qed
qed

text \<open>\<open>table D as bs\<close>: the libraries \<open>as\<close> have been tried, those of \<open>bs\<close> have not.\<close>

definition table :: "linker \<Rightarrow> string list \<Rightarrow> string list \<Rightarrow> lib_entry list" where
  "table D as bs = map (\<lambda>p. \<lparr>lib_path = p, lib_handle = dl_open D p\<rparr>) as @ map (\<lambda>p. \<lparr>lib_path = p, lib_handle = NULL\<rparr>) bs"

lemma table_Cons: "table D (a # as) bs = \<lparr>lib_path = a, lib_handle = dl_open D a\<rparr> # table D as bs"
  by (simp add: table_def)

lemma search_open_table: "search_open D name (table D as bs) = first_sym D name as"
proof -
  have "search_open D name (map (\<lambda>p. \<lparr>lib_path = p, lib_handle = NULL\<rparr>) bs) = NULL"
    by (induction bs) simp_all
  then show ?thesis
    by (induction as) (simp_all add: table_def lib_sym_def)
qed

lemma search_more_fresh:
  "\<exists>as' bs'. as' @ bs' = bs \<and> search_more D name (table D [] bs) = (first_sym D name bs, table D as' bs')"
proof (induction bs)
  case Nil
  then show ?case by (simp add: table_def)
next
  case (Cons b bs)
  obtain as' bs' where IH: "as' @ bs' = bs" "search_more D name (table D [] bs) = (first_sym D name bs, table D as' bs')"
    using Cons.IH by blast
  show ?case
  proof (cases "lib_sym D name b = NULL")
    case True
    show ?thesis
      by (rule exI [of _ "b # as'"], rule exI [of _ bs']) (use IH True in \<open>auto simp: table_def lib_sym_def Let_def split: if_splits\<close>)
  next
    case False
    show ?thesis
      by (rule exI [of _ "[b]"], rule exI [of _ bs]) (use False in \<open>auto simp: table_def lib_sym_def Let_def split: if_splits\<close>)
  qed
qed

lemma search_more_table:
  assumes "first_sym D name as = NULL"
  shows "\<exists>as' bs'. as' @ bs' = as @ bs \<and> search_more D name (table D as bs) = (first_sym D name bs, table D as' bs')"
  using assms
proof (induction as)
  case Nil
  then show ?case using search_more_fresh [of bs D name] by simp
next
  case (Cons a as)
  then obtain as' bs' where more: "as' @ bs' = as @ bs" "search_more D name (table D as bs) = (first_sym D name bs, table D as' bs')"
    by (auto split: if_splits)
  show ?case
    by (rule exI [of _ "a # as'"], rule exI [of _ bs'])
      (use Cons.prems more in \<open>auto simp: table_Cons lib_sym_def Let_def split: if_splits\<close>)
qed

lemma first_sym_append: "first_sym D name (as @ bs) = (if first_sym D name as \<noteq> NULL then first_sym D name as else first_sym D name bs)"
  by (induction as) simp_all

lemma resolve_table:
  "\<exists>as' bs'. as' @ bs' = as @ bs \<and> resolve D name (table D as bs) = (provider D (as @ bs) name, table D as' bs')"
  using search_more_table [of D name as bs]
  by (auto simp: resolve_def provider_def search_open_table first_sym_append)

lemma resolve_all_table:
  "\<exists>as' bs'. as' @ bs' = as @ bs \<and>
     resolve_all D ns (table D as bs) = (map (\<lambda>n. (n, provider D (as @ bs) n)) ns, table D as' bs')"
proof (induction ns arbitrary: as bs)
  case Nil
  then show ?case by auto
next
  case (Cons n ns)
  obtain as1 bs1 where 1: "as1 @ bs1 = as @ bs" "resolve D n (table D as bs) = (provider D (as @ bs) n, table D as1 bs1)"
    using resolve_table by blast
  obtain as2 bs2 where "as2 @ bs2 = as1 @ bs1"
    "resolve_all D ns (table D as1 bs1) = (map (\<lambda>n. (n, provider D (as1 @ bs1) n)) ns, table D as2 bs2)"
    using Cons.IH by blast
  with 1 show ?case by auto
qed

text \<open>
  C40: \<^verbatim>\<open>pth_syscall_init\<close> splits the list of libraries at its colons, keeps at most 127 of them, and resolves every wrapped function
  to the next definition the dynamic linker knows, or else to the first library of the list that can be opened and has it; a
  function is left without an address only if none has it. A library is opened at most as far as the search had to go, and the
  internal exit points call the function that was found.
\<close>

theorem pth_syscall_init_first:
  "\<exists>T as bs. pth_syscall_init D (Some libs) = Some T \<and> as @ bs = take 127 (split_on (CHR '':'') libs) \<and> lib_tab T = table D as bs \<and>
     (\<forall>name \<in> set fct_names. sc_addr T name = provider D (as @ bs) name) \<and>
     pth_sc_read T via raw = (let a = provider D (as @ bs) ''read'' in if a \<noteq> NULL then sc_read (via a) else sc_read raw)"
proof -
  let ?ps = "take 127 (split_on (CHR '':'') libs)"
  have tab: "fill_libs (LIB_TAB_SIZE - 1) libs = table D [] ?ps"
    by (simp add: fill_libs_split table_def LIB_TAB_SIZE_def del: split_on.simps)
  obtain as bs where ab: "as @ bs = ?ps"
    "resolve_all D fct_names (table D [] ?ps) = (map (\<lambda>n. (n, provider D ?ps n)) fct_names, table D as bs)"
    using resolve_all_table [of "[]" ?ps D fct_names] by auto
  let ?T = "\<lparr>lib_tab = table D as bs, fct_tab = map (\<lambda>n. (n, provider D ?ps n)) fct_names\<rparr>"
  have init: "pth_syscall_init D (Some libs) = Some ?T"
    using tab ab(2) by (simp add: pth_syscall_init_def)
  have addr: "sc_addr ?T name = provider D (as @ bs) name" if "name \<in> set fct_names" for name
    using that ab(1) by (simp add: sc_addr_def map_of_map_restrict)
  moreover have "''read'' \<in> set fct_names"
    by (simp add: fct_names_def)
  ultimately have "pth_sc_read ?T via raw = (let a = provider D (as @ bs) ''read'' in if a \<noteq> NULL then sc_read (via a) else sc_read raw)"
    by (simp add: pth_sc_read_def sc_call_def Let_def)
  then have "pth_syscall_init D (Some libs) = Some ?T \<and> as @ bs = ?ps \<and> lib_tab ?T = table D as bs \<and>
      (\<forall>name \<in> set fct_names. sc_addr ?T name = provider D (as @ bs) name) \<and>
      pth_sc_read ?T via raw = (let a = provider D (as @ bs) ''read'' in if a \<noteq> NULL then sc_read (via a) else sc_read raw)"
    using init ab(1) addr by simp
  then show ?thesis
    by blast
qed

text \<open>A linker that finds the functions in the second of two libraries.\<close>

definition linker0 :: linker where
  "linker0 = \<lparr>dl_next = \<lambda>_. NULL, dl_open = \<lambda>p. if p = ''libc'' then 7 else NULL, dl_sym = \<lambda>h name. if name = ''read'' then 99 else NULL\<rparr>"

theorem pth_syscall_init_first_witness:
  "\<exists>T. pth_syscall_init linker0 (Some ''none:libc'') = Some T \<and> sc_addr T ''read'' = 99 \<and> sc_addr T ''write'' = NULL"
proof -
  obtain T as bs where T: "pth_syscall_init linker0 (Some ''none:libc'') = Some T" "as @ bs = take 127 (split_on (CHR '':'') ''none:libc'')"
    "\<forall>name \<in> set fct_names. sc_addr T name = provider linker0 (as @ bs) name"
    using pth_syscall_init_first [of linker0 "''none:libc''"] by blast
  then show ?thesis
    by (simp add: fct_names_def provider_def linker0_def lib_sym_def)
qed

end
