(* ===== verification/Pth_Misc.thy ===== *)
theory Pth_Misc
  imports Pth_High
begin

text \<open>
  What is left of the library: debugging output (\<^verbatim>\<open>pth_debug.c\<close>), the Sfio discipline (\<^verbatim>\<open>pth_ext.c\<close>), the two functions of
  \<^verbatim>\<open>pth_time.c\<close> that leave the integers, and the version. What \<^verbatim>\<open>fprintf\<close> writes is the result of a function; its conversion of
  a floating point number is an argument.
\<close>

section \<open>Version and time\<close>

definition PTH_VERSION :: int where "PTH_VERSION = 0x200207"

definition pth_version :: int where "pth_version = PTH_VERSION"

text \<open>\<open>call\<close> is \<^verbatim>\<open>nanosleep\<close>, which returns the time left when a signal interrupts it.\<close>

partial_function (option) usleep_loop :: "(timespec \<Rightarrow> pth_state \<Rightarrow> (int \<times> timespec) \<times> pth_state) \<Rightarrow> timespec \<Rightarrow> pth_state
    \<Rightarrow> pth_state option" where
  "usleep_loop call ts s = (case call ts s of ((rc, ts), s) \<Rightarrow>
     if rc < 0 \<and> errno s = EINTR then usleep_loop call ts s else Some s)"

definition pth_time_usleep :: "(timespec \<Rightarrow> pth_state \<Rightarrow> (int \<times> timespec) \<times> pth_state) \<Rightarrow> nat \<Rightarrow> pth_state \<Rightarrow> pth_state option" where
  "pth_time_usleep call usec s =
     usleep_loop call \<lparr>ts_sec = int (usec div 1000000), ts_nsec = int (usec mod 1000000 * 1000)\<rparr> s"

text \<open>\<open>rnd\<close> rounds to a \<^verbatim>\<open>double\<close>.\<close>

definition pth_time_t2d :: "(rat \<Rightarrow> rat) \<Rightarrow> pth_time_t \<Rightarrow> rat" where
  "pth_time_t2d rnd t =
     rnd (rnd (rnd (rnd (rat_of_int (tv_sec t)) * 1000000) + rnd (rat_of_int (tv_usec t))) / 1000000)"

section \<open>The Sfio discipline\<close>

text \<open>Without the Sfio library there is none; with it, its read and write functions are those of the library.\<close>

definition pth_sfio_read :: "env \<Rightarrow> io \<Rightarrow> int \<Rightarrow> nat \<Rightarrow> pth_state \<Rightarrow> ((int \<times> string) ctl \<times> pth_state) option" where
  "pth_sfio_read E I fd n s = pth_read E I fd n s"

definition pth_sfio_write :: "env \<Rightarrow> io \<Rightarrow> int \<Rightarrow> string \<Rightarrow> pth_state \<Rightarrow> (int ctl \<times> pth_state) option" where
  "pth_sfio_write E I fd buf s = pth_write E I fd buf s"

definition pth_sfiodisc :: "pth_state \<Rightarrow> ptr \<times> pth_state" where
  "pth_sfiodisc s = pth_error NULL ENOSYS s"

section \<open>Debugging output\<close>

definition NL :: char where "NL = CHR 0x0A"

definition STDERR_FILENO :: int where "STDERR_FILENO = 2"

definition DEBUG_SIZE :: nat where "DEBUG_SIZE = 1024"

text \<open>
  \<open>str\<close> is the static buffer, with what the last call left in it, \<open>fmt\<close> the format with its terminating zero. The result has
  the new contents of the buffer.
\<close>

definition pth_debug :: "hio \<Rightarrow> 32 word \<Rightarrow> string \<Rightarrow> string option \<Rightarrow> 32 word \<Rightarrow> int \<Rightarrow> string \<Rightarrow> va list \<Rightarrow> pth_state
    \<Rightarrow> (string \<times> pth_state) option" where
  "pth_debug I pid str file line argc fmt args s = do {
     let saved = errno s;
     str \<leftarrow> (case file of
         Some f \<Rightarrow> do {
           (_, buf, _) \<leftarrow> pth_snprintf id (Some str) DEBUG_SIZE (''%d:%s:%04d: '' @ [NUL]) [VaInt pid, VaStr (Some f), VaInt line];
           buf }
       | None \<Rightarrow> if str = [] then None else Some (str[0 := NUL]));
     n \<leftarrow> map_option length (read_cstr str);
     rest \<leftarrow> (if argc = 1 then map_option snd (pth_util_cpystrn (drop n str) fmt (DEBUG_SIZE - n))
              else do { (_, buf, _) \<leftarrow> pth_vsnprintf id (Some (drop n str)) (DEBUG_SIZE - n) fmt args; buf });
     let str = take n str @ rest;
     n \<leftarrow> map_option length (read_cstr str);
     if \<not> n < length str then None
     else do {
       let str = str[n := NL];
       let (_, s) = sc_write I STDERR_FILENO (take (n + 1) str) s;
       Some (str, s\<lparr>errno := saved\<rparr>) } }"

text \<open>The digits of a number, as \<^verbatim>\<open>%d\<close> and \<^verbatim>\<open>%lx\<close> print it.\<close>

fun digits :: "nat \<Rightarrow> nat \<Rightarrow> string" where
  "digits base n = (if base < 2 \<or> n < base then [digit_char False n] else digits base (n div base) @ [digit_char False (n mod base)])"

declare digits.simps [simp del]

definition thread_text :: "nat \<Rightarrow> ptr \<Rightarrow> string \<Rightarrow> string" where
  "thread_text i t name = ''|   '' @ digits 10 i @ ''. thread 0x'' @ digits 16 t @ '' ('' @ [CHR 0x22] @ name @ [CHR 0x22] @ '')'' @ [NL]"

partial_function (option) dump_loop :: "qid \<Rightarrow> nat \<Rightarrow> ptr \<Rightarrow> pth_state \<Rightarrow> string option" where
  "dump_loop q i t s =
     (if t = NULL then Some []
      else Option.bind (Option.bind (t_get t_name t s) read_cstr) (\<lambda>name.
           Option.bind (pth_pqueue_walk (Some q) t PTH_WALK_NEXT s) (\<lambda>next.
           Option.bind (dump_loop q (i + 1) next s) (\<lambda>rest. Some (thread_text i t name @ rest)))))"

definition pth_dumpqueue :: "string \<Rightarrow> qid \<Rightarrow> pth_state \<Rightarrow> string option" where
  "pth_dumpqueue qn q s = do {
     rest \<leftarrow> dump_loop q 1 (pth_pqueue_head (Some q) s) s;
     Some (''| Thread Queue '' @ qn @ '':'' @ [NL] @
       (if pth_pqueue_elements (Some q) s = 0 then ''|   no threads'' @ [NL] else []) @ rest) }"

definition dump_rule :: string where
  "dump_rule = CHR ''+'' # replicate 70 (CHR ''-'') @ [NL]"

definition pth_dumpstate :: "(rat \<Rightarrow> string) \<Rightarrow> pth_state \<Rightarrow> string option" where
  "pth_dumpstate f2 s = do {
     nq \<leftarrow> pth_dumpqueue ''NEW'' NQ s;
     rq \<leftarrow> pth_dumpqueue ''READY'' RQ s;
     name \<leftarrow> Option.bind (t_get t_name (pth_current s) s) read_cstr;
     wq \<leftarrow> pth_dumpqueue ''WAITING'' WQ s;
     sq \<leftarrow> pth_dumpqueue ''SUSPENDED'' SQ s;
     dq \<leftarrow> pth_dumpqueue ''DEAD'' DQ s;
     Some (dump_rule @ ''| Pth Version: 2.0.7 (08-Jun-2006)'' @ [NL] @ ''| Load Average: '' @ f2 (pth_loadval s) @ [NL] @ nq @ rq @
       ''| Thread Queue RUNNING:'' @ [NL] @ thread_text 1 (pth_current s) name @ wq @ sq @ dq @ dump_rule) }"

section \<open>What is written\<close>

text \<open>The lines for the threads of a queue, numbered from \<open>i\<close>.\<close>

primrec thread_lines :: "pth_state \<Rightarrow> nat \<Rightarrow> ptr list \<Rightarrow> string" where
  "thread_lines s i [] = []"
| "thread_lines s i (t # ts) = thread_text i t (cstring (t_name (the (tcbs s t)))) @ thread_lines s (i + 1) ts"

lemma dump_loop_spec:
  assumes "pq_rep (tcbs s) (queues s q) (us @ ws)" "\<forall>t \<in> fst ` set ws. \<exists>c. tcbs s t = Some c \<and> NUL \<in> set (t_name c)"
  shows "dump_loop q i (list_hook (map fst ws)) s = Some (thread_lines s i (map fst ws))"
  using assms
proof (induction ws arbitrary: us i)
  case Nil
  then show ?case by (subst dump_loop.simps) simp
next
  case (Cons w ws)
  obtain x p where w: "w = (x, p)"
    by (cases w)
  obtain c where c: "tcbs s x = Some c" "NUL \<in> set (t_name c)"
    using Cons.prems(2) w by auto
  have "dump_loop q (i + 1) (list_hook (map fst ws)) s = Some (thread_lines s (i + 1) (map fst ws))"
    using Cons.IH [of "us @ [w]"] Cons.prems by simp
  moreover have "pth_pqueue_walk (Some q) x PTH_WALK_NEXT s = Some (list_hook (map fst ws))"
    using pth_pqueue_walk_next_spec Cons.prems(1) w by blast
  moreover have "x \<noteq> NULL"
    using pq_rep_mem [OF Cons.prems(1), of x] w by simp
  ultimately show ?case
    using w c by (subst dump_loop.simps) (simp add: cells read_cstr_def)
qed

text \<open>
  \<^verbatim>\<open>pth_dumpqueue\<close> ends and lists the threads of a queue in the order of the queue, numbered from 1, or says that there are none.
\<close>

lemma pth_dumpqueue_lists:
  assumes "queues_ok s L" "\<forall>t \<in> fst ` set (L q). \<exists>c. tcbs s t = Some c \<and> NUL \<in> set (t_name c)"
  shows "pth_dumpqueue qn q s = Some (''| Thread Queue '' @ qn @ '':'' @ [NL] @
    (if L q = [] then ''|   no threads'' @ [NL] else thread_lines s 1 (map fst (L q))))"
proof -
  have rep: "pq_rep (tcbs s) (queues s q) ([] @ L q)"
    using assms(1) by (simp add: queues_ok_def)
  show ?thesis
    using dump_loop_spec [OF rep assms(2), of 1] rep pth_pqueue_head_spec [of s q "L q"] pth_pqueue_elements_ok [OF assms(1), of q]
    by (auto simp: pth_dumpqueue_def)
qed

text \<open>
  A message without arguments is written with a newline, cut off after 1023 bytes; the buffer is not overrun and \<^verbatim>\<open>errno\<close> is kept.
\<close>

lemma pth_debug_message:
  assumes "length str = DEBUG_SIZE" "NUL \<notin> set msg"
  shows "\<exists>str'. pth_debug I pid str None line 1 (msg @ [NUL]) args s =
    Some (str', (snd (sc_write I STDERR_FILENO (take 1023 msg @ [NL]) s))\<lparr>errno := errno s\<rparr>) \<and> length str' = DEBUG_SIZE"
proof -
  let ?b = "str[0 := NUL]" and ?m = "take 1023 msg"
  have b: "length ?b = 1024" "str \<noteq> []"
    using assms(1) by (auto simp: DEBUG_SIZE_def)
  then have hd: "?b ! 0 = NUL" "?b \<noteq> []"
    by (simp_all add: nth_list_update)
  then have start: "read_cstr ?b = Some []"
    by (cases ?b) (simp_all add: read_cstr_def cstring_def)
  obtain buf where buf: "pth_util_cpystrn ?b (msg @ NUL # []) 1024 = Some (min (length msg) 1023, buf)" "length buf = 1024"
    "buf = ?m @ NUL # drop (min (length msg) 1023 + 1) ?b"
    using cpystrn_spec [of 1024 ?b msg "[]"] b(1) assms(2) by auto
  have "NUL \<notin> set ?m"
    using assms(2) by (meson in_set_takeD)
  then have "takeWhile (\<lambda>c. c \<noteq> NUL) buf = ?m"
    unfolding buf(3) by (subst takeWhile_append2) auto
  then have read: "read_cstr buf = Some ?m"
    using buf(3) by (simp add: read_cstr_def cstring_def)
  have "take (length xs + 1) ((xs @ NUL # ys)[length xs := NL]) = xs @ [NL]" for xs ys
    by simp
  then have "take (length ?m + 1) (buf[length ?m := NL]) = ?m @ [NL]"
    unfolding buf(3) by blast
  moreover have "length ?m < length buf"
    using buf(2) by simp
  ultimately show ?thesis
    using start buf(1,2) read b(2) by (simp add: pth_debug_def DEBUG_SIZE_def Let_def case_prod_beta)
qed

end
