(* ===== verification/Pth_Uctx.thy ===== *)
theory Pth_Uctx
  imports Pth_Pqueue
begin

text \<open>
  User-space contexts (\<^verbatim>\<open>pth_uctx.c\<close>), which are independent of the threads and their scheduler. A saved machine context is
  described by the point at which the processor goes on when it is loaded, together with the value of \<^verbatim>\<open>errno\<close> the macro
  \<^verbatim>\<open>pth_mctx_switch\<close> keeps in it: nothing (a cleared context), the entry of the trampoline on a new stack, the trampoline after its
  first switch, with its local variables, or a call of \<^verbatim>\<open>pth_uctx_switch\<close> in the application, numbered by the caller.
\<close>

section \<open>Structures\<close>

record trampoline =
  uctx_this :: ptr
  uctx_after :: ptr
  start_func :: ptr
  start_arg :: ptr

datatype point = Cleared | Entry ptr | InTrampoline trampoline | InSwitch nat

record mctx =
  mc_point :: point
  mc_error :: errcode

record pth_uctx_st =
  uc_stack_own :: bool
  uc_stack_ptr :: ptr
  uc_stack_len :: nat
  uc_mctx_set :: bool
  uc_mctx :: mctx

record uctx_state = base_state +
  uctxs :: "ptr \<rightharpoonup> pth_uctx_st"
  stacks :: "ptr set"
  trampoline_ctx :: trampoline
  u_sigmask :: sigset

definition u_get :: "(pth_uctx_st \<Rightarrow> 'b) \<Rightarrow> ptr \<Rightarrow> uctx_state \<Rightarrow> 'b option" where
  "u_get f p s = fld (uctxs s) f p"

definition u_set :: "(pth_uctx_st \<Rightarrow> pth_uctx_st) \<Rightarrow> ptr \<Rightarrow> uctx_state \<Rightarrow> uctx_state option" where
  "u_set f p s = map_option (\<lambda>h. s\<lparr>uctxs := h\<rparr>) (setf (uctxs s) p f)"

lemma uctx_cells [cells]:
  "uctxs s p = Some u \<Longrightarrow> u_get f p s = Some (f u)"
  "uctxs s p = Some u \<Longrightarrow> u_set g p s = Some (s\<lparr>uctxs := (uctxs s)(p \<mapsto> g u)\<rparr>)"
  by (simp_all add: u_get_def u_set_def cells)

section \<open>Operations\<close>

text \<open>The first result pointer is what is stored in the cell of the caller; \<open>puctx\<close> says whether there is one.\<close>

definition pth_uctx_create :: "ptr \<Rightarrow> bool \<Rightarrow> uctx_state \<Rightarrow> (bool \<times> ptr) \<times> uctx_state" where
  "pth_uctx_create mem puctx s =
     (if \<not> puctx then pth_error (False, NULL) EINVAL s
      else if mem = NULL then pth_error (False, NULL) ENOMEM s
      else ((True, mem), s\<lparr>uctxs := (uctxs s)(mem \<mapsto> \<lparr>uc_stack_own = False, uc_stack_ptr = NULL, uc_stack_len = 0,
             uc_mctx_set = False, uc_mctx = \<lparr>mc_point = Cleared, mc_error = EOK\<rparr>\<rparr>)\<rparr>))"

text \<open>Saving a context in \<open>uctx\<close>: the first half of \<^verbatim>\<open>pth_mctx_switch\<close>.\<close>

definition mctx_save :: "ptr \<Rightarrow> point \<Rightarrow> uctx_state \<Rightarrow> uctx_state option" where
  "mctx_save uctx pt s = u_set (\<lambda>u. u\<lparr>uc_mctx := \<lparr>mc_point = pt, mc_error = errno s\<rparr>\<rparr>) uctx s"

text \<open>
  The trampoline up to its first switch, which goes back to the parent, and the two parts after it: it calls the start function
  when its context is loaded for the first time, and ends the process when that function returns. \<^verbatim>\<open>pth_mctx_restore\<close> is a macro
  that sets \<^verbatim>\<open>errno\<close> and nothing else.
\<close>

definition trampoline_enter :: "uctx_state \<Rightarrow> uctx_state option" where
  "trampoline_enter s = (let ctx = trampoline_ctx s in mctx_save (uctx_this ctx) (InTrampoline ctx) s)"

datatype control = Returns nat | Calls trampoline | Exits int

definition trampoline_start :: "trampoline \<Rightarrow> uctx_state \<Rightarrow> (control \<times> uctx_state) option" where
  "trampoline_start ctx s = do {
     m \<leftarrow> u_get uc_mctx (uctx_this ctx) s;
     Some (Calls ctx, s\<lparr>errno := mc_error m\<rparr>) }"

definition trampoline_finish :: "trampoline \<Rightarrow> uctx_state \<Rightarrow> (control \<times> uctx_state) option" where
  "trampoline_finish ctx s = do {
     s \<leftarrow> (if uctx_after ctx \<noteq> NULL then do {
             m \<leftarrow> u_get uc_mctx (uctx_after ctx) s;
             Some (s\<lparr>errno := mc_error m\<rparr>) }
           else Some s);
     Some (Exits 0, s) }"

text \<open>\<^verbatim>\<open>pth_mctx_set\<close> on the context of \<open>uctx\<close>, for a start routine and a stack that are not \<^verbatim>\<open>NULL\<close>.\<close>

definition uctx_mctx_set :: "ptr \<Rightarrow> ptr \<Rightarrow> ptr \<Rightarrow> uctx_state \<Rightarrow> (bool \<times> uctx_state) option" where
  "uctx_mctx_set uctx sk_addr_lo sk_addr_hi s =
     (if sk_addr_hi \<le> sk_addr_lo then Some (False, s)
      else do {
        s \<leftarrow> u_set (\<lambda>u. u\<lparr>uc_mctx := \<lparr>mc_point = Entry (sk_addr_hi div 16 * 16 - 8), mc_error = EOK\<rparr>\<rparr>) uctx s;
        Some (True, s) })"

text \<open>\<open>mem\<close> is the result of \<^verbatim>\<open>malloc\<close>; the switch to the trampoline and back happens within the call.\<close>

definition pth_uctx_make :: "ptr \<Rightarrow> ptr \<Rightarrow> ptr \<Rightarrow> nat \<Rightarrow> sigset option \<Rightarrow> ptr \<Rightarrow> ptr \<Rightarrow> ptr \<Rightarrow> uctx_state
    \<Rightarrow> (bool \<times> uctx_state) option" where
  "pth_uctx_make mem uctx sk_addr sk_size sigmask func arg after s =
     (if uctx = NULL \<or> func = NULL \<or> sk_size < 16 * 1024 then Some (pth_error False EINVAL s)
      else if sk_addr = NULL \<and> mem = NULL then Some (pth_error False ENOMEM s)
      else do {
        let own = (sk_addr = NULL);
        let addr = (if own then mem else sk_addr);
        let s = (if own then s\<lparr>stacks := insert mem (stacks s)\<rparr> else s);
        s \<leftarrow> u_set (\<lambda>u. u\<lparr>uc_stack_own := own, uc_stack_ptr := addr, uc_stack_len := sk_size\<rparr>) uctx s;
        (ok, s) \<leftarrow> uctx_mctx_set uctx addr (addr + sk_size) s;
        if \<not> ok then Some (False, s)
        else do {
          let s = s\<lparr>trampoline_ctx := \<lparr>uctx_this = uctx, uctx_after = after, start_func = func, start_arg = arg\<rparr>\<rparr>;
          let ss = u_sigmask s;
          let s = (case sigmask of None \<Rightarrow> s | Some m \<Rightarrow> s\<lparr>u_sigmask := m\<rparr>);
          let mctx_parent_error = errno s;
          s \<leftarrow> trampoline_enter s;
          let s = s\<lparr>errno := mctx_parent_error\<rparr>;
          let s = (case sigmask of None \<Rightarrow> s | Some _ \<Rightarrow> s\<lparr>u_sigmask := ss\<rparr>);
          s \<leftarrow> u_set (\<lambda>u. u\<lparr>uc_mctx_set := True\<rparr>) uctx s;
          Some (True, s) } })"

text \<open>
  \<open>k\<close> is the number of the call. The result is the error \<^verbatim>\<open>FALSE\<close>, or where the processor goes on after the switch: in another call
  of this function, which returns \<^verbatim>\<open>TRUE\<close>, or in the start function of a new context. Loading a cleared context jumps to address 0,
  and the entry of the trampoline may be loaded by \<^verbatim>\<open>pth_uctx_make\<close> only.
\<close>

definition pth_uctx_switch :: "nat \<Rightarrow> ptr \<Rightarrow> ptr \<Rightarrow> uctx_state \<Rightarrow> (control option \<times> uctx_state) option" where
  "pth_uctx_switch k from to s =
     (if from = NULL \<or> to = NULL then Some (pth_error None EINVAL s)
      else do {
        ready \<leftarrow> u_get uc_mctx_set to s;
        if \<not> ready then Some (pth_error None EPERM s)
        else do {
          s \<leftarrow> u_set (\<lambda>u. u\<lparr>uc_mctx_set := True\<rparr>) from s;
          s \<leftarrow> mctx_save from (InSwitch k) s;
          m \<leftarrow> u_get uc_mctx to s;
          case mc_point m of
            InSwitch j \<Rightarrow> Some (Some (Returns j), s\<lparr>errno := mc_error m\<rparr>)
          | InTrampoline ctx \<Rightarrow> do { (c, s) \<leftarrow> trampoline_start ctx s; Some (Some c, s) }
          | _ \<Rightarrow> None } })"

definition pth_uctx_destroy :: "ptr \<Rightarrow> uctx_state \<Rightarrow> (bool \<times> uctx_state) option" where
  "pth_uctx_destroy uctx s =
     (if uctx = NULL then Some (pth_error False EINVAL s)
      else do {
        own \<leftarrow> u_get uc_stack_own uctx s;
        sk \<leftarrow> u_get uc_stack_ptr uctx s;
        s \<leftarrow> (if own \<and> sk \<noteq> NULL then (if sk \<in> stacks s then Some (s\<lparr>stacks := stacks s - {sk}\<rparr>) else None) else Some s);
        Some (True, s\<lparr>uctxs := (uctxs s)(uctx := None)\<rparr>) })"

section \<open>Reachable states\<close>

text \<open>
  A program that uses contexts: it calls the four functions in any order, with live contexts, and the allocator returns \<^verbatim>\<open>NULL\<close> or
  memory that is not in use.
\<close>

definition live :: "ptr \<Rightarrow> uctx_state \<Rightarrow> bool" where
  "live p s \<longleftrightarrow> p = NULL \<or> p \<in> dom (uctxs s)"

inductive uctx_reach :: "uctx_state \<Rightarrow> bool" where
  start: "uctxs s = Map.empty \<Longrightarrow> uctx_reach s"
| create: "uctx_reach s \<Longrightarrow> mem \<notin> dom (uctxs s) \<Longrightarrow> pth_uctx_create mem puctx s = (r, s') \<Longrightarrow> uctx_reach s'"
| make: "uctx_reach s \<Longrightarrow> live uctx s \<Longrightarrow> mem \<notin> stacks s \<Longrightarrow>
    pth_uctx_make mem uctx sk_addr sk_size sigmask func arg after s = Some (r, s') \<Longrightarrow> uctx_reach s'"
| switch: "uctx_reach s \<Longrightarrow> live from s \<Longrightarrow> live to s \<Longrightarrow> pth_uctx_switch k from to s = Some (c, s') \<Longrightarrow> uctx_reach s'"
| destroy: "uctx_reach s \<Longrightarrow> live uctx s \<Longrightarrow> pth_uctx_destroy uctx s = Some (r, s') \<Longrightarrow> uctx_reach s'"

text \<open>
  The invariant: a context that is flagged as set can be loaded, a trampoline waits in its own context only, and a stack the library has
  allocated belongs to one context.
\<close>

fun loadable :: "ptr \<Rightarrow> point \<Rightarrow> bool" where
  "loadable p (InSwitch k) = True"
| "loadable p (InTrampoline ctx) = (uctx_this ctx = p)"
| "loadable p _ = False"

definition uctx_ok :: "ptr \<Rightarrow> pth_uctx_st \<Rightarrow> uctx_state \<Rightarrow> bool" where
  "uctx_ok p u s \<longleftrightarrow> p \<noteq> NULL \<and> (uc_mctx_set u \<longrightarrow> loadable p (mc_point (uc_mctx u))) \<and> (uc_stack_own u \<longrightarrow> uc_stack_ptr u \<in> stacks s)"

definition uctxs_ok :: "uctx_state \<Rightarrow> bool" where
  "uctxs_ok s \<longleftrightarrow> (\<forall>p u. uctxs s p = Some u \<longrightarrow> uctx_ok p u s) \<and>
     (\<forall>p q u v. uctxs s p = Some u \<longrightarrow> uctxs s q = Some v \<longrightarrow> p \<noteq> q \<longrightarrow> uc_stack_own u \<longrightarrow> uc_stack_own v \<longrightarrow> uc_stack_ptr u \<noteq> uc_stack_ptr v)"

section \<open>What the operations do\<close>

lemma uctxs_okD:
  "uctxs_ok s \<Longrightarrow> uctxs s p = Some u \<Longrightarrow> uctx_ok p u s"
  "uctxs_ok s \<Longrightarrow> uctxs s p = Some u \<Longrightarrow> uctxs s q = Some v \<Longrightarrow> p \<noteq> q \<Longrightarrow> uc_stack_own u \<Longrightarrow> uc_stack_own v \<Longrightarrow>
     uc_stack_ptr u \<noteq> uc_stack_ptr v"
  unfolding uctxs_ok_def by blast+

definition made_uctx :: "ptr \<Rightarrow> ptr \<Rightarrow> ptr \<Rightarrow> nat \<Rightarrow> ptr \<Rightarrow> ptr \<Rightarrow> ptr \<Rightarrow> uctx_state \<Rightarrow> uctx_state" where
  "made_uctx mem uctx sk_addr sk_size func arg after s =
     (let ctx = \<lparr>uctx_this = uctx, uctx_after = after, start_func = func, start_arg = arg\<rparr>
      in s\<lparr>uctxs := (uctxs s)(uctx \<mapsto> \<lparr>uc_stack_own = (sk_addr = NULL), uc_stack_ptr = (if sk_addr = NULL then mem else sk_addr),
             uc_stack_len = sk_size, uc_mctx_set = True, uc_mctx = \<lparr>mc_point = InTrampoline ctx, mc_error = errno s\<rparr>\<rparr>),
           stacks := (if sk_addr = NULL then insert mem (stacks s) else stacks s), trampoline_ctx := ctx\<rparr>)"

lemma make_result:
  assumes "uctx \<noteq> NULL" "uctxs s uctx = Some u"
  shows "pth_uctx_make mem uctx sk_addr sk_size sigmask func arg after s =
    (if func = NULL \<or> sk_size < 16384 then Some (False, s\<lparr>errno := EINVAL\<rparr>)
     else if sk_addr = NULL \<and> mem = NULL then Some (False, s\<lparr>errno := ENOMEM\<rparr>)
     else Some (True, made_uctx mem uctx sk_addr sk_size func arg after s))"
  using assms
  by (cases u, cases s) (auto simp: pth_uctx_make_def made_uctx_def uctx_mctx_set_def trampoline_enter_def mctx_save_def cells Let_def pth_error_def
      split: option.splits)

lemma switch_result:
  fixes k :: nat
  assumes ok: "uctxs_ok s" and p: "uctxs s from = Some u" "uctxs s to = Some v"
  defines "s1 \<equiv> s\<lparr>uctxs := (uctxs s)(from \<mapsto> u\<lparr>uc_mctx_set := True, uc_mctx := \<lparr>mc_point = InSwitch k, mc_error = errno s\<rparr>\<rparr>)\<rparr>"
  shows "pth_uctx_switch k from to s =
    (if \<not> uc_mctx_set v then Some (None, s\<lparr>errno := EPERM\<rparr>)
     else if from = to then Some (Some (Returns k), s1)
     else Some (Some (case mc_point (uc_mctx v) of InSwitch j \<Rightarrow> Returns j | InTrampoline ctx \<Rightarrow> Calls ctx),
       s1\<lparr>errno := mc_error (uc_mctx v)\<rparr>))"
proof -
  have nn: "from \<noteq> NULL" "to \<noteq> NULL"
    and l: "uc_mctx_set v \<Longrightarrow> loadable to (mc_point (uc_mctx v))"
    using uctxs_okD(1) [OF ok p(1)] uctxs_okD(1) [OF ok p(2)] by (auto simp: uctx_ok_def)
  show ?thesis
    using nn p l
    by (cases "from = to"; cases "mc_point (uc_mctx v)")
      (auto simp: pth_uctx_switch_def mctx_save_def trampoline_start_def cells s1_def pth_error_def)
qed

lemma destroy_result:
  assumes ok: "uctxs_ok s" and p: "uctxs s uctx = Some u"
  shows "pth_uctx_destroy uctx s = Some (True, s\<lparr>uctxs := (uctxs s)(uctx := None),
    stacks := (if uc_stack_own u \<and> uc_stack_ptr u \<noteq> NULL then stacks s - {uc_stack_ptr u} else stacks s)\<rparr>)"
  using uctxs_okD(1) [OF ok p] p by (auto simp: pth_uctx_destroy_def cells uctx_ok_def)

section \<open>The invariant\<close>

lemma create_ok: "uctxs_ok s \<Longrightarrow> uctxs_ok (snd (pth_uctx_create mem puctx s))"
  by (auto simp: pth_uctx_create_def uctxs_ok_def uctx_ok_def pth_error_def fun_upd_apply)

lemma uctxs_ok_cong: "uctxs s = uctxs s' \<Longrightarrow> stacks s = stacks s' \<Longrightarrow> uctxs_ok s = uctxs_ok s'"
  by (simp add: uctxs_ok_def uctx_ok_def)

lemma errno_ok [simp]: "uctxs_ok (s\<lparr>errno := e\<rparr>) = uctxs_ok s"
  by (rule uctxs_ok_cong) simp_all

lemma made_ok:
  assumes ok: "uctxs_ok s" and m: "uctx \<noteq> NULL" "sk_addr = NULL \<Longrightarrow> mem \<notin> stacks s \<and> mem \<noteq> NULL"
  shows "uctxs_ok (made_uctx mem uctx sk_addr sk_size func arg after s)"
proof -
  have own: "uc_stack_ptr v \<in> stacks s" if "uctxs s q = Some v" "uc_stack_own v" for q v
    using uctxs_okD(1) [OF ok that(1)] that(2) by (simp add: uctx_ok_def)
  show ?thesis
    unfolding uctxs_ok_def
  proof (intro conjI allI impI)
    fix p u
    assume "uctxs (made_uctx mem uctx sk_addr sk_size func arg after s) p = Some u"
    then show "uctx_ok p u (made_uctx mem uctx sk_addr sk_size func arg after s)"
      using uctxs_okD(1) [OF ok, of p u] m by (cases "p = uctx") (auto simp: made_uctx_def uctx_ok_def Let_def)
  next
    fix p q u v
    assume "uctxs (made_uctx mem uctx sk_addr sk_size func arg after s) p = Some u"
      "uctxs (made_uctx mem uctx sk_addr sk_size func arg after s) q = Some v" "p \<noteq> q" "uc_stack_own u" "uc_stack_own v"
    then show "uc_stack_ptr u \<noteq> uc_stack_ptr v"
      using uctxs_okD(2) [OF ok, of p u q v] own m(2)
      by (cases "p = uctx"; cases "q = uctx") (auto simp: made_uctx_def Let_def)
  qed
qed

lemma saved_ok:
  assumes ok: "uctxs_ok s" and p: "uctxs s from = Some u"
  shows "uctxs_ok (s\<lparr>uctxs := (uctxs s)(from \<mapsto> u\<lparr>uc_mctx_set := True, uc_mctx := \<lparr>mc_point = InSwitch k, mc_error = e\<rparr>\<rparr>)\<rparr>)"
  using assms by (auto simp: uctxs_ok_def uctx_ok_def fun_upd_apply)

lemma destroyed_ok:
  assumes ok: "uctxs_ok s" and p: "uctxs s uctx = Some u" and r: "pth_uctx_destroy uctx s = Some (r, s')"
  shows "uctxs_ok s'"
proof -
  have "uctx_ok q v s'" if "uctxs s q = Some v" "q \<noteq> uctx" for q v
    using r uctxs_okD [OF ok] that p destroy_result [OF ok p] by (auto simp: uctx_ok_def)
  then show ?thesis
    using r uctxs_okD(2) [OF ok] destroy_result [OF ok p] by (auto simp: uctxs_ok_def fun_upd_apply split: if_splits)
qed

lemma reach_ok: "uctx_reach s \<Longrightarrow> uctxs_ok s"
proof (induction rule: uctx_reach.induct)
  case (start s)
  then show ?case by (simp add: uctxs_ok_def)
next
  case (create s mem puctx r s')
  then show ?case
    using create_ok [of s mem puctx] by simp
next
  case (make s uctx mem sk_addr sk_size sigmask func arg after r s')
  show ?case
  proof (cases "uctx = NULL")
    case True
    then show ?thesis
      using make by (auto simp: pth_uctx_make_def pth_error_def)
  next
    case False
    then obtain u where u: "uctxs s uctx = Some u"
      using make.hyps(2) by (auto simp: live_def)
    show ?thesis
      using make_result [OF False u, of mem sk_addr sk_size sigmask func arg after] make made_ok [OF make.IH False]
      by (auto split: if_splits)
  qed
next
  case (switch s f t k c s')
  show ?case
  proof (cases "f = NULL \<or> t = NULL")
    case True
    then show ?thesis
      using switch by (auto simp: pth_uctx_switch_def pth_error_def)
  next
    case False
    then obtain u v where u: "uctxs s f = Some u" "uctxs s t = Some v"
      using switch.hyps(2,3) by (auto simp: live_def)
    show ?thesis
      using switch_result [OF switch.IH u, of k] switch saved_ok [OF switch.IH u(1)] by (auto split: if_splits)
  qed
next
  case (destroy s uctx r s')
  show ?case
  proof (cases "uctx = NULL")
    case True
    then show ?thesis
      using destroy by (auto simp: pth_uctx_destroy_def pth_error_def)
  next
    case False
    then obtain u where u: "uctxs s uctx = Some u"
      using destroy.hyps(2) by (auto simp: live_def)
    show ?thesis
      by (rule destroyed_ok [OF destroy.IH u destroy.hyps(3)])
  qed
qed

section \<open>Properties\<close>


text \<open>
  C39: contexts are coroutines. After \<^verbatim>\<open>pth_uctx_make\<close> the first switch to the context calls the start function with its argument, a
  switch back returns from the call of \<^verbatim>\<open>pth_uctx_switch\<close> that was left, with the value \<^verbatim>\<open>errno\<close> had there, and the next switch goes on
  where the start function had stopped, with its \<^verbatim>\<open>errno\<close>. Two promises of the documentation are not kept: the start function runs with
  the signal mask of its caller and not with the given one, and when it returns the process ends although a successor context was given.
\<close>

theorem pth_uctx_coroutine:
  assumes ok: "uctxs_ok s" and p: "uctxs s from = Some u" "uctxs s to = Some v" "from \<noteq> to"
    and args: "func \<noteq> NULL" "sk_size \<ge> 16384" "sk_addr \<noteq> NULL \<or> mem \<noteq> NULL \<and> mem \<notin> stacks s"
  shows "\<exists>ctx s1 s2 s3 s4. pth_uctx_make mem to sk_addr sk_size sigmask func arg from s = Some (True, s1) \<and> errno s1 = errno s \<and>
    pth_uctx_switch k from to s1 = Some (Some (Calls ctx), s2) \<and> start_func ctx = func \<and> start_arg ctx = arg \<and> u_sigmask s2 = u_sigmask s \<and>
    pth_uctx_switch j to from (s2\<lparr>errno := e\<rparr>) = Some (Some (Returns k), s3) \<and> errno s3 = errno s \<and>
    pth_uctx_switch k' from to (s3\<lparr>errno := e'\<rparr>) = Some (Some (Returns j), s4) \<and> errno s4 = e \<and>
    uctx_after ctx = from \<and> (\<exists>s5. trampoline_finish ctx s4 = Some (Exits 0, s5) \<and> uctxs s5 = uctxs s4)"
proof -
  let ?ctx = "\<lparr>uctx_this = to, uctx_after = from, start_func = func, start_arg = arg\<rparr>"
  let ?s1 = "made_uctx mem to sk_addr sk_size func arg from s"
  let ?in = "\<lambda>k e u. u\<lparr>uc_mctx_set := True, uc_mctx := \<lparr>mc_point = InSwitch k, mc_error = e\<rparr>\<rparr>"
  have nn: "to \<noteq> NULL" "from \<noteq> NULL"
    using uctxs_okD(1) [OF ok p(2)] uctxs_okD(1) [OF ok p(1)] by (simp_all add: uctx_ok_def)
  have mk: "pth_uctx_make mem to sk_addr sk_size sigmask func arg from s = Some (True, ?s1)"
    using args make_result [OF nn(1) p(2)] by auto
  have ok1: "uctxs_ok ?s1"
    by (rule made_ok [OF ok nn(1)]) (use args(3) in auto)
  define v1 where "v1 = the (uctxs ?s1 to)"
  have v1: "uctxs ?s1 to = Some v1" "uc_mctx_set v1" "uc_mctx v1 = \<lparr>mc_point = InTrampoline ?ctx, mc_error = errno s\<rparr>"
    by (simp_all add: v1_def made_uctx_def Let_def)
  have s1: "uctxs ?s1 from = Some u" "errno ?s1 = errno s" "u_sigmask ?s1 = u_sigmask s"
    using p by (simp_all add: made_uctx_def Let_def)
  let ?s2 = "?s1\<lparr>uctxs := (uctxs ?s1)(from \<mapsto> ?in k (errno s) u), errno := errno s\<rparr>"
  have sw1: "pth_uctx_switch k from to ?s1 = Some (Some (Calls ?ctx), ?s2)"
    using switch_result [OF ok1 s1(1) v1(1), of k] v1 p(3) s1(2) by simp
  have ok2: "uctxs_ok (?s2\<lparr>errno := e\<rparr>)"
    using saved_ok [OF ok1 s1(1), of k "errno s"] by simp
  have c2: "uctxs (?s2\<lparr>errno := e\<rparr>) to = Some v1" "uctxs (?s2\<lparr>errno := e\<rparr>) from = Some (?in k (errno s) u)"
    using v1(1) p(3) by simp_all
  let ?s3 = "?s2\<lparr>uctxs := (uctxs ?s2)(to \<mapsto> ?in j e v1), errno := errno s\<rparr>"
  have sw2: "pth_uctx_switch j to from (?s2\<lparr>errno := e\<rparr>) = Some (Some (Returns k), ?s3)"
    using switch_result [OF ok2 c2, of j] p(3) by simp
  have ok3: "uctxs_ok (?s3\<lparr>errno := e'\<rparr>)"
    by (rule iffD1 [OF uctxs_ok_cong saved_ok [OF ok2 c2(1), of j e]]) simp_all
  have c3: "uctxs (?s3\<lparr>errno := e'\<rparr>) from = Some (?in k (errno s) u)" "uctxs (?s3\<lparr>errno := e'\<rparr>) to = Some (?in j e v1)"
    using p(3) by simp_all
  let ?s4 = "?s3\<lparr>uctxs := (uctxs ?s3)(from \<mapsto> ?in k' e' (?in k (errno s) u)), errno := e\<rparr>"
  have sw3: "pth_uctx_switch k' from to (?s3\<lparr>errno := e'\<rparr>) = Some (Some (Returns j), ?s4)"
    using switch_result [OF ok3 c3, of k'] p(3) by simp
  have "trampoline_finish ?ctx ?s4 = Some (Exits 0, ?s4\<lparr>errno := e'\<rparr>)"
    using nn(2) by (simp add: trampoline_finish_def cells)
  then show ?thesis
    using mk sw1 sw2 sw3 s1(2,3)
    by (intro exI [of _ ?ctx] exI [of _ ?s1] exI [of _ ?s2] exI [of _ ?s3] exI [of _ ?s4]) simp
qed

text \<open>Two contexts of the library with stacks of their own.\<close>

definition two_uctxs :: uctx_state where
  "two_uctxs = snd (pth_uctx_create 60 True (snd (pth_uctx_create 50 True
     \<lparr>errno = EOK, uctxs = Map.empty, stacks = {}, trampoline_ctx = \<lparr>uctx_this = NULL, uctx_after = NULL, start_func = NULL, start_arg = NULL\<rparr>,
       u_sigmask = {}\<rparr>)))"

lemma reach_create: "uctx_reach s \<Longrightarrow> mem \<notin> dom (uctxs s) \<Longrightarrow> uctx_reach (snd (pth_uctx_create mem puctx s))"
  by (rule uctx_reach.create [OF _ _ prod.collapse [symmetric]])

lemma two_uctxs_reach: "uctx_reach two_uctxs"
  unfolding two_uctxs_def by (intro reach_create uctx_reach.start) (simp_all add: pth_uctx_create_def)

definition new_uctx :: pth_uctx_st where
  "new_uctx = \<lparr>uc_stack_own = False, uc_stack_ptr = NULL, uc_stack_len = 0, uc_mctx_set = False,
     uc_mctx = \<lparr>mc_point = Cleared, mc_error = EOK\<rparr>\<rparr>"

lemma two_uctxs_cells: "uctxs two_uctxs 50 = Some new_uctx" "uctxs two_uctxs 60 = Some new_uctx" "stacks two_uctxs = {}" "errno two_uctxs = EOK"
  by (simp_all add: two_uctxs_def pth_uctx_create_def new_uctx_def)


theorem pth_uctx_coroutine_witness:
  "\<exists>s1 ctx s2. pth_uctx_make 4096 60 NULL 16384 None 77 5 50 two_uctxs = Some (True, s1) \<and>
     pth_uctx_switch 1 50 60 s1 = Some (Some (Calls ctx), s2) \<and> start_func ctx = 77 \<and> start_arg ctx = 5"
proof -
  have "(77 :: ptr) \<noteq> NULL" "(16384 :: nat) \<ge> 16384" "(50 :: ptr) \<noteq> 60"
    "NULL \<noteq> NULL \<or> (4096 :: ptr) \<noteq> NULL \<and> 4096 \<notin> stacks two_uctxs"
    by (simp_all add: two_uctxs_cells)
  from pth_uctx_coroutine [OF reach_ok [OF two_uctxs_reach] two_uctxs_cells(1,2) this(3,1,2,4)] show ?thesis
    by blast
qed

end
