(* ===== verification/Spec2Isabelle.thy ===== *)
theory Spec2Isabelle
  imports Pth_Process Pth_Order Pth_Format Pth_Vector Pth_Poll Pth_Posix_Props Pth_Syscall Pth_Misc Pth_Uctx
begin

text \<open>
  A verification of GNU Pth, a library of non-preemptive threads in user space (the C sources under
  \<^verbatim>\<open>src/src/\<close>, version 2.0.7, with the assembly context switch for x86-64).


  \<^bold>\<open>1. The program and how its parts work together\<close>

  A process has one operating system thread. The library divides it among threads, each with a control
  block (\<^verbatim>\<open>struct pth_st\<close>) that is in one of five priority queues (new, ready, waiting, suspended, dead) or
  is the current one. A thread runs until it calls a function that may wait. That function describes what
  it waits for by a ring of \<^emph>\<open>events\<close> (a descriptor, a time, a signal, a message, a mutex, a condition
  variable, the end of a thread, a predicate) and calls \<^verbatim>\<open>pth_wait\<close>, which switches to the \<^emph>\<open>scheduler\<close>. The
  scheduler files the thread that came back under its new state, lets the \<^emph>\<open>event manager\<close> poll the events
  of all waiting threads with one \<^verbatim>\<open>select\<close>, and switches to the ready thread of the highest priority, whose
  effective priority grows while it waits. Everything else is built on this: synchronization objects, message ports,
  cancellation, joining, thread specific data, replacements of blocking system calls, the POSIX
  interface and the wrapping of the C library.


  \<^bold>\<open>2. The model\<close>

  A C function \<open>f\<close> with arguments is a HOL function \<open>f args s\<close> of the state before the call, with the
  result \<open>Some (return value, state after)\<close>. \<open>None\<close> is the result of an execution C gives no meaning to (an
  access through \<^verbatim>\<open>NULL\<close> or to freed memory, an array index out of range, a call of \<^verbatim>\<open>NULL\<close>) and of one
  that does not end; so a theorem that concludes \<open>Some\<close> also shows that the function returns and touches
  valid memory only. The option monad composes calls as the code does, error returns and early exits
  included. An error is a return value together with the \<^verbatim>\<open>errno\<close> in the state (\<open>pth_error\<close>). Where a
  function may end the thread by a cancellation point the result is of type \<open>ctl\<close>: \<open>Ret v\<close>, or \<open>Exit p\<close> if
  \<^verbatim>\<open>pth_exit(p)\<close> is called.

  The state \<open>pth_state\<close> (\<open>Pth_State\<close>) is a record: \<^verbatim>\<open>errno\<close>, the static variables of all source files, and
  one partial heap per structure type (ring nodes, rings, control blocks, events, mutexes, condition
  variables, locks, barriers, message ports, messages, attribute objects). It is built up by record
  extension: \<open>base_state\<close> (\<^verbatim>\<open>errno\<close>), \<open>ring_state\<close>, \<open>thread_state\<close>, \<open>pth_state\<close>; the operations on rings
  and queues are polymorphic in the rest. A structure embedded in another one has an address and a cell
  of its own. Local variables whose address is taken get their address from the environment.

  Code that is not in the sources is a parameter. The record \<open>env\<close> (\<open>Pth_Sync\<close>) has the context switch
  \<open>sw\<close> (running the scheduler and other threads until the caller continues), calls of functions of the
  application (\<open>app_call\<close>, \<open>app_test\<close>), memory allocation and the contents of fresh memory, the clock, \<^verbatim>\<open>select\<close>,
  \<^verbatim>\<open>fork\<close>, \<^verbatim>\<open>pipe\<close> and the signal dispositions; \<open>io\<close> (\<open>Pth_IO\<close>) and \<open>hio\<close> (\<open>Pth_High\<close>) have the other system
  calls; \<open>linker\<close> (\<open>Pth_Syscall\<close>) has the dynamic linker. What a theorem needs of them is a named hypothesis:

  \<^item> \<open>logs_calls\<close>: functions of the application return and are seen by their effect on \<open>app_log\<close>;
  \<^item> \<open>run_ok\<close>: a thread that was dispatched keeps the invariant of the threads until it comes back;
  \<^item> \<open>init_env\<close>, \<open>spawn_ok\<close>: memory and descriptors are available and fresh;
  \<^item> \<open>writes\<close>, \<open>gathers\<close>, \<open>write_ready\<close>: \<^verbatim>\<open>write\<close> and \<^verbatim>\<open>writev\<close> accept a front part of the data, and some
    data on a descriptor that is ready;
  \<^item> \<open>select_keeps\<close>, \<open>undisturbed\<close>: \<^verbatim>\<open>select\<close> and the other threads leave the observed part of the state alone;
  \<^item> \<open>quiet\<close>, \<open>signal_calls\<close>: the system calls for polling and for signals do not touch the threads of the library.

  Every theorem with such a hypothesis has a witness that instantiates the parameters by concrete functions.


  \<^bold>\<open>3. Theories\<close>

  \<^item> \<open>Pth_Prelude\<close>: pointers, error numbers, partial heaps with their collections of rewrite rules
    (\<open>heap_simps\<close>, \<open>cells\<close>), doubly linked segments and rings (\<open>dseg\<close>, \<open>dring\<close>), and the locales \<open>container\<close>,
    \<open>fifo\<close> and \<open>lifo\<close>: the contract of a structure that is used as a queue or as a stack.
  \<^item> \<open>Pth_Time\<close> (\<^verbatim>\<open>pth_time.c\<close>): time arithmetic; exactness, order, the missed carry.
  \<^item> \<open>Pth_Ring\<close> (\<^verbatim>\<open>pth_ring.c\<close>): rings as linked nodes; each operation implements its list counterpart
    (\<open>ring_rep\<close>) and changes only nodes of its ring (\<open>rframe\<close>). Interpretations \<open>ring_fifo\<close>, \<open>ring_queue\<close>, \<open>ring_stack\<close>.
  \<^item> \<open>Pth_Pqueue\<close> (\<^verbatim>\<open>pth_pqueue.c\<close>): queues of control blocks that store priority differences;
    every operation implements one on sorted lists (\<open>pq_rep\<close>). \<open>Pth_Order\<close>: the queue is a stable sort by
    descending priority, and ageing keeps a thread from being overtaken for ever.
  \<^item> \<open>Pth_Queues\<close>: the five queues together (\<open>queues_ok\<close>); the locale \<open>thread_queues\<close> is the contract the
    clients use, its interpretation \<open>pq\<close> is on the queue operations.
  \<^item> \<open>Pth_State\<close>: structures, constants, global variables.
  \<^item> \<open>Pth_Data\<close> (\<^verbatim>\<open>pth_data.c\<close>), \<open>Pth_Clean\<close> (\<^verbatim>\<open>pth_clean.c\<close>): thread specific data and cleanup handlers.
  \<^item> \<open>Pth_Util\<close> (\<^verbatim>\<open>pth_util.c\<close>): descriptor sets, string copy, deletion of pending signals.
  \<^item> \<open>Pth_Event\<close> (\<^verbatim>\<open>pth_event.c\<close>): events and event rings. \<open>Pth_Wait\<close>: \<^verbatim>\<open>pth_wait\<close>, \<^verbatim>\<open>pth_yield\<close>, cancellation points.
  \<^item> \<open>Pth_Msg\<close> (\<^verbatim>\<open>pth_msg.c\<close>): message ports; a port is a FIFO queue (interpretation \<open>port\<close>).
  \<^item> \<open>Pth_Sync\<close>, \<open>Pth_Locks\<close> (\<^verbatim>\<open>pth_sync.c\<close>): mutexes with the invariant \<open>mutexes_ok\<close> that ties mutexes, owners
    and the rings of the owners together; read-write locks, condition variables, barriers.
  \<^item> \<open>Pth_Attr\<close> (\<^verbatim>\<open>pth_attr.c\<close>), \<open>Pth_Tcb\<close> (\<^verbatim>\<open>pth_tcb.c\<close>, \<^verbatim>\<open>pth_mctx.c\<close>, \<^verbatim>\<open>pth_spawn\<close>): attribute objects, control blocks,
    the first machine context of a thread.
  \<^item> \<open>Pth_Lib\<close> (\<^verbatim>\<open>pth_lib.c\<close>, \<^verbatim>\<open>pth_cancel.c\<close>): queries, signals, joining, suspension, cancellation of threads.
  \<^item> \<open>Pth_Eventmgr\<close>, \<open>Pth_Sched\<close> (\<^verbatim>\<open>pth_sched.c\<close>): the event manager, the load average, dispatching and the scheduler loop,
    with the invariants \<open>thread_inv\<close> (while the scheduler runs) and \<open>running_inv\<close> (while a thread runs).
  \<^item> \<open>Pth_Process\<close> (\<^verbatim>\<open>pth_lib.c\<close>, \<^verbatim>\<open>pth_fork.c\<close>): start, end and fork of the process.
  \<^item> \<open>Pth_String\<close>, \<open>Pth_Format\<close> (\<^verbatim>\<open>pth_string.c\<close>): the portable \<^verbatim>\<open>snprintf\<close> as a state machine over the format, and its correctness.
  \<^item> \<open>Pth_Iov\<close>, \<open>Pth_IO\<close>, \<open>Pth_High\<close> (\<^verbatim>\<open>pth_high.c\<close>): the replacements of blocking system calls.
    \<open>Pth_Transfer\<close>, \<open>Pth_Vector\<close> and \<open>Pth_Poll\<close> have their properties; the locale \<open>event_frame\<close> (interpretation \<open>fdio\<close>) follows
    an observation of the state through all functions that only wait.
  \<^item> \<open>Pth_Posix\<close>, \<open>Pth_Posix_Sync\<close> (\<^verbatim>\<open>pthread.c\<close>): the POSIX interface. \<open>Pth_Posix_Props\<close>: the locale \<open>posix_object\<close> is the contract
    of an object that is made when it is first used, interpreted on mutexes, read-write locks and
    condition variables (\<open>px_mutex\<close>, \<open>px_rwlock\<close>, \<open>px_cond\<close>).
  \<^item> \<open>Pth_Syscall\<close> (\<^verbatim>\<open>pth_syscall.c\<close>): the wrapping of the C library, as compiled with \<^verbatim>\<open>PTH_SYSCALL_HARD\<close>.
  \<^item> \<open>Pth_Misc\<close> (\<^verbatim>\<open>pth_debug.c\<close>, \<^verbatim>\<open>pth_ext.c\<close>): debugging output and the remaining small functions.
  \<^item> \<open>Pth_Uctx\<close> (\<^verbatim>\<open>pth_uctx.c\<close>): user-space contexts, with a state of their own: a saved machine context is the point at
    which execution goes on. Reachable states are an inductive predicate.


  \<^bold>\<open>4. What the theorems show\<close>

  \<^item> \<^emph>\<open>Scheduling.\<close> The scheduler keeps the threads in order for any number of rounds: well-formed queues,
    every thread in the queue of its state, none lost or duplicated; \<^verbatim>\<open>pth_init\<close> establishes that. New threads run first, then
    the first of the ready queue, which is a stable sort by priority with ageing. The
    event manager wakes exactly the threads with an event that is no longer pending or a
    cancellation request. The load average has a closed form.
  \<^item> \<^emph>\<open>Threads.\<close> Spawning, waiting, joining, cancelling and exiting, on every branch; the order of cleanup
    handlers and destructors.
  \<^item> \<^emph>\<open>Synchronization and messages.\<close> A mutex that was acquired is owned, whatever the other threads did meanwhile;
    acquiring and releasing keep \<open>mutexes_ok\<close>; ports are FIFO and their destruction ends.
  \<^item> \<^emph>\<open>Input and output.\<close> A blocking write returns, after any number of waits, with all bytes written in order;
    vector writing refines plain writing; poll reports exactly what is due.
  \<^item> \<^emph>\<open>Formatting.\<close> The output stays within its buffer for every format; integers are printed as their numerals and read
    back as the same number.
  \<^item> \<^emph>\<open>Interfaces.\<close> Static initialisation, cancellation state and fork handlers of the POSIX interface; the
    resolution of wrapped functions; user-space contexts as coroutines, and that switching is defined in every reachable state.
  \<^item> \<^emph>\<open>Defects.\<close> Several theorems state what the code does where that is not what it means to do: \<^verbatim>\<open>pth_mutex_releaseall\<close> releases one
    mutex only, \<^verbatim>\<open>pth_exit\<close> of the main thread ends the process with a thread alive, the last reader cannot
    give up a lock another thread took, \<^verbatim>\<open>pth_writev_ev\<close> writes beyond an array, \<^verbatim>\<open>pth_system\<close> becomes the shell when \<^verbatim>\<open>fork\<close> fails,
    destroying a locked POSIX mutex leaves a dangling pointer, a \<^verbatim>\<open>NULL\<close> fork handler is called, and the successor of a user-space
    context is never entered.


  \<^bold>\<open>5. Loops, bounds and number types\<close>

  A loop over a structure of known size is a primitive recursion or a \<^verbatim>\<open>function\<close> with a measure: the
  format parser (remaining characters, then the state), the load loop (at most 201 steps), the key table (256),
  descriptor sets (1024). A loop that may run for ever is a \<^verbatim>\<open>partial_function\<close> of the option monad: waiting
  for a mutex, the walks over rings and queues, retries after \<^verbatim>\<open>EINTR\<close>, the scheduler. No fuel is used; that such a loop
  returns is proved where it is claimed (\<open>dring\<close> and the list invariants give the number of steps). The scheduler loop has no
  result in the code, either; its theorems are about the states at the beginning of every round (\<open>sched_reach\<close>).

  Bit sets (event types, modes, flags, cancellation states, descriptor flags) and the counters that may wrap are words of their width. Times,
  priorities and thread counts are unbounded integers, with the narrowing to \<^verbatim>\<open>int\<close> written out where the code does it.
  The load and \<^verbatim>\<open>long double\<close> are rational numbers with a rounding function as parameter. Pointers are natural numbers.


  \<^bold>\<open>6. Not modelled\<close>

  \<^item> The machine code of the context switch (\<^verbatim>\<open>pth_mctx_swap.S\<close>): for threads it is the parameter \<open>sw\<close>, for user-space
    contexts the choice of the point that is resumed. The stacks have an address, a size and a guard word, no contents.
  \<^item> The kernel: system calls are parameters; \<^verbatim>\<open>select\<close> is called again with an unchanged timeout after \<^verbatim>\<open>EINTR\<close>.
  \<^item> Sfio seeking and exceptions and the exception contexts of OSSP ex (\<^verbatim>\<open>pth_ext.c\<close>, parts of \<^verbatim>\<open>pth_lib.c\<close>): compiled with
    external libraries only.
  \<^item> \<^verbatim>\<open>pth_compat.c\<close> is empty, \<^verbatim>\<open>pth_vers.c\<close> holds strings; the headers repeat prototypes and what the C files define.
  \<^item> The arguments of the tracing macros \<^verbatim>\<open>pth_debug1\<close> to \<^verbatim>\<open>pth_debug6\<close> in the code: they are empty without \<^verbatim>\<open>PTH_DEBUG\<close>.
\<close>

end
